(* ===== verification/Prelude.thy ===== *)
theory Prelude
  imports Main "HOL-Library.Sublist" "HOL-Library.Char_ord" "HOL-Library.List_Lexorder"
begin

text \<open>
  Shared vocabulary of the development: the collections the component theories feed
  (\<open>key_simps\<close>, \<open>op_simps\<close>), Go strings as byte lists with the byte classes the program
  tests, and generic facts on lists.

  A Go string is a sequence of bytes, so it is a \<^typ>\<open>string\<close> whose characters are bytes.
  A Go \<open>range\<close> loop over a string visits runes; \<open>rune_width\<close> is the decoding rule of
  \<open>unicode/utf8\<close> (an ill-formed sequence is one rune of width 1), and \<open>runes\<close> cuts a
  string into the byte groups of its runes.
\<close>

named_theorems key_simps
named_theorems op_simps

section \<open>Bytes\<close>

type_synonym go_string = string

definition byte :: "char \<Rightarrow> nat" where
  "byte c = of_char c"

definition is_lower :: "char \<Rightarrow> bool" where
  "is_lower c \<longleftrightarrow> 97 \<le> byte c \<and> byte c \<le> 122"

definition is_upper :: "char \<Rightarrow> bool" where
  "is_upper c \<longleftrightarrow> 65 \<le> byte c \<and> byte c \<le> 90"

definition is_digit :: "char \<Rightarrow> bool" where
  "is_digit c \<longleftrightarrow> 48 \<le> byte c \<and> byte c \<le> 57"

text \<open>The class \<^verbatim>\<open>[a-z0-9]\<close>.\<close>

definition is_alnum :: "char \<Rightarrow> bool" where
  "is_alnum c \<longleftrightarrow> is_lower c \<or> is_digit c"

abbreviation underscore :: char where
  "underscore \<equiv> CHR ''_''"

lemma not_alnum_underscore [simp]: "\<not> is_alnum underscore"
  by (simp add: is_alnum_def is_lower_def is_digit_def byte_def)

lemma byte_less_256 [simp]: "byte c < 256"
  by (simp add: byte_def)

lemma byte_char_of [simp]: "n < 256 \<Longrightarrow> byte (char_of n) = n"
  by (simp add: byte_def)

lemma byte_inject [simp]: "byte c = byte d \<longleftrightarrow> c = d"
  by (simp add: byte_def)

section \<open>Runes\<close>

definition is_cont :: "nat \<Rightarrow> bool" where
  "is_cont b \<longleftrightarrow> 128 \<le> b \<and> b \<le> 191"

definition byte_at :: "go_string \<Rightarrow> nat \<Rightarrow> nat" where
  "byte_at s i = (if i < length s then byte (s ! i) else 0)"

fun rune_width :: "go_string \<Rightarrow> nat" where
  "rune_width [] = 0"
| "rune_width (c # s) =
    (let b0 = byte c; b1 = byte_at s 0; b2 = byte_at s 1; b3 = byte_at s 2 in
     if 194 \<le> b0 \<and> b0 \<le> 223 \<and> is_cont b1 then 2
     else if 224 \<le> b0 \<and> b0 \<le> 239 \<and> is_cont b1 \<and> is_cont b2
          \<and> (b0 = 224 \<longrightarrow> 160 \<le> b1) \<and> (b0 = 237 \<longrightarrow> b1 \<le> 159) then 3
     else if 240 \<le> b0 \<and> b0 \<le> 244 \<and> is_cont b1 \<and> is_cont b2 \<and> is_cont b3
          \<and> (b0 = 240 \<longrightarrow> 144 \<le> b1) \<and> (b0 = 244 \<longrightarrow> b1 \<le> 143) then 4
     else 1)"

declare rune_width.simps(2) [simp del]

fun runes :: "go_string \<Rightarrow> go_string list" where
  "runes [] = []"
| "runes (c # s) =
    (let w = rune_width (c # s) - 1 in (c # take w s) # runes (drop w s))"

declare runes.simps(2) [simp del]

lemma rune_width_ascii [simp]: "byte c < 128 \<Longrightarrow> rune_width (c # s) = 1"
  by (simp add: rune_width.simps Let_def)

lemma runes_ascii [simp]: "byte c < 128 \<Longrightarrow> runes (c # s) = [c] # runes s"
  by (simp add: runes.simps)

lemma concat_runes [simp]: "concat (runes s) = s"
  by (induction s rule: runes.induct) (simp_all add: runes.simps Let_def)

lemma runes_Nil_iff [simp]: "runes s = [] \<longleftrightarrow> s = []"
  by (metis concat_runes concat.simps(1) runes.simps(1))

lemma runes_all_ascii: "\<forall>c \<in> set s. byte c < 128 \<Longrightarrow> runes s = map (\<lambda>c. [c]) s"
  by (induction s) simp_all

section \<open>strings package\<close>

text \<open>
  \<open>unicode.ToLower\<close> on one rune. Besides the ASCII capitals, exactly two code points have
  an ASCII lower case: U+0130 and the Kelvin sign U+212A. An ill-formed byte is replaced
  by U+FFFD, as \<open>strings.Map\<close> does. Every other rune maps to a rune outside ASCII; the
  model keeps the rune itself for those, since both callers only ask whether the result
  is in \<^verbatim>\<open>[a-z0-9]\<close>.
\<close>

definition lower_rune :: "go_string \<Rightarrow> go_string" where
  "lower_rune r =
    (if length r = 1 \<and> is_upper (hd r) then [char_of (byte (hd r) + 32)]
     else if map byte r = [196, 176] then ''i''
     else if map byte r = [226, 132, 170] then ''k''
     else if length r = 1 \<and> 128 \<le> byte (hd r) then map char_of [239, 191, 189 :: nat]
     else r)"

definition lower_runes :: "go_string \<Rightarrow> go_string list" where
  "lower_runes s = map lower_rune (runes s)"

definition to_lower :: "go_string \<Rightarrow> go_string" where
  "to_lower s = concat (lower_runes s)"

text \<open>\<open>strings.TrimRight(s, \<dots>)\<close> for a set of single bytes.\<close>

definition trim_right :: "(char \<Rightarrow> bool) \<Rightarrow> go_string \<Rightarrow> go_string" where
  "trim_right P s = rev (dropWhile P (rev s))"

definition is_space :: "char \<Rightarrow> bool" where
  "is_space c \<longleftrightarrow> byte c \<in> {9, 10, 11, 12, 13, 32}"

text \<open>
  \<open>unicode.IsSpace\<close> on a rune: the ASCII white space, U+0085, U+00A0, U+1680, U+2000 to
  U+200A, U+2028, U+2029, U+202F, U+205F and U+3000. \<open>strings.TrimSpace\<close> drops such runes
  at both ends.
\<close>

definition is_space_rune :: "go_string \<Rightarrow> bool" where
  "is_space_rune r \<longleftrightarrow>
    (case map byte r of
       [b] \<Rightarrow> is_space (char_of b)
     | [b, c] \<Rightarrow> b = 194 \<and> (c = 133 \<or> c = 160)
     | [b, c, d] \<Rightarrow> (b = 225 \<and> c = 154 \<and> d = 128)
         \<or> (b = 226 \<and> c = 128 \<and> (128 \<le> d \<and> d \<le> 138 \<or> d = 168 \<or> d = 169 \<or> d = 175))
         \<or> (b = 226 \<and> c = 129 \<and> d = 159)
         \<or> (b = 227 \<and> c = 128 \<and> d = 128)
     | _ \<Rightarrow> False)"

definition trim_space :: "go_string \<Rightarrow> go_string" where
  "trim_space s = concat (rev (dropWhile is_space_rune (rev (dropWhile is_space_rune (runes s)))))"

text \<open>\<open>strings.Contains\<close>, \<open>strings.HasPrefix\<close>, \<open>strings.CutPrefix\<close> and \<open>strings.Join\<close>.\<close>

definition contains :: "go_string \<Rightarrow> go_string \<Rightarrow> bool" where
  "contains s t \<longleftrightarrow> sublist t s"

definition trim_prefix :: "go_string \<Rightarrow> go_string \<Rightarrow> go_string" where
  "trim_prefix s p = (if prefix p s then drop (length p) s else s)"

fun join :: "go_string \<Rightarrow> go_string list \<Rightarrow> go_string" where
  "join sep [] = []"
| "join sep [x] = x"
| "join sep (x # y # xs) = x @ sep @ join sep (y # xs)"

lemma join_Cons: "xs \<noteq> [] \<Longrightarrow> join sep (x # xs) = x @ sep @ join sep xs"
  by (cases xs) simp_all

text \<open>\<open>strconv.Itoa\<close> of a non-negative number.\<close>

fun nat_digits :: "nat \<Rightarrow> go_string" where
  "nat_digits n = (if n < 10 then [char_of (48 + n)]
                   else nat_digits (n div 10) @ [char_of (48 + n mod 10)])"

declare nat_digits.simps [simp del]

lemma trim_right_prefix: "prefix (trim_right P s) s"
  unfolding trim_right_def
  by (metis rev_rev_ident suffix_dropWhile suffix_to_prefix)

lemma trim_right_last: "trim_right P s \<noteq> [] \<Longrightarrow> \<not> P (last (trim_right P s))"
  unfolding trim_right_def
  by (metis hd_dropWhile hd_rev rev_is_Nil_conv rev_rev_ident)

lemma length_trim_right: "length (trim_right P s) \<le> length s"
  by (metis length_dropWhile_le length_rev trim_right_def)

section \<open>Lists and results\<close>

text \<open>
  A Go function that returns \<open>(T, error)\<close> is a function into \<open>'e + 'a\<close>. A loop that stops
  at the first error is \<open>each\<close>.
\<close>

fun each :: "('x \<Rightarrow> 's \<Rightarrow> 'e + 's) \<Rightarrow> 'x list \<Rightarrow> 's \<Rightarrow> 'e + 's" where
  "each f [] s = Inr s"
| "each f (x # xs) s = (case f x s of Inl e \<Rightarrow> Inl e | Inr s' \<Rightarrow> each f xs s')"

lemma each_append:
  "each f (xs @ ys) s = (case each f xs s of Inl e \<Rightarrow> Inl e | Inr s' \<Rightarrow> each f ys s')"
  by (induction xs arbitrary: s) (simp_all split: sum.splits)

text \<open>What every successful step keeps, the loop keeps.\<close>

lemma each_invariant:
  assumes "each f xs s = Inr t" and "I s"
    and "\<And>x u v. x \<in> set xs \<Longrightarrow> I u \<Longrightarrow> f x u = Inr v \<Longrightarrow> I v"
  shows "I t"
  using assms
proof (induction xs arbitrary: s)
  case Nil
  then show ?case by simp
next
  case (Cons x xs)
  then obtain u where u: "f x s = Inr u" "each f xs u = Inr t"
    by (auto split: sum.splits)
  then have "I u" using Cons.prems by (meson list.set_intros(1))
  with u(2) show ?case using Cons.IH Cons.prems(3) by (meson list.set_intros(2))
qed

lemma each_error:
  assumes "each f xs s = Inl e"
  obtains x t where "x \<in> set xs" "f x t = Inl e"
  using assms
  by (induction xs arbitrary: s) (auto split: sum.splits)

end
