(* ===== verification/OmErrors.thy ===== *)
theory OmErrors
  imports Prelude
begin

text \<open>
  Error values of the program and how HTTP responses become errors
  (\<open>internal/openmeter/errors.go\<close>, the classification parts of \<open>ingest.go\<close>,
  \<open>subscription.go\<close> and \<open>meter.go\<close>).

  A Go error is a tree: \<open>fmt.Errorf\<close> with \<open>%w\<close> wraps one or several errors, and
  \<open>TransientError\<close> and \<open>PermanentError\<close> wrap the error they classify. \<open>errors.Is\<close> and
  \<open>errors.As\<close> walk the tree in pre-order, which is \<open>chain\<close>. \<open>FinalizerWaiting\<close> is the
  account controller's wrapper for an error that only means waiting; every one made has a
  cause. \<open>Aggregate\<close> is the error of Kubernetes' finalizer helper, which has no \<open>Unwrap\<close>.
  \<open>Unfinished\<close> is no error of the program: it marks a paging loop of the model that ran
  out of fuel.

  A response body is text, or text that is a JSON object with the members given (each
  with its compact JSON text). \<open>media_type\<close> is what \<open>mime.ParseMediaType\<close> makes of the
  Content-Type header, \<open>retry_date\<close> the time from now to the HTTP date in Retry-After.
  Error texts keep their fixed part and the quoted body; the program never tests them,
  only the sentinels, the status and \<open>ResponseBody\<close>, which are kept exactly.
\<close>

section \<open>Errors and their wrapping\<close>

datatype sentinel =
    ErrMeterNotFound | ErrCustomerNotFound | ErrEventRejected | ErrPayloadTooLarge
  | ErrPlanNotPublished | ErrCustomerBillingNotReady | ErrAccountUnresolved
  | errMeterNotFound | ErrMeterLacksDimension | ErrBillingProfileNotFound | ErrInvoicesOutstanding
  | errNothingToInvoice | ErrStripeAppNotConfigured | ErrStripeAppDataNotFound
  | KubeNotFound | KubeConflict | KubeAlreadyExists | errWaitingForCustomerLink

datatype go_error =
    Sentinel sentinel
  | Leaf go_string
  | Wrap go_string "go_error list"
  | TransientError go_error int int
  | PermanentError go_error int go_string
  | InvalidOffer go_string
  | FinalizerWaiting go_string int go_error
  | Aggregate "go_error list"
  | Unfinished

type_synonym 'a res = "go_error + 'a"

fun chain :: "go_error \<Rightarrow> go_error list" where
  "chain (Wrap m es) = Wrap m es # concat (map chain es)"
| "chain (TransientError e st ra) = TransientError e st ra # chain e"
| "chain (PermanentError e st b) = PermanentError e st b # chain e"
| "chain (FinalizerWaiting r after e) = FinalizerWaiting r after e # chain e"
| "chain e = [e]"

definition errors_is :: "go_error \<Rightarrow> sentinel \<Rightarrow> bool" where
  "errors_is e s \<longleftrightarrow> Sentinel s \<in> set (chain e)"

fun is_transient_node :: "go_error \<Rightarrow> bool" where
  "is_transient_node (TransientError _ _ _) = True"
| "is_transient_node _ = False"

fun is_permanent_node :: "go_error \<Rightarrow> bool" where
  "is_permanent_node (PermanentError _ _ _) = True"
| "is_permanent_node _ = False"

definition IsTransient :: "go_error \<Rightarrow> bool" where
  "IsTransient e \<longleftrightarrow> list_ex is_transient_node (chain e)"

definition IsPermanent :: "go_error \<Rightarrow> bool" where
  "IsPermanent e \<longleftrightarrow> list_ex is_permanent_node (chain e)"

definition IsEventRejected :: "go_error \<Rightarrow> bool" where
  "IsEventRejected e \<longleftrightarrow> errors_is e ErrEventRejected"

text \<open>
  The text of an error (the \<open>Error\<close> methods). A wrapping \<open>fmt.Errorf\<close> prints its text and
  the error it wraps, \<open>errors.Join\<close> (an empty text) one error per line.
\<close>

fun sentinel_text :: "sentinel \<Rightarrow> go_string" where
  "sentinel_text ErrMeterNotFound = ''openmeter: meter not found''"
| "sentinel_text ErrCustomerNotFound = ''openmeter: customer not found''"
| "sentinel_text ErrEventRejected = ''openmeter: event rejected as invalid''"
| "sentinel_text ErrPayloadTooLarge = ''openmeter: ingest payload too large''"
| "sentinel_text ErrPlanNotPublished = ''openmeter: plan has no active version''"
| "sentinel_text ErrCustomerBillingNotReady = ''openmeter: customer billing setup is incomplete''"
| "sentinel_text ErrAccountUnresolved = ''billing account for usage event not resolved''"
| "sentinel_text errMeterNotFound = ''meter definition not found''"
| "sentinel_text ErrMeterLacksDimension = ''this meter cannot be filtered by project''"
| "sentinel_text ErrBillingProfileNotFound = ''openmeter: billing profile not found''"
| "sentinel_text ErrInvoicesOutstanding = ''openmeter: customer has outstanding invoices''"
| "sentinel_text errNothingToInvoice = ''openmeter: no pending lines to invoice''"
| "sentinel_text ErrStripeAppNotConfigured = ''openmeter: customer's billing profile has no Stripe app''"
| "sentinel_text ErrStripeAppDataNotFound = ''openmeter: customer has no Stripe app data''"
| "sentinel_text KubeNotFound = ''not found''"
| "sentinel_text KubeConflict = ''conflict''"
| "sentinel_text KubeAlreadyExists = ''already exists''"
| "sentinel_text errWaitingForCustomerLink = ''waiting for the OpenMeter customer to be deleted before removing its billing profile''"

definition status_text :: "int \<Rightarrow> go_string" where
  "status_text st = (if st = 0 then [] else '' (status='' @ (if st < 0 then ''-'' else []) @ nat_digits (nat \<bar>st\<bar>) @ '')'')"

fun error_text :: "go_error \<Rightarrow> go_string" where
  "error_text (Sentinel s) = sentinel_text s"
| "error_text (Leaf m) = m"
| "error_text (Wrap m es) = (if m = [] then join [CHR 0x0A] (map error_text es) else m @ '': '' @ join '', '' (map error_text es))"
| "error_text (TransientError e st ra) = ''openmeter: transient error'' @ status_text st @ '': '' @ error_text e"
| "error_text (PermanentError e st b) = ''openmeter: permanent error'' @ status_text st @ '': '' @ error_text e"
| "error_text (InvalidOffer m) = m"
| "error_text (FinalizerWaiting r after e) = ''waiting: '' @ r @ '': '' @ error_text e"
| "error_text (Aggregate es) = join '', '' (map error_text es)"
| "error_text Unfinished = []"

text \<open>\<open>errors.As\<close> for \<open>*PermanentError\<close>: the first one of the chain.\<close>

definition as_permanent :: "go_error \<Rightarrow> go_error option" where
  "as_permanent e = List.find is_permanent_node (chain e)"

section \<open>Responses\<close>

datatype json_val =
    JStr (raw_text: go_string) go_string | JNull | JOther (raw_text: go_string)
  | JObj (raw_text: go_string) (members: "(go_string \<times> json_val) list")
  where "raw_text JNull = ''null''"

datatype payload = Plain go_string | Object go_string "(go_string \<times> json_val) list"

record http_response =
  status_code :: int
  media_type :: "go_string option"
  retry_after :: go_string
  retry_date :: "int option"
  resp_body :: payload

fun payload_text :: "payload \<Rightarrow> go_string" where
  "payload_text (Plain s) = s"
| "payload_text (Object s ms) = s"

text \<open>A JSON string literal, as \<open>encoding/json\<close> writes it without HTML escaping.\<close>

definition hex2 :: "nat \<Rightarrow> go_string" where
  "hex2 n = (let d = (\<lambda>k. char_of (if k < 10 then 48 + k else 87 + k)) in [d (n div 16), d (n mod 16)])"

definition json_rune :: "go_string \<Rightarrow> go_string" where
  "json_rune r =
    (case map byte r of
       [b] \<Rightarrow>
         if b = 34 \<or> b = 92 then CHR 0x5C # r
         else if b = 8 then [CHR 0x5C, CHR ''b''] else if b = 12 then [CHR 0x5C, CHR ''f'']
         else if b = 10 then [CHR 0x5C, CHR ''n''] else if b = 13 then [CHR 0x5C, CHR ''r'']
         else if b = 9 then [CHR 0x5C, CHR ''t'']
         else if b < 32 then CHR 0x5C # ''u00'' @ hex2 b
         else if 128 \<le> b then CHR 0x5C # ''ufffd''
         else r
     | bs \<Rightarrow>
         if bs = [226, 128, 168] then CHR 0x5C # ''u2028''
         else if bs = [226, 128, 169] then CHR 0x5C # ''u2029''
         else r)"

definition json_quote :: "go_string \<Rightarrow> go_string" where
  "json_quote s = [CHR 0x22] @ concat (map json_rune (runes s)) @ [CHR 0x22]"

text \<open>
  Encoding a decoded object: a Go map has one value per key (the last one of the text)
  and \<open>encoding/json\<close> writes the keys in sorted order.
\<close>

definition render_object :: "(go_string \<times> json_val) list \<Rightarrow> go_string" where
  "render_object ms =
    (let keys = sort (remdups (map fst ms))
     in ''{'' @ join '','' (map (\<lambda>k. json_quote k @ '':'' @ raw_text (the (map_of (rev ms) k))) keys) @ ''}'')"

fun withoutProblemInstance :: "payload \<Rightarrow> go_string" where
  "withoutProblemInstance (Plain s) = s"
| "withoutProblemInstance (Object s ms) =
    (if ''instance'' \<notin> fst ` set ms then s
     else render_object (filter (\<lambda>m. fst m \<noteq> ''instance'') ms))"

section \<open>Retry-After\<close>

text \<open>Arithmetic of Go's \<open>int64\<close>.\<close>

definition int64 :: "int \<Rightarrow> int" where
  "int64 x = (x + 2 ^ 63) mod 2 ^ 64 - 2 ^ 63"

fun digits_value :: "int \<Rightarrow> go_string \<Rightarrow> int option" where
  "digits_value v [] = Some v"
| "digits_value v (c # s) =
    (if is_digit c then digits_value (10 * v + int (byte c - 48)) s else None)"

definition atoi :: "go_string \<Rightarrow> int option" where
  "atoi s =
    (let neg = (s \<noteq> [] \<and> hd s = CHR ''-'');
         ds = (if s \<noteq> [] \<and> (hd s = CHR ''-'' \<or> hd s = CHR ''+'') then tl s else s)
     in if ds = [] then None
        else case digits_value 0 ds of None \<Rightarrow> None
             | Some v \<Rightarrow> (let n = (if neg then - v else v)
                          in if - (2 ^ 63) \<le> n \<and> n < 2 ^ 63 then Some n else None))"

definition second :: int where
  "second = 1000000000"

definition parseRetryAfter :: "go_string \<Rightarrow> int option \<Rightarrow> int" where
  "parseRetryAfter h date =
    (let h = trim_space h in
     if h = [] then 0
     else case atoi h of
       Some secs \<Rightarrow> if 0 \<le> secs then int64 (secs * second)
                    else (case date of None \<Rightarrow> 0 | Some d \<Rightarrow> if d < 0 then 0 else d)
     | None \<Rightarrow> (case date of None \<Rightarrow> 0 | Some d \<Rightarrow> if d < 0 then 0 else d))"

section \<open>Classification\<close>

definition body_snippet :: "payload \<Rightarrow> go_string" where
  "body_snippet b =
    (let s = trim_space (withoutProblemInstance b)
     in if 4096 < length s then take 4096 s @ ''...(truncated)'' else s)"

text \<open>\<open>None\<close> is Go's nil error.\<close>

definition classify :: "http_response option \<Rightarrow> go_error option \<Rightarrow> go_error option" where
  "classify resp networkErr =
    (case resp of
       None \<Rightarrow>
         Some (TransientError
                (case networkErr of None \<Rightarrow> Leaf ''nil response and nil network error''
                 | Some e \<Rightarrow> e) 0 0)
     | Some r \<Rightarrow>
         (let status = status_code r; snippet = body_snippet (resp_body r);
              ra = parseRetryAfter (retry_after r) (retry_date r)
          in
          if 200 \<le> status \<and> status < 300 then None
          else if status = 429 then
            Some (TransientError (Leaf (''rate limited by openmeter: '' @ snippet)) status ra)
          else if status = 401 \<or> status = 403 then
            Some (PermanentError (Leaf (''openmeter rejected authentication: '' @ snippet)) status snippet)
          else if status = 408 \<or> status = 425 then
            Some (TransientError (Leaf (''openmeter transient client-side status: '' @ snippet)) status ra)
          else if 500 \<le> status then
            Some (TransientError (Leaf (''openmeter server error: '' @ snippet)) status ra)
          else if 400 \<le> status then
            Some (PermanentError (Leaf (''openmeter rejected request: '' @ snippet)) status snippet)
          else
            Some (PermanentError (Leaf (''unexpected status from openmeter: '' @ snippet)) status snippet)))"

text \<open>
  \<open>classifyIngest\<close> and \<open>reclassifySubscription\<close> look for the first \<open>PermanentError\<close> of
  the chain and change it in place, through its pointer; \<open>update_permanent\<close> replaces the
  first such node of the tree.
\<close>

fun update_permanent :: "(go_error \<Rightarrow> go_error) \<Rightarrow> go_error \<Rightarrow> go_error"
  and update_first :: "(go_error \<Rightarrow> go_error) \<Rightarrow> go_error list \<Rightarrow> go_error list" where
  "update_permanent f (PermanentError e st b) = f (PermanentError e st b)"
| "update_permanent f (TransientError e st ra) = TransientError (update_permanent f e) st ra"
| "update_permanent f (Wrap m es) = Wrap m (update_first f es)"
| "update_permanent f e = e"
| "update_first f [] = []"
| "update_first f (e # es) =
    (if IsPermanent e then update_permanent f e # es else e # update_first f es)"

definition classifyIngest :: "go_error option \<Rightarrow> go_error option" where
  "classifyIngest err =
    (case err of None \<Rightarrow> None
     | Some e \<Rightarrow>
        (case as_permanent e of
           Some (PermanentError pe st pb) \<Rightarrow>
             if st = 400 \<or> st = 422 then
               (if contains (to_lower pb) ''invalid content type'' then Some e
                else Some (update_permanent
                       (\<lambda>_. PermanentError (Wrap '': '' [Sentinel ErrEventRejected, pe]) st pb) e))
             else if st = 413 then
               Some (update_permanent
                 (\<lambda>_. PermanentError (Wrap '': '' [Sentinel ErrPayloadTooLarge, pe]) st pb) e)
             else Some e
         | _ \<Rightarrow> Some e))"

definition reclassifySubscription :: "go_error option \<Rightarrow> go_error option" where
  "reclassifySubscription err =
    (case err of None \<Rightarrow> None
     | Some e \<Rightarrow>
        (case as_permanent e of
           Some (PermanentError pe st pb) \<Rightarrow>
             if st = 403 then
               Some (TransientError (Leaf (''openmeter refused the subscription transition in its current state: '' @ pb)) st 0)
             else if st = 409 \<and> contains pb ''invalid billing setup'' then
               Some (PermanentError (Wrap ('': '' @ pb) [Sentinel ErrCustomerBillingNotReady]) st pb)
             else Some e
         | _ \<Rightarrow> Some e))"

definition classifySubscription :: "http_response \<Rightarrow> go_error option" where
  "classifySubscription r = reclassifySubscription (classify (Some r) None)"

text \<open>
  The \<open>detail\<close> member of a problem body: \<open>encoding/json\<close> matches the struct field without
  regard to case, a later match overwrites, null leaves the field alone and any other
  type is a decoding error.
\<close>

fun problem_detail :: "(go_string \<times> json_val) list \<Rightarrow> go_string \<Rightarrow> go_string option" where
  "problem_detail [] d = Some d"
| "problem_detail ((k, v) # ms) d =
    (if to_lower k = ''detail'' then
       (case v of JStr _ s \<Rightarrow> problem_detail ms s | JNull \<Rightarrow> problem_detail ms d | _ \<Rightarrow> None)
     else problem_detail ms d)"

definition isOpenMeterNotFound :: "http_response \<Rightarrow> bool" where
  "isOpenMeterNotFound r \<longleftrightarrow>
    status_code r = 404 \<and> media_type r = Some ''application/problem+json'' \<and>
    (case resp_body r of
       Plain _ \<Rightarrow> False
     | Object _ ms \<Rightarrow>
        (case problem_detail ms [] of None \<Rightarrow> False
         | Some d \<Rightarrow> contains (to_lower d) ''not found''))"

definition unrecognizedNotFound :: "go_string \<Rightarrow> go_string \<Rightarrow> payload \<Rightarrow> go_error" where
  "unrecognizedNotFound opn slug b =
    (let s = trim_space (payload_text b);
         snippet = (if 512 < length s then take 512 s @ ''...(truncated)'' else s)
     in PermanentError
          (Leaf (opn @ '' meter '' @ slug
             @ '': got a 404 that is not an OpenMeter not-found response; check the OpenMeter serverUrl: ''
             @ snippet))
          404 snippet)"

section \<open>What classification guarantees\<close>

definition retryable_status :: "int \<Rightarrow> bool" where
  "retryable_status st \<longleftrightarrow> st = 408 \<or> st = 425 \<or> st = 429 \<or> 500 \<le> st"

definition ok_status :: "int \<Rightarrow> bool" where
  "ok_status st \<longleftrightarrow> 200 \<le> st \<and> st < 300"

lemma chain_Leaf_nodes [simp]:
  "IsTransient (TransientError (Leaf m) st ra)" "\<not> IsPermanent (TransientError (Leaf m) st ra)"
  "IsPermanent (PermanentError (Leaf m) st b)" "\<not> IsTransient (PermanentError (Leaf m) st b)"
  "errors_is (TransientError (Leaf m) st ra) s = False"
  "errors_is (PermanentError (Leaf m) st b) s = False"
  "as_permanent (PermanentError e st b) = Some (PermanentError e st b)"
  "as_permanent (TransientError (Leaf m) st ra) = None"
  by (simp_all add: IsTransient_def IsPermanent_def errors_is_def as_permanent_def)

text \<open>A response is classified by its status alone, in three classes.\<close>

lemma classify_response:
  obtains (ok) "ok_status (status_code r)" "classify (Some r) ne = None"
  | (transient) m ra where "retryable_status (status_code r)" "\<not> ok_status (status_code r)"
      "classify (Some r) ne = Some (TransientError (Leaf m) (status_code r) ra)"
  | (permanent) m where "\<not> retryable_status (status_code r)" "\<not> ok_status (status_code r)"
      "classify (Some r) ne = Some (PermanentError (Leaf m) (status_code r) (body_snippet (resp_body r)))"
proof (cases "ok_status (status_code r)")
  case True
  then show thesis by (intro ok) (simp_all add: classify_def ok_status_def Let_def)
next
  case False
  note not_ok = this
  show thesis
  proof (cases "retryable_status (status_code r)")
    case True
    have "\<exists>m ra. classify (Some r) ne = Some (TransientError (Leaf m) (status_code r) ra)"
      using True not_ok by (auto simp: classify_def retryable_status_def ok_status_def Let_def)
    then show thesis using transient True not_ok by blast
  next
    case False
    have "\<exists>m. classify (Some r) ne =
        Some (PermanentError (Leaf m) (status_code r) (body_snippet (resp_body r)))"
      using False not_ok by (auto simp: classify_def retryable_status_def ok_status_def Let_def)
    then show thesis using permanent False not_ok by blast
  qed
qed

lemma classify_ok [simp]: "ok_status (status_code r) \<Longrightarrow> classify (Some r) ne = None"
  by (rule classify_response [of r ne]) auto

lemma classify_None_iff: "classify (Some r) ne = None \<longleftrightarrow> ok_status (status_code r)"
  by (rule classify_response [of r ne]) auto

lemma classify_not_unfinished: "classify r ne \<noteq> Some Unfinished"
  by (cases r) (auto simp: classify_def Let_def)

lemma classify_no_sentinel: "classify (Some r) ne = Some e \<Longrightarrow> \<not> errors_is e s"
  by (rule classify_response [of r ne]) (auto simp: errors_is_def)

lemma classify_Some_transient:
  "classify (Some r) ne = Some e \<Longrightarrow> IsTransient e \<longleftrightarrow> retryable_status (status_code r)"
  by (rule classify_response [of r ne]) auto

lemma classify_network [simp]: "\<exists>e. classify None ne = Some e \<and> IsTransient e"
  by (simp add: classify_def IsTransient_def)

definition ingest_error :: "http_response \<Rightarrow> go_error option" where
  "ingest_error r = classifyIngest (classify (Some r) None)"

lemma IsTransient_rejected [simp]:
  "\<not> IsTransient (PermanentError (Wrap m [Sentinel s, Leaf t]) st b)"
  "errors_is (PermanentError (Wrap m [Sentinel s, Leaf t]) st b) s' \<longleftrightarrow> s' = s"
  by (auto simp: IsTransient_def errors_is_def)

lemma ingest_error_None_iff [simp]: "ingest_error r = None \<longleftrightarrow> ok_status (status_code r)"
  unfolding ingest_error_def
  by (rule classify_response [of r None]) (auto simp: classifyIngest_def)


lemma ingest_error_Some:
  assumes "ingest_error r = Some e"
  shows "\<not> ok_status (status_code r)"
    and "IsEventRejected e \<longleftrightarrow> status_code r \<in> {400, 422} \<and>
      \<not> contains (to_lower (body_snippet (resp_body r))) ''invalid content type''"
    and "errors_is e ErrPayloadTooLarge \<longleftrightarrow> status_code r = 413"
    and "IsTransient e \<longleftrightarrow> retryable_status (status_code r)"
  using assms unfolding ingest_error_def
  by (rule_tac [!] classify_response [of r None])
     (auto simp: classifyIngest_def IsEventRejected_def retryable_status_def split: if_splits)

text \<open>
  On the ingest endpoint an error means "this event is invalid" exactly for a 400 or
  422 that is no content-type complaint, "too large" exactly for 413, and transient
  exactly for the retryable statuses; so an authentication or routing failure
  (401, 403, 404, 405, 415) never marks an event as rejected.
\<close>

theorem ingest_classification:
  "case ingest_error r of
     None \<Rightarrow> ok_status (status_code r)
   | Some e \<Rightarrow> \<not> ok_status (status_code r)
       \<and> IsEventRejected e = (status_code r \<in> {400, 422} \<and>
           \<not> contains (to_lower (body_snippet (resp_body r))) ''invalid content type'')
       \<and> errors_is e ErrPayloadTooLarge = (status_code r = 413)
       \<and> IsTransient e = retryable_status (status_code r)"
  by (auto simp: ingest_error_Some split: option.split)

section \<open>Stability and time bounds\<close>

lemma sort_remdups_set: "set xs = set ys \<Longrightarrow> sort (remdups xs) = sort (remdups ys)"
  by (metis sorted_list_of_set_sort_remdups)

lemma render_object_cong:
  assumes "\<And>k. map_of (rev ms) k = map_of (rev ns) k"
  shows "render_object ms = render_object ns"
proof -
  have eq: "map_of (rev ms) = map_of (rev ns)"
    using assms by blast
  then have "dom (map_of (rev ms)) = dom (map_of (rev ns))"
    by simp
  then have "set (map fst ms) = set (map fst ns)"
    by (simp add: dom_map_of_conv_image_fst)
  then have "sort (remdups (map fst ms)) = sort (remdups (map fst ns))"
    by (rule sort_remdups_set)
  with eq show ?thesis
    by (simp add: render_object_def)
qed

lemma map_of_rev_filter:
  "map_of (rev (filter (\<lambda>m. fst m \<noteq> j) ms)) k = (if k = j then None else map_of (rev ms) k)"
  by (induction ms) (auto simp: map_add_def split: option.splits)

lemma withoutProblemInstance_stable:
  assumes "''instance'' \<in> fst ` set ms" and "''instance'' \<in> fst ` set ns"
    and "\<forall>k. k \<noteq> ''instance'' \<longrightarrow> map_of (rev ms) k = map_of (rev ns) k"
  shows "withoutProblemInstance (Object t ms) = withoutProblemInstance (Object u ns)"
proof -
  let ?f = "filter (\<lambda>m. fst m \<noteq> ''instance'')"
  have "map_of (rev (?f ms)) k = map_of (rev (?f ns)) k" for k
    using assms(3) by (simp only: map_of_rev_filter simp_thms split: if_split) blast
  then have "render_object (?f ms) = render_object (?f ns)"
    by (rule render_object_cong)
  then show ?thesis using assms(1,2) by simp
qed

text \<open>
  A problem body's per-request \<open>instance\<close> member leaves no trace in the error: two
  responses with the same status and headers whose problem bodies agree on every other
  member are classified as equal errors, so a condition built from the error text does
  not change from one reconcile to the next.
\<close>

theorem classify_ignores_instance:
  assumes "''instance'' \<in> fst ` set ms" and "''instance'' \<in> fst ` set ns"
    and "\<forall>k. k \<noteq> ''instance'' \<longrightarrow> map_of (rev ms) k = map_of (rev ns) k"
  shows "classify (Some (r\<lparr>resp_body := Object t ms\<rparr>)) ne =
         classify (Some (r\<lparr>resp_body := Object u ns\<rparr>)) ne"
proof -
  have "body_snippet (Object t ms) = body_snippet (Object u ns)"
    unfolding body_snippet_def using withoutProblemInstance_stable [OF assms, of t u] by argo
  then show ?thesis
    by (simp add: classify_def Let_def)
qed

definition sample_response :: http_response where
  "sample_response =
    \<lparr>status_code = 409, media_type = None, retry_after = [], retry_date = None, resp_body = Plain []\<rparr>"

theorem classify_ignores_instance_witness:
  "classify (Some (sample_response
     \<lparr>resp_body := Object ''a'' [(''detail'', JNull), (''instance'', JOther ''1'')]\<rparr>)) None =
   classify (Some (sample_response
     \<lparr>resp_body := Object ''b'' [(''instance'', JOther ''2''), (''detail'', JNull)]\<rparr>)) None"
  by (rule classify_ignores_instance) auto

lemma int64_id: "- (2 ^ 63) \<le> x \<Longrightarrow> x < 2 ^ 63 \<Longrightarrow> int64 x = x"
  by (simp add: int64_def)

text \<open>
  A Retry-After header in whole seconds is the delay it says, up to 9223372036 seconds
  (the largest number of seconds that fits a \<open>time.Duration\<close>).
\<close>

theorem parseRetryAfter_seconds:
  assumes "atoi (trim_space h) = Some secs" and "0 \<le> secs" and "secs \<le> 9223372036"
  shows "parseRetryAfter h date = secs * second"
proof -
  have "trim_space h \<noteq> []"
    using assms(1) by (auto simp: atoi_def)
  moreover have "int64 (secs * second) = secs * second"
    using assms(2,3) by (intro int64_id) (simp_all add: second_def)
  ultimately show ?thesis
    using assms(1,2) by (simp add: parseRetryAfter_def)
qed

theorem parseRetryAfter_seconds_witness: "parseRetryAfter '' 120 '' None = 120 * second"
  by (rule parseRetryAfter_seconds) code_simp+

text \<open>
  Beyond that bound the product with \<open>time.Second\<close> wraps around: a Retry-After of
  9223372037 seconds becomes a negative delay.
\<close>

theorem parseRetryAfter_overflow: "parseRetryAfter ''9223372037'' None < 0"
  by code_simp

end
