(* ===== verification/Keys.thy ===== *)
theory Keys
  imports Sha256 OmErrors "HOL-Library.AList"
begin

text \<open>
  The identifiers the provider derives for OpenMeter: meter slugs and group-by keys
  (\<open>internal/openmeter/meter.go\<close>), bounded keys for features and rate cards and their
  sanitized segments (\<open>internal/controller/offer_mapping.go\<close>).

  \<open>valid_key\<close> is OpenMeter's key syntax \<^verbatim>\<open>^[a-z0-9]+(?:_[a-z0-9]+)*$\<close> as the two-state
  automaton of that expression. A Go map from strings to strings is an association list
  with one entry per key, updated with \<open>AList.update\<close>.
\<close>

section \<open>Key syntax\<close>

fun key_from :: "bool \<Rightarrow> go_string \<Rightarrow> bool" where
  "key_from ok [] = ok"
| "key_from ok (c # s) =
    (if is_alnum c then key_from True s else c = underscore \<and> ok \<and> key_from False s)"

definition valid_key :: "go_string \<Rightarrow> bool" where
  "valid_key s \<longleftrightarrow> key_from False s"

definition alnum_rune :: "go_string \<Rightarrow> bool" where
  "alnum_rune r \<longleftrightarrow> length r = 1 \<and> is_alnum (hd r)"

text \<open>The loop both \<open>MeterSlug\<close> and \<open>sanitizeKeyPart\<close> run over the lowered runes.\<close>

fun key_loop :: "go_string list \<Rightarrow> bool \<Rightarrow> go_string \<Rightarrow> go_string" where
  "key_loop [] pendingUnderscore b = b"
| "key_loop (r # rs) pendingUnderscore b =
    (if alnum_rune r then
       key_loop rs False ((if pendingUnderscore \<and> b \<noteq> [] then b @ [underscore] else b) @ r)
     else key_loop rs True b)"

definition sanitizeKeyPart :: "go_string \<Rightarrow> go_string" where
  "sanitizeKeyPart s = key_loop (lower_runes s) False []"

definition meterSlugMaxLen :: nat where "meterSlugMaxLen = 64"
definition meterSlugHashLen :: nat where "meterSlugHashLen = 8"
definition openMeterKeyMaxLen :: nat where "openMeterKeyMaxLen = 64"
definition keyHashLen :: nat where "keyHashLen = 10"

definition MeterSlug :: "go_string \<Rightarrow> go_string" where
  "MeterSlug meterName =
    (let slug = key_loop (lower_runes meterName) False [] in
     if slug \<noteq> [] \<and> length slug \<le> meterSlugMaxLen then slug
     else
       let suffix = take meterSlugHashLen (sha256_hex meterName) in
       if slug = [] then ''meter_'' @ suffix
       else trim_right (\<lambda>c. c = underscore) (take (meterSlugMaxLen - meterSlugHashLen - 1) slug)
              @ [underscore] @ suffix)"

definition boundedKey :: "go_string \<Rightarrow> go_string \<Rightarrow> go_string \<Rightarrow> go_string" where
  "boundedKey readable fallback identity =
    (let suffix = take keyHashLen (sha256_hex identity);
         readable = (if readable = [] then fallback else readable);
         maxPrefix = openMeterKeyMaxLen - length suffix - 1;
         readable = (if maxPrefix < length readable
                     then trim_right (\<lambda>c. c = underscore) (take maxPrefix readable) else readable)
     in readable @ [underscore] @ suffix)"

section \<open>Group-by keys\<close>

definition ident_char :: "char \<Rightarrow> bool" where
  "ident_char c \<longleftrightarrow> c = underscore \<or> is_digit c \<or> is_lower c \<or> is_upper c"

text \<open>\<^verbatim>\<open>^[a-zA-Z_][0-9a-zA-Z_]*$\<close>\<close>

definition groupByKeyRegExp :: "go_string \<Rightarrow> bool" where
  "groupByKeyRegExp s \<longleftrightarrow> s \<noteq> [] \<and> \<not> is_digit (hd s) \<and> list_all ident_char s"

definition reservedGroupByKeys :: "go_string list" where
  "reservedGroupByKeys = [''subject'', ''customer_id'']"

definition dimensionKeyPrefix :: go_string where
  "dimensionKeyPrefix = ''dim_''"

definition GroupByKey :: "go_string \<Rightarrow> go_string" where
  "GroupByKey dimension =
    (if groupByKeyRegExp dimension then
       (if dimension \<notin> set reservedGroupByKeys then dimension else dimensionKeyPrefix @ dimension)
     else
       let key = concat (map (\<lambda>r. if length r = 1 \<and> ident_char (hd r) then r else [underscore])
                          (runes dimension))
       in if key = [] \<or> is_digit (hd key) then dimensionKeyPrefix @ key else key)"

text \<open>\<^verbatim>\<open>^[0-9A-Za-z_\-/:][0-9A-Za-z_.\-/:]*$\<close>\<close>

definition quotable_char :: "char \<Rightarrow> bool" where
  "quotable_char c \<longleftrightarrow> ident_char c \<or> c \<in> set ''-/:''"

definition quotableDimensionRegExp :: "go_string \<Rightarrow> bool" where
  "quotableDimensionRegExp s \<longleftrightarrow>
    s \<noteq> [] \<and> quotable_char (hd s) \<and> list_all (\<lambda>c. quotable_char c \<or> c = CHR ''.'') (tl s)"

definition DimensionJSONPath :: "go_string \<Rightarrow> go_string res" where
  "DimensionJSONPath dimension =
    (if groupByKeyRegExp dimension then Inr (''$.dimensions.'' @ dimension)
     else if \<not> quotableDimensionRegExp dimension then
       Inl (PermanentError (Leaf (''dimension cannot be expressed as an OpenMeter group-by JSONPath: '' @ dimension)) 0 [])
     else Inr (''$.dimensions.'' @ [CHR 0x22] @ dimension @ [CHR 0x22]))"

type_synonym str_map = "(go_string \<times> go_string) list"

text \<open>One iteration of the loop of \<open>MeterGroupBy\<close>, over the maps \<open>groupBy\<close> and \<open>owner\<close>.\<close>

definition groupBy_step :: "go_string \<Rightarrow> str_map \<times> str_map \<Rightarrow> (str_map \<times> str_map) res" where
  "groupBy_step dim st =
    (let (groupBy, owner) = st in
     if dim = [] then Inl (PermanentError (Leaf ''dimension name must not be empty'') 0 [])
     else
       let key = GroupByKey dim in
       case map_of owner key of
         Some prev \<Rightarrow>
           if prev = dim then Inr (groupBy, owner)
           else Inl (PermanentError (Leaf (''dimensions map to the same OpenMeter group-by key '' @ key)) 0 [])
       | None \<Rightarrow>
           (case DimensionJSONPath dim of
              Inl e \<Rightarrow> Inl e
            | Inr path \<Rightarrow> Inr (AList.update key path groupBy, AList.update key dim owner)))"

definition MeterGroupBy :: "go_string list \<Rightarrow> str_map res" where
  "MeterGroupBy dimensions =
    (case each groupBy_step dimensions ([], []) of
       Inl e \<Rightarrow> Inl e | Inr (groupBy, owner) \<Rightarrow> Inr groupBy)"

section \<open>The key automaton\<close>

lemma key_from_append: "key_from ok s \<Longrightarrow> key_from ok (s @ t) = key_from True t"
  by (induction s arbitrary: ok) (auto split: if_splits)

lemma valid_key_append_segment [key_simps]:
  "valid_key s \<Longrightarrow> valid_key (s @ underscore # t) = valid_key t"
  by (simp add: valid_key_def key_from_append)

lemma valid_key_append_alnum [key_simps]:
  "valid_key s \<or> s = [] \<Longrightarrow> is_alnum c \<Longrightarrow> valid_key (s @ [c])"
  by (auto simp: valid_key_def key_from_append)

lemma key_from_alnum: "list_all is_alnum s \<Longrightarrow> s \<noteq> [] \<or> ok \<Longrightarrow> key_from ok s"
  by (induction s arbitrary: ok) auto

lemma valid_key_alnum [key_simps]: "list_all is_alnum s \<Longrightarrow> s \<noteq> [] \<Longrightarrow> valid_key s"
  by (simp add: valid_key_def key_from_alnum)

lemma key_from_prefix:
  "key_from ok (t @ u) \<Longrightarrow> t \<noteq> [] \<Longrightarrow> last t \<noteq> underscore \<Longrightarrow> key_from ok t"
  by (induction t arbitrary: ok) (auto split: if_splits)

lemma valid_key_hd: "valid_key s \<Longrightarrow> s \<noteq> [] \<and> is_alnum (hd s)"
  by (cases s) (auto simp: valid_key_def split: if_splits)

lemma valid_key_chars: "valid_key s \<Longrightarrow> c \<in> set s \<Longrightarrow> is_alnum c \<or> c = underscore"
proof -
  have "key_from ok s \<Longrightarrow> c \<in> set s \<Longrightarrow> is_alnum c \<or> c = underscore" for ok
    by (induction s arbitrary: ok) (auto split: if_splits)
  then show "valid_key s \<Longrightarrow> c \<in> set s \<Longrightarrow> is_alnum c \<or> c = underscore"
    by (simp add: valid_key_def)
qed

text \<open>Cutting a valid key and dropping the underscores at the cut leaves a valid key.\<close>

lemma valid_key_cut:
  assumes "valid_key s" and "0 < n"
  shows "valid_key (trim_right (\<lambda>c. c = underscore) (take n s))"
proof -
  let ?t = "trim_right (\<lambda>c. c = underscore) (take n s)"
  have hd: "s \<noteq> []" "hd s \<noteq> underscore"
    using valid_key_hd [OF assms(1)] by auto
  then have "take n s \<noteq> []" "hd (take n s) \<noteq> underscore"
    using assms(2) by auto
  then have "\<exists>c \<in> set (rev (take n s)). c \<noteq> underscore"
    by (metis hd_in_set set_rev)
  then have ne: "?t \<noteq> []"
    by (auto simp: trim_right_def)
  have "prefix ?t s"
    using trim_right_prefix take_is_prefix prefix_order.trans by blast
  then obtain u where "s = ?t @ u" by (auto simp: prefix_def)
  moreover have "last ?t \<noteq> underscore"
    using trim_right_last [OF ne] by simp
  ultimately show ?thesis
    using assms(1) ne unfolding valid_key_def by (metis key_from_prefix)
qed

lemma length_cut: "length (trim_right P (take n s)) \<le> n"
  using length_trim_right [of P "take n s"] by simp

lemma hash_suffix_valid:
  assumes "valid_key s" and "0 < n"
  shows "valid_key (s @ underscore # take n (sha256_hex t))"
proof -
  have "list_all is_alnum (take n (sha256_hex t))"
    by (auto simp: list_all_iff dest!: in_set_takeD intro: sha256_hex_alnum)
  moreover have "take n (sha256_hex t) \<noteq> []"
    using assms(2) length_sha256_hex [of t] by (metis less_numeral_extra(3) list.size(3) not_gr_zero take_eq_Nil zero_neq_numeral)
  ultimately show ?thesis
    using assms(1) by (simp add: key_simps)
qed

section \<open>The sanitizing loop\<close>

lemma key_loop_valid:
  "valid_key b \<or> b = [] \<Longrightarrow> valid_key (key_loop rs p b) \<or> key_loop rs p b = []"
proof (induction rs p b rule: key_loop.induct)
  case (1 p b)
  then show ?case by simp
next
  case (2 r rs p b)
  show ?case
  proof (cases "alnum_rune r")
    case True
    then obtain c where c: "r = [c]" "is_alnum c"
      by (auto simp: alnum_rune_def length_Suc_conv)
    then have "valid_key ((if p \<and> b \<noteq> [] then b @ [underscore] else b) @ r)"
      using 2(3) by (auto simp: key_simps valid_key_alnum)
    then show ?thesis using 2(1) True by simp
  next
    case False
    then show ?thesis using 2(2,3) by simp
  qed
qed

lemma alnum_ascii: "is_alnum c \<Longrightarrow> byte c < 128"
  by (auto simp: is_alnum_def is_lower_def is_digit_def)

lemma lower_rune_alnum [simp]: "is_alnum c \<Longrightarrow> lower_rune [c] = [c]"
  by (auto simp: lower_rune_def is_alnum_def is_lower_def is_digit_def is_upper_def)

lemma lower_rune_other:
  "byte c < 128 \<Longrightarrow> \<not> is_upper c \<Longrightarrow> lower_rune [c] = [c]"
  by (auto simp: lower_rune_def)

text \<open>The loop sees a character only through the test for \<^verbatim>\<open>[a-z0-9]\<close>.\<close>

lemma key_loop_cong:
  "list_all2 (\<lambda>r q. alnum_rune r \<and> r = q \<or> \<not> alnum_rune r \<and> \<not> alnum_rune q) rs qs \<Longrightarrow>
   key_loop rs p b = key_loop qs p b"
  by (induction rs qs arbitrary: p b rule: list_all2_induct) auto

lemma key_loop_identity:
  "b \<noteq> [] \<Longrightarrow> key_from True s \<Longrightarrow> key_loop (map (\<lambda>c. [c]) s) False b = b @ s"
  "b \<noteq> [] \<Longrightarrow> key_from False s \<Longrightarrow> key_loop (map (\<lambda>c. [c]) s) True b = b @ underscore # s"
  by (induction s arbitrary: b) (auto simp: alnum_rune_def split: if_splits)

lemma key_loop_valid_key:
  assumes "valid_key s"
  shows "key_loop (map (\<lambda>c. [c]) s) False [] = s"
  using valid_key_hd [OF assms] assms
  by (cases s) (simp_all add: key_loop_identity valid_key_def alnum_rune_def)

section \<open>Encodings onto a key syntax\<close>

text \<open>
  The contract of a function that maps arbitrary names onto a syntax: every result is in
  the syntax, and names already in it are kept. It makes the function idempotent and its
  range exactly the syntax.
\<close>

locale key_encoding =
  fixes enc :: "go_string \<Rightarrow> go_string" and ok :: "go_string \<Rightarrow> bool"
  assumes enc_ok: "ok (enc s)"
    and enc_fixed: "ok s \<Longrightarrow> enc s = s"
begin

lemma enc_idem: "enc (enc s) = enc s"
  by (rule enc_fixed) (rule enc_ok)

lemma enc_range: "range enc = Collect ok"
proof (rule set_eqI)
  show "s \<in> range enc \<longleftrightarrow> s \<in> Collect ok" for s
    using enc_ok enc_fixed by (auto simp: image_iff) metis
qed

lemma enc_collision: "ok s \<Longrightarrow> enc t = s \<Longrightarrow> enc t = enc s"
  using enc_fixed by simp

end

definition slug_syntax :: "go_string \<Rightarrow> bool" where
  "slug_syntax s \<longleftrightarrow> valid_key s \<and> length s \<le> 64"

definition segment_syntax :: "go_string \<Rightarrow> bool" where
  "segment_syntax s \<longleftrightarrow> s = [] \<or> valid_key s"

lemma lower_runes_valid_key:
  assumes "valid_key s"
  shows "lower_runes s = map (\<lambda>c. [c]) s"
proof -
  have ascii: "\<forall>c \<in> set s. byte c < 128 \<and> \<not> is_upper c"
    using valid_key_chars [OF assms] alnum_ascii
    by (fastforce simp: is_alnum_def is_upper_def is_lower_def is_digit_def byte_def)
  then show ?thesis
    by (simp add: lower_runes_def runes_all_ascii lower_rune_other)
qed

lemma key_loop_segment: "segment_syntax (key_loop rs p [])"
  using key_loop_valid [of "[]"] by (auto simp: segment_syntax_def)

lemma MeterSlug_syntax: "slug_syntax (MeterSlug n)"
proof -
  let ?slug = "key_loop (lower_runes n) False []"
  consider "?slug = []" | "valid_key ?slug" "length ?slug \<le> 64" | "valid_key ?slug" "64 < length ?slug"
    using key_loop_segment [of "lower_runes n" False] unfolding segment_syntax_def by linarith
  then show ?thesis
  proof cases
    case 1
    have "valid_key ''meter''"
      by (simp add: valid_key_def is_alnum_def is_lower_def byte_def)
    then have "valid_key (''meter'' @ underscore # take 8 (sha256_hex n))"
      by (rule hash_suffix_valid) simp
    with 1 show ?thesis
      by (simp add: slug_syntax_def MeterSlug_def meterSlugHashLen_def)
  next
    case 2
    then have "?slug \<noteq> []" using valid_key_hd by blast
    with 2 show ?thesis
      by (simp add: slug_syntax_def MeterSlug_def meterSlugMaxLen_def)
  next
    case 3
    let ?cut = "trim_right (\<lambda>c. c = underscore) (take 55 ?slug)"
    have "valid_key ?cut" using 3(1) by (rule valid_key_cut) simp
    then have "valid_key (?cut @ underscore # take 8 (sha256_hex n))"
      by (rule hash_suffix_valid) simp
    moreover have "length ?cut \<le> 55"
      by (rule length_cut)
    moreover have "?slug \<noteq> []" using 3 by auto
    ultimately show ?thesis
      using 3 by (simp add: slug_syntax_def MeterSlug_def meterSlugMaxLen_def meterSlugHashLen_def)
  qed
qed

interpretation slug: key_encoding MeterSlug slug_syntax
proof
  show "slug_syntax (MeterSlug s)" for s
    by (rule MeterSlug_syntax)
  show "slug_syntax s \<Longrightarrow> MeterSlug s = s" for s
    using valid_key_hd
    by (auto simp: slug_syntax_def MeterSlug_def meterSlugMaxLen_def lower_runes_valid_key
        key_loop_valid_key Let_def)
qed

interpretation segment: key_encoding sanitizeKeyPart segment_syntax
proof
  show "segment_syntax (sanitizeKeyPart s)" for s
    unfolding sanitizeKeyPart_def by (rule key_loop_segment)
  show "segment_syntax s \<Longrightarrow> sanitizeKeyPart s = s" for s
    by (auto simp: segment_syntax_def sanitizeKeyPart_def lower_runes_valid_key key_loop_valid_key)
       (simp add: lower_runes_def)
qed

text \<open>
  C40. Every meter name gets a slug OpenMeter accepts (key syntax, at most 64 bytes), a
  name that is such a slug already is its own slug, and slugs are fixed points.
\<close>

theorem MeterSlug_valid:
  "valid_key (MeterSlug n) \<and> length (MeterSlug n) \<le> 64 \<and> MeterSlug (MeterSlug n) = MeterSlug n
   \<and> range MeterSlug = {s. valid_key s \<and> length s \<le> 64}"
  using slug.enc_ok slug.enc_idem slug.enc_range by (simp add: slug_syntax_def [abs_def])

text \<open>
  The mapping the slugs of existing meters were made with: \<^verbatim>\<open>'.'\<close>, \<^verbatim>\<open>'/'\<close> and \<^verbatim>\<open>'-'\<close>
  become underscores, nothing else changes.
\<close>

definition original_slug :: "go_string \<Rightarrow> go_string" where
  "original_slug = map (\<lambda>c. if c \<in> set ''./-'' then underscore else c)"

lemma original_slug_runes:
  assumes "valid_key (original_slug n)"
  shows "list_all2 (\<lambda>r q. alnum_rune r \<and> r = q \<or> \<not> alnum_rune r \<and> \<not> alnum_rune q)
           (lower_runes n) (map (\<lambda>c. [c]) (original_slug n))"
proof -
  have chars: "is_alnum c \<or> c \<in> set ''_./-''" if "c \<in> set n" for c
  proof -
    have "(if c \<in> set ''./-'' then underscore else c) \<in> set (original_slug n)"
      using that by (auto simp: original_slug_def)
    from valid_key_chars [OF assms this] show ?thesis
      by (auto split: if_splits)
  qed
  have "byte c < 128 \<and> \<not> is_upper c" if "c \<in> set n" for c
    using chars [OF that] alnum_ascii [of c]
    by (auto simp: is_alnum_def is_upper_def is_lower_def is_digit_def byte_def)
  then have "lower_runes n = map (\<lambda>c. [c]) n"
    by (simp add: lower_runes_def runes_all_ascii lower_rune_other)
  then show ?thesis
    using chars
    by (auto simp: original_slug_def list_all2_conv_all_nth alnum_rune_def is_alnum_def
        is_lower_def is_digit_def byte_def)
qed

text \<open>
  Meters keep their identity: for every name the original mapping of separators to
  underscores turned into a valid slug of at most 64 bytes, \<open>MeterSlug\<close> is that slug.
\<close>

theorem MeterSlug_original:
  assumes "valid_key (original_slug n)" and "length n \<le> 64"
  shows "MeterSlug n = original_slug n"
proof -
  have "key_loop (lower_runes n) False [] = original_slug n"
    using key_loop_cong [OF original_slug_runes [OF assms(1)]] key_loop_valid_key [OF assms(1)]
    by simp
  moreover have "original_slug n \<noteq> []" "length (original_slug n) \<le> 64"
    using valid_key_hd [OF assms(1)] assms(2) by (auto simp: original_slug_def)
  ultimately show ?thesis
    by (simp add: MeterSlug_def meterSlugMaxLen_def)
qed

theorem MeterSlug_original_witness:
  "MeterSlug ''compute.miloapis.com/instance/cpu-seconds'' = ''compute_miloapis_com_instance_cpu_seconds''"
proof -
  have "MeterSlug ''compute.miloapis.com/instance/cpu-seconds'' =
      original_slug ''compute.miloapis.com/instance/cpu-seconds''"
    by (rule MeterSlug_original) code_simp+
  then show ?thesis by (simp add: original_slug_def)
qed

lemma bounded_key_valid:
  assumes "valid_key readable \<or> readable = [] \<and> valid_key fallback"
  shows "valid_key (boundedKey readable fallback identity)
    \<and> length (boundedKey readable fallback identity) \<le> 64"
proof -
  let ?r = "if readable = [] then fallback else readable"
  have r: "valid_key ?r" using assms valid_key_hd by (auto simp: valid_key_def)
  have len: "length (take 10 (sha256_hex identity)) = 10"
    by simp
  show ?thesis
  proof (cases "53 < length ?r")
    case True
    let ?cut = "trim_right (\<lambda>c. c = underscore) (take 53 ?r)"
    have "valid_key (?cut @ underscore # take 10 (sha256_hex identity))"
      using r by (intro hash_suffix_valid valid_key_cut) simp_all
    moreover have "length ?cut \<le> 53"
      by (rule length_cut)
    ultimately show ?thesis
      using True by (simp add: boundedKey_def openMeterKeyMaxLen_def keyHashLen_def Let_def)
  next
    case False
    have "valid_key (?r @ underscore # take 10 (sha256_hex identity))"
      using r by (intro hash_suffix_valid) simp_all
    then show ?thesis
      using False by (simp add: boundedKey_def openMeterKeyMaxLen_def keyHashLen_def Let_def)
  qed
qed

text \<open>
  A bounded key made from a readable part in key syntax (or from the fallback when
  the readable part is empty) is in key syntax and fits OpenMeter's 64 byte limit,
  however long the readable part is.
\<close>

theorem boundedKey_valid:
  assumes "valid_key readable \<or> readable = [] \<and> valid_key fallback"
  shows "valid_key (boundedKey readable fallback identity)
    \<and> length (boundedKey readable fallback identity) \<le> 64"
  using assms by (rule bounded_key_valid)

theorem boundedKey_valid_witness:
  "valid_key (boundedKey ''setup_fee'' ''flat_fee'' ''setup-fee'')
    \<and> length (boundedKey ''setup_fee'' ''flat_fee'' ''setup-fee'') \<le> 64"
proof (rule boundedKey_valid)
  show "valid_key ''setup_fee'' \<or> ''setup_fee'' = [] \<and> valid_key ''flat_fee''"
    by code_simp
qed

section \<open>Group-by keys are group-by keys\<close>

lemma ident_char_consts [simp]:
  "ident_char CHR ''d''" "ident_char CHR ''i''" "ident_char CHR ''m''" "ident_char underscore"
  "\<not> is_digit CHR ''d''" "\<not> is_digit underscore"
  by (simp_all add: ident_char_def is_lower_def is_digit_def byte_def)

lemma mangled_ident:
  "list_all ident_char
     (concat (map (\<lambda>r. if length r = 1 \<and> ident_char (hd r) then r else [underscore]) rs))"
  by (auto simp: list_all_iff length_Suc_conv split: if_splits)

lemma groupByKeyRegExp_prefixed: "list_all ident_char s \<Longrightarrow> groupByKeyRegExp (dimensionKeyPrefix @ s)"
  by (simp add: groupByKeyRegExp_def dimensionKeyPrefix_def)

lemma GroupByKey_syntax: "groupByKeyRegExp (GroupByKey d)"
proof (cases "groupByKeyRegExp d")
  case True
  then show ?thesis
    using groupByKeyRegExp_prefixed [of d] by (simp add: GroupByKey_def groupByKeyRegExp_def)
next
  case False
  define key where "key = concat (map (\<lambda>r. if length r = 1 \<and> ident_char (hd r) then r else [underscore]) (runes d))"
  have "list_all ident_char key" unfolding key_def by (rule mangled_ident)
  moreover have "GroupByKey d = (if key = [] \<or> is_digit (hd key) then dimensionKeyPrefix @ key else key)"
    using False by (simp add: GroupByKey_def key_def Let_def)
  ultimately show ?thesis
    using groupByKeyRegExp_prefixed [of key] by (simp add: groupByKeyRegExp_def)
qed

lemma GroupByKey_fixed:
  "groupByKeyRegExp d \<Longrightarrow> d \<notin> set reservedGroupByKeys \<Longrightarrow> GroupByKey d = d"
  by (simp add: GroupByKey_def)

text \<open>
  Every dimension gets a group-by key OpenMeter accepts, and a dimension that is one
  already, and not reserved, is its own key, so existing meters and filters are kept.
\<close>

theorem GroupByKey_valid:
  "groupByKeyRegExp (GroupByKey d) \<and>
   (GroupByKey d = d) = (groupByKeyRegExp d \<and> d \<notin> set reservedGroupByKeys)"
proof -
  have "dimensionKeyPrefix @ d \<noteq> d"
    by (simp add: dimensionKeyPrefix_def)
  then have "GroupByKey d = d \<Longrightarrow> groupByKeyRegExp d \<and> d \<notin> set reservedGroupByKeys"
    using GroupByKey_syntax [of d] by (auto simp: GroupByKey_def split: if_splits)
  then show ?thesis
    using GroupByKey_syntax GroupByKey_fixed by blast
qed

text \<open>
  The reserved names are only kept away from dimensions that are valid keys as they
  stand: \<open>customer.id\<close> and \<open>customer-id\<close> get the reserved key \<open>customer_id\<close>.
\<close>

theorem GroupByKey_reserved:
  "GroupByKey ''customer.id'' \<in> set reservedGroupByKeys \<and>
   GroupByKey ''customer-id'' \<in> set reservedGroupByKeys \<and>
   GroupByKey ''customer_id'' \<notin> set reservedGroupByKeys"
  by code_simp

section \<open>MeterGroupBy\<close>

definition dimension_ok :: "go_string \<Rightarrow> bool" where
  "dimension_ok d \<longleftrightarrow> d \<noteq> [] \<and> \<not> isl (DimensionJSONPath d)"

text \<open>What the two maps hold once the dimensions \<open>D\<close> have been folded in.\<close>

definition groupBy_inv :: "go_string set \<Rightarrow> str_map \<times> str_map \<Rightarrow> bool" where
  "groupBy_inv D st \<longleftrightarrow>
    (\<forall>k d. map_of (snd st) k = Some d \<longleftrightarrow> d \<in> D \<and> k = GroupByKey d) \<and>
    (\<forall>k p. map_of (fst st) k = Some p \<longleftrightarrow> (\<exists>d \<in> D. k = GroupByKey d \<and> DimensionJSONPath d = Inr p)) \<and>
    (\<forall>d \<in> D. dimension_ok d)"

lemma groupBy_inv_inj: "groupBy_inv D st \<Longrightarrow> inj_on GroupByKey D"
  unfolding groupBy_inv_def inj_on_def by (metis option.inject)

lemma groupBy_step_ok:
  assumes "groupBy_inv D st" and "groupBy_step d st = Inr st'"
  shows "groupBy_inv (insert d D) st'"
proof -
  obtain g ow where st: "st = (g, ow)" by (cases st)
  have ne: "d \<noteq> []" using assms(2) by (auto simp: groupBy_step_def st)
  show ?thesis
  proof (cases "map_of ow (GroupByKey d)")
    case None
    then obtain p where p: "DimensionJSONPath d = Inr p"
      and st': "st' = (AList.update (GroupByKey d) p g, AList.update (GroupByKey d) d ow)"
      using assms(2) ne by (auto simp: groupBy_step_def st Let_def split: sum.splits)
    have fresh: "GroupByKey e \<noteq> GroupByKey d" if "e \<in> D" for e
      using assms(1) None that unfolding groupBy_inv_def st by (metis option.distinct(1) snd_conv)
    have okd: "dimension_ok d" using ne p by (simp add: dimension_ok_def)
    show ?thesis
      using assms(1) p okd unfolding groupBy_inv_def st' st
      by (auto simp: update_conv split: if_splits dest: fresh)
  next
    case (Some e)
    then have "e = d" "st' = st"
      using assms(2) ne by (auto simp: groupBy_step_def st Let_def split: if_splits)
    moreover have "d \<in> D"
      using assms(1) Some \<open>e = d\<close> unfolding groupBy_inv_def st by (metis snd_conv)
    ultimately show ?thesis using assms(1) by (simp add: insert_absorb)
  qed
qed

lemma groupBy_step_runs:
  assumes "groupBy_inv D st" and "dimension_ok d" and "inj_on GroupByKey (insert d D)"
  shows "\<exists>st'. groupBy_step d st = Inr st'"
proof -
  obtain g ow where st: "st = (g, ow)" by (cases st)
  have "e = d" if "map_of ow (GroupByKey d) = Some e" for e
  proof -
    have "e \<in> D" "GroupByKey d = GroupByKey e"
      using assms(1) that unfolding groupBy_inv_def st by simp_all
    then show ?thesis using assms(3) by (auto dest: inj_onD)
  qed
  then show ?thesis
    using assms(2)
    by (cases "DimensionJSONPath d"; cases "map_of ow (GroupByKey d)")
       (auto simp: groupBy_step_def st dimension_ok_def Let_def)
qed

lemma each_groupBy_ok:
  "groupBy_inv D st \<Longrightarrow> each groupBy_step ds st = Inr st' \<Longrightarrow> groupBy_inv (D \<union> set ds) st'"
proof (induction ds arbitrary: D st)
  case Nil
  then show ?case by simp
next
  case (Cons d ds)
  then obtain u where "groupBy_step d st = Inr u" "each groupBy_step ds u = Inr st'"
    by (auto split: sum.splits)
  then show ?case
    using Cons.IH [of "insert d D" u] groupBy_step_ok [OF Cons.prems(1)] by auto
qed

lemma each_groupBy_runs:
  "groupBy_inv D st \<Longrightarrow> list_all dimension_ok ds \<Longrightarrow> inj_on GroupByKey (D \<union> set ds) \<Longrightarrow>
   \<exists>st'. each groupBy_step ds st = Inr st'"
proof (induction ds arbitrary: D st)
  case Nil
  then show ?case by simp
next
  case (Cons d ds)
  have "inj_on GroupByKey (insert d D)"
    using Cons.prems(3) by (rule inj_on_subset) auto
  then obtain u where u: "groupBy_step d st = Inr u"
    using groupBy_step_runs [OF Cons.prems(1), of d] Cons.prems(2) by auto
  then show ?case
    using Cons.IH [OF groupBy_step_ok [OF Cons.prems(1) u]] Cons.prems by auto
qed

lemma groupBy_inv_empty: "groupBy_inv {} ([], [])"
  by (simp add: groupBy_inv_def)

text \<open>
  \<open>MeterGroupBy\<close> fails exactly when a dimension is empty or has no JSON path, or two
  different dimensions share a group-by key; otherwise its map has one entry per
  dimension, that dimension's key with that dimension's path, and nothing else.
\<close>

theorem MeterGroupBy_correct:
  "case MeterGroupBy ds of
     Inl e \<Rightarrow> \<not> (list_all dimension_ok ds \<and> inj_on GroupByKey (set ds))
   | Inr m \<Rightarrow> list_all dimension_ok ds \<and> inj_on GroupByKey (set ds) \<and>
       (\<forall>k p. (map_of m k = Some p) =
          (\<exists>d. d \<in> set ds \<and> k = GroupByKey d \<and> DimensionJSONPath d = Inr p))"
proof (cases "each groupBy_step ds ([], [])")
  case (Inl e)
  then show ?thesis
    using each_groupBy_runs [OF groupBy_inv_empty, of ds] by (auto simp: MeterGroupBy_def)
next
  case (Inr st)
  then have "groupBy_inv (set ds) st"
    using each_groupBy_ok [OF groupBy_inv_empty Inr] by simp
  then show ?thesis
    using groupBy_inv_inj Inr
    by (cases st) (auto simp: MeterGroupBy_def groupBy_inv_def list_all_iff Bex_def)
qed

end
