(* ===== verification/Decimals.thy ===== *)
theory Decimals
  imports Complex_Main OmErrors
begin

text \<open>
  Money in decimal strings (\<open>internal/openmeter/fixedcharges.go\<close>): parsing, exact sums,
  products and differences, and percentage discounts rounded to the cent.

  \<open>math/big.Rat\<close> is \<^typ>\<open>rat\<close>. \<open>rat_SetString\<close> is \<open>Rat.SetString\<close> on the syntax of
  decimal numbers: a sign, digits with at most one point, an exponent. The other syntaxes
  \<open>big.Rat\<close> reads (fractions \<open>a/b\<close>, base prefixes, digit separators, binary exponents)
  are not amounts and are outside the model, which rejects them. \<open>float_string\<close> is
  \<open>Rat.FloatString\<close>: a fixed number of places, halves rounded away from zero.
\<close>

section \<open>Decimal syntax\<close>

fun scan_mantissa :: "go_string \<Rightarrow> bool \<Rightarrow> int \<Rightarrow> nat \<Rightarrow> nat \<Rightarrow> int \<times> nat \<times> nat \<times> go_string" where
  "scan_mantissa [] dot v n f = (v, n, f, [])"
| "scan_mantissa (c # s) dot v n f =
    (if c = CHR ''.'' \<and> \<not> dot then scan_mantissa s True v n f
     else if is_digit c then
       scan_mantissa s dot (10 * v + int (byte c - 48)) (Suc n) (if dot then Suc f else f)
     else (v, n, f, c # s))"

fun scan_exponent :: "go_string \<Rightarrow> int option" where
  "scan_exponent [] = Some 0"
| "scan_exponent (c # s) = (if c = CHR ''e'' \<or> c = CHR ''E'' then atoi s else None)"

definition pow10 :: "int \<Rightarrow> rat" where
  "pow10 k = (if 0 \<le> k then 10 ^ nat k else 1 / 10 ^ nat (- k))"

definition rat_SetString :: "go_string \<Rightarrow> rat option" where
  "rat_SetString s =
    (let neg = (s \<noteq> [] \<and> hd s = CHR ''-'');
         m = (if s \<noteq> [] \<and> (hd s = CHR ''-'' \<or> hd s = CHR ''+'') then tl s else s);
         (v, n, f, rest) = scan_mantissa m False 0 0 0
     in if n = 0 then None
        else case scan_exponent rest of None \<Rightarrow> None
             | Some e \<Rightarrow>
                 (let k = e - int f in
                  if v = 0 then Some 0
                  else if 1000000 < \<bar>k\<bar> then None
                  else Some ((if neg then -1 else 1) * of_int v * pow10 k)))"

fun fixed_digits :: "nat \<Rightarrow> nat \<Rightarrow> go_string" where
  "fixed_digits 0 m = []"
| "fixed_digits (Suc k) m = fixed_digits k (m div 10) @ [char_of (48 + m mod 10)]"

definition round_half_up :: "rat \<Rightarrow> nat" where
  "round_half_up x = nat \<lfloor>x + 1 / 2\<rfloor>"

definition float_string :: "nat \<Rightarrow> rat \<Rightarrow> go_string" where
  "float_string prec x =
    (let m = round_half_up (\<bar>x\<bar> * 10 ^ prec)
     in (if x < 0 then ''-'' else []) @ nat_digits (m div 10 ^ prec)
        @ (if 0 < prec then ''.'' @ fixed_digits prec (m mod 10 ^ prec) else []))"

section \<open>Operations\<close>

definition decimal_scale :: "go_string \<Rightarrow> nat" where
  "decimal_scale s = length (tl (dropWhile (\<lambda>c. c \<noteq> CHR ''.'') s))"

definition parseDecimal :: "go_string \<Rightarrow> (rat \<times> nat) res" where
  "parseDecimal s =
    (let s = trim_space s in
     if s = [] then Inr (0, 0)
     else case rat_SetString s of
       None \<Rightarrow> Inl (Leaf (''invalid decimal '' @ s))
     | Some r \<Rightarrow> Inr (r, decimal_scale s))"

definition DiscountedAmount :: "go_string \<Rightarrow> int \<Rightarrow> go_string res" where
  "DiscountedAmount amount percentage =
    (case parseDecimal amount of
       Inl e \<Rightarrow> Inl e
     | Inr (r, _) \<Rightarrow>
        if percentage < 0 \<or> percentage > 100 then
          Inl (Leaf ''discount percentage must be between 0 and 100'')
        else
          (let r = r * (of_int (100 - percentage) / 100);
               cents = r * 100;
               (n, d) = quotient_of cents;
               q = sgn n * (\<bar>n\<bar> div d);
               m = \<bar>n\<bar> mod d;
               q = (if d \<le> m * 2 then (if n < 0 then q - 1 else q + 1) else q)
           in Inr (float_string 2 (of_int q / 100))))"

definition MultiplyAmount :: "go_string \<Rightarrow> int \<Rightarrow> go_string res" where
  "MultiplyAmount amount quantity =
    (if quantity < 1 then Inl (Leaf ''quantity must be at least 1'')
     else case parseDecimal amount of
       Inl e \<Rightarrow> Inl e
     | Inr (r, scale) \<Rightarrow> Inr (float_string scale (r * of_int quantity)))"

definition AddDecimals :: "go_string list \<Rightarrow> go_string res" where
  "AddDecimals values =
    (case each (\<lambda>v (acc, scale).
           (case parseDecimal v of
              Inl e \<Rightarrow> Inl e
            | Inr (r, s) \<Rightarrow> Inr (acc + r, max scale s))) values (0, 0) of
       Inl e \<Rightarrow> Inl e
     | Inr (acc, scale) \<Rightarrow> Inr (float_string scale acc))"

definition IsZeroDecimal :: "go_string \<Rightarrow> bool res" where
  "IsZeroDecimal value =
    (case parseDecimal value of Inl e \<Rightarrow> Inl e | Inr (r, _) \<Rightarrow> Inr (r = 0))"

definition subtractDecimal :: "go_string \<Rightarrow> go_string \<Rightarrow> go_string res" where
  "subtractDecimal a b =
    (case parseDecimal a of Inl e \<Rightarrow> Inl e
     | Inr (ra, scaleA) \<Rightarrow>
        (case parseDecimal b of Inl e \<Rightarrow> Inl e
         | Inr (rb, scaleB) \<Rightarrow> Inr (float_string (max scaleA scaleB) (ra - rb))))"

record invoice_totals =
  total :: go_string
  taxes_exclusive_total :: go_string

definition AmountBeforeTax :: "invoice_totals \<Rightarrow> go_string res" where
  "AmountBeforeTax t = subtractDecimal (total t) (taxes_exclusive_total t)"

section \<open>Printing and reading back\<close>

definition scaled :: "nat \<Rightarrow> rat \<Rightarrow> bool" where
  "scaled k x \<longleftrightarrow> x * 10 ^ k \<in> \<int>"

lemma digit_char [simp]:
  "n < 10 \<Longrightarrow> is_digit (char_of (48 + n))" "n < 10 \<Longrightarrow> byte (char_of (48 + n)) = 48 + n"
  by (simp_all add: is_digit_def)

lemma is_digit_distinct [simp]:
  "is_digit c \<Longrightarrow> c \<noteq> CHR ''.''" "is_digit c \<Longrightarrow> c \<noteq> CHR ''-''" "is_digit c \<Longrightarrow> c \<noteq> CHR ''+''"
  by (auto simp: is_digit_def byte_def)

definition digit_step :: "int \<Rightarrow> char \<Rightarrow> int" where
  "digit_step v c = 10 * v + int (byte c - 48)"

lemma digit_step_char [simp]: "n < 10 \<Longrightarrow> digit_step v (char_of (48 + n)) = 10 * v + int n"
  by (simp add: digit_step_def)

lemma nat_digits_digit: "list_all is_digit (nat_digits n)"
  by (induction n rule: nat_digits.induct) (subst nat_digits.simps, simp)

lemma nat_digits_nonempty [simp]: "nat_digits n \<noteq> []"
  by (subst nat_digits.simps) simp

lemma fixed_digits_digit: "list_all is_digit (fixed_digits k m)"
  by (induction k arbitrary: m) simp_all

lemma length_fixed_digits [simp]: "length (fixed_digits k m) = k"
  by (induction k arbitrary: m) simp_all

lemma nat_digits_value: "foldl digit_step 0 (nat_digits n) = int n"
proof (induction n rule: nat_digits.induct)
  case (1 n)
  show ?case
  proof (cases "n < 10")
    case True
    then show ?thesis by (simp add: nat_digits.simps [of n])
  next
    case False
    with 1 have "foldl digit_step 0 (nat_digits n) = 10 * int (n div 10) + int (n mod 10)"
      by (simp add: nat_digits.simps [of n])
    then show ?thesis by presburger
  qed
qed

lemma fixed_digits_value: "foldl digit_step v (fixed_digits k m) = v * 10 ^ k + int (m mod 10 ^ k)"
proof (induction k arbitrary: m)
  case 0
  then show ?case by simp
next
  case (Suc k)
  have "m mod 10 ^ Suc k = 10 * (m div 10 mod 10 ^ k) + m mod 10"
    by (metis mod_mult2_eq power_Suc)
  then show ?case by (simp add: Suc algebra_simps)
qed

lemma scan_digits:
  "list_all is_digit ds \<Longrightarrow>
   scan_mantissa (ds @ s) dot v n f =
     scan_mantissa s dot (foldl digit_step v ds) (n + length ds) (if dot then f + length ds else f)"
  by (induction ds arbitrary: v n f) (auto simp: digit_step_def)

lemma scan_float:
  assumes "0 < prec"
  shows "scan_mantissa (nat_digits (m div 10 ^ prec) @ CHR ''.'' # fixed_digits prec (m mod 10 ^ prec))
      False 0 0 0 = (int m, length (nat_digits (m div 10 ^ prec)) + prec, prec, [])"
proof -
  have "scan_mantissa (fixed_digits prec (m mod 10 ^ prec) @ []) True v n 0 =
      (v * 10 ^ prec + int (m mod 10 ^ prec), n + prec, prec, [])" for v n
    by (subst scan_digits [OF fixed_digits_digit]) (simp add: fixed_digits_value)
  then show ?thesis
    by (simp add: scan_digits [OF nat_digits_digit] nat_digits_value flip: of_nat_mult of_nat_power of_nat_add)
       (metis div_mult_mod_eq of_nat_add of_nat_mult of_nat_numeral of_nat_power zmod_int zdiv_int)
qed

lemma scan_integer:
  "scan_mantissa (nat_digits m) False 0 0 0 = (int m, length (nat_digits m), 0, [])"
  using scan_digits [OF nat_digits_digit, of m "[]" False 0 0 0] by (simp add: nat_digits_value)

lemma pow10_neg: "pow10 (- int k) = 1 / 10 ^ k"
  by (simp add: pow10_def)

lemma rat_SetString_float_string:
  assumes "prec \<le> 1000000"
  shows "rat_SetString (float_string prec x) =
    Some ((if x < 0 then -1 else 1) * of_nat (round_half_up (\<bar>x\<bar> * 10 ^ prec)) / 10 ^ prec)"
proof -
  define m where "m = round_half_up (\<bar>x\<bar> * 10 ^ prec)"
  define body where "body = nat_digits (m div 10 ^ prec)
        @ (if 0 < prec then ''.'' @ fixed_digits prec (m mod 10 ^ prec) else [])"
  have fs: "float_string prec x = (if x < 0 then ''-'' else []) @ body"
    by (simp add: float_string_def m_def body_def Let_def)
  have scan: "\<exists>n. 0 < n \<and> scan_mantissa body False 0 0 0 = (int m, n, prec, [])"
  proof (cases "0 < prec")
    case True
    then show ?thesis by (simp add: body_def scan_float)
  next
    case False
    then show ?thesis by (simp add: body_def scan_integer)
  qed
  obtain c t where ct: "nat_digits (m div 10 ^ prec) = c # t" "is_digit c"
    using nat_digits_digit [of "m div 10 ^ prec"] nat_digits_nonempty [of "m div 10 ^ prec"]
    by (metis list.exhaust list.pred_inject(2))
  then have "hd body = c" "body \<noteq> []" by (auto simp: body_def)
  then show ?thesis
    using scan ct(2) assms unfolding fs m_def [symmetric]
    by (auto simp: rat_SetString_def pow10_neg Let_def)
qed

lemma float_string_chars:
  "c \<in> set (float_string prec x) \<Longrightarrow> is_digit c \<or> c = CHR ''-'' \<or> c = CHR ''.''"
  using nat_digits_digit fixed_digits_digit
  by (auto simp: float_string_def Let_def list_all_iff split: if_splits)

lemma trim_space_id:
  assumes "\<And>c. c \<in> set s \<Longrightarrow> byte c < 128 \<and> \<not> is_space c"
  shows "trim_space s = s"
proof -
  have r: "runes s = map (\<lambda>c. [c]) s"
    using assms by (intro runes_all_ascii) simp
  have "\<not> is_space_rune r" if "r \<in> set (runes s)" for r
    using assms that by (auto simp: r is_space_rune_def byte_def)
  then have "dropWhile is_space_rune (runes s) = runes s"
    "dropWhile is_space_rune (rev (runes s)) = rev (runes s)"
    by (metis dropWhile_eq_self_iff hd_in_set set_rev)+
  then show ?thesis by (simp add: trim_space_def)
qed

lemma trim_space_float_string [simp]: "trim_space (float_string prec x) = float_string prec x"
proof (rule trim_space_id)
  show "byte c < 128 \<and> \<not> is_space c" if "c \<in> set (float_string prec x)" for c
    using float_string_chars [OF that] by (auto simp: is_digit_def is_space_def byte_def)
qed

lemma dropWhile_digits:
  "list_all is_digit ds \<Longrightarrow> dropWhile (\<lambda>c. c \<noteq> CHR ''.'') (ds @ s) = dropWhile (\<lambda>c. c \<noteq> CHR ''.'') s"
  by (induction ds) auto

lemma decimal_scale_float_string [simp]: "decimal_scale (float_string prec x) = prec"
  using nat_digits_digit
  by (auto simp: decimal_scale_def float_string_def Let_def dropWhile_digits
      dropWhile_digits [where s = "[]", simplified])

lemma float_string_nonempty [simp]: "float_string prec x \<noteq> []"
  by (simp add: float_string_def Let_def)

text \<open>Reading back a printed value: what was printed, rounded to the places printed.\<close>

definition rounded :: "nat \<Rightarrow> rat \<Rightarrow> rat" where
  "rounded k x = (if x < 0 then -1 else 1) * of_nat (round_half_up (\<bar>x\<bar> * 10 ^ k)) / 10 ^ k"

lemma parseDecimal_float_string [simp]:
  "prec \<le> 1000000 \<Longrightarrow> parseDecimal (float_string prec x) = Inr (rounded prec x, prec)"
  by (simp add: parseDecimal_def rat_SetString_float_string rounded_def)

lemma rounded_scaled:
  assumes "scaled k x"
  shows "rounded k x = x"
proof -
  from assms obtain z where z: "x * 10 ^ k = of_int z" by (auto simp: scaled_def elim: Ints_cases)
  then have "\<bar>x\<bar> * 10 ^ k = of_int \<bar>z\<bar>"
    by (metis abs_mult abs_numeral of_int_abs power_abs)
  moreover have "\<lfloor>of_int \<bar>z\<bar> + 1 / 2 :: rat\<rfloor> = \<bar>z\<bar>"
    by (rule floor_unique) simp_all
  ultimately have "of_nat (round_half_up (\<bar>x\<bar> * 10 ^ k)) = \<bar>x\<bar> * 10 ^ k"
    unfolding round_half_up_def by simp
  then show ?thesis by (simp add: rounded_def)
qed

section \<open>Exactness\<close>

lemma scaled_mono: "scaled k x \<Longrightarrow> k \<le> l \<Longrightarrow> scaled l x"
proof -
  assume "scaled k x" "k \<le> l"
  then obtain z where "x * 10 ^ k = of_int z" by (auto simp: scaled_def elim: Ints_cases)
  moreover have "x * 10 ^ l = x * 10 ^ k * 10 ^ (l - k)"
    using \<open>k \<le> l\<close> by (simp add: mult.assoc flip: power_add)
  ultimately show ?thesis by (simp add: scaled_def)
qed

lemma scaled_add [intro]: "scaled k x \<Longrightarrow> scaled k y \<Longrightarrow> scaled k (x + y)"
  by (simp add: scaled_def distrib_right)

lemma scaled_diff [intro]: "scaled k x \<Longrightarrow> scaled k y \<Longrightarrow> scaled k (x - y)"
  by (simp add: scaled_def left_diff_distrib)

lemma scaled_mult_int [intro]: "scaled k x \<Longrightarrow> scaled k (x * of_int n)"
  using Ints_mult [of "x * 10 ^ k" "of_int n"] by (simp add: scaled_def mult.assoc mult.commute [of "10 ^ k"])

text \<open>An amount written without an exponent: its scale is its number of places.\<close>

definition plain :: "go_string \<Rightarrow> bool" where
  "plain s \<longleftrightarrow> CHR ''e'' \<notin> set s \<and> CHR ''E'' \<notin> set s \<and> length s \<le> 1000000"

lemma scan_mantissa_places:
  "scan_mantissa s dot v n f = (v', n', f', []) \<Longrightarrow>
   f' = f + (if dot then length s else decimal_scale s)"
  by (induction s dot v n f rule: scan_mantissa.induct) (auto simp: decimal_scale_def split: if_splits)

lemma scan_mantissa_rest:
  "scan_mantissa s dot v n f = (v', n', f', rest) \<Longrightarrow> set rest \<subseteq> set s"
  by (induction s dot v n f rule: scan_mantissa.induct) (auto split: if_splits)

lemma rat_SetString_scaled:
  assumes "rat_SetString s = Some r" and "CHR ''e'' \<notin> set s" "CHR ''E'' \<notin> set s"
  shows "scaled (decimal_scale s) r"
proof -
  let ?m = "if s \<noteq> [] \<and> (hd s = CHR ''-'' \<or> hd s = CHR ''+'') then tl s else s"
  obtain v n f rest where scan: "scan_mantissa ?m False 0 0 0 = (v, n, f, rest)"
    by (metis prod_cases4)
  have sub: "set ?m \<subseteq> set s" by (cases s) auto
  then have "rest = []"
    using assms scan scan_mantissa_rest [OF scan]
    by (cases rest) (auto simp: rat_SetString_def Let_def split: if_splits option.splits)
  then have f: "f = decimal_scale ?m"
    using scan_mantissa_places scan by fastforce
  have "decimal_scale ?m = decimal_scale s"
    by (cases s) (auto simp: decimal_scale_def)
  moreover have "r = 0 \<or> (\<exists>z. r = of_int z / 10 ^ f)"
    using assms(1) scan \<open>rest = []\<close>
    by (auto simp: rat_SetString_def Let_def pow10_neg split: if_splits) (metis of_int_minus minus_divide_left)
  ultimately show ?thesis
    using f by (auto simp: scaled_def)
qed

lemma trim_space_split: "\<exists>a b. s = a @ trim_space s @ b"
proof -
  let ?D = "dropWhile is_space_rune (runes s)"
  have "rev ?D = takeWhile is_space_rune (rev ?D) @ dropWhile is_space_rune (rev ?D)"
    by simp
  then have "?D = rev (dropWhile is_space_rune (rev ?D)) @ rev (takeWhile is_space_rune (rev ?D))"
    by (metis rev_append rev_rev_ident)
  then have "runes s = takeWhile is_space_rune (runes s)
      @ rev (dropWhile is_space_rune (rev ?D)) @ rev (takeWhile is_space_rune (rev ?D))"
    by (metis takeWhile_dropWhile_id)
  then have "concat (runes s) = concat (takeWhile is_space_rune (runes s)) @ trim_space s
      @ concat (rev (takeWhile is_space_rune (rev ?D)))"
    unfolding trim_space_def by (metis concat_append)
  then show ?thesis by auto
qed

lemma set_trim_space: "set (trim_space s) \<subseteq> set s"
  using trim_space_split [of s] by (metis Un_upper1 Un_upper2 le_supI2 set_append)

lemma length_trim_space: "length (trim_space s) \<le> length s"
  using trim_space_split [of s] by (metis le_add1 le_add2 length_append le_trans)

lemma decimal_scale_le: "decimal_scale s \<le> length s"
  using length_dropWhile_le [of "\<lambda>c. c \<noteq> CHR ''.''" s] by (simp add: decimal_scale_def)

lemma parseDecimal_plain:
  assumes "plain s" and "parseDecimal s = Inr (r, k)"
  shows "scaled k r \<and> k \<le> 1000000"
proof (cases "trim_space s = []")
  case True
  then show ?thesis using assms by (auto simp: parseDecimal_def scaled_def)
next
  case False
  then have r: "rat_SetString (trim_space s) = Some r" and k: "k = decimal_scale (trim_space s)"
    using assms(2) by (auto simp: parseDecimal_def Let_def split: option.splits)
  have "k \<le> length s"
    using decimal_scale_le length_trim_space k le_trans by blast
  moreover have "scaled k r"
    unfolding k using assms(1) set_trim_space [of s] by (intro rat_SetString_scaled [OF r]) (auto simp: plain_def)
  ultimately show ?thesis using assms(1) by (simp add: plain_def)
qed

lemma reread:
  "scaled k x \<Longrightarrow> k \<le> 1000000 \<Longrightarrow> parseDecimal (float_string k x) = Inr (x, k)"
  by (simp add: rounded_scaled)

lemma multiply_amount:
  assumes "plain amount" and "parseDecimal amount = Inr (r, k)" and "1 \<le> quantity"
  shows "\<exists>s. MultiplyAmount amount quantity = Inr s \<and> parseDecimal s = Inr (r * of_int quantity, k)"
  using parseDecimal_plain [OF assms(1,2)] assms
  by (simp add: MultiplyAmount_def reread scaled_mult_int del: parseDecimal_float_string)

text \<open>
  A fee charged several times is exact: for an amount written without an exponent,
  \<open>MultiplyAmount\<close> gives a decimal that reads back as amount times quantity, with the
  places the amount had.
\<close>

theorem MultiplyAmount_exact:
  assumes "plain amount" and "parseDecimal amount = Inr (r, k)" and "1 \<le> quantity"
  shows "\<exists>s. MultiplyAmount amount quantity = Inr s \<and> parseDecimal s = Inr (r * of_int quantity, k)"
  using assms by (rule multiply_amount)

theorem MultiplyAmount_exact_witness:
  "\<exists>s. MultiplyAmount ''300.00'' 4 = Inr s \<and> parseDecimal s = Inr (300 * of_int 4, 2)"
  by (rule MultiplyAmount_exact) (simp add: plain_def, code_simp, simp)

section \<open>Rounding to the cent\<close>

text \<open>The quotient of the source, truncated and then moved away from zero on halves.\<close>

lemma round_away:
  fixes n d :: int
  assumes "0 < d"
  defines "q \<equiv> sgn n * (\<bar>n\<bar> div d)" and "m \<equiv> \<bar>n\<bar> mod d"
  defines "q' \<equiv> (if d \<le> m * 2 then (if n < 0 then q - 1 else q + 1) else q)"
  shows "\<bar>of_int q' - of_int n / of_int d\<bar> \<le> (1 / 2 :: rat)" and "0 \<le> n \<Longrightarrow> 0 \<le> q'" and "n \<le> 0 \<Longrightarrow> q' \<le> 0"
proof -
  have n: "\<bar>n\<bar> = d * (\<bar>n\<bar> div d) + m" and m: "0 \<le> m" "m < d"
    using assms(1) by (simp_all add: m_def)
  define Q where "Q = \<bar>n\<bar> div d"
  have Q0: "0 \<le> Q"
    using assms(1) by (simp add: Q_def pos_imp_zdiv_nonneg_iff)
  have "of_int \<bar>n\<bar> = (of_int d * of_int Q + of_int m :: rat)"
    using n unfolding Q_def by (metis of_int_add of_int_mult)
  then have Q: "of_int \<bar>n\<bar> / of_int d = (of_int Q + of_int m / of_int d :: rat)"
    using assms(1) by (simp add: field_simps)
  have frac: "0 \<le> (of_int m / of_int d :: rat)" "(of_int m / of_int d :: rat) < 1"
    using m assms(1) by simp_all
  have "d \<le> m * 2 \<longleftrightarrow> (of_int d :: rat) \<le> of_int m * 2"
    by (metis of_int_le_iff of_int_mult of_int_numeral)
  then have half: "d \<le> m * 2 \<longleftrightarrow> (1 / 2 :: rat) \<le> of_int m / of_int d"
    using assms(1) by (simp add: field_simps)
  show "\<bar>of_int q' - of_int n / of_int d\<bar> \<le> (1 / 2 :: rat)"
  proof (cases "n < 0")
    case True
    then have "of_int n / of_int d = - (of_int Q + of_int m / of_int d :: rat)" "q = - Q"
      using Q by (simp_all add: q_def Q_def)
    then show ?thesis using True half frac unfolding q'_def by (auto simp: abs_if)
  next
    case False
    then have "of_int n / of_int d = (of_int Q + of_int m / of_int d :: rat)" "q = Q"
      using Q by (auto simp: q_def Q_def sgn_if)
    then show ?thesis using False half frac unfolding q'_def by (auto simp: abs_if)
  qed
  show "0 \<le> n \<Longrightarrow> 0 \<le> q'" and "n \<le> 0 \<Longrightarrow> q' \<le> 0"
    using Q0 assms(1) m_def unfolding q'_def q_def Q_def [symmetric] by (auto simp: sgn_if)
qed

lemma cents_scaled: "scaled 2 (of_int q / 100)"
  by (simp add: scaled_def)

text \<open>
  A discounted fee is right to the cent: for a percentage between 0 and 100 the
  result reads back as a whole number of cents within half a cent of the exact
  discounted amount, and a fee never changes its sign; any other percentage is an error.
\<close>

theorem DiscountedAmount_to_the_cent:
  assumes "parseDecimal amount = Inr (r, k)"
  shows "case DiscountedAmount amount percentage of
      Inl e \<Rightarrow> percentage < 0 \<or> 100 < percentage
    | Inr s \<Rightarrow> 0 \<le> percentage \<and> percentage \<le> 100 \<and>
        (\<exists>v. parseDecimal s = Inr (v, 2) \<and> scaled 2 v
           \<and> \<bar>v - r * of_int (100 - percentage) / 100\<bar> \<le> 1 / 200
           \<and> (0 \<le> r \<longrightarrow> 0 \<le> v) \<and> (r \<le> 0 \<longrightarrow> v \<le> 0))"
proof (cases "percentage < 0 \<or> 100 < percentage")
  case True
  then show ?thesis using assms by (auto simp: DiscountedAmount_def)
next
  case False
  define cents where "cents = r * (of_int (100 - percentage) / 100) * 100"
  obtain n d where nd: "quotient_of cents = (n, d)" by (cases "quotient_of cents")
  have d: "0 < d" and c: "cents = of_int n / of_int d"
    using quotient_of_denom_pos [OF nd] quotient_of_div [OF nd] by simp_all
  define q where "q = sgn n * (\<bar>n\<bar> div d)"
  define q' where "q' = (if d \<le> \<bar>n\<bar> mod d * 2 then (if n < 0 then q - 1 else q + 1) else q)"
  note round = round_away [OF d, of n, folded q_def, folded q'_def]
  have res: "DiscountedAmount amount percentage = Inr (float_string 2 (of_int q' / 100))"
    using assms False nd
    by (simp add: DiscountedAmount_def Let_def cents_def q'_def q_def)
  have read: "parseDecimal (float_string 2 (of_int q' / 100)) = Inr (of_int q' / 100, 2)"
    by (rule reread [OF cents_scaled]) simp
  have "\<bar>of_int q' / 100 - r * of_int (100 - percentage) / 100\<bar> \<le> 1 / 200"
  proof -
    have "of_int q' / 100 - r * of_int (100 - percentage) / 100 = (of_int q' - cents) / 100"
      by (simp add: cents_def diff_divide_distrib)
    moreover have "\<bar>(of_int q' - cents) / 100\<bar> = \<bar>of_int q' - cents\<bar> / 100"
      by (simp only: abs_divide abs_numeral)
    moreover have "\<bar>of_int q' - cents\<bar> \<le> 1 / 2"
      using round(1) c by simp
    ultimately have "\<bar>of_int q' / 100 - r * of_int (100 - percentage) / 100\<bar> \<le> (1 / 2) / 100"
      by (metis divide_right_mono zero_le_numeral)
    then show ?thesis by simp
  qed
  moreover have "0 \<le> r \<Longrightarrow> 0 \<le> n" "r \<le> 0 \<Longrightarrow> n \<le> 0"
  proof -
    have "0 \<le> cents" if "0 \<le> r" using that False by (simp add: cents_def)
    then show "0 \<le> r \<Longrightarrow> 0 \<le> n" using c d by (simp add: zero_le_divide_iff)
    have "cents \<le> 0" if "r \<le> 0"
      using that False by (simp add: cents_def mult_nonpos_nonneg)
    then show "r \<le> 0 \<Longrightarrow> n \<le> 0" using c d by (simp add: divide_le_0_iff)
  qed
  ultimately have "parseDecimal (float_string 2 (of_int q' / 100)) = Inr (of_int q' / 100, 2)
      \<and> scaled 2 (of_int q' / 100)
      \<and> \<bar>of_int q' / 100 - r * of_int (100 - percentage) / 100\<bar> \<le> 1 / 200
      \<and> (0 \<le> r \<longrightarrow> 0 \<le> (of_int q' / 100 :: rat)) \<and> (r \<le> 0 \<longrightarrow> (of_int q' / 100 :: rat) \<le> 0)"
    using round(2,3) read cents_scaled by simp
  then show ?thesis
    using False unfolding res sum.case not_less de_Morgan_disj by blast
qed

theorem DiscountedAmount_to_the_cent_witness:
  "parseDecimal ''19.99'' = Inr (1999 / 100, 2) \<and>
   (case DiscountedAmount ''19.99'' 15 of
      Inl e \<Rightarrow> (15 :: int) < 0 \<or> 100 < (15 :: int)
    | Inr s \<Rightarrow> (0 :: int) \<le> 15 \<and> (15 :: int) \<le> 100 \<and>
        (\<exists>v. parseDecimal s = Inr (v, 2) \<and> scaled 2 v
           \<and> \<bar>v - 1999 / 100 * of_int (100 - 15) / 100\<bar> \<le> 1 / 200
           \<and> (0 \<le> (1999 / 100 :: rat) \<longrightarrow> 0 \<le> v) \<and> ((1999 / 100 :: rat) \<le> 0 \<longrightarrow> v \<le> 0)))"
proof -
  have "parseDecimal ''19.99'' = Inr (1999 / 100, 2)" by code_simp
  then show ?thesis using DiscountedAmount_to_the_cent [of "''19.99''" "1999 / 100" 2 15] by blast
qed

section \<open>Sums and differences\<close>

lemma AddDecimals_each:
  assumes "list_all plain vs" and "\<And>v. v \<in> set vs \<Longrightarrow> \<not> isl (parseDecimal v)"
    and "scaled k a" and "k \<le> 1000000"
  shows "\<exists>k'. each (\<lambda>v (acc, scale). (case parseDecimal v of Inl e \<Rightarrow> Inl e
            | Inr (r, s) \<Rightarrow> Inr (acc + r, max scale s))) vs (a, k) =
          Inr (a + (\<Sum>v\<leftarrow>vs. fst (projr (parseDecimal v))), k')
        \<and> scaled k' (a + (\<Sum>v\<leftarrow>vs. fst (projr (parseDecimal v)))) \<and> k' \<le> 1000000"
  using assms
proof (induction vs arbitrary: a k)
  case Nil
  then show ?case by auto
next
  case (Cons v vs)
  obtain r s where v: "parseDecimal v = Inr (r, s)"
    using Cons.prems(2) [of v] by (cases "parseDecimal v") auto
  have sc: "scaled s r" "s \<le> 1000000"
    using parseDecimal_plain [OF _ v] Cons.prems(1) by auto
  have "scaled (max k s) (a + r)"
    using scaled_mono [OF Cons.prems(3)] scaled_mono [OF sc(1)] by (intro scaled_add) simp_all
  moreover have "max k s \<le> 1000000" using sc Cons.prems(4) by simp
  ultimately show ?case
    using Cons.IH [of "max k s" "a + r"] Cons.prems(1,2) v by (auto simp: add.assoc)
qed

text \<open>
  A sum of decimals is exact: when every value is a decimal without exponent,
  \<open>AddDecimals\<close> gives a string that reads back as the sum of the values.
\<close>

theorem AddDecimals_exact:
  assumes "list_all plain vs" and "list_all (\<lambda>v. \<not> isl (parseDecimal v)) vs"
  shows "\<exists>s k. AddDecimals vs = Inr s \<and>
           parseDecimal s = Inr (\<Sum>v\<leftarrow>vs. fst (projr (parseDecimal v)), k)"
proof -
  have "scaled 0 0" by (simp add: scaled_def)
  from AddDecimals_each [OF assms(1) _ this] assms(2) obtain k where
    "AddDecimals vs = Inr (float_string k (\<Sum>v\<leftarrow>vs. fst (projr (parseDecimal v))))"
    "scaled k (\<Sum>v\<leftarrow>vs. fst (projr (parseDecimal v)))" "k \<le> 1000000"
    by (fastforce simp: AddDecimals_def list_all_iff)
  then show ?thesis using reread by blast
qed

theorem AddDecimals_exact_witness:
  "\<exists>s k. AddDecimals [''10.5'', [], ''0.25''] = Inr s \<and>
      parseDecimal s = Inr (\<Sum>v\<leftarrow>[''10.5'', [], ''0.25'']. fst (projr (parseDecimal v)), k)"
proof (rule AddDecimals_exact)
  show "list_all plain [''10.5'', [], ''0.25'']" by (simp add: plain_def)
  show "list_all (\<lambda>v. \<not> isl (parseDecimal v)) [''10.5'', [], ''0.25'']" by code_simp
qed

text \<open>
  The amount before tax and the tax make up the total: reading back
  \<open>AmountBeforeTax\<close> and adding the exclusive taxes gives exactly the invoice total.
\<close>

theorem AmountBeforeTax_exact:
  assumes "plain (total t)" and "parseDecimal (total t) = Inr (a, k)"
    and "plain (taxes_exclusive_total t)" and "parseDecimal (taxes_exclusive_total t) = Inr (b, l)"
  shows "\<exists>s x. AmountBeforeTax t = Inr s \<and> parseDecimal s = Inr (x, max k l) \<and> x + b = a"
proof -
  have "scaled (max k l) (a - b)" "max k l \<le> 1000000"
    using parseDecimal_plain [OF assms(1,2)] parseDecimal_plain [OF assms(3,4)]
    by (auto intro!: scaled_diff intro: scaled_mono)
  then show ?thesis
    using assms(2,4) reread [of "max k l" "a - b"]
    by (simp add: AmountBeforeTax_def subtractDecimal_def del: parseDecimal_float_string)
qed

theorem AmountBeforeTax_exact_witness:
  "\<exists>s x. AmountBeforeTax \<lparr>total = ''107.00'', taxes_exclusive_total = ''7''\<rparr> = Inr s \<and>
      parseDecimal s = Inr (x, max 2 0) \<and> x + 7 = 107"
proof (rule AmountBeforeTax_exact)
  show "parseDecimal (total \<lparr>total = ''107.00'', taxes_exclusive_total = ''7''\<rparr>) = Inr (107, 2)"
    by code_simp
  show "parseDecimal (taxes_exclusive_total \<lparr>total = ''107.00'', taxes_exclusive_total = ''7''\<rparr>) = Inr (7, 0)"
    by code_simp
qed (simp_all add: plain_def)

end
