(* ===== verification/OmTypes.thy ===== *)
theory OmTypes
  imports Keys Decimals
begin

text \<open>
  The OpenMeter and Milo API types the components exchange, with the fields the program
  reads or writes: plans, rate cards, prices, features and their filters, meters,
  subscriptions, and Milo's Offer and ServicePricing snapshots. An optional field
  (a Go pointer) is an option; times are nanoseconds since the epoch.
\<close>

section \<open>Filters\<close>

datatype filter_string =
  Filter (f_eq: "go_string option") (f_in: "go_string list option")
    (f_nin: "go_string list option") (f_and: "filter_string list option")

abbreviation filter_eq :: "go_string \<Rightarrow> filter_string" where
  "filter_eq v \<equiv> Filter (Some v) None None None"

abbreviation filter_nin :: "go_string list \<Rightarrow> filter_string" where
  "filter_nin vs \<equiv> Filter None None (Some vs) None"

abbreviation filter_in :: "go_string list \<Rightarrow> filter_string" where
  "filter_in vs \<equiv> Filter None (Some vs) None None"

abbreviation filter_and :: "filter_string list \<Rightarrow> filter_string" where
  "filter_and fs \<equiv> Filter None None None (Some fs)"

type_synonym filter_map = "(go_string \<times> filter_string) list"

text \<open>
  What OpenMeter documents a filter to mean: a value passes when it passes every operator
  set. A filter map accepts an event when each of its keys' values passes.
\<close>

fun passes :: "filter_string \<Rightarrow> go_string \<Rightarrow> bool" where
  "passes (Filter e i n a) v \<longleftrightarrow>
    (case e of None \<Rightarrow> True | Some x \<Rightarrow> v = x) \<and>
    (case i of None \<Rightarrow> True | Some xs \<Rightarrow> v \<in> set xs) \<and>
    (case n of None \<Rightarrow> True | Some xs \<Rightarrow> v \<notin> set xs) \<and>
    (case a of None \<Rightarrow> True | Some fs \<Rightarrow> \<forall>f \<in> set fs. passes f v)"

definition accepts :: "filter_map \<Rightarrow> (go_string \<Rightarrow> go_string) \<Rightarrow> bool" where
  "accepts fm ev \<longleftrightarrow> (\<forall>(k, f) \<in> set fm. passes f (ev k))"

lemma accepts_simps [simp]:
  "accepts [] ev" "accepts ((k, f) # fm) ev \<longleftrightarrow> passes f (ev k) \<and> accepts fm ev"
  by (auto simp: accepts_def)

section \<open>Plans and features\<close>

record price_tier =
  up_to_amount :: "go_string option"
  unit_price :: "go_string option"
  flat_price :: "go_string option"

datatype billing_price =
    PriceUnit go_string
  | PriceGraduated "price_tier list"
  | PriceFlat go_string
  | PriceOther go_string

record unit_config =
  uc_operation :: go_string
  uc_factor :: go_string
  uc_display_unit :: "go_string option"
  uc_rounding :: "go_string option"
  uc_precision :: "int option"

record rate_card =
  rc_key :: go_string
  rc_name :: go_string
  rc_description :: go_string
  rc_cadence :: "go_string option"
  rc_price :: billing_price
  rc_unit_config :: "unit_config option"
  rc_discount :: "int option"
  rc_payment_term :: "go_string option"
  rc_feature :: "go_string option"

record plan_phase =
  ph_key :: go_string
  ph_name :: go_string
  ph_cards :: "rate_card list"

record desired_plan =
  dp_key :: go_string
  dp_name :: go_string
  dp_currency :: go_string
  dp_phases :: "plan_phase list"

record desired_feature =
  df_key :: go_string
  df_name :: go_string
  df_meter :: go_string
  df_filters :: filter_map
  df_metadata :: str_map

section \<open>Milo's Offer\<close>

record rate_match =
  m_dimension :: go_string
  m_value :: go_string

record tier_band =
  band_up_to :: go_string
  band_rate :: go_string

record pricing_rate =
  rt_match :: "rate_match option"
  rt_flat :: go_string
  rt_tiered :: "tier_band list"

datatype charge_type = ChargeUsage | ChargeOneTime | ChargeRecurring | ChargeOther go_string

datatype charge_interval = IntervalNone | ChargeIntervalMonthly | IntervalOther go_string

record service_pricing =
  sp_name :: go_string
  sp_discount :: "int option"
  sp_quantity :: int
  sp_charge_type :: charge_type
  sp_metric :: go_string
  sp_rates :: "pricing_rate list"
  sp_unit_conversion :: "go_string option"
  sp_pricing_unit :: go_string
  sp_display_name :: go_string
  sp_service_ref :: go_string
  sp_amount :: go_string
  sp_interval :: charge_interval
  sp_trigger :: go_string

record offer =
  of_name :: go_string
  of_uid :: go_string
  of_display_name :: go_string
  of_pricings :: "service_pricing list"

text \<open>The dimension billing adds to every usage event.\<close>

definition SystemDimensionProjectName :: go_string where
  "SystemDimensionProjectName = ''project_name''"

end
