(* ===== verification/OfferMapping.thy ===== *)
theory OfferMapping
  imports OmTypes
begin

text \<open>
  The translation of a GA Offer into the OpenMeter plan and features that bill it
  (\<open>internal/controller/offer_mapping.go\<close>).

  Two parameters stand for code outside the repository: \<open>dec\<close> is
  \<open>alpacadecimal.NewFromString\<close> (None on an error), \<open>fj\<close> the JSON encoding of OpenMeter's
  \<open>FilterString\<close>. The Go loops are \<open>each\<close>: they stop at the first error, and the builder
  is then thrown away. Go maps are association lists.
\<close>

section \<open>State\<close>

record meter_info =
  mi_name :: go_string
  mi_slug :: go_string
  mi_dimensions :: "go_string list"

record offer_mapping =
  om_plan :: desired_plan
  om_features :: "desired_feature list"
  om_meter_slugs :: "go_string list"
  om_card_features :: str_map

record mapping_builder =
  b_cards :: "rate_card list"
  b_card_features :: str_map
  b_card_keys :: str_map
  b_features :: "desired_feature list"
  b_feature_by_key :: "(go_string \<times> nat) list"
  b_meter_slugs :: "go_string list"
  b_priced_metrics :: str_map

definition empty_builder :: mapping_builder where
  "empty_builder = \<lparr>b_cards = [], b_card_features = [], b_card_keys = [], b_features = [],
     b_feature_by_key = [], b_meter_slugs = [], b_priced_metrics = []\<rparr>"

definition planPhaseKey :: go_string where "planPhaseKey = ''default_phase''"
definition planPhaseName :: go_string where "planPhaseName = ''Default Phase''"
definition usageBillingPeriod :: go_string where "usageBillingPeriod = ''P1M''"
definition metadataMeterName :: go_string where "metadataMeterName = ''miloapis.com/meter-name''"

definition planKeyForOffer :: "offer \<Rightarrow> go_string" where
  "planKeyForOffer offer = map (\<lambda>c. if c = CHR ''-'' then underscore else c) (of_uid offer)"

section \<open>Builder operations\<close>

definition claimRateCardKey :: "go_string \<Rightarrow> go_string \<Rightarrow> mapping_builder \<Rightarrow> mapping_builder res" where
  "claimRateCardKey key pricing b =
    (case map_of (b_card_keys b) key of
       Some prev \<Rightarrow> Inl (InvalidOffer (''service pricings map to the same OpenMeter rate card key '' @ key))
     | None \<Rightarrow> Inr (b\<lparr>b_card_keys := AList.update key pricing (b_card_keys b)\<rparr>))"

definition addFeature :: "desired_feature \<Rightarrow> mapping_builder \<Rightarrow> mapping_builder" where
  "addFeature f b =
    (if map_of (b_feature_by_key b) (df_key f) \<noteq> None then b
     else b\<lparr>b_feature_by_key := AList.update (df_key f) (length (b_features b)) (b_feature_by_key b),
            b_features := b_features b @ [f],
            b_meter_slugs := (if df_meter f \<in> set (b_meter_slugs b) then b_meter_slugs b
                              else b_meter_slugs b @ [df_meter f])\<rparr>)"

definition resolveDiscount :: "service_pricing \<Rightarrow> int option res" where
  "resolveDiscount sp =
    (case sp_discount sp of
       None \<Rightarrow> Inr None
     | Some p \<Rightarrow>
        if p < 0 \<or> p > 100 then
          Inl (InvalidOffer (''service pricing '' @ sp_name sp @ '': discount percentage is invalid; must be between 0 and 100''))
        else if p = 0 then Inr None
        else Inr (Some p))"

text \<open>The tier loop of \<open>usagePrice\<close>: only the last band may leave out its bound.\<close>

fun usage_tiers :: "go_string \<Rightarrow> tier_band list \<Rightarrow> price_tier list res" where
  "usage_tiers pricing [] = Inr []"
| "usage_tiers pricing (band # bands) =
    (if band_up_to band = [] \<and> bands \<noteq> [] then
       Inl (InvalidOffer (''service pricing '' @ pricing @ '': only the last tier may omit upTo''))
     else case usage_tiers pricing bands of
       Inl e \<Rightarrow> Inl e
     | Inr ts \<Rightarrow>
        Inr (\<lparr>up_to_amount = (if band_up_to band \<noteq> [] then Some (band_up_to band) else None),
              unit_price = Some (band_rate band), flat_price = None\<rparr> # ts))"

definition usagePrice :: "go_string \<Rightarrow> pricing_rate \<Rightarrow> billing_price res" where
  "usagePrice pricing rate =
    (if rt_flat rate \<noteq> [] \<and> rt_tiered rate \<noteq> [] then
       Inl (InvalidOffer (''service pricing '' @ pricing @ '': a rate sets both flat and tiered''))
     else if rt_flat rate \<noteq> [] then Inr (PriceUnit (rt_flat rate))
     else if rt_tiered rate \<noteq> [] then
       (case usage_tiers pricing (rt_tiered rate) of
          Inl e \<Rightarrow> Inl e | Inr tiers \<Rightarrow> Inr (PriceGraduated tiers))
     else Inl (InvalidOffer (''service pricing '' @ pricing @ '': a rate must set flat or tiered'')))"

definition unitConversion :: "(go_string \<Rightarrow> rat option) \<Rightarrow> service_pricing \<Rightarrow> unit_config option res" where
  "unitConversion dec sp =
    (case sp_unit_conversion sp of
       None \<Rightarrow> Inr None
     | Some c \<Rightarrow>
        (case dec c of
           Some factor \<Rightarrow>
             if factor > 0 then
               Inr (Some \<lparr>uc_operation = ''divide'', uc_factor = c,
                          uc_display_unit = Some (sp_pricing_unit sp),
                          uc_rounding = None, uc_precision = None\<rparr>)
             else Inl (InvalidOffer (''service pricing '' @ sp_name sp @ '': unitConversion is not a positive decimal''))
         | None \<Rightarrow> Inl (InvalidOffer (''service pricing '' @ sp_name sp @ '': unitConversion is not a positive decimal''))))"

definition feeQuantity :: "service_pricing \<Rightarrow> int" where
  "feeQuantity sp = (if sp_quantity sp > 0 then sp_quantity sp else 1)"

text \<open>The multiplication sign of fee names, U+00D7 in UTF-8.\<close>

definition times_sign :: go_string where
  "times_sign = map char_of [195, 151 :: nat]"

definition feeName :: "service_pricing \<Rightarrow> go_string" where
  "feeName sp =
    (let name = (if sp_display_name sp = [] then sp_name sp else sp_display_name sp);
         quantity = feeQuantity sp in
     if sp_pricing_unit sp \<noteq> [] then
       name @ '': '' @ nat_digits (nat quantity) @ '' '' @ sp_pricing_unit sp @ '' '' @ times_sign @ '' $'' @ sp_amount sp
     else if quantity > 1 then name @ '' '' @ times_sign @ '' '' @ nat_digits (nat quantity)
     else name)"

text \<open>The JSON text of a feature's identity: \<^verbatim>\<open>{"meter": ..., "filters": {...}}\<close>.\<close>

definition feature_identity :: "(filter_string \<Rightarrow> go_string) \<Rightarrow> go_string \<Rightarrow> filter_map \<Rightarrow> go_string" where
  "feature_identity fj slug filters =
    ''{'' @ json_quote ''meter'' @ '':'' @ json_quote slug
      @ (if filters = [] then []
         else '','' @ json_quote ''filters'' @ '':{''
           @ join '','' (map (\<lambda>(k, f). json_quote k @ '':'' @ fj f) filters) @ ''}'')
      @ ''}''"

definition feature_readable :: "go_string \<Rightarrow> filter_map \<Rightarrow> go_string" where
  "feature_readable slug filters =
    (if filters = [] then slug @ ''_all''
     else foldl (\<lambda>readable (dim, f).
            readable @ [underscore] @ sanitizeKeyPart dim @ [underscore]
              @ (case f_eq f of Some v \<Rightarrow> sanitizeKeyPart v | None \<Rightarrow> ''other'')) slug filters)"

definition usageFeature :: "(filter_string \<Rightarrow> go_string) \<Rightarrow> meter_info \<Rightarrow> filter_map \<Rightarrow> go_string \<Rightarrow> desired_feature" where
  "usageFeature fj meter filters label =
    \<lparr>df_key = boundedKey (feature_readable (mi_slug meter) filters) ''feature''
                (feature_identity fj (mi_slug meter) filters),
     df_name = (if filters = [] then mi_name meter else mi_name meter @ '' ['' @ label @ '']''),
     df_meter = mi_slug meter,
     df_filters = filters,
     df_metadata = [(metadataMeterName, mi_name meter)]\<rparr>"

section \<open>Usage pricings\<close>

record rate_set =
  rs_dimension :: go_string
  rs_matched :: "go_string list"
  rs_catch_all :: bool

text \<open>One iteration of the loop that validates the rates and collects the matched values.\<close>

definition check_rate :: "go_string \<Rightarrow> pricing_rate \<Rightarrow> rate_set \<Rightarrow> rate_set res" where
  "check_rate pricing rate rs =
    (case rt_match rate of
       None \<Rightarrow>
         if rs_catch_all rs then
           Inl (InvalidOffer (''service pricing '' @ pricing @ '': only one catch-all rate is allowed''))
         else Inr (rs\<lparr>rs_catch_all := True\<rparr>)
     | Some m \<Rightarrow>
         if rs_dimension rs \<noteq> [] \<and> rs_dimension rs \<noteq> m_dimension m then
           Inl (InvalidOffer (''service pricing '' @ pricing @ '': matches must share one dimension so rates do not overlap''))
         else
           let dimension = (if rs_dimension rs = [] then m_dimension m else rs_dimension rs) in
           if m_value m \<in> set (rs_matched rs) then
             Inl (InvalidOffer (''service pricing '' @ pricing @ '': value is matched by more than one rate''))
           else Inr (rs\<lparr>rs_dimension := dimension, rs_matched := rs_matched rs @ [m_value m]\<rparr>))"

definition check_rates :: "service_pricing \<Rightarrow> rate_set res" where
  "check_rates sp =
    each (check_rate (sp_name sp)) (sp_rates sp)
      \<lparr>rs_dimension = [], rs_matched = [], rs_catch_all = False\<rparr>"

text \<open>The filters and the label of one rate, given the dimension and the matched values.\<close>

definition rate_filters :: "rate_set \<Rightarrow> pricing_rate \<Rightarrow> filter_map" where
  "rate_filters rs rate =
    (case rt_match rate of
       Some m \<Rightarrow> [(GroupByKey (rs_dimension rs), filter_eq (m_value m))]
     | None \<Rightarrow>
        if rs_matched rs \<noteq> [] then [(GroupByKey (rs_dimension rs), filter_nin (sort (rs_matched rs)))]
        else [])"

definition rate_label :: "rate_set \<Rightarrow> pricing_rate \<Rightarrow> go_string" where
  "rate_label rs rate =
    (case rt_match rate of
       Some m \<Rightarrow> rs_dimension rs @ ''='' @ m_value m
     | None \<Rightarrow>
        if rs_matched rs \<noteq> [] then rs_dimension rs @ '' not in ('' @ join '', '' (sort (rs_matched rs)) @ '')''
        else [])"

definition usage_card ::
  "service_pricing \<Rightarrow> go_string \<Rightarrow> go_string \<Rightarrow> billing_price \<Rightarrow> unit_config option \<Rightarrow> int option \<Rightarrow> rate_card" where
  "usage_card sp label key price conversion discounts =
    (let name = (if sp_display_name sp = [] then sp_name sp else sp_display_name sp) in
     \<lparr>rc_key = key, rc_name = (if label \<noteq> [] then name @ '' ('' @ label @ '')'' else name),
      rc_description = ''ServicePricing '' @ sp_name sp @ '' ('' @ sp_service_ref sp
        @ ''), priced per '' @ sp_pricing_unit sp,
      rc_cadence = Some usageBillingPeriod, rc_price = price,
      rc_unit_config = conversion, rc_discount = discounts,
      rc_payment_term = None, rc_feature = None\<rparr>)"

text \<open>One iteration of the loop that adds a rate's feature and rate card.\<close>

definition add_rate ::
  "(filter_string \<Rightarrow> go_string) \<Rightarrow> service_pricing \<Rightarrow> meter_info \<Rightarrow> rate_set \<Rightarrow> unit_config option \<Rightarrow>
   pricing_rate \<Rightarrow> mapping_builder \<Rightarrow> mapping_builder res" where
  "add_rate fj sp meter rs conversion rate b =
    (let label = rate_label rs rate;
         feature = usageFeature fj meter (rate_filters rs rate) label;
         b = addFeature feature b in
     case usagePrice (sp_name sp) rate of
       Inl e \<Rightarrow> Inl e
     | Inr price \<Rightarrow>
       (case resolveDiscount sp of
          Inl e \<Rightarrow> Inl e
        | Inr discounts \<Rightarrow>
          (case claimRateCardKey (df_key feature) (sp_name sp) b of
             Inl e \<Rightarrow> Inl e
           | Inr b \<Rightarrow>
             Inr (b\<lparr>b_card_features := AList.update (df_key feature) (df_key feature) (b_card_features b),
                    b_cards := b_cards b @
                      [usage_card sp label (df_key feature) price conversion discounts]\<rparr>))))"

definition addUsage ::
  "(go_string \<Rightarrow> rat option) \<Rightarrow> (filter_string \<Rightarrow> go_string) \<Rightarrow> (go_string \<times> meter_info) list \<Rightarrow>
   service_pricing \<Rightarrow> mapping_builder \<Rightarrow> mapping_builder res" where
  "addUsage dec fj meters sp b =
    (case map_of meters (sp_metric sp) of
       None \<Rightarrow> Inl (Wrap (''service pricing '' @ sp_name sp @ '': metric '' @ sp_metric sp) [Sentinel errMeterNotFound])
     | Some meter \<Rightarrow>
       if map_of (b_priced_metrics b) (sp_metric sp) \<noteq> None then
         Inl (InvalidOffer (''service pricings both price metric '' @ sp_metric sp @ ''; usage would be billed twice''))
       else
         let b = b\<lparr>b_priced_metrics := AList.update (sp_metric sp) (sp_name sp) (b_priced_metrics b)\<rparr> in
         if sp_rates sp = [] then
           Inl (InvalidOffer (''service pricing '' @ sp_name sp @ '': usage pricing has no rates''))
         else case unitConversion dec sp of
           Inl e \<Rightarrow> Inl e
         | Inr conversion \<Rightarrow>
           (case check_rates sp of
              Inl e \<Rightarrow> Inl e
            | Inr rs \<Rightarrow>
              if rs_dimension rs \<noteq> [] \<and> rs_dimension rs \<noteq> SystemDimensionProjectName
                 \<and> rs_dimension rs \<notin> set (mi_dimensions meter) then
                Inl (InvalidOffer (''service pricing '' @ sp_name sp @ '': dimension is not declared on meter '' @ mi_name meter))
              else case resolveDiscount sp of
                Inl e \<Rightarrow> Inl e
              | Inr _ \<Rightarrow> each (add_rate fj sp meter rs conversion) (sp_rates sp) b))"

section \<open>Flat fees\<close>

text \<open>The rate card of a fee: recurring fees have a cadence, one-time fees name their trigger.\<close>

definition fee_card :: "service_pricing \<Rightarrow> go_string \<Rightarrow> go_string \<Rightarrow> int option \<Rightarrow> rate_card res" where
  "fee_card sp key amount discounts =
    (let description = (if sp_service_ref sp \<noteq> []
           then ''ServicePricing '' @ sp_name sp @ '' ('' @ sp_service_ref sp @ '')''
           else ''ServicePricing '' @ sp_name sp);
         rcard = \<lparr>rc_key = key, rc_name = feeName sp, rc_description = description, rc_cadence = None,
                 rc_price = PriceFlat amount, rc_unit_config = None, rc_discount = discounts,
                 rc_payment_term = Some ''in_advance'', rc_feature = None\<rparr> in
     case sp_charge_type sp of
       ChargeRecurring \<Rightarrow>
         if sp_interval sp \<noteq> IntervalNone \<and> sp_interval sp \<noteq> ChargeIntervalMonthly then
           Inl (InvalidOffer (''service pricing '' @ sp_name sp @ '': unsupported recurring interval''))
         else Inr (rcard\<lparr>rc_cadence := Some usageBillingPeriod\<rparr>)
     | ChargeOneTime \<Rightarrow>
         if sp_trigger sp \<noteq> [] then
           Inr (rcard\<lparr>rc_description := description @ '', charged on '' @ sp_trigger sp\<rparr>)
         else Inr rcard
     | _ \<Rightarrow> Inr rcard)"

definition fee_key :: "service_pricing \<Rightarrow> go_string" where
  "fee_key sp = boundedKey (sanitizeKeyPart (sp_name sp)) ''flat_fee'' (sp_name sp)"

definition addFlatFee :: "service_pricing \<Rightarrow> mapping_builder \<Rightarrow> mapping_builder res" where
  "addFlatFee sp b =
    (if sp_amount sp = [] then
       Inl (InvalidOffer (''service pricing '' @ sp_name sp @ '': pricing has no amount''))
     else case resolveDiscount sp of
       Inl e \<Rightarrow> Inl e
     | Inr discounts \<Rightarrow>
       (case MultiplyAmount (sp_amount sp) (feeQuantity sp) of
          Inl e \<Rightarrow> Inl (InvalidOffer (''service pricing '' @ sp_name sp))
        | Inr amount \<Rightarrow>
          (case fee_card sp (fee_key sp) amount discounts of
             Inl e \<Rightarrow> Inl e
           | Inr rcard \<Rightarrow>
             (case claimRateCardKey (fee_key sp) (sp_name sp) b of
                Inl e \<Rightarrow> Inl e
              | Inr b \<Rightarrow> Inr (b\<lparr>b_cards := b_cards b @ [rcard]\<rparr>)))))"

section \<open>The whole mapping\<close>

definition add_pricing ::
  "(go_string \<Rightarrow> rat option) \<Rightarrow> (filter_string \<Rightarrow> go_string) \<Rightarrow> (go_string \<times> meter_info) list \<Rightarrow>
   service_pricing \<Rightarrow> mapping_builder \<Rightarrow> mapping_builder res" where
  "add_pricing dec fj meters sp b =
    (case sp_charge_type sp of
       ChargeUsage \<Rightarrow> addUsage dec fj meters sp b
     | ChargeOneTime \<Rightarrow> addFlatFee sp b
     | ChargeRecurring \<Rightarrow> addFlatFee sp b
     | ChargeOther t \<Rightarrow> Inl (InvalidOffer (''service pricing '' @ sp_name sp @ '': unsupported charge type '' @ t)))"

definition buildOfferMapping ::
  "(go_string \<Rightarrow> rat option) \<Rightarrow> (filter_string \<Rightarrow> go_string) \<Rightarrow> offer \<Rightarrow> (go_string \<times> meter_info) list \<Rightarrow>
   offer_mapping res" where
  "buildOfferMapping dec fj offer meters =
    (if of_pricings offer = [] then
       Inl (InvalidOffer (''offer '' @ of_name offer @ '' has no servicePricings snapshot''))
     else case each (add_pricing dec fj meters) (of_pricings offer) empty_builder of
       Inl e \<Rightarrow> Inl e
     | Inr b \<Rightarrow>
       Inr \<lparr>om_plan = \<lparr>dp_key = planKeyForOffer offer,
                       dp_name = (if of_display_name offer = [] then of_name offer else of_display_name offer),
                       dp_currency = ''USD'',
                       dp_phases = [\<lparr>ph_key = planPhaseKey, ph_name = planPhaseName, ph_cards = b_cards b\<rparr>]\<rparr>,
            om_features = b_features b,
            om_meter_slugs = b_meter_slugs b,
            om_card_features = b_card_features b\<rparr>)"

text \<open>\<open>setFeatureIDs\<close> writes through the slices of the plan; the model returns the mapping.\<close>

fun set_card_ids :: "str_map \<Rightarrow> str_map \<Rightarrow> rate_card list \<Rightarrow> rate_card list res" where
  "set_card_ids cf ids [] = Inr []"
| "set_card_ids cf ids (rcard # rcards) =
    (case (case map_of cf (rc_key rcard) of
             None \<Rightarrow> Inr rcard
           | Some featureKey \<Rightarrow>
             (case map_of ids featureKey of
                None \<Rightarrow> Inl (Leaf (''rate card '' @ rc_key rcard @ '': feature was not created''))
              | Some i \<Rightarrow> Inr (rcard\<lparr>rc_feature := Some i\<rparr>))) of
       Inl e \<Rightarrow> Inl e
     | Inr card' \<Rightarrow>
       (case set_card_ids cf ids rcards of Inl e \<Rightarrow> Inl e | Inr cards' \<Rightarrow> Inr (card' # cards')))"

fun set_phase_ids :: "str_map \<Rightarrow> str_map \<Rightarrow> plan_phase list \<Rightarrow> plan_phase list res" where
  "set_phase_ids cf ids [] = Inr []"
| "set_phase_ids cf ids (ph # phs) =
    (case set_card_ids cf ids (ph_cards ph) of
       Inl e \<Rightarrow> Inl e
     | Inr cards \<Rightarrow>
       (case set_phase_ids cf ids phs of
          Inl e \<Rightarrow> Inl e | Inr phs' \<Rightarrow> Inr (ph\<lparr>ph_cards := cards\<rparr> # phs')))"

definition setFeatureIDs :: "offer_mapping \<Rightarrow> str_map \<Rightarrow> offer_mapping res" where
  "setFeatureIDs m idsByKey =
    (case set_phase_ids (om_card_features m) idsByKey (dp_phases (om_plan m)) of
       Inl e \<Rightarrow> Inl e
     | Inr phs \<Rightarrow> Inr (m\<lparr>om_plan := (om_plan m)\<lparr>dp_phases := phs\<rparr>\<rparr>))"

section \<open>The builder's invariant\<close>

text \<open>
  Between two steps every feature key has been claimed as a rate card key, rate card and
  feature keys are all different, and the map of usage cards sends each feature key to
  itself.
\<close>

definition keys_inv :: "mapping_builder \<Rightarrow> bool" where
  "keys_inv b \<longleftrightarrow>
    dom (map_of (b_card_keys b)) = rc_key ` set (b_cards b) \<and>
    dom (map_of (b_feature_by_key b)) = df_key ` set (b_features b) \<and>
    df_key ` set (b_features b) \<subseteq> rc_key ` set (b_cards b) \<and>
    distinct (map rc_key (b_cards b)) \<and> distinct (map df_key (b_features b)) \<and>
    (\<forall>k. map_of (b_card_features b) k = (if k \<in> df_key ` set (b_features b) then Some k else None))"

lemma keys_inv_empty: "keys_inv empty_builder"
  by (simp add: keys_inv_def empty_builder_def)

lemma claimRateCardKey_ok:
  "claimRateCardKey key pricing b = Inr b' \<longleftrightarrow>
   map_of (b_card_keys b) key = None \<and> b' = b\<lparr>b_card_keys := AList.update key pricing (b_card_keys b)\<rparr>"
  by (auto simp: claimRateCardKey_def split: option.splits)

lemma dom_update': "dom (map_of (AList.update k v al)) = insert k (dom (map_of al))"
  by (auto simp: update_conv')

lemma rc_key_usage_card [simp]: "rc_key (usage_card sp label key price conv d) = key"
  by (simp add: usage_card_def Let_def)

lemma add_rate_ok:
  assumes "add_rate fj sp meter rs conv rate b = Inr b'" and "keys_inv b"
  defines "feature \<equiv> usageFeature fj meter (rate_filters rs rate) (rate_label rs rate)"
  shows "keys_inv b'" "b_features b' = b_features b @ [feature]"
    "b_priced_metrics b' = b_priced_metrics b"
    "\<exists>c. b_cards b' = b_cards b @ [c] \<and> rc_key c = df_key feature"
proof -
  have eq: "b_card_keys (addFeature feature b) = b_card_keys b"
    by (simp add: addFeature_def)
  have fresh: "map_of (b_card_keys b) (df_key feature) = None"
    using assms(1) unfolding add_rate_def feature_def [symmetric] Let_def
    by (auto simp: claimRateCardKey_ok eq split: sum.splits)
  then have new: "df_key feature \<notin> rc_key ` set (b_cards b)"
    "map_of (b_feature_by_key b) (df_key feature) = None"
    using assms(2) unfolding keys_inv_def by (metis domIff, metis domIff subset_iff)
  then have add: "addFeature feature b =
      b\<lparr>b_feature_by_key := AList.update (df_key feature) (length (b_features b)) (b_feature_by_key b),
        b_features := b_features b @ [feature],
        b_meter_slugs := (if df_meter feature \<in> set (b_meter_slugs b) then b_meter_slugs b
                          else b_meter_slugs b @ [df_meter feature])\<rparr>"
    by (simp add: addFeature_def)
  obtain price d where b': "b' = (addFeature feature b)
     \<lparr>b_card_keys := AList.update (df_key feature) (sp_name sp) (b_card_keys b),
      b_card_features := AList.update (df_key feature) (df_key feature) (b_card_features b),
      b_cards := b_cards b @ [usage_card sp (rate_label rs rate) (df_key feature) price conv d]\<rparr>"
    using assms(1) fresh add unfolding add_rate_def feature_def [symmetric] Let_def
    by (auto simp: claimRateCardKey_def split: sum.splits)
  show "b_features b' = b_features b @ [feature]" "b_priced_metrics b' = b_priced_metrics b"
    "\<exists>c. b_cards b' = b_cards b @ [c] \<and> rc_key c = df_key feature"
    by (simp_all add: b' add)
  show "keys_inv b'"
    using assms(2) new(1) unfolding keys_inv_def
    by (simp add: b' add dom_update' update_conv' del: dom_eq_empty_conv) blast
qed

lemma each_add_rate:
  assumes "each (add_rate fj sp meter rs conv) rates b = Inr b'" and "keys_inv b"
  shows "keys_inv b' \<and> b_priced_metrics b' = b_priced_metrics b \<and>
    b_features b' = b_features b @ map (\<lambda>r. usageFeature fj meter (rate_filters rs r) (rate_label rs r)) rates"
  using assms
proof (induction rates arbitrary: b)
  case Nil
  then show ?case by simp
next
  case (Cons r rates)
  then obtain u where u: "add_rate fj sp meter rs conv r b = Inr u"
    "each (add_rate fj sp meter rs conv) rates u = Inr b'"
    by (auto split: sum.splits)
  from add_rate_ok [OF u(1) Cons.prems(2)] Cons.IH [OF u(2)] show ?case by simp
qed

text \<open>What a successful \<open>addUsage\<close> did.\<close>

lemma addUsage_ok:
  assumes "addUsage dec fj meters sp b = Inr b'" and "keys_inv b"
  obtains meter rs where "map_of meters (sp_metric sp) = Some meter" "check_rates sp = Inr rs"
    "map_of (b_priced_metrics b) (sp_metric sp) = None" "keys_inv b'"
    "b_priced_metrics b' = AList.update (sp_metric sp) (sp_name sp) (b_priced_metrics b)"
    "b_features b' = b_features b @
       map (\<lambda>r. usageFeature fj meter (rate_filters rs r) (rate_label rs r)) (sp_rates sp)"
proof -
  let ?b = "b\<lparr>b_priced_metrics := AList.update (sp_metric sp) (sp_name sp) (b_priced_metrics b)\<rparr>"
  obtain meter rs conv where m: "map_of meters (sp_metric sp) = Some meter"
    "map_of (b_priced_metrics b) (sp_metric sp) = None" "check_rates sp = Inr rs"
    and e: "each (add_rate fj sp meter rs conv) (sp_rates sp) ?b = Inr b'"
    using assms(1) unfolding addUsage_def Let_def
    by (auto split: option.splits sum.splits if_splits)
  have "keys_inv ?b" using assms(2) by (simp add: keys_inv_def)
  from each_add_rate [OF e this] that [OF m(1,3,2)] show thesis by simp
qed

lemma fee_card_ok:
  "fee_card sp key amount d = Inr c \<Longrightarrow>
   rc_key c = key \<and> rc_price c = PriceFlat amount \<and> rc_payment_term c = Some ''in_advance''
   \<and> rc_discount c = d \<and> rc_unit_config c = None \<and> rc_feature c = None
   \<and> rc_cadence c = (if sp_charge_type sp = ChargeRecurring then Some usageBillingPeriod else None)"
  by (auto simp: fee_card_def Let_def split: charge_type.splits if_splits)

lemma addFlatFee_ok:
  assumes "addFlatFee sp b = Inr b'" and "keys_inv b"
  obtains c d amount where "keys_inv b'" "b_features b' = b_features b"
    "b_priced_metrics b' = b_priced_metrics b" "b_cards b' = b_cards b @ [c]"
    "fee_card sp (fee_key sp) amount d = Inr c" "resolveDiscount sp = Inr d"
    "MultiplyAmount (sp_amount sp) (feeQuantity sp) = Inr amount"
proof -
  obtain c d amount where c: "map_of (b_card_keys b) (fee_key sp) = None"
      "MultiplyAmount (sp_amount sp) (feeQuantity sp) = Inr amount" "resolveDiscount sp = Inr d"
      "fee_card sp (fee_key sp) amount d = Inr c"
    and b': "b' = b\<lparr>b_card_keys := AList.update (fee_key sp) (sp_name sp) (b_card_keys b),
                    b_cards := b_cards b @ [c]\<rparr>"
    using assms(1) unfolding addFlatFee_def
    by (auto simp: claimRateCardKey_ok split: if_splits sum.splits)
  have "fee_key sp \<notin> rc_key ` set (b_cards b)"
    using assms(2) c(1) unfolding keys_inv_def by (metis domIff)
  then have "keys_inv b'"
    using assms(2) fee_card_ok [OF c(4)] unfolding keys_inv_def
    by (simp add: b' dom_update' del: dom_eq_empty_conv) blast
  with c b' that show thesis by simp
qed

lemma add_pricing_keys:
  "add_pricing dec fj meters sp b = Inr b' \<Longrightarrow> keys_inv b \<Longrightarrow> keys_inv b'"
  unfolding add_pricing_def
  by (auto split: charge_type.splits elim: addUsage_ok addFlatFee_ok)

section \<open>No usage is billed twice\<close>

definition match_values :: "pricing_rate list \<Rightarrow> go_string list" where
  "match_values rates = concat (map (\<lambda>r. case rt_match r of None \<Rightarrow> [] | Some m \<Rightarrow> [m_value m]) rates)"

definition catch_alls :: "pricing_rate list \<Rightarrow> nat" where
  "catch_alls rates = length (filter (\<lambda>r. rt_match r = None) rates)"

lemma check_rate_step:
  "check_rate n r rs = Inr rs' \<Longrightarrow>
   rs_matched rs' = rs_matched rs @ match_values [r] \<and>
   (distinct (rs_matched rs) \<longrightarrow> distinct (rs_matched rs')) \<and>
   catch_alls [r] + of_bool (rs_catch_all rs) = of_bool (rs_catch_all rs')"
  by (auto simp: check_rate_def match_values_def catch_alls_def Let_def
       split: sum.splits if_splits option.splits)

lemma match_values_Cons: "match_values (r # rates) = match_values [r] @ match_values rates"
  by (simp add: match_values_def)

lemma catch_alls_Cons: "catch_alls (r # rates) = catch_alls [r] + catch_alls rates"
  by (simp add: catch_alls_def)

lemma check_rates_each:
  "each (check_rate n) rates rs = Inr rs' \<Longrightarrow>
   rs_matched rs' = rs_matched rs @ match_values rates \<and>
   (distinct (rs_matched rs) \<longrightarrow> distinct (rs_matched rs')) \<and>
   catch_alls rates + of_bool (rs_catch_all rs) = of_bool (rs_catch_all rs')"
proof (induction rates arbitrary: rs)
  case Nil
  then show ?case by (simp add: match_values_def catch_alls_def)
next
  case (Cons r rates)
  then obtain u where u: "check_rate n r rs = Inr u" "each (check_rate n) rates u = Inr rs'"
    by (auto split: sum.splits)
  note step = check_rate_step [OF u(1)] and rest = Cons.IH [OF u(2)]
  show ?case
  proof (intro conjI impI)
    show "rs_matched rs' = rs_matched rs @ match_values (r # rates)"
      using step rest by (simp add: match_values_Cons [of r rates])
    show "distinct (rs_matched rs')" if "distinct (rs_matched rs)"
      using step rest that by blast
    show "catch_alls (r # rates) + of_bool (rs_catch_all rs) = of_bool (rs_catch_all rs')"
      using step rest by (simp add: catch_alls_Cons [of r rates])
  qed
qed

lemma check_rates_ok:
  assumes "check_rates sp = Inr rs"
  shows "rs_matched rs = match_values (sp_rates sp)" "distinct (rs_matched rs)"
    "catch_alls (sp_rates sp) = of_bool (rs_catch_all rs)"
  using check_rates_each [OF assms [unfolded check_rates_def]] by (simp, fastforce, simp)

lemma accepts_rate_filters:
  "accepts (rate_filters rs r) ev \<longleftrightarrow>
    (case rt_match r of
       Some m \<Rightarrow> ev (GroupByKey (rs_dimension rs)) = m_value m
     | None \<Rightarrow> ev (GroupByKey (rs_dimension rs)) \<notin> set (rs_matched rs))"
  by (auto simp: rate_filters_def split: option.splits)

lemma count_accepting:
  fixes rs ev
  defines "v \<equiv> ev (GroupByKey (rs_dimension rs))"
  shows "length (filter (\<lambda>r. accepts (rate_filters rs r) ev) rates) =
    count_list (match_values rates) v + (if v \<in> set (rs_matched rs) then 0 else catch_alls rates)"
  by (induction rates)
     (auto simp: accepts_rate_filters match_values_def catch_alls_def v_def split: option.splits)

lemma count_list_distinct: "distinct xs \<Longrightarrow> count_list xs x = (if x \<in> set xs then 1 else 0)"
  by (induction xs) auto

lemma rates_partition:
  assumes "check_rates sp = Inr rs"
  shows "length (filter (\<lambda>r. accepts (rate_filters rs r) ev) (sp_rates sp)) =
    (if ev (GroupByKey (rs_dimension rs)) \<in> set (rs_matched rs) then 1 else of_bool (rs_catch_all rs))"
  using check_rates_ok [OF assms] count_accepting [of rs ev "sp_rates sp"]
  by (simp add: count_list_distinct count_notin)

definition bills :: "go_string \<Rightarrow> (go_string \<Rightarrow> go_string) \<Rightarrow> desired_feature \<Rightarrow> bool" where
  "bills slug ev f \<longleftrightarrow> df_meter f = slug \<and> accepts (df_filters f) ev"

definition billed_by :: "desired_feature list \<Rightarrow> go_string \<Rightarrow> (go_string \<Rightarrow> go_string) \<Rightarrow> nat" where
  "billed_by fs slug ev = length (filter (bills slug ev) fs)"

text \<open>Every feature reads the meter of a priced metric, and no usage passes two features.\<close>

definition bill_inv :: "(go_string \<times> meter_info) list \<Rightarrow> mapping_builder \<Rightarrow> bool" where
  "bill_inv meters b \<longleftrightarrow>
    (\<forall>f \<in> set (b_features b). \<exists>metric mi. map_of (b_priced_metrics b) metric \<noteq> None
       \<and> map_of meters metric = Some mi \<and> df_meter f = mi_slug mi) \<and>
    (\<forall>slug ev. billed_by (b_features b) slug ev \<le> 1)"

definition distinct_slugs :: "(go_string \<times> meter_info) list \<Rightarrow> bool" where
  "distinct_slugs meters \<longleftrightarrow>
    (\<forall>k k' mi mi'. map_of meters k = Some mi \<and> map_of meters k' = Some mi' \<and> mi_slug mi = mi_slug mi'
       \<longrightarrow> k = k')"

lemma billed_by_rates:
  "billed_by (map (\<lambda>r. usageFeature fj meter (rate_filters rs r) (rate_label rs r)) rates) slug ev =
   (if mi_slug meter = slug then length (filter (\<lambda>r. accepts (rate_filters rs r) ev) rates) else 0)"
  by (simp add: billed_by_def bills_def usageFeature_def filter_map comp_def)

lemma add_pricing_bills:
  assumes "add_pricing dec fj meters sp b = Inr b'" and "keys_inv b" and "bill_inv meters b"
    and "distinct_slugs meters"
  shows "bill_inv meters b'"
proof (cases "sp_charge_type sp = ChargeUsage")
  case False
  then have "addFlatFee sp b = Inr b'"
    using assms(1) by (auto simp: add_pricing_def split: charge_type.splits)
  then show ?thesis
    by (rule addFlatFee_ok [OF _ assms(2)]) (use assms(3) in \<open>simp add: bill_inv_def\<close>)
next
  case True
  then have "addUsage dec fj meters sp b = Inr b'"
    using assms(1) by (simp add: add_pricing_def)
  then show ?thesis
  proof (rule addUsage_ok [OF _ assms(2)])
    fix meter rs
    assume meter: "map_of meters (sp_metric sp) = Some meter" and rs: "check_rates sp = Inr rs"
      and new: "map_of (b_priced_metrics b) (sp_metric sp) = None"
      and priced: "b_priced_metrics b' = AList.update (sp_metric sp) (sp_name sp) (b_priced_metrics b)"
      and feats: "b_features b' = b_features b @
         map (\<lambda>r. usageFeature fj meter (rate_filters rs r) (rate_label rs r)) (sp_rates sp)"
    have old: "billed_by (b_features b) slug ev = 0" if "slug = mi_slug meter" for slug ev
    proof -
      have "df_meter f \<noteq> slug" if "f \<in> set (b_features b)" for f
        using assms(3,4) that new meter \<open>slug = mi_slug meter\<close>
        unfolding bill_inv_def distinct_slugs_def by (metis (no_types, lifting))
      then show ?thesis by (auto simp: billed_by_def bills_def filter_empty_conv)
    qed
    have "billed_by (b_features b') slug ev \<le> 1" for slug ev
    proof -
      have "billed_by (b_features b') slug ev = billed_by (b_features b) slug ev +
          (if mi_slug meter = slug then length (filter (\<lambda>r. accepts (rate_filters rs r) ev) (sp_rates sp)) else 0)"
        using billed_by_rates [of fj meter rs "sp_rates sp" slug ev]
        by (simp add: feats billed_by_def)
      then show ?thesis
        using old [of slug ev] rates_partition [OF rs, of ev] assms(3)
        by (auto simp: bill_inv_def of_bool_def split: if_splits)
    qed
    moreover have "\<exists>metric mi. map_of (b_priced_metrics b') metric \<noteq> None
        \<and> map_of meters metric = Some mi \<and> df_meter f = mi_slug mi" if "f \<in> set (b_features b')" for f
    proof (cases "f \<in> set (b_features b)")
      case True
      then obtain metric mi where "map_of (b_priced_metrics b) metric \<noteq> None"
        "map_of meters metric = Some mi" "df_meter f = mi_slug mi"
        using assms(3) unfolding bill_inv_def by blast
      then show ?thesis by (intro exI [of _ metric] exI [of _ mi]) (simp add: priced update_conv)
    next
      case False
      then have "df_meter f = mi_slug meter"
        using that feats by (auto simp: usageFeature_def)
      then show ?thesis
        using meter by (intro exI [of _ "sp_metric sp"] exI [of _ meter]) (simp add: priced update_conv)
    qed
    ultimately show ?thesis by (simp add: bill_inv_def)
  qed
qed

section \<open>Properties of the mapping\<close>

lemma build_ok:
  assumes "buildOfferMapping dec fj offer meters = Inr m"
  obtains b where "each (add_pricing dec fj meters) (of_pricings offer) empty_builder = Inr b"
    "om_features m = b_features b" "om_card_features m = b_card_features b"
    "concat (map ph_cards (dp_phases (om_plan m))) = b_cards b"
    "om_plan m = \<lparr>dp_key = planKeyForOffer offer,
       dp_name = (if of_display_name offer = [] then of_name offer else of_display_name offer),
       dp_currency = ''USD'', dp_phases = [\<lparr>ph_key = planPhaseKey, ph_name = planPhaseName, ph_cards = b_cards b\<rparr>]\<rparr>"
  using assms unfolding buildOfferMapping_def by (auto split: if_splits sum.splits)

lemma build_inv:
  assumes "each (add_pricing dec fj meters) sps b = Inr b'" and "keys_inv b"
  shows "keys_inv b'"
  using assms add_pricing_keys by (rule each_invariant)

lemma build_bills:
  assumes "each (add_pricing dec fj meters) sps b = Inr b'" and "keys_inv b" and "bill_inv meters b"
    and "distinct_slugs meters"
  shows "bill_inv meters b'"
proof -
  have "keys_inv b' \<and> bill_inv meters b'"
    using assms(1) by (rule each_invariant) (use assms add_pricing_keys add_pricing_bills in blast)+
  then show ?thesis ..
qed

lemma bill_inv_empty: "bill_inv meters empty_builder"
  by (simp add: bill_inv_def empty_builder_def billed_by_def)


text \<open>Later pricings leave the features of a metric alone: the metric is priced already.\<close>

lemma add_pricing_keeps_bills:
  assumes "add_pricing dec fj meters sp b = Inr b'" and "keys_inv b" and "distinct_slugs meters"
    and "map_of (b_priced_metrics b) metric \<noteq> None" and "map_of meters metric = Some mi"
  shows "map_of (b_priced_metrics b') metric \<noteq> None"
    "billed_by (b_features b') (mi_slug mi) ev = billed_by (b_features b) (mi_slug mi) ev"
proof -
  consider "addFlatFee sp b = Inr b'" | "addUsage dec fj meters sp b = Inr b'"
    using assms(1) by (auto simp: add_pricing_def split: charge_type.splits)
  then have "map_of (b_priced_metrics b') metric \<noteq> None \<and>
    billed_by (b_features b') (mi_slug mi) ev = billed_by (b_features b) (mi_slug mi) ev"
  proof cases
    case 1
    then show ?thesis by (rule addFlatFee_ok [OF _ assms(2)]) (use assms(4) in simp)
  next
    case 2
    then show ?thesis
    proof (rule addUsage_ok [OF _ assms(2)])
      fix meter rs
      assume m: "map_of meters (sp_metric sp) = Some meter"
        and new: "map_of (b_priced_metrics b) (sp_metric sp) = None"
        and priced: "b_priced_metrics b' = AList.update (sp_metric sp) (sp_name sp) (b_priced_metrics b)"
        and feats: "b_features b' = b_features b @
           map (\<lambda>r. usageFeature fj meter (rate_filters rs r) (rate_label rs r)) (sp_rates sp)"
      have "mi_slug meter \<noteq> mi_slug mi"
        using assms(3-5) m new unfolding distinct_slugs_def by (metis (no_types, lifting))
      then show ?thesis
        using assms(4) billed_by_rates [of fj meter rs "sp_rates sp" "mi_slug mi" ev]
        by (simp add: priced feats billed_by_def update_conv')
    qed
  qed
  then show "map_of (b_priced_metrics b') metric \<noteq> None"
    "billed_by (b_features b') (mi_slug mi) ev = billed_by (b_features b) (mi_slug mi) ev" by simp_all
qed

lemma each_keeps_bills:
  assumes "each (add_pricing dec fj meters) sps b = Inr b'" and "keys_inv b" and "distinct_slugs meters"
    and "map_of (b_priced_metrics b) metric \<noteq> None" and "map_of meters metric = Some mi"
  shows "billed_by (b_features b') (mi_slug mi) ev = billed_by (b_features b) (mi_slug mi) ev"
proof -
  let ?I = "\<lambda>u. keys_inv u \<and> map_of (b_priced_metrics u) metric \<noteq> None \<and>
    billed_by (b_features u) (mi_slug mi) ev = billed_by (b_features b) (mi_slug mi) ev"
  have "?I b'"
    using assms(1)
  proof (rule each_invariant)
    show "?I b" using assms(2,4) by simp
    show "?I v" if "?I u" "add_pricing dec fj meters sp u = Inr v" for sp u v
      using that(1) add_pricing_keys [OF that(2)] add_pricing_keeps_bills(1) [OF that(2) _ assms(3) _ assms(5)]
        add_pricing_keeps_bills(2) [OF that(2) _ assms(3) _ assms(5)]
      by simp
  qed
  then show ?thesis by simp
qed

lemma unpriced_meter:
  assumes "bill_inv meters b" and "distinct_slugs meters"
    and "map_of (b_priced_metrics b) metric = None" and "map_of meters metric = Some mi"
  shows "billed_by (b_features b) (mi_slug mi) ev = 0"
proof -
  have "df_meter f \<noteq> mi_slug mi" if "f \<in> set (b_features b)" for f
    using assms that unfolding bill_inv_def distinct_slugs_def by (metis (no_types, lifting))
  then show ?thesis by (auto simp: billed_by_def bills_def filter_empty_conv)
qed


text \<open>A small Offer: egress priced by region with a catch-all rate, and a monthly seat fee.\<close>

definition sample_meters :: "(go_string \<times> meter_info) list" where
  "sample_meters =
    [(''egress'', \<lparr>mi_name = ''egress'', mi_slug = ''egress'', mi_dimensions = [''region'']\<rparr>)]"

definition sample_pricing :: service_pricing where
  "sample_pricing =
    \<lparr>sp_name = ''net'', sp_discount = None, sp_quantity = 0, sp_charge_type = ChargeUsage,
     sp_metric = ''egress'',
     sp_rates = [\<lparr>rt_match = Some \<lparr>m_dimension = ''region'', m_value = ''eu''\<rparr>, rt_flat = ''2'', rt_tiered = []\<rparr>,
                 \<lparr>rt_match = None, rt_flat = ''1'', rt_tiered = []\<rparr>],
     sp_unit_conversion = None, sp_pricing_unit = ''GB'', sp_display_name = [], sp_service_ref = [],
     sp_amount = [], sp_interval = IntervalNone, sp_trigger = []\<rparr>"

definition sample_fee :: service_pricing where
  "sample_fee = sample_pricing
    \<lparr>sp_name := ''seats'', sp_quantity := 3, sp_charge_type := ChargeRecurring, sp_rates := [],
     sp_amount := ''1.5''\<rparr>"

definition sample_offer :: offer where
  "sample_offer =
    \<lparr>of_name = ''pro'', of_uid = ''a-b'', of_display_name = [], of_pricings = [sample_pricing, sample_fee]\<rparr>"

definition sample_mapping :: offer_mapping where
  "sample_mapping = (case buildOfferMapping (\<lambda>_. None) (\<lambda>_. []) sample_offer sample_meters of
     Inr m \<Rightarrow> m | Inl e \<Rightarrow> undefined)"

lemma sample_mapping_ok:
  "buildOfferMapping (\<lambda>_. None) (\<lambda>_. []) sample_offer sample_meters = Inr sample_mapping"
proof -
  let ?h = "\<lambda>i. take 10 (sha256_hex i)"
  have keys: "sanitizeKeyPart ''region'' = ''region''" "sanitizeKeyPart ''eu'' = ''eu''"
    "sanitizeKeyPart ''seats'' = ''seats''" "GroupByKey ''region'' = ''region''"
    "MultiplyAmount ''1.5'' 3 = Inr ''4.5''"
    by code_simp+
  have bounded: "boundedKey r f i = r @ [underscore] @ ?h i" if "r \<noteq> []" "length r \<le> 53" for r f i
    using that by (simp add: boundedKey_def openMeterKeyMaxLen_def keyHashLen_def Let_def)
  have lens: "length (?h i) = 10" for i
    by simp
  have neq: "a @ ?h i = b @ ?h j \<longleftrightarrow> False" if "length a \<noteq> length b" for a b i j
    using that lens by (metis add_right_cancel length_append)
  have differ: "''egress_region_eu_'' @ ?h i \<noteq> ''egress_region_other_'' @ ?h j"
    "''seats_'' @ ?h i \<noteq> ''egress_region_other_'' @ ?h j" "''seats_'' @ ?h i \<noteq> ''egress_region_eu_'' @ ?h j" for i j
    by (simp_all only: neq list.size) simp_all
  have "\<not> isl (buildOfferMapping (\<lambda>_. None) (\<lambda>_. []) sample_offer sample_meters)"
    using differ
    by (simp add: buildOfferMapping_def sample_offer_def sample_pricing_def sample_fee_def sample_meters_def
      add_pricing_def addUsage_def addFlatFee_def empty_builder_def unitConversion_def check_rates_def
      check_rate_def resolveDiscount_def add_rate_def usagePrice_def usageFeature_def feature_readable_def
      rate_filters_def addFeature_def claimRateCardKey_def fee_key_def fee_card_def feeQuantity_def
      keys bounded Let_def)
  then show ?thesis
    by (cases "buildOfferMapping (\<lambda>_. None) (\<lambda>_. []) sample_offer sample_meters")
       (simp_all add: sample_mapping_def)
qed

lemma distinct_slugs_sample: "distinct_slugs sample_meters"
  by (simp add: distinct_slugs_def sample_meters_def split: if_splits)



section \<open>Feature ids\<close>

definition plan_cards :: "desired_plan \<Rightarrow> rate_card list" where
  "plan_cards p = concat (map ph_cards (dp_phases p))"

lemma set_card_ids_Inr:
  "\<forall>c \<in> set cards. \<forall>k. map_of cf (rc_key c) = Some k \<longrightarrow> map_of ids k \<noteq> None \<Longrightarrow>
   set_card_ids cf ids cards =
     Inr (map (\<lambda>c. case map_of cf (rc_key c) of None \<Rightarrow> c | Some k \<Rightarrow> c\<lparr>rc_feature := map_of ids k\<rparr>) cards)"
  by (induction cards) (auto split: option.splits)

lemma set_card_ids_Inl:
  "c \<in> set cards \<Longrightarrow> map_of cf (rc_key c) = Some k \<Longrightarrow> map_of ids k = None \<Longrightarrow>
   \<exists>e. set_card_ids cf ids cards = Inl e"
  by (induction cards) (auto split: option.splits sum.splits)

lemma rc_feature_usage_card [simp]: "rc_feature (usage_card sp label key price conv d) = None"
  by (simp add: usage_card_def Let_def)

lemma add_pricing_no_ids:
  assumes "add_pricing dec fj meters sp b = Inr b'" and "\<forall>c \<in> set (b_cards b). rc_feature c = None"
  shows "\<forall>c \<in> set (b_cards b'). rc_feature c = None"
proof -
  have rate: "\<forall>c \<in> set (b_cards v). rc_feature c = None"
    if "\<forall>c \<in> set (b_cards u). rc_feature c = None" "add_rate fj sp meter rs conv r u = Inr v" for r u v meter rs conv
    using that unfolding add_rate_def Let_def
    by (auto simp: claimRateCardKey_ok addFeature_def split: sum.splits if_splits)
  have usage: "\<forall>c \<in> set (b_cards b'). rc_feature c = None" if add: "addUsage dec fj meters sp b = Inr b'"
  proof -
    obtain meter rs conv pm where
      e: "each (add_rate fj sp meter rs conv) (sp_rates sp) (b\<lparr>b_priced_metrics := pm\<rparr>) = Inr b'"
      using add unfolding addUsage_def Let_def by (auto split: option.splits sum.splits if_splits)
    show ?thesis
      using e by (rule each_invariant) (use assms(2) rate in auto)
  qed
  have fee: "\<forall>c \<in> set (b_cards b'). rc_feature c = None" if "addFlatFee sp b = Inr b'"
    using that assms(2) unfolding addFlatFee_def
    by (auto simp: claimRateCardKey_ok dest: fee_card_ok split: if_splits sum.splits)
  show ?thesis
    using assms(1) usage fee by (auto simp: add_pricing_def split: charge_type.splits)
qed

text \<open>
  Setting the feature ids: it succeeds exactly when every feature of the mapping has
  an id, and then the cards of the plan are the same cards in the same order, each usage
  card bound to the id of the feature with its key and each flat fee bound to none.
\<close>

theorem setFeatureIDs_correct:
  assumes "buildOfferMapping dec fj offer meters = Inr m"
  shows "case setFeatureIDs m ids of
    Inl e \<Rightarrow> \<exists>f \<in> set (om_features m). map_of ids (df_key f) = None
  | Inr m' \<Rightarrow> (\<forall>f \<in> set (om_features m). map_of ids (df_key f) \<noteq> None)
      \<and> plan_cards (om_plan m') =
          map (\<lambda>c. c\<lparr>rc_feature := (if rc_key c \<in> df_key ` set (om_features m) then map_of ids (rc_key c) else None)\<rparr>)
            (plan_cards (om_plan m))
      \<and> distinct (map rc_key (plan_cards (om_plan m')))"
  using assms
proof (rule build_ok)
  fix b
  assume e: "each (add_pricing dec fj meters) (of_pricings offer) empty_builder = Inr b"
    and f: "om_features m = b_features b" "om_card_features m = b_card_features b"
    and plan: "om_plan m = \<lparr>dp_key = planKeyForOffer offer,
       dp_name = (if of_display_name offer = [] then of_name offer else of_display_name offer),
       dp_currency = ''USD'', dp_phases = [\<lparr>ph_key = planPhaseKey, ph_name = planPhaseName, ph_cards = b_cards b\<rparr>]\<rparr>"
  have inv: "keys_inv b" by (rule build_inv [OF e keys_inv_empty])
  have none: "\<forall>c \<in> set (b_cards b). rc_feature c = None"
    using e by (rule each_invariant) (use add_pricing_no_ids in \<open>auto simp: empty_builder_def\<close>)
  have cf: "map_of (b_card_features b) k = (if k \<in> df_key ` set (b_features b) then Some k else None)" for k
    using inv by (simp only: keys_inv_def)
  have sub: "df_key ` set (b_features b) \<subseteq> rc_key ` set (b_cards b)" and dist: "distinct (map rc_key (b_cards b))"
    using inv by (simp_all only: keys_inv_def)
  show ?thesis
  proof (cases "\<forall>f \<in> set (om_features m). map_of ids (df_key f) \<noteq> None")
    case True
    then have "set_card_ids (b_card_features b) ids (b_cards b) = Inr (map (\<lambda>c. case map_of (b_card_features b) (rc_key c)
        of None \<Rightarrow> c | Some k \<Rightarrow> c\<lparr>rc_feature := map_of ids k\<rparr>) (b_cards b))"
      by (intro set_card_ids_Inr) (auto simp: cf f split: if_splits)
    moreover have "(case map_of (b_card_features b) (rc_key c) of None \<Rightarrow> c | Some k \<Rightarrow> c\<lparr>rc_feature := map_of ids k\<rparr>) =
        c\<lparr>rc_feature := (if rc_key c \<in> df_key ` set (b_features b) then map_of ids (rc_key c) else None)\<rparr>"
      if "c \<in> set (b_cards b)" for c
      using none that by (simp add: cf)
    ultimately have "set_card_ids (b_card_features b) ids (b_cards b) = Inr (map (\<lambda>c.
        c\<lparr>rc_feature := (if rc_key c \<in> df_key ` set (b_features b) then map_of ids (rc_key c) else None)\<rparr>) (b_cards b))"
      by simp
    then show ?thesis
      using True dist by (simp add: setFeatureIDs_def plan f plan_cards_def comp_def)
  next
    case False
    then obtain ft where ft: "ft \<in> set (b_features b)" "map_of ids (df_key ft) = None"
      by (auto simp: f)
    have "df_key ft \<in> rc_key ` set (b_cards b)"
      using sub ft(1) by blast
    then obtain c where "c \<in> set (b_cards b)" "rc_key c = df_key ft"
      by (elim imageE) simp
    with ft have "c \<in> set (b_cards b)" "map_of (b_card_features b) (rc_key c) = Some (rc_key c)"
      "map_of ids (rc_key c) = None"
      by (simp_all add: cf)
    then obtain err where "set_card_ids (b_card_features b) ids (b_cards b) = Inl err"
      using set_card_ids_Inl by blast
    then show ?thesis using False by (auto simp: setFeatureIDs_def plan f)
  qed
qed

theorem setFeatureIDs_correct_witness:
  "case setFeatureIDs sample_mapping [] of
    Inl e \<Rightarrow> \<exists>f \<in> set (om_features sample_mapping). map_of [] (df_key f) = (None :: go_string option)
  | Inr m' \<Rightarrow> (\<forall>f \<in> set (om_features sample_mapping). map_of [] (df_key f) \<noteq> (None :: go_string option))
      \<and> plan_cards (om_plan m') =
          map (\<lambda>c. c\<lparr>rc_feature := (if rc_key c \<in> df_key ` set (om_features sample_mapping)
              then map_of [] (rc_key c) else None)\<rparr>) (plan_cards (om_plan sample_mapping))
      \<and> distinct (map rc_key (plan_cards (om_plan m')))"
  by (rule setFeatureIDs_correct [OF sample_mapping_ok])

section \<open>Errors and fees\<close>

definition is_invalid_offer :: "go_error \<Rightarrow> bool" where
  "is_invalid_offer e \<longleftrightarrow> (\<exists>msg. e = InvalidOffer msg)"

lemma is_invalid_offer_simps [simp]: "is_invalid_offer (InvalidOffer m)"
  by (simp add: is_invalid_offer_def)

lemma usage_tiers_error: "usage_tiers p bands = Inl e \<Longrightarrow> is_invalid_offer e"
  by (induction bands arbitrary: e) (auto split: if_splits sum.splits)

lemma operation_errors:
  "usagePrice p r = Inl e \<Longrightarrow> is_invalid_offer e"
  "resolveDiscount sp = Inl e \<Longrightarrow> is_invalid_offer e"
  "claimRateCardKey k p b = Inl e \<Longrightarrow> is_invalid_offer e"
  "unitConversion dec sp = Inl e \<Longrightarrow> is_invalid_offer e"
  "check_rate p r rs = Inl e \<Longrightarrow> is_invalid_offer e"
  "fee_card sp key amount d = Inl e \<Longrightarrow> is_invalid_offer e"
  by (auto simp: usagePrice_def resolveDiscount_def claimRateCardKey_def unitConversion_def check_rate_def
      fee_card_def Let_def usage_tiers_error split: if_splits sum.splits option.splits charge_type.splits)

lemma add_rate_error: "add_rate fj sp meter rs conv r b = Inl e \<Longrightarrow> is_invalid_offer e"
  unfolding add_rate_def Let_def by (auto dest: operation_errors split: sum.splits)

lemma addFlatFee_error: "addFlatFee sp b = Inl e \<Longrightarrow> is_invalid_offer e"
  unfolding addFlatFee_def by (auto dest: operation_errors split: sum.splits if_splits)

lemma addUsage_error:
  assumes "addUsage dec fj meters sp b = Inl e" and "map_of meters (sp_metric sp) = Some meter"
  shows "is_invalid_offer e"
proof -
  have rates: "check_rates sp = Inl e \<Longrightarrow> is_invalid_offer e"
    unfolding check_rates_def by (erule each_error) (rule operation_errors)
  have add: "each (add_rate fj sp meter rs conv) rates u = Inl e \<Longrightarrow> is_invalid_offer e" for rs conv rates u
    by (erule each_error) (rule add_rate_error)
  show ?thesis
    using assms rates add unfolding addUsage_def Let_def
    by (auto dest: operation_errors split: sum.splits if_splits)
qed

text \<open>
  The only errors are: a defect of the Offer itself (an \<open>invalidOfferError\<close>, which a
  retry cannot cure), or a metric without a meter definition, which wraps
  \<open>errMeterNotFound\<close> and arises exactly for a usage pricing of such a metric.
\<close>

theorem buildOfferMapping_errors:
  assumes "buildOfferMapping dec fj offer meters = Inl e"
  shows "is_invalid_offer e \<and> \<not> errors_is e errMeterNotFound \<or>
    \<not> is_invalid_offer e \<and> errors_is e errMeterNotFound \<and>
      (\<exists>sp \<in> set (of_pricings offer). sp_charge_type sp = ChargeUsage \<and> map_of meters (sp_metric sp) = None)"
proof -
  consider "is_invalid_offer e" | sp b where "sp \<in> set (of_pricings offer)" "add_pricing dec fj meters sp b = Inl e"
    using assms unfolding buildOfferMapping_def
    by (auto split: if_splits sum.splits elim: each_error)
  then show ?thesis
  proof cases
    case 1
    then show ?thesis by (auto simp: is_invalid_offer_def errors_is_def)
  next
    case (2 sp b)
    show ?thesis
    proof (cases "is_invalid_offer e")
      case True
      then show ?thesis by (auto simp: is_invalid_offer_def errors_is_def)
    next
      case False
      then have u: "sp_charge_type sp = ChargeUsage" "addUsage dec fj meters sp b = Inl e"
        using 2(2) addFlatFee_error by (auto simp: add_pricing_def split: charge_type.splits)
      then have none: "map_of meters (sp_metric sp) = None"
        using False addUsage_error by fastforce
      then have "errors_is e errMeterNotFound"
        using u(2) by (auto simp: addUsage_def errors_is_def)
      then show ?thesis using False 2(1) u(1) none by blast
    qed
  qed
qed

theorem buildOfferMapping_errors_witness:
  "let e = Wrap (''service pricing net: metric egress'') [Sentinel errMeterNotFound] in
   is_invalid_offer e \<and> \<not> errors_is e errMeterNotFound \<or>
    \<not> is_invalid_offer e \<and> errors_is e errMeterNotFound \<and>
      (\<exists>sp \<in> set (of_pricings sample_offer). sp_charge_type sp = ChargeUsage \<and> map_of [] (sp_metric sp) = (None :: meter_info option))"
  unfolding Let_def
  by (rule buildOfferMapping_errors [where dec = "\<lambda>_. None" and fj = "\<lambda>_. []"])
     (simp add: buildOfferMapping_def sample_offer_def sample_pricing_def add_pricing_def addUsage_def)

lemma add_pricing_keeps_cards:
  assumes "add_pricing dec fj meters sp b = Inr b'" and "keys_inv b" and "c \<in> set (b_cards b)"
  shows "c \<in> set (b_cards b')"
proof -
  have usage: ?thesis if add: "addUsage dec fj meters sp b = Inr b'"
  proof -
    obtain meter rs conv pm where
      e: "each (add_rate fj sp meter rs conv) (sp_rates sp) (b\<lparr>b_priced_metrics := pm\<rparr>) = Inr b'"
      using add unfolding addUsage_def Let_def by (auto split: option.splits sum.splits if_splits)
    have "keys_inv b' \<and> c \<in> set (b_cards b')"
      using e
    proof (rule each_invariant)
      show "keys_inv (b\<lparr>b_priced_metrics := pm\<rparr>) \<and> c \<in> set (b_cards (b\<lparr>b_priced_metrics := pm\<rparr>))"
        using assms(2,3) by (simp add: keys_inv_def)
      show "keys_inv v \<and> c \<in> set (b_cards v)"
        if "keys_inv u \<and> c \<in> set (b_cards u)" "add_rate fj sp meter rs conv r u = Inr v" for r u v
        using that add_rate_ok [OF that(2)] by fastforce
    qed
    then show ?thesis ..
  qed
  have fee: ?thesis if add: "addFlatFee sp b = Inr b'"
    using add by (rule addFlatFee_ok [OF _ assms(2)]) (use assms(3) in simp)
  show ?thesis using assms(1) usage fee by (auto simp: add_pricing_def split: charge_type.splits)
qed

lemma fee_key_valid: "valid_key (fee_key sp) \<and> length (fee_key sp) \<le> 64"
proof -
  have "valid_key ''flat_fee''" by code_simp
  moreover have "segment_syntax (sanitizeKeyPart (sp_name sp))" by (rule segment.enc_ok)
  ultimately show ?thesis
    unfolding fee_key_def segment_syntax_def by (intro bounded_key_valid) auto
qed

text \<open>
  Every flat fee of a mapped Offer has a rate card in the plan whose amount reads back
  as exactly the declared amount times the quantity, billed in advance, every month for a
  recurring fee and once for a one-time fee, under a valid key of at most 64 bytes.
\<close>

theorem flat_fee_card:
  assumes "buildOfferMapping dec fj offer meters = Inr m"
    and "sp \<in> set (of_pricings offer)" and "sp_charge_type sp \<noteq> ChargeUsage"
    and "plain (sp_amount sp)" and "parseDecimal (sp_amount sp) = Inr (r, k)"
  shows "\<exists>c amount. c \<in> set (plan_cards (om_plan m)) \<and> rc_price c = PriceFlat amount
    \<and> parseDecimal amount = Inr (r * of_int (max 1 (sp_quantity sp)), k)
    \<and> rc_payment_term c = Some ''in_advance''
    \<and> rc_cadence c = (if sp_charge_type sp = ChargeRecurring then Some ''P1M'' else None)
    \<and> valid_key (rc_key c) \<and> length (rc_key c) \<le> 64"
  using assms(1)
proof (rule build_ok)
  fix b
  assume each: "each (add_pricing dec fj meters) (of_pricings offer) empty_builder = Inr b"
    and cards: "concat (map ph_cards (dp_phases (om_plan m))) = b_cards b"
  obtain pre post where "of_pricings offer = pre @ sp # post"
    using assms(2) by (meson split_list)
  then obtain u v where pre: "each (add_pricing dec fj meters) pre empty_builder = Inr u"
    and sp: "add_pricing dec fj meters sp u = Inr v"
    and post: "each (add_pricing dec fj meters) post v = Inr b"
    using each by (auto simp: each_append split: sum.splits)
  have ku: "keys_inv u" by (rule build_inv [OF pre keys_inv_empty])
  have "addFlatFee sp u = Inr v"
    using sp assms(3) by (auto simp: add_pricing_def split: charge_type.splits)
  then show ?thesis
  proof (rule addFlatFee_ok [OF _ ku])
    fix c d amount
    assume a: "keys_inv v" "b_cards v = b_cards u @ [c]" "fee_card sp (fee_key sp) amount d = Inr c"
      "MultiplyAmount (sp_amount sp) (feeQuantity sp) = Inr amount"
    have q: "feeQuantity sp = max 1 (sp_quantity sp)" by (simp add: feeQuantity_def)
    have amt: "parseDecimal amount = Inr (r * of_int (max 1 (sp_quantity sp)), k)"
      using a(4) multiply_amount [OF assms(4,5), of "feeQuantity sp"] by (simp add: q)
    have "keys_inv b \<and> c \<in> set (b_cards b)"
      using post by (rule each_invariant) (use a(1,2) add_pricing_keys add_pricing_keeps_cards in auto)
    then have "c \<in> set (plan_cards (om_plan m))"
      by (simp add: plan_cards_def cards)
    moreover have "valid_key (fee_key sp) \<and> length (fee_key sp) \<le> 64"
      by (rule fee_key_valid)
    ultimately show ?thesis
      using fee_card_ok [OF a(3)] amt by (intro exI [of _ c] exI [of _ amount]) (simp add: usageBillingPeriod_def)
  qed
qed

theorem flat_fee_card_witness:
  "\<exists>c amount. c \<in> set (plan_cards (om_plan sample_mapping)) \<and> rc_price c = PriceFlat amount
    \<and> parseDecimal amount = Inr (3 / 2 * of_int (max 1 (sp_quantity sample_fee)), 1)
    \<and> rc_payment_term c = Some ''in_advance''
    \<and> rc_cadence c = (if sp_charge_type sample_fee = ChargeRecurring then Some ''P1M'' else None)
    \<and> valid_key (rc_key c) \<and> length (rc_key c) \<le> 64"
proof (rule flat_fee_card [OF sample_mapping_ok])
  show "sample_fee \<in> set (of_pricings sample_offer)" "sp_charge_type sample_fee \<noteq> ChargeUsage"
    "plain (sp_amount sample_fee)"
    by (simp_all add: sample_offer_def sample_fee_def plain_def)
  show "parseDecimal (sp_amount sample_fee) = Inr (3 / 2, 1)"
    by code_simp
qed

text \<open>
  A match value without a letter or digit breaks the feature key: for such a value the
  last segment of the readable key is empty, so the key has two underscores in a row, which
  OpenMeter's key syntax refuses.
\<close>

theorem usageFeature_invalid_key:
  "\<not> valid_key (df_key (usageFeature fj \<lparr>mi_name = n, mi_slug = ''egress'', mi_dimensions = [''region'']\<rparr>
     [(''region'', filter_eq ''-'')] label))"
proof -
  have "sanitizeKeyPart ''region'' = ''region''" "sanitizeKeyPart ''-'' = []"
    by code_simp+
  then have "\<exists>t. df_key (usageFeature fj \<lparr>mi_name = n, mi_slug = ''egress'', mi_dimensions = [''region'']\<rparr>
     [(''region'', filter_eq ''-'')] label) = ''egress_region'' @ [underscore, underscore] @ t"
    by (simp add: usageFeature_def feature_readable_def boundedKey_def openMeterKeyMaxLen_def keyHashLen_def Let_def)
  then show ?thesis
    by (auto simp: valid_key_def is_alnum_def is_lower_def is_digit_def byte_def)
qed

end
