(* ===== verification/Submission.thy ===== *)
theory Submission
  imports OmErrors
begin

text \<open>
  The usage submission consumer (\<open>internal/submission/submission.go\<close>), the account
  resolver behind it (\<open>attribution.go\<close>) and \<open>SubmitUsageBatch\<close>
  (\<open>internal/openmeter/ingest.go\<close>).

  Everything the consumer does to the outside is an \<open>action\<close>, appended to a trace in the
  order the code performs it. What the outside answers may depend on the whole trace, so
  nothing is assumed about OpenMeter, NATS or the informer cache beyond their interfaces:
  \<open>ingest\<close> is OpenMeter's ingest endpoint (a network error or a response), \<open>accounts\<close> and
  \<open>bindings\<close> are the indexed List calls of the cache, \<open>unmarshal\<close> is the CloudEvents
  decoder. As in the code, the consumer reaches OpenMeter and the accounts through two
  interfaces, \<open>IngestClient\<close> and \<open>Accounts\<close>; the locale \<open>submission_interfaces\<close> is their
  contract and is interpreted on the two implementations. Durations are nanoseconds.
\<close>

section \<open>Data\<close>

record cloud_event =
  ce_id :: go_string
  ce_source :: go_string
  ce_type :: go_string
  ce_subject :: go_string
  ce_extensions :: "(go_string \<times> go_string option) list"

text \<open>A JetStream message; the metadata may be unreadable (None).\<close>

record js_msg =
  msg_seq :: nat
  msg_data :: go_string
  msg_delivered :: "nat option"
  msg_timestamp :: "int option"

datatype outcome =
    outcomeSuccess | outcomeTransient | outcomePermanent | outcomeConfigError
  | outcomeUnattributed | outcomeMaxDeliveries

text \<open>A call fails with a network error, whose text is all the program keeps, or is answered.\<close>

type_synonym reply = "go_string + http_response"

datatype action =
    Record outcome
  | Ack nat
  | Nak nat int
  | InProgress nat
  | ListAccounts go_string
  | ListBindings go_string
  | Post "cloud_event list" reply
  | SetAge int
  | Sleep int

type_synonym trace = "action list"

record billing_account =
  ba_name :: go_string
  ba_namespace :: go_string
  ba_uid :: go_string

record account_binding =
  bd_namespace :: go_string
  bd_project :: go_string
  bd_account :: go_string

record consumer =
  fetchBatch :: int
  retryAfter :: int
  ackWait :: int
  fetchTimeout :: int

definition minute :: int where "minute = 60 * second"
definition maxDeliver :: nat where "maxDeliver = 5000"
definition maxNakDelay :: int where "maxNakDelay = 10 * minute"
definition maxFetchBackoff :: int where "maxFetchBackoff = 30 * second"
definition requestTimeout :: int where "requestTimeout = 30 * second"

section \<open>Attribution\<close>

definition projectSubjectPrefix :: go_string where
  "projectSubjectPrefix = ''projects/''"

definition billingAccountRefExtension :: go_string where
  "billingAccountRefExtension = ''billingaccountref''"

definition attributionTarget ::
  "go_string \<Rightarrow> (go_string \<times> go_string option) list \<Rightarrow> (go_string \<times> go_string) res" where
  "attributionTarget subject extensions =
    (let project = trim_prefix subject projectSubjectPrefix in
     if project = subject \<or> project = [] then
       Inl (Leaf (''subject '' @ subject @ '' is not of the form projects/<project>''))
     else case map_of extensions billingAccountRefExtension of
       None \<Rightarrow> Inl (Leaf ''missing billingaccountref extension'')
     | Some None \<Rightarrow> Inl (Leaf ''missing billingaccountref extension'')
     | Some (Some ref) \<Rightarrow>
        if ref = [] then Inl (Leaf ''missing billingaccountref extension'')
        else Inr (project, ref))"

text \<open>The loop over the accounts that share a name: the one in a namespace the project is bound in.\<close>

fun pick_account ::
  "go_string set \<Rightarrow> billing_account list \<Rightarrow> billing_account option \<Rightarrow> billing_account option res" where
  "pick_account namespaces [] match = Inr match"
| "pick_account namespaces (a # as) match =
    (if ba_namespace a \<notin> namespaces then pick_account namespaces as match
     else if match \<noteq> None then
       Inl (Wrap ''project is bound to BillingAccounts of that name in several namespaces'' [Sentinel ErrAccountUnresolved])
     else pick_account namespaces as (Some a))"

definition ResolveAccountUID ::
  "(trace \<Rightarrow> go_string \<Rightarrow> billing_account list res) \<Rightarrow> (trace \<Rightarrow> go_string \<Rightarrow> account_binding list res) \<Rightarrow>
   go_string \<Rightarrow> go_string \<Rightarrow> trace \<Rightarrow> go_string res \<times> trace" where
  "ResolveAccountUID accounts bindings project accountName t =
    (let t1 = t @ [ListAccounts accountName] in
     case accounts t accountName of
       Inl e \<Rightarrow> (Inl (Wrap ''list billing accounts'' [e]), t1)
     | Inr [] \<Rightarrow> (Inl (Wrap (''no BillingAccount named '' @ accountName) [Sentinel ErrAccountUnresolved]), t1)
     | Inr [a] \<Rightarrow> (Inr (ba_uid a), t1)
     | Inr items \<Rightarrow>
       (let t2 = t1 @ [ListBindings project] in
        case bindings t1 project of
          Inl e \<Rightarrow> (Inl (Wrap ''list billing account bindings'' [e]), t2)
        | Inr bs \<Rightarrow>
          (let namespaces = bd_namespace ` set (filter (\<lambda>b. bd_account b = accountName) bs) in
           case pick_account namespaces items None of
             Inl e \<Rightarrow> (Inl e, t2)
           | Inr None \<Rightarrow> (Inl (Wrap ''no binding of the project says which'' [Sentinel ErrAccountUnresolved]), t2)
           | Inr (Some a) \<Rightarrow> (Inr (ba_uid a), t2))))"

section \<open>Ingest\<close>

definition reply_error :: "reply \<Rightarrow> go_error option" where
  "reply_error r = (case r of Inl msg \<Rightarrow> classify None (Some (Leaf msg)) | Inr resp \<Rightarrow> classifyIngest (classify (Some resp) None))"

definition SubmitUsageBatch ::
  "(trace \<Rightarrow> cloud_event list \<Rightarrow> reply) \<Rightarrow> cloud_event list \<Rightarrow> trace \<Rightarrow> go_error option \<times> trace" where
  "SubmitUsageBatch ingest events t =
    (if events = [] then (None, t)
     else let r = ingest t events in (reply_error r, t @ [Post events r]))"

section \<open>Settling one message\<close>

fun nak_loop :: "nat \<Rightarrow> int \<Rightarrow> int" where
  "nak_loop 0 d = d"
| "nak_loop (Suc n) d = (if d < maxNakDelay then nak_loop n (int64 (d * 2)) else d)"

definition nakDelay :: "consumer \<Rightarrow> nat \<Rightarrow> int" where
  "nakDelay c delivered = min (nak_loop (delivered - 1) (retryAfter c)) maxNakDelay"

definition nak :: "consumer \<Rightarrow> js_msg \<Rightarrow> outcome \<Rightarrow> trace \<Rightarrow> trace" where
  "nak c msg oc t =
    (let delivered = (case msg_delivered msg of None \<Rightarrow> 0 | Some n \<Rightarrow> n) in
     t @ [Record oc, Nak (msg_seq msg) (nakDelay c delivered)])"

definition nakAll :: "consumer \<Rightarrow> js_msg list \<Rightarrow> outcome \<Rightarrow> trace \<Rightarrow> trace" where
  "nakAll c msgs oc t = fold (\<lambda>m. nak c m oc) msgs t"

definition ack :: "js_msg \<Rightarrow> trace \<Rightarrow> trace" where
  "ack msg t = t @ [Ack (msg_seq msg)]"

definition recordSubmission :: "outcome \<Rightarrow> trace \<Rightarrow> trace" where
  "recordSubmission oc t = t @ [Record oc]"

definition extendDeadlines :: "js_msg list \<Rightarrow> trace \<Rightarrow> trace" where
  "extendDeadlines msgs t = t @ map (InProgress \<circ> msg_seq) msgs"

section \<open>Processing a batch\<close>

definition validateEvent :: "(go_string \<Rightarrow> cloud_event res) \<Rightarrow> js_msg \<Rightarrow> cloud_event res" where
  "validateEvent unmarshal msg =
    (case unmarshal (msg_data msg) of
       Inl e \<Rightarrow> Inl e
     | Inr ce \<Rightarrow> if ce_subject ce = [] then Inl (Leaf ''missing subject'') else Inr ce)"

type_synonym resolver = "go_string \<Rightarrow> go_string \<Rightarrow> trace \<Rightarrow> go_string res \<times> trace"
type_synonym submitter = "cloud_event list \<Rightarrow> trace \<Rightarrow> go_error option \<times> trace"

definition attribute :: "resolver \<Rightarrow> cloud_event \<Rightarrow> trace \<Rightarrow> cloud_event res \<times> trace" where
  "attribute resolve ce t =
    (case attributionTarget (ce_subject ce) (ce_extensions ce) of
       Inl e \<Rightarrow> (Inl e, t)
     | Inr (project, accountName) \<Rightarrow>
       (case resolve project accountName t of
          (Inl e, t') \<Rightarrow> (Inl e, t')
        | (Inr uid, t') \<Rightarrow> (Inr (ce\<lparr>ce_subject := uid\<rparr>), t')))"

fun submitIndividually ::
  "submitter \<Rightarrow> consumer \<Rightarrow> (cloud_event \<times> js_msg) list \<Rightarrow> trace \<Rightarrow> trace" where
  "submitIndividually submit c [] t = t"
| "submitIndividually submit c ((ce, msg) # rest) t =
    (let t1 = extendDeadlines (msg # map snd rest) t in
     case submit [ce] t1 of
       (None, t2) \<Rightarrow> submitIndividually submit c rest (ack msg (recordSubmission outcomeSuccess t2))
     | (Some err, t2) \<Rightarrow>
        if IsEventRejected err then
          submitIndividually submit c rest (ack msg (recordSubmission outcomePermanent t2))
        else if IsTransient err then
          submitIndividually submit c rest (nak c msg outcomeTransient t2)
        else nakAll c (msg # map snd rest) outcomeConfigError t2)"

text \<open>The first loop of \<open>processMessages\<close>: settles what cannot be submitted, keeps the rest.\<close>

fun validate_all ::
  "(go_string \<Rightarrow> cloud_event res) \<Rightarrow> resolver \<Rightarrow> consumer \<Rightarrow> js_msg list \<Rightarrow>
   (cloud_event \<times> js_msg) list \<Rightarrow> trace \<Rightarrow> (cloud_event \<times> js_msg) list \<times> trace" where
  "validate_all unmarshal resolve c [] validated t = (validated, t)"
| "validate_all unmarshal resolve c (msg # msgs) validated t =
    (case validateEvent unmarshal msg of
       Inl e \<Rightarrow> validate_all unmarshal resolve c msgs validated (ack msg (recordSubmission outcomePermanent t))
     | Inr ce \<Rightarrow>
       (case attribute resolve ce t of
          (Inl e, t') \<Rightarrow> validate_all unmarshal resolve c msgs validated (nak c msg outcomeUnattributed t')
        | (Inr ce', t') \<Rightarrow> validate_all unmarshal resolve c msgs (validated @ [(ce', msg)]) t'))"

definition ack_success :: "js_msg \<Rightarrow> trace \<Rightarrow> trace" where
  "ack_success msg t = ack msg (recordSubmission outcomeSuccess t)"

definition processMessages ::
  "(go_string \<Rightarrow> cloud_event res) \<Rightarrow> resolver \<Rightarrow> submitter \<Rightarrow> consumer \<Rightarrow> js_msg list \<Rightarrow> trace \<Rightarrow> trace" where
  "processMessages unmarshal resolve submit c msgs t =
    (case validate_all unmarshal resolve c msgs [] t of
       (validated, t1) \<Rightarrow>
         if validated = [] then t1
         else case submit (map fst validated) t1 of
           (None, t2) \<Rightarrow> fold ack_success (map snd validated) t2
         | (Some err, t2) \<Rightarrow>
            if IsTransient err then nakAll c (map snd validated) outcomeTransient t2
            else if IsEventRejected err \<or> errors_is err ErrPayloadTooLarge then
              submitIndividually submit c validated t2
            else nakAll c (map snd validated) outcomeConfigError t2)"

section \<open>The consumer loop\<close>

datatype fetch_error =
    ErrTimeout | ErrNoMessages | DeadlineExceeded
  | ErrConnectionClosed | ErrConsumerDeleted | ErrConsumerNotFound | FetchErrorOther go_string

definition idleFetchError :: "fetch_error \<Rightarrow> bool" where
  "idleFetchError e \<longleftrightarrow> e = ErrTimeout \<or> e = ErrNoMessages \<or> e = DeadlineExceeded"

definition fatalFetchError :: "fetch_error \<Rightarrow> bool" where
  "fatalFetchError e \<longleftrightarrow> e = ErrConnectionClosed \<or> e = ErrConsumerDeleted \<or> e = ErrConsumerNotFound"

fun backoff_loop :: "nat \<Rightarrow> int \<Rightarrow> int" where
  "backoff_loop 0 d = d"
| "backoff_loop (Suc n) d = (if d < maxFetchBackoff then backoff_loop n (int64 (d * 2)) else d)"

definition fetchBackoff :: "nat \<Rightarrow> int" where
  "fetchBackoff n = (if n = 0 then 0 else min (backoff_loop (n - 1) second) maxFetchBackoff)"

definition minAckWait :: "consumer \<Rightarrow> int" where
  "minAckWait c = int64 (2 * int64 (fetchTimeout c + requestTimeout))"

text \<open>The defaults \<open>Start\<close> fills in before it creates the durable consumer.\<close>

definition start_config :: "consumer \<Rightarrow> consumer" where
  "start_config c =
    (let c = (if fetchBatch c \<le> 0 then c\<lparr>fetchBatch := 1\<rparr> else c);
         c = (if retryAfter c \<le> 0 then c\<lparr>retryAfter := 5 * second\<rparr> else c);
         c = (if fetchTimeout c \<le> 0 then c\<lparr>fetchTimeout := 5 * second\<rparr> else c)
     in if ackWait c < minAckWait c then c\<lparr>ackWait := minAckWait c\<rparr> else c)"

text \<open>
  What one pass of the loop meets: the connection is closed, \<open>Fetch\<close> fails, or a batch of
  messages arrives (read at \<open>now\<close>) and ends with an error or none. The loop runs over the
  passes until the context is cancelled, which is the end of the list.
\<close>

datatype pass =
    Closed
  | FetchFailed fetch_error
  | Batch (batch_msgs: "js_msg list") (batch_now: int) (batch_error: "fetch_error option")

definition oldest :: "js_msg list \<Rightarrow> int option" where
  "oldest msgs = fold (\<lambda>m old. case msg_timestamp m of None \<Rightarrow> old
     | Some ts \<Rightarrow> (case old of None \<Rightarrow> Some ts | Some o' \<Rightarrow> if ts < o' then Some ts else old)) msgs None"

fun start_loop ::
  "(js_msg list \<Rightarrow> trace \<Rightarrow> trace) \<Rightarrow> pass list \<Rightarrow> nat \<Rightarrow> trace \<Rightarrow> go_error option \<times> trace" where
  "start_loop process [] failures t = (None, t @ [SetAge 0])"
| "start_loop process (Closed # ps) failures t =
    (Some (Leaf ''submission consumer: NATS connection is closed''), t)"
| "start_loop process (FetchFailed e # ps) failures t =
    (if fatalFetchError e then (Some (Leaf ''submission consumer: fetch''), t)
     else start_loop process ps (Suc failures) (t @ [Sleep (fetchBackoff (Suc failures))]))"
| "start_loop process (Batch msgs now err # ps) failures t =
    (let t1 = (case oldest msgs of None \<Rightarrow> t | Some ts \<Rightarrow> t @ [SetAge (now - ts)]);
         t2 = (if msgs \<noteq> [] then process msgs t1 else t1);
         t3 = t2 @ [SetAge 0] in
     case err of
       None \<Rightarrow> start_loop process ps 0 t3
     | Some e \<Rightarrow>
        if idleFetchError e then start_loop process ps 0 t3
        else if fatalFetchError e then (Some (Leaf ''submission consumer: fetch''), t3)
        else start_loop process ps (Suc failures) (t3 @ [Sleep (fetchBackoff (Suc failures))]))"

definition Start ::
  "(go_string \<Rightarrow> cloud_event res) \<Rightarrow> resolver option \<Rightarrow> submitter \<Rightarrow> consumer \<Rightarrow> pass list \<Rightarrow> trace \<Rightarrow>
   go_error option \<times> trace" where
  "Start unmarshal accts submit c passes t =
    (case accts of
       None \<Rightarrow> (Some (Leaf ''submission consumer: Accounts resolver is required''), t)
     | Some resolve \<Rightarrow>
        start_loop (processMessages unmarshal resolve submit (start_config c)) passes 0 t)"

definition handleMaxDeliveriesAdvisory :: "trace \<Rightarrow> trace" where
  "handleMaxDeliveriesAdvisory t = recordSubmission outcomeMaxDeliveries t"

section \<open>Settling\<close>

fun settles :: "nat \<Rightarrow> action \<Rightarrow> bool" where
  "settles k (Ack j) = (j = k)"
| "settles k (Nak j d) = (j = k)"
| "settles k a = False"

text \<open>The number of times a message is acked or nacked.\<close>

definition settled :: "nat \<Rightarrow> trace \<Rightarrow> nat" where
  "settled k t = length (filter (settles k) t)"

lemma settled_simps [simp]:
  "settled k [] = 0" "settled k (t @ u) = settled k t + settled k u"
  "settled k (a # t) = (if settles k a then 1 else 0) + settled k t"
  by (simp_all add: settled_def)

definition settled_in :: "js_msg list \<Rightarrow> nat \<Rightarrow> nat" where
  "settled_in msgs k = length (filter (\<lambda>m. msg_seq m = k) msgs)"

lemma settled_in_simps [simp]:
  "settled_in [] k = 0"
  "settled_in (m # ms) k = (if msg_seq m = k then 1 else 0) + settled_in ms k"
  "settled_in (ms @ ns) k = settled_in ms k + settled_in ns k"
  by (simp_all add: settled_in_def)

lemma settled_operations [simp]:
  "settled k (nak c m oc t) = settled k t + (if msg_seq m = k then 1 else 0)"
  "settled k (ack m t) = settled k t + (if msg_seq m = k then 1 else 0)"
  "settled k (recordSubmission oc t) = settled k t"
  "settled k (extendDeadlines ms t) = settled k t"
  "settled k (ack_success m t) = settled k t + (if msg_seq m = k then 1 else 0)"
  by (induction ms arbitrary: t)
     (simp_all add: nak_def ack_def recordSubmission_def extendDeadlines_def ack_success_def Let_def)

lemma settled_nakAll [simp]: "settled k (nakAll c ms oc t) = settled k t + settled_in ms k"
  by (induction ms arbitrary: t) (simp_all add: nakAll_def)

lemma settled_ack_all [simp]: "settled k (fold ack_success ms t) = settled k t + settled_in ms k"
  by (induction ms arbitrary: t) simp_all

section \<open>The interfaces\<close>

text \<open>
  What the consumer relies on: resolving an account and submitting settle no message and
  only extend the trace; a submission that reports success was answered with a 2xx, and
  one that reports a rejected event was answered with a rejection, for exactly those events.
\<close>

definition accepted :: "reply \<Rightarrow> bool" where
  "accepted r \<longleftrightarrow> (case r of Inl e \<Rightarrow> False | Inr resp \<Rightarrow> ok_status (status_code resp))"

definition rejected :: "reply \<Rightarrow> bool" where
  "rejected r \<longleftrightarrow> (case r of Inl e \<Rightarrow> False
    | Inr resp \<Rightarrow> status_code resp \<in> {400, 422} \<and>
        \<not> contains (to_lower (body_snippet (resp_body resp))) ''invalid content type'')"

text \<open>An action that settles no message.\<close>

definition quiet :: "trace \<Rightarrow> bool" where
  "quiet u \<longleftrightarrow> (\<forall>k. settled k u = 0)"

locale submission_interfaces =
  fixes resolve :: resolver and submit :: submitter
  assumes resolve_quiet: "resolve p a t = (x, t') \<Longrightarrow> \<exists>u. t' = t @ u \<and> quiet u"
    and submit_quiet: "submit evs t = (y, t') \<Longrightarrow> \<exists>u. t' = t @ u \<and> quiet u"
    and submit_accepted: "submit evs t = (None, t @ u) \<Longrightarrow> evs \<noteq> [] \<Longrightarrow>
      \<exists>r. accepted r \<and> Post evs r \<in> set u"
    and submit_rejected: "submit evs t = (Some e, t @ u) \<Longrightarrow> IsEventRejected e \<Longrightarrow>
      \<exists>r. rejected r \<and> Post evs r \<in> set u"

section \<open>Justified acks\<close>

text \<open>
  The event a message carries, up to the subject attribution writes. A message may be
  acked when its event is unusable, when a batch with its event was accepted, or when its
  event alone was rejected.
\<close>

definition event_of :: "(go_string \<Rightarrow> cloud_event res) \<Rightarrow> js_msg \<Rightarrow> cloud_event \<Rightarrow> bool" where
  "event_of unmarshal m ce \<longleftrightarrow> (\<exists>ce0. validateEvent unmarshal m = Inr ce0 \<and> ce = ce0\<lparr>ce_subject := ce_subject ce\<rparr>)"

definition justified :: "(go_string \<Rightarrow> cloud_event res) \<Rightarrow> js_msg list \<Rightarrow> trace \<Rightarrow> nat \<Rightarrow> bool" where
  "justified unmarshal msgs xs k \<longleftrightarrow> (\<exists>m \<in> set msgs. msg_seq m = k \<and>
     (isl (validateEvent unmarshal m) \<or>
      (\<exists>evs r ce. Post evs r \<in> set xs \<and> ce \<in> set evs \<and> event_of unmarshal m ce \<and>
         (accepted r \<or> rejected r \<and> evs = [ce]))))"

definition acks_ok :: "(trace \<Rightarrow> nat \<Rightarrow> bool) \<Rightarrow> trace \<Rightarrow> bool" where
  "acks_ok P new \<longleftrightarrow> (\<forall>xs k ys. new = xs @ Ack k # ys \<longrightarrow> P xs k)"

text \<open>The trace grew from \<open>t0\<close> by actions that include \<open>A\<close> and whose acks are all justified.\<close>

definition grown :: "(trace \<Rightarrow> nat \<Rightarrow> bool) \<Rightarrow> trace \<Rightarrow> action set \<Rightarrow> trace \<Rightarrow> bool" where
  "grown P t0 A t \<longleftrightarrow> (\<exists>new. t = t0 @ new \<and> A \<subseteq> set new \<and> acks_ok P new)"

lemma quiet_simps [simp]: "quiet []" "quiet (a # u) \<longleftrightarrow> (\<forall>k. \<not> settles k a) \<and> quiet u"
  by (auto simp: quiet_def)

lemma quiet_no_ack: "quiet u \<Longrightarrow> Ack k \<notin> set u"
  by (induction u) (auto dest: spec [of _ k])

lemma acks_ok_append:
  assumes "acks_ok P new" and "\<And>xs k ys. u = xs @ Ack k # ys \<Longrightarrow> P (new @ xs) k"
  shows "acks_ok P (new @ u)"
  unfolding acks_ok_def
proof (intro allI impI)
  fix xs j ys assume "new @ u = xs @ Ack j # ys"
  then consider zs where "new = xs @ Ack j # zs" | vs where "xs = new @ vs" "u = vs @ Ack j # ys"
    by (auto simp: append_eq_append_conv2 append_eq_Cons_conv)
  then show "P xs j"
    using assms by cases (auto simp: acks_ok_def)
qed

lemma acks_ok_no_ack: "acks_ok P new \<Longrightarrow> (\<And>k. Ack k \<notin> set u) \<Longrightarrow> acks_ok P (new @ u)"
  by (rule acks_ok_append) auto

lemma acks_ok_ack: "acks_ok P new \<Longrightarrow> P new k \<Longrightarrow> acks_ok P (new @ [Ack k])"
  by (rule acks_ok_append) (auto simp: Cons_eq_append_conv)

lemma grown_refl: "grown P t {} t"
  by (simp add: grown_def acks_ok_def)

lemma grown_quiet:
  assumes "grown P t0 A t" and "quiet u"
  shows "grown P t0 (A \<union> set u) (t @ u)"
proof -
  from assms(1) obtain new where new: "t = t0 @ new" "A \<subseteq> set new" "acks_ok P new"
    by (auto simp: grown_def)
  have "acks_ok P (new @ u)"
    using new(3) quiet_no_ack [OF assms(2)] by (rule acks_ok_no_ack)
  with new show ?thesis by (auto simp: grown_def)
qed

lemma grown_mono: "grown P t0 A t \<Longrightarrow> B \<subseteq> A \<Longrightarrow> grown P t0 B t"
  by (auto simp: grown_def)

lemma grown_nak: "grown P t0 A t \<Longrightarrow> grown P t0 A (nak c m oc t)"
proof -
  assume "grown P t0 A t"
  then obtain new where new: "t = t0 @ new" "A \<subseteq> set new" "acks_ok P new"
    by (auto simp: grown_def)
  let ?u = "[Record oc, Nak (msg_seq m) (nakDelay c (case msg_delivered m of None \<Rightarrow> 0 | Some n \<Rightarrow> n))]"
  have "acks_ok P (new @ ?u)"
    by (rule acks_ok_no_ack [OF new(3)]) auto
  with new show ?thesis by (auto simp: grown_def nak_def Let_def)
qed

lemma grown_nakAll: "grown P t0 A t \<Longrightarrow> grown P t0 A (nakAll c ms oc t)"
  by (induction ms arbitrary: t) (simp_all add: nakAll_def grown_nak)

lemma grown_extend: "grown P t0 A t \<Longrightarrow> grown P t0 A (extendDeadlines ms t)"
proof -
  assume "grown P t0 A t"
  moreover have "quiet (map (InProgress \<circ> msg_seq) ms)"
    by (induction ms) auto
  ultimately show ?thesis
    unfolding extendDeadlines_def using grown_quiet grown_mono by blast
qed

lemma grown_ack:
  assumes "grown P t0 A t" and "\<And>xs. A \<subseteq> set xs \<Longrightarrow> P xs (msg_seq m)"
  shows "grown P t0 A (ack m (recordSubmission oc t))"
proof -
  from assms(1) obtain new where new: "t = t0 @ new" "A \<subseteq> set new" "acks_ok P new"
    by (auto simp: grown_def)
  have "acks_ok P (new @ [Record oc])"
    using new(3) by (rule acks_ok_no_ack) auto
  moreover have "A \<subseteq> set (new @ [Record oc])" using new(2) by auto
  ultimately have "acks_ok P ((new @ [Record oc]) @ [Ack (msg_seq m)])"
    using assms(2) by (blast intro: acks_ok_ack)
  with new show ?thesis
    unfolding grown_def ack_def recordSubmission_def
    by (intro exI [of _ "(new @ [Record oc]) @ [Ack (msg_seq m)]"]) auto
qed

lemma grown_ack_all:
  "grown P t0 A t \<Longrightarrow> (\<And>m xs. m \<in> set ms \<Longrightarrow> A \<subseteq> set xs \<Longrightarrow> P xs (msg_seq m)) \<Longrightarrow>
   grown P t0 A (fold ack_success ms t)"
  by (induction ms arbitrary: t) (simp_all add: ack_success_def grown_ack)

context submission_interfaces
begin

lemma quiet_settled: "quiet u \<Longrightarrow> settled k (t @ u) = settled k t"
  by (simp add: quiet_def)

lemma attribute_cases:
  assumes "attribute resolve ce t = (x, t')"
  obtains u where "t' = t @ u" "quiet u" "\<forall>ce'. x = Inr ce' \<longrightarrow> ce' = ce\<lparr>ce_subject := ce_subject ce'\<rparr>"
proof (cases "attributionTarget (ce_subject ce) (ce_extensions ce)")
  case (Inl e)
  with assms that [of "[]"] show thesis by (auto simp: attribute_def)
next
  case (Inr pa)
  obtain p a where pa: "pa = (p, a)" by force
  obtain y t1 where y: "resolve p a t = (y, t1)" by force
  from resolve_quiet [OF this] obtain u where u: "t1 = t @ u" "quiet u" by blast
  have "t' = t1" "\<forall>ce'. x = Inr ce' \<longrightarrow> ce' = ce\<lparr>ce_subject := ce_subject ce'\<rparr>"
    using assms Inr pa y by (auto simp: attribute_def split: sum.splits)
  with u that show thesis by blast
qed

lemma submitIndividually_settled:
  "settled k (submitIndividually submit c prs t) = settled k t + settled_in (map snd prs) k"
proof (induction prs arbitrary: t)
  case (Cons pr rest)
  obtain ce msg where pr: "pr = (ce, msg)" by force
  let ?t = "extendDeadlines (msg # map snd rest) t"
  obtain x t2 where x: "submit [ce] ?t = (x, t2)" by force
  from submit_quiet [OF x] have "settled k t2 = settled k t"
    by (auto simp: quiet_def)
  with x Cons show ?case by (simp add: pr Let_def split: option.splits)
qed simp

lemma validate_all_settled:
  "validate_all unmarshal resolve c msgs validated t = (v, t') \<Longrightarrow>
   settled k t' + settled_in (map snd v) k = settled k t + settled_in (map snd validated) k + settled_in msgs k"
proof (induction msgs arbitrary: validated t)
  case (Cons msg msgs)
  show ?case
  proof (cases "validateEvent unmarshal msg")
    case (Inl e)
    with Cons.prems Cons.IH show ?thesis by fastforce
  next
    case (Inr ce)
    obtain x t1 where x: "attribute resolve ce t = (x, t1)" by force
    from x obtain u where "t1 = t @ u" "quiet u" by (rule attribute_cases)
    then have "settled k t1 = settled k t" by (simp add: quiet_def)
    with Cons.prems Cons.IH Inr x show ?thesis by (cases x) fastforce+
  qed
qed simp

lemma processMessages_settled:
  "settled k (processMessages unmarshal resolve submit c msgs t) = settled k t + settled_in msgs k"
proof -
  obtain v t1 where v: "validate_all unmarshal resolve c msgs [] t = (v, t1)" by force
  note count = validate_all_settled [OF v, of k]
  obtain x t2 where x: "submit (map fst v) t1 = (x, t2)" by force
  from submit_quiet [OF x] have "settled k t2 = settled k t1" by (auto simp: quiet_def)
  with v x count show ?thesis
    by (auto simp: processMessages_def submitIndividually_settled split: option.splits)
qed

lemma validate_all_grown:
  assumes "validate_all unmarshal resolve c ms validated t = (v, t')" and "set ms \<subseteq> set msgs"
    and "grown (justified unmarshal msgs) t0 {} t"
    and "\<forall>(ce, m) \<in> set validated. m \<in> set msgs \<and> event_of unmarshal m ce"
  shows "grown (justified unmarshal msgs) t0 {} t' \<and> (\<forall>(ce, m) \<in> set v. m \<in> set msgs \<and> event_of unmarshal m ce)"
  using assms
proof (induction ms arbitrary: validated t)
  case (Cons m ms)
  show ?case
  proof (cases "validateEvent unmarshal m")
    case (Inl e)
    then have "grown (justified unmarshal msgs) t0 {} (ack m (recordSubmission outcomePermanent t))"
      using Cons.prems(2) by (intro grown_ack [OF Cons.prems(3)]) (auto simp: justified_def)
    with Cons.IH Cons.prems Inl show ?thesis by auto
  next
    case (Inr ce)
    obtain x t1 where x: "attribute resolve ce t = (x, t1)" by force
    from x obtain u where u: "t1 = t @ u" "quiet u" "\<forall>ce'. x = Inr ce' \<longrightarrow> ce' = ce\<lparr>ce_subject := ce_subject ce'\<rparr>"
      by (rule attribute_cases)
    have g: "grown (justified unmarshal msgs) t0 {} t1"
      unfolding u(1) using grown_quiet [OF Cons.prems(3) u(2)] grown_mono by blast
    have ev: "event_of unmarshal m ce'" if "x = Inr ce'" for ce'
      using Inr u(3) that by (auto simp: event_of_def)
    show ?thesis
    proof (cases x)
      case (Inl e)
      then show ?thesis
        using Cons.prems Inr x by (intro Cons.IH [of validated "nak c m outcomeUnattributed t1"]) (auto intro: grown_nak g)
    next
      case x': (Inr ce')
      show ?thesis
      proof (rule Cons.IH [of "validated @ [(ce', m)]" t1])
        show "validate_all unmarshal resolve c ms (validated @ [(ce', m)]) t1 = (v, t')"
          using Cons.prems(1) Inr x x' by simp
      qed (use Cons.prems ev x' g in auto)
    qed
  qed
qed simp

lemma submitIndividually_grown:
  assumes "grown (justified unmarshal msgs) t0 {} t"
    and "\<forall>(ce, m) \<in> set prs. m \<in> set msgs \<and> event_of unmarshal m ce"
  shows "grown (justified unmarshal msgs) t0 {} (submitIndividually submit c prs t)"
  using assms
proof (induction prs arbitrary: t)
  case (Cons pr rest)
  obtain ce m where pr: "pr = (ce, m)" by force
  let ?t = "extendDeadlines (m # map snd rest) t"
  obtain x t2 where x: "submit [ce] ?t = (x, t2)" by force
  from submit_quiet [OF x] obtain u where u: "t2 = ?t @ u" "quiet u" by blast
  have g: "grown (justified unmarshal msgs) t0 (set u) t2"
    unfolding u(1) using grown_quiet [OF grown_extend [OF Cons.prems(1)] u(2)] grown_mono by blast
  have m: "m \<in> set msgs" "event_of unmarshal m ce" using Cons.prems(2) by (auto simp: pr)
  have rest: "grown (justified unmarshal msgs) t0 {} (submitIndividually submit c rest t3)"
    if "grown (justified unmarshal msgs) t0 {} t3" for t3
    using Cons.IH that Cons.prems(2) by simp
  have acked: "grown (justified unmarshal msgs) t0 {} (ack m (recordSubmission oc t2))"
    if post: "\<exists>r. (accepted r \<or> rejected r) \<and> Post [ce] r \<in> set u" for oc
  proof -
    have "justified unmarshal msgs xs (msg_seq m)" if "set u \<subseteq> set xs" for xs
      using post m that unfolding justified_def by fastforce
    then have "grown (justified unmarshal msgs) t0 (set u) (ack m (recordSubmission oc t2))"
      using g by (intro grown_ack) auto
    then show ?thesis using grown_mono by blast
  qed
  have g0: "grown (justified unmarshal msgs) t0 {} t2" using g grown_mono by blast
  show ?case
  proof (cases x)
    case None
    then have "\<exists>r. (accepted r \<or> rejected r) \<and> Post [ce] r \<in> set u"
      using submit_accepted x u(1) by blast
    then show ?thesis using x None by (simp add: pr Let_def rest acked)
  next
    case (Some e)
    have "\<exists>r. (accepted r \<or> rejected r) \<and> Post [ce] r \<in> set u" if "IsEventRejected e"
      using submit_rejected x u(1) Some that by blast
    then show ?thesis
      using x Some g0 by (auto simp: pr Let_def grown_nak grown_nakAll intro!: rest acked)
  qed
qed simp

lemma processMessages_grown:
  "grown (justified unmarshal msgs) t {} (processMessages unmarshal resolve submit c msgs t)"
proof -
  let ?P = "justified unmarshal msgs"
  obtain v t1 where v: "validate_all unmarshal resolve c msgs [] t = (v, t1)" by force
  have g1: "grown ?P t {} t1" and ev: "\<forall>(ce, m) \<in> set v. m \<in> set msgs \<and> event_of unmarshal m ce"
    using validate_all_grown [OF v subset_refl grown_refl] by simp_all
  obtain x t2 where x: "submit (map fst v) t1 = (x, t2)" by force
  from submit_quiet [OF x] obtain u where u: "t2 = t1 @ u" "quiet u" by blast
  have g2: "grown ?P t (set u) t2"
    unfolding u(1) using grown_quiet [OF g1 u(2)] grown_mono by blast
  then have g20: "grown ?P t {} t2" using grown_mono by blast
  show ?thesis
  proof (cases "v = [] \<or> x \<noteq> None")
    case True
    then show ?thesis
      using v x g1 g20 ev
      by (auto simp: processMessages_def grown_nakAll submitIndividually_grown split: option.splits)
  next
    case False
    then have ok: "v \<noteq> []" "x = None" by auto
    then obtain r where r: "accepted r" "Post (map fst v) r \<in> set u"
      using submit_accepted x u(1) by blast
    have "?P xs (msg_seq m)" if "m \<in> set (map snd v)" "set u \<subseteq> set xs" for m xs
    proof -
      from that(1) obtain ce where "(ce, m) \<in> set v" by auto
      then have "ce \<in> set (map fst v)" "m \<in> set msgs" "event_of unmarshal m ce" using ev by force+
      then show ?thesis using r that(2) unfolding justified_def by blast
    qed
    then have "grown ?P t (set u) (fold ack_success (map snd v) t2)"
      using g2 by (intro grown_ack_all) auto
    then show ?thesis
      using v x ok grown_mono by (auto simp: processMessages_def)
  qed
qed

end

section \<open>The implementations keep the contract\<close>

lemma reply_error_None: "reply_error r = None \<longleftrightarrow> accepted r"
proof (cases r)
  case (Inl e)
  then show ?thesis by (simp add: reply_error_def accepted_def classify_def)
next
  case (Inr resp)
  then show ?thesis
    using ingest_error_None_iff [of resp] by (simp add: reply_error_def accepted_def ingest_error_def)
qed

lemma reply_error_rejected: "reply_error r = Some e \<Longrightarrow> IsEventRejected e \<longleftrightarrow> rejected r"
proof (cases r)
  case (Inl n)
  moreover assume "reply_error r = Some e"
  ultimately show ?thesis
    by (auto simp: reply_error_def classify_def IsEventRejected_def errors_is_def rejected_def)
next
  case (Inr resp)
  moreover assume "reply_error r = Some e"
  ultimately have "ingest_error resp = Some e"
    by (simp add: reply_error_def ingest_error_def)
  with Inr show ?thesis by (simp add: rejected_def ingest_error_Some)
qed

lemma ResolveAccountUID_trace:
  "ResolveAccountUID accounts bindings p a t = (x, t') \<Longrightarrow> \<exists>u. t' = t @ u \<and> quiet u"
  by (auto simp: ResolveAccountUID_def Let_def split: sum.splits list.splits option.splits)

lemma SubmitUsageBatch_trace:
  "SubmitUsageBatch ingest evs t = (x, t') \<Longrightarrow>
   if evs = [] then x = None \<and> t' = t else \<exists>r. x = reply_error r \<and> t' = t @ [Post evs r]"
  by (auto simp: SubmitUsageBatch_def Let_def)

interpretation om: submission_interfaces "ResolveAccountUID accounts bindings" "SubmitUsageBatch ingest"
  for accounts bindings ingest
proof
  show "\<exists>u. t' = t @ u \<and> quiet u" if "ResolveAccountUID accounts bindings p a t = (x, t')" for p a t x t'
    using that by (rule ResolveAccountUID_trace)
  show "\<exists>u. t' = t @ u \<and> quiet u" if "SubmitUsageBatch ingest evs t = (y, t')" for evs t y t'
    using SubmitUsageBatch_trace [OF that] by (auto split: if_splits)
  show "\<exists>r. accepted r \<and> Post evs r \<in> set u"
    if "SubmitUsageBatch ingest evs t = (None, t @ u)" "evs \<noteq> []" for evs t u
    using SubmitUsageBatch_trace [OF that(1)] that(2) reply_error_None by (metis list.set_intros(1) same_append_eq)
  show "\<exists>r. rejected r \<and> Post evs r \<in> set u"
    if "SubmitUsageBatch ingest evs t = (Some e, t @ u)" "IsEventRejected e" for evs t u e
    using SubmitUsageBatch_trace [OF that(1)] that(2) reply_error_rejected
    by (metis list.set_intros(1) option.distinct(1) same_append_eq)
qed

section \<open>Properties\<close>

text \<open>
  C9. Every message of a batch is settled exactly once: processing a batch of messages
  acks or nacks each message of it once and no other message, whatever OpenMeter and the
  account cache answer.
\<close>

theorem processMessages_settles_once:
  assumes "distinct (map msg_seq msgs)"
  shows "settled k (processMessages unmarshal (ResolveAccountUID accounts bindings) (SubmitUsageBatch ingest) c msgs t)
    = settled k t + (if k \<in> msg_seq ` set msgs then 1 else 0)"
proof -
  have "settled_in msgs k = (if k \<in> msg_seq ` set msgs then 1 else 0)"
    using assms by (induction msgs) auto
  then show ?thesis by (simp add: om.processMessages_settled)
qed

definition sample_msg :: js_msg where
  "sample_msg = \<lparr>msg_seq = 7, msg_data = [], msg_delivered = None, msg_timestamp = None\<rparr>"

theorem processMessages_settles_once_witness:
  "settled 7 (processMessages (\<lambda>_. Inl (Leaf [])) (ResolveAccountUID (\<lambda>_ _. Inr []) (\<lambda>_ _. Inr []))
     (SubmitUsageBatch (\<lambda>_ _. Inl [])) \<lparr>fetchBatch = 1, retryAfter = 1, ackWait = 0, fetchTimeout = 1\<rparr> [sample_msg] []) = 1"
  using processMessages_settles_once [where k = 7 and msgs = "[sample_msg]" and t = "[]"]
  by (simp add: sample_msg_def)

text \<open>
  C2. Usage is never dropped silently: a message is acked only when it is not a CloudEvent
  with a subject, when OpenMeter has accepted (2xx) a request that contained its event, or
  when OpenMeter has rejected its event alone as invalid. Every other message is nacked for
  redelivery (with the previous property).
\<close>

theorem acked_only_if_submitted:
  assumes "processMessages unmarshal (ResolveAccountUID accounts bindings) (SubmitUsageBatch ingest) c msgs t
      = t @ xs @ Ack k # ys"
  shows "\<exists>m \<in> set msgs. msg_seq m = k \<and>
     (isl (validateEvent unmarshal m) \<or>
      (\<exists>evs r ce. Post evs r \<in> set xs \<and> ce \<in> set evs \<and> event_of unmarshal m ce \<and>
         (accepted r \<or> rejected r \<and> evs = [ce])))"
proof -
  from om.processMessages_grown [of unmarshal msgs t accounts bindings ingest c]
  obtain new where "t @ xs @ Ack k # ys = t @ new" "acks_ok (justified unmarshal msgs) new"
    unfolding assms by (auto simp: grown_def)
  then have "justified unmarshal msgs xs k" by (auto simp: acks_ok_def)
  then show ?thesis by (simp add: justified_def)
qed

theorem acked_only_if_submitted_witness:
  "\<exists>m \<in> set [sample_msg]. msg_seq m = 7 \<and>
     (isl (validateEvent (\<lambda>_. Inl (Leaf [])) m) \<or>
      (\<exists>evs r ce. Post evs r \<in> set [Record outcomePermanent] \<and> ce \<in> set evs \<and> event_of (\<lambda>_. Inl (Leaf [])) m ce \<and>
         (accepted r \<or> rejected r \<and> evs = [ce])))"
  by (rule acked_only_if_submitted [where t = "[]" and ys = "[]" and c = undefined and ingest = "\<lambda>_ _. Inl []"
      and accounts = "\<lambda>_ _. Inr []" and bindings = "\<lambda>_ _. Inr []"])
     (simp add: processMessages_def validateEvent_def sample_msg_def ack_def recordSubmission_def)

lemma nak_loop_min:
  "0 < d \<Longrightarrow> min (nak_loop n d) maxNakDelay = min (d * 2 ^ n) maxNakDelay"
proof (induction n arbitrary: d)
  case (Suc n)
  show ?case
  proof (cases "d < maxNakDelay")
    case True
    then have "int64 (d * 2) = d * 2"
      using Suc.prems by (intro int64_id) (simp_all add: maxNakDelay_def minute_def second_def)
    with Suc True show ?thesis by (simp add: mult.assoc)
  next
    case False
    moreover have "d * 1 \<le> d * 2 ^ Suc n"
      using Suc.prems by (intro mult_left_mono one_le_power) simp_all
    ultimately show ?thesis by simp
  qed
qed simp

lemma nakDelay_eq:
  "0 < retryAfter c \<Longrightarrow> nakDelay c (Suc n) = min (retryAfter c * 2 ^ n) maxNakDelay"
  by (simp add: nakDelay_def nak_loop_min)

text \<open>
  Redelivery outlasts retention: with \<open>maxDeliver\<close> deliveries and the delays of
  \<open>nakDelay\<close>, a message that fails every time is redelivered over more than 34 days, for
  every positive \<open>RetryAfter\<close>; the stream keeps messages for 30.
\<close>

theorem redelivery_span:
  assumes "0 < retryAfter c"
  shows "34 * 24 * 60 * minute \<le> (\<Sum>n = 1..<maxDeliver. nakDelay c n)"
proof -
  have late: "nakDelay c n = maxNakDelay" if n: "n \<in> {41..<maxDeliver}" for n
  proof -
    obtain m where m: "n = Suc (40 + m)"
      using n by (intro that [of "n - 41"]) simp
    have "(1::int) * 2 ^ 40 \<le> retryAfter c * 2 ^ (40 + m)"
      using assms by (intro mult_mono power_increasing) auto
    then show ?thesis
      unfolding m nakDelay_eq [OF assms] by (simp add: maxNakDelay_def minute_def second_def)
  qed
  have nonneg: "0 \<le> nakDelay c n" for n
  proof (cases n)
    case 0
    then show ?thesis using assms by (simp add: nakDelay_def maxNakDelay_def minute_def second_def)
  next
    case (Suc m)
    then show ?thesis using assms by (simp add: nakDelay_eq maxNakDelay_def minute_def second_def)
  qed
  have "34 * 24 * 60 * minute \<le> (\<Sum>n = 41..<maxDeliver. nakDelay c n)"
    by (subst sum.cong [OF refl late]) (simp_all add: maxDeliver_def maxNakDelay_def minute_def second_def)
  also have "\<dots> \<le> (\<Sum>n = 1..<maxDeliver. nakDelay c n)"
    by (rule sum_mono2) (auto simp: nonneg)
  finally show ?thesis .
qed

theorem redelivery_span_witness:
  "34 * 24 * 60 * minute \<le> (\<Sum>n = 1..<maxDeliver. nakDelay \<lparr>fetchBatch = 1, retryAfter = 1, ackWait = 0, fetchTimeout = 1\<rparr> n)"
  by (rule redelivery_span) simp

text \<open>
  The defaults make the consumer safe: after them it fetches at least one message, backs
  off by a positive delay, and its ack deadline covers a full fetch plus one OpenMeter
  request twice over, for every fetch timeout up to 73 years.
\<close>

theorem start_config_safe:
  assumes "fetchTimeout c \<le> 2 ^ 61"
  shows "1 \<le> fetchBatch (start_config c) \<and> 0 < retryAfter (start_config c) \<and> 0 < fetchTimeout (start_config c)
    \<and> 2 * (fetchTimeout (start_config c) + requestTimeout) \<le> ackWait (start_config c)"
proof -
  have wait: "minAckWait d = 2 * (fetchTimeout d + requestTimeout)" if "0 < fetchTimeout d" "fetchTimeout d \<le> 2 ^ 61" for d
  proof -
    have "int64 (fetchTimeout d + requestTimeout) = fetchTimeout d + requestTimeout"
      using that by (intro int64_id) (simp_all add: requestTimeout_def second_def)
    moreover have "int64 (2 * (fetchTimeout d + requestTimeout)) = 2 * (fetchTimeout d + requestTimeout)"
      using that by (intro int64_id) (simp_all add: requestTimeout_def second_def)
    ultimately show ?thesis by (simp add: minAckWait_def)
  qed
  show ?thesis
    using assms by (simp add: start_config_def Let_def wait second_def)
qed

theorem start_config_safe_witness:
  "1 \<le> fetchBatch (start_config \<lparr>fetchBatch = 0, retryAfter = 0, ackWait = 0, fetchTimeout = 0\<rparr>)
    \<and> 0 < retryAfter (start_config \<lparr>fetchBatch = 0, retryAfter = 0, ackWait = 0, fetchTimeout = 0\<rparr>)
    \<and> 0 < fetchTimeout (start_config \<lparr>fetchBatch = 0, retryAfter = 0, ackWait = 0, fetchTimeout = 0\<rparr>)
    \<and> 2 * (fetchTimeout (start_config \<lparr>fetchBatch = 0, retryAfter = 0, ackWait = 0, fetchTimeout = 0\<rparr>) + requestTimeout)
      \<le> ackWait (start_config \<lparr>fetchBatch = 0, retryAfter = 0, ackWait = 0, fetchTimeout = 0\<rparr>)"
  by (rule start_config_safe) simp

lemma pick_account_eq:
  "pick_account ns items match =
    (case (match, filter (\<lambda>a. ba_namespace a \<in> ns) items) of
       (m, []) \<Rightarrow> Inr m
     | (None, [a]) \<Rightarrow> Inr (Some a)
     | _ \<Rightarrow> Inl (Wrap ''project is bound to BillingAccounts of that name in several namespaces'' [Sentinel ErrAccountUnresolved]))"
  by (induction ns items match rule: pick_account.induct) (auto split: list.splits option.splits)

text \<open>
  Attribution never guesses. When an account is resolved it is the only one of that
  name, or the only one of that name in a namespace where the event's project is bound to
  an account of that name; when the cache answers and no account qualifies uniquely, the
  error is \<open>ErrAccountUnresolved\<close>.
\<close>

theorem ResolveAccountUID_unique:
  assumes "accounts t name = Inr items" and "bindings (t @ [ListAccounts name]) project = Inr bs"
  defines "bound \<equiv> filter (\<lambda>a. \<exists>b \<in> set bs. bd_account b = name \<and> bd_namespace b = ba_namespace a) items"
  shows "case fst (ResolveAccountUID accounts bindings project name t) of
     Inr uid \<Rightarrow> \<exists>a. uid = ba_uid a \<and> (items = [a] \<or> bound = [a])
   | Inl e \<Rightarrow> errors_is e ErrAccountUnresolved \<and> length items \<noteq> 1 \<and> length bound \<noteq> 1"
proof -
  have b: "filter (\<lambda>a. ba_namespace a \<in> bd_namespace ` set (filter (\<lambda>b. bd_account b = name) bs)) items = bound"
    unfolding bound_def by (rule filter_cong) (auto intro: rev_image_eqI)
  consider "items = []" | a where "items = [a]" | a a' as where "items = a # a' # as"
    by (metis neq_Nil_conv)
  then show ?thesis
  proof cases
    case 1
    then show ?thesis using assms(1) by (simp add: ResolveAccountUID_def errors_is_def bound_def)
  next
    case 2
    then show ?thesis using assms(1) by (auto simp: ResolveAccountUID_def)
  next
    case 3
    have "fst (ResolveAccountUID accounts bindings project name t) =
      (case bound of [] \<Rightarrow> Inl (Wrap ''no binding of the project says which'' [Sentinel ErrAccountUnresolved])
       | [a] \<Rightarrow> Inr (ba_uid a)
       | _ \<Rightarrow> Inl (Wrap ''project is bound to BillingAccounts of that name in several namespaces'' [Sentinel ErrAccountUnresolved]))"
      using assms(1,2) 3 b
      by (simp only: ResolveAccountUID_def Let_def sum.case list.case pick_account_eq prod.case)
         (auto split: list.splits)
    then show ?thesis using 3 by (auto simp: errors_is_def split: list.splits)
  qed
qed

theorem ResolveAccountUID_unique_witness:
  "\<exists>a. ''u2'' = ba_uid a \<and>
     ([\<lparr>ba_name = ''acct'', ba_namespace = ''a'', ba_uid = ''u1''\<rparr>, \<lparr>ba_name = ''acct'', ba_namespace = ''b'', ba_uid = ''u2''\<rparr>] = [a] \<or>
      filter (\<lambda>a. \<exists>b \<in> set [\<lparr>bd_namespace = ''b'', bd_project = ''p'', bd_account = ''acct''\<rparr>].
          bd_account b = ''acct'' \<and> bd_namespace b = ba_namespace a)
        [\<lparr>ba_name = ''acct'', ba_namespace = ''a'', ba_uid = ''u1''\<rparr>, \<lparr>ba_name = ''acct'', ba_namespace = ''b'', ba_uid = ''u2''\<rparr>] = [a])"
  using ResolveAccountUID_unique [where t = "[]" and name = "''acct''" and project = "''p''"
      and accounts = "\<lambda>_ _. Inr [\<lparr>ba_name = ''acct'', ba_namespace = ''a'', ba_uid = ''u1''\<rparr>, \<lparr>ba_name = ''acct'', ba_namespace = ''b'', ba_uid = ''u2''\<rparr>]"
      and bindings = "\<lambda>_ _. Inr [\<lparr>bd_namespace = ''b'', bd_project = ''p'', bd_account = ''acct''\<rparr>]", OF refl refl]
  by (simp add: ResolveAccountUID_def)

end
