(* ===== verification/GoTime.thy ===== *)
theory GoTime
  imports OmErrors
begin

text \<open>
  What the program uses of Go's \<open>time\<close> package. A time is the number of nanoseconds since
  1970-01-01 UTC; \<open>civil_from_days\<close> is the proleptic Gregorian calendar the package uses,
  counting days from 1970-01-01. Also here: the printing of integers by \<open>fmt\<close>.
\<close>

section \<open>Printing integers\<close>

definition int_text :: "int \<Rightarrow> go_string" where
  "int_text n = (if n < 0 then ''-'' else []) @ nat_digits (nat \<bar>n\<bar>)"

text \<open>The verbs \<open>%02d\<close> and \<open>%04d\<close>.\<close>

definition int_text2 :: "int \<Rightarrow> go_string" where
  "int_text2 n = (if 0 \<le> n \<and> n < 10 then ''0'' else []) @ int_text n"

definition int_text4 :: "int \<Rightarrow> go_string" where
  "int_text4 n =
    (let digits = nat_digits (nat \<bar>n\<bar>); sign = (if n < 0 then ''-'' else [])
     in sign @ replicate (4 - (length sign + length digits)) CHR ''0'' @ digits)"

section \<open>The calendar\<close>

text \<open>
  Within a cycle of 400 years that starts on a first of March, a day has a century, a
  group of four years, a year and a day of that year; the last century and the last year of
  a group are the ones with one day more.
\<close>

definition civil_from_days :: "int \<Rightarrow> int \<times> int \<times> int" where
  "civil_from_days z =
    (let n = z + 719468; era = n div 146097; doe = n mod 146097;
         century = min 3 (doe div 36524); doc = doe - 36524 * century;
         quad = doc div 1461; doq = doc - 1461 * quad;
         yr = min 3 (doq div 365); doy = doq - 365 * yr;
         mp = (5 * doy + 2) div 153;
         month = (if mp < 10 then mp + 3 else mp - 9)
     in (400 * era + 100 * century + 4 * quad + yr + (if month \<le> 2 then 1 else 0), month, doy - (153 * mp + 2) div 5 + 1))"

definition days_from_civil :: "int \<Rightarrow> int \<Rightarrow> int \<Rightarrow> int" where
  "days_from_civil year month day =
    (let y = year - (if month \<le> 2 then 1 else 0); yoe = y mod 400;
         mp = (month + 9) mod 12; doy = (153 * mp + 2) div 5 + day - 1
     in 146097 * (y div 400) + (365 * yoe + yoe div 4 - yoe div 100 + doy) - 719468)"

lemma civil_from_days_test:
  "civil_from_days 0 = (1970, 1, 1)" "civil_from_days 19782 = (2024, 2, 29)" "civil_from_days 20088 = (2024, 12, 31)"
  "civil_from_days (- 719162) = (1, 1, 1)"
  by code_simp+

theorem days_from_civil_from_days:
  assumes "civil_from_days z = (y, m, d)"
  shows "days_from_civil y m d = z" and "1 \<le> m \<and> m \<le> 12" and "1 \<le> d \<and> d \<le> 31"
proof -
  define n era doe where "n = z + 719468" and "era = n div 146097" and "doe = n mod 146097"
  define century doc where "century = min 3 (doe div 36524)" and "doc = doe - 36524 * century"
  define quad doq where "quad = doc div 1461" and "doq = doc - 1461 * quad"
  define yr doy where "yr = min 3 (doq div 365)" and "doy = doq - 365 * yr"
  define mp where "mp = (5 * doy + 2) div 153"
  note defs = n_def era_def doe_def century_def doc_def quad_def doq_def yr_def doy_def mp_def
  have doe: "0 \<le> doe" "doe < 146097" by (simp_all add: doe_def)
  then have c: "0 \<le> century" "century \<le> 3" "0 \<le> doc" "doc \<le> 36524" unfolding century_def doc_def by linarith+
  then have q: "0 \<le> quad" "quad \<le> 24" "0 \<le> doq" "doq \<le> 1460" unfolding quad_def doq_def by linarith+
  then have yr: "0 \<le> yr" "yr \<le> 3" "0 \<le> doy" "doy \<le> 365" unfolding yr_def doy_def by linarith+
  then have mp: "0 \<le> mp" "mp \<le> 11" unfolding mp_def by linarith+
  let ?m = "if mp < 10 then mp + 3 else mp - 9"
  have civil: "m = ?m" "y = 400 * era + 100 * century + 4 * quad + yr + (if ?m \<le> 2 then 1 else 0)"
    "d = doy - (153 * mp + 2) div 5 + 1"
    using assms unfolding civil_from_days_def Let_def defs [symmetric] by auto
  let ?yoe = "100 * century + 4 * quad + yr"
  have yoe: "0 \<le> ?yoe" "?yoe < 400" "?yoe div 4 = 25 * century + quad" "?yoe div 100 = century" using c q yr by linarith+
  have y: "y - (if m \<le> 2 then 1 else 0) = 400 * era + ?yoe" using civil by simp
  have "(y - (if m \<le> 2 then 1 else 0)) div 400 = era" "(y - (if m \<le> 2 then 1 else 0)) mod 400 = ?yoe"
    unfolding y using yoe(1,2) by simp_all
  moreover have "(m + 9) mod 12 = mp" using civil(1) mp by auto
  ultimately have "days_from_civil y m d = 146097 * era + (365 * ?yoe + 25 * century + quad - century + doy) - 719468"
    unfolding days_from_civil_def Let_def by (simp add: yoe(3,4) civil(3) del: div_mult_self1 div_mult_self2 div_mult_self3 div_mult_self4)
  also have "\<dots> = 146097 * era + doe - 719468" unfolding doy_def doq_def doc_def by simp
  also have "\<dots> = z" unfolding doe_def era_def n_def by simp
  finally show "days_from_civil y m d = z" .
  show "1 \<le> m \<and> m \<le> 12" using civil(1) mp by auto
  show "1 \<le> d \<and> d \<le> 31" unfolding civil(3) using yr(3,4) unfolding mp_def by linarith
qed

definition day_ns :: int where "day_ns = 86400 * second"

definition year_month :: "int \<Rightarrow> int \<times> int" where
  "year_month t = (case civil_from_days (t div day_ns) of (y, m, _) \<Rightarrow> (y, m))"

text \<open>\<open>AddDate(0, 1, 0)\<close>: the same day of the next month, with days beyond its end carried over.\<close>

definition add_month :: "int \<Rightarrow> int" where
  "add_month t =
    (case civil_from_days (t div day_ns) of (y, m, d) \<Rightarrow>
       (if m = 12 then days_from_civil (y + 1) 1 d else days_from_civil y (m + 1) d) * day_ns + t mod day_ns)"

text \<open>\<open>Truncate(time.Second)\<close>: down to a whole second.\<close>

definition truncate_second :: "int \<Rightarrow> int" where
  "truncate_second t = t - t mod second"

lemma truncate_second_mono: "a \<le> b \<Longrightarrow> truncate_second a \<le> truncate_second b"
proof -
  assume "a \<le> b"
  then have "a div second \<le> b div second" by (simp add: second_def zdiv_mono1)
  then show ?thesis by (simp add: truncate_second_def minus_mod_eq_mult_div second_def)
qed

text \<open>\<open>UTC().Format(time.RFC3339)\<close> and \<open>Format(time.DateOnly)\<close>.\<close>

definition format_date :: "int \<Rightarrow> go_string" where
  "format_date t = (case civil_from_days (t div day_ns) of (y, m, d) \<Rightarrow> int_text4 y @ ''-'' @ int_text2 m @ ''-'' @ int_text2 d)"

definition format_rfc3339 :: "int \<Rightarrow> go_string" where
  "format_rfc3339 t =
    (let s = t mod day_ns div second
     in format_date t @ ''T'' @ int_text2 (s div 3600) @ '':'' @ int_text2 (s div 60 mod 60) @ '':'' @ int_text2 (s mod 60) @ ''Z'')"

lemma format_rfc3339_test: "format_rfc3339 (1709210096 * second + 5) = ''2024-02-29T12:34:56Z''"
  by code_simp

end
