(* ===== verification/UsageScope.thy ===== *)
theory UsageScope
  imports Submission
begin

text \<open>
  What a usage query may read (\<open>internal/registry/usagequery/scope.go\<close>) and the cache that
  turns billing accounts into OpenMeter customers (\<open>customers.go\<close>).

  Milo's API is a parameter: \<open>get_project\<close>, \<open>get_account\<close> and \<open>list_accounts\<close> are the
  reader's calls (absent, failed, or found), \<open>org_ns\<close> is the billing API's
  \<open>OrganizationNamespace\<close>. A project is what the code reads of it: its organization label
  and its owner reference.
\<close>

section \<open>Errors and data\<close>

datatype api_error =
    Forbidden go_string
  | BadRequest go_string
  | NotFound go_string
  | InternalError go_string
  | ServiceUnavailable go_string
  | Invalid "go_string list"
  | Unauthorized go_string
type_synonym 'a api_res = "api_error + 'a"

datatype 'a lookup = Absent | Failed go_string | Found 'a

record milo_project =
  pj_org_label :: go_string
  pj_owner_kind :: go_string
  pj_owner_name :: go_string

record account_ref =
  ar_namespace :: go_string
  ar_name :: go_string

datatype usage_scope = ScopeOrganization go_string | ScopeProject go_string | ScopePlatform | ScopeOther go_string

record query_scope =
  qs_accounts :: "account_ref list"
  qs_projects :: "go_string list"

record resolved_scope =
  rs_accounts :: "billing_account list"
  rs_projects :: "go_string list"

record milo_reader =
  get_project :: "go_string \<Rightarrow> milo_project lookup"
  get_account :: "go_string \<Rightarrow> go_string \<Rightarrow> billing_account lookup"
  list_accounts :: "go_string \<Rightarrow> go_string + billing_account list"

section \<open>Reading Milo\<close>

definition projectOrganization :: "milo_reader \<Rightarrow> go_string \<Rightarrow> go_string api_res" where
  "projectOrganization milo project =
    (case get_project milo project of
       Absent \<Rightarrow> Inl (Forbidden (''project '' @ project @ '' is not in scope''))
     | Failed e \<Rightarrow> Inl (InternalError (''reading project '' @ project))
     | Found p \<Rightarrow>
        if pj_org_label p \<noteq> [] then Inr (pj_org_label p)
        else if pj_owner_kind p = ''Organization'' \<and> pj_owner_name p \<noteq> [] then Inr (pj_owner_name p)
        else Inl (InternalError (''project '' @ project @ '' does not name its organization'')))"

definition getAccount :: "milo_reader \<Rightarrow> go_string \<Rightarrow> go_string \<Rightarrow> billing_account api_res" where
  "getAccount milo namespace name =
    (case get_account milo namespace name of
       Absent \<Rightarrow> Inl (NotFound name)
     | Failed e \<Rightarrow> Inl (InternalError (''reading billing account '' @ namespace @ ''/'' @ name))
     | Found a \<Rightarrow> Inr a)"

definition listAccounts :: "milo_reader \<Rightarrow> go_string \<Rightarrow> billing_account list api_res" where
  "listAccounts milo namespace =
    (case list_accounts milo namespace of
       Inl e \<Rightarrow> Inl (InternalError (''listing billing accounts in '' @ namespace))
     | Inr items \<Rightarrow> Inr items)"

definition sortAccounts :: "billing_account list \<Rightarrow> billing_account list" where
  "sortAccounts accounts = sort_key ba_namespace (sort_key ba_name accounts)"

section \<open>Scopes\<close>

fun check_projects :: "milo_reader \<Rightarrow> go_string \<Rightarrow> go_string list \<Rightarrow> unit api_res" where
  "check_projects milo org [] = Inr ()"
| "check_projects milo org (p # ps) =
    (case projectOrganization milo p of
       Inl e \<Rightarrow> Inl e
     | Inr projectOrg \<Rightarrow>
        if projectOrg \<noteq> org then Inl (Forbidden (''project '' @ p @ '' is not in organization '' @ org))
        else check_projects milo org ps)"

fun org_refs :: "milo_reader \<Rightarrow> go_string \<Rightarrow> go_string \<Rightarrow> account_ref list \<Rightarrow> billing_account list api_res" where
  "org_refs milo org namespace [] = Inr []"
| "org_refs milo org namespace (r # rs) =
    (if ar_namespace r \<noteq> [] \<and> ar_namespace r \<noteq> namespace then
       Inl (Forbidden (''billing account '' @ ar_namespace r @ ''/'' @ ar_name r @ '' is not in organization '' @ org))
     else case getAccount milo namespace (ar_name r) of
       Inl e \<Rightarrow> Inl e
     | Inr a \<Rightarrow> (case org_refs milo org namespace rs of Inl e \<Rightarrow> Inl e | Inr as \<Rightarrow> Inr (a # as)))"

definition resolveOrganizationScope ::
  "(go_string \<Rightarrow> go_string) \<Rightarrow> milo_reader \<Rightarrow> go_string \<Rightarrow> 'a query_scope_scheme \<Rightarrow> resolved_scope api_res" where
  "resolveOrganizationScope org_ns milo org spec =
    (let namespace = org_ns org in
     case check_projects milo org (qs_projects spec) of
       Inl e \<Rightarrow> Inl e
     | Inr _ \<Rightarrow>
       (case (if qs_accounts spec \<noteq> [] then org_refs milo org namespace (qs_accounts spec)
              else listAccounts milo namespace) of
          Inl e \<Rightarrow> Inl e
        | Inr accounts \<Rightarrow> Inr \<lparr>rs_accounts = sortAccounts accounts, rs_projects = qs_projects spec\<rparr>))"

definition resolveProjectScope ::
  "(go_string \<Rightarrow> go_string) \<Rightarrow> milo_reader \<Rightarrow> go_string \<Rightarrow> 'a query_scope_scheme \<Rightarrow> resolved_scope api_res" where
  "resolveProjectScope org_ns milo project spec =
    (if qs_accounts spec \<noteq> [] then Inl (Forbidden ''spec.billingAccounts cannot be set in a project'')
     else if \<exists>p \<in> set (qs_projects spec). p \<noteq> project then
       Inl (Forbidden (''a query in project '' @ project @ '' can only read its own usage''))
     else case projectOrganization milo project of
       Inl e \<Rightarrow> Inl e
     | Inr org \<Rightarrow>
       (case listAccounts milo (org_ns org) of
          Inl e \<Rightarrow> Inl e
        | Inr accounts \<Rightarrow> Inr \<lparr>rs_accounts = sortAccounts accounts, rs_projects = [project]\<rparr>))"

fun platform_refs :: "milo_reader \<Rightarrow> account_ref list \<Rightarrow> billing_account list api_res" where
  "platform_refs milo [] = Inr []"
| "platform_refs milo (r # rs) =
    (if ar_namespace r = [] then
       Inl (BadRequest (''billing account '' @ ar_name r @ '' needs a namespace in a platform query''))
     else case getAccount milo (ar_namespace r) (ar_name r) of
       Inl e \<Rightarrow> Inl e
     | Inr a \<Rightarrow> (case platform_refs milo rs of Inl e \<Rightarrow> Inl e | Inr as \<Rightarrow> Inr (a # as)))"

text \<open>The accounts of the projects' organizations, each once (the \<open>seen\<close> map of UIDs).\<close>

definition add_unseen :: "billing_account list \<Rightarrow> billing_account list \<Rightarrow> billing_account list" where
  "add_unseen new acc = fold (\<lambda>a acc. if ba_uid a \<in> ba_uid ` set acc then acc else acc @ [a]) new acc"

fun project_accounts ::
  "(go_string \<Rightarrow> go_string) \<Rightarrow> milo_reader \<Rightarrow> go_string list \<Rightarrow> billing_account list \<Rightarrow> billing_account list api_res" where
  "project_accounts org_ns milo [] acc = Inr acc"
| "project_accounts org_ns milo (p # ps) acc =
    (case projectOrganization milo p of
       Inl e \<Rightarrow> Inl e
     | Inr org \<Rightarrow>
       (case listAccounts milo (org_ns org) of
          Inl e \<Rightarrow> Inl e
        | Inr orgAccounts \<Rightarrow> project_accounts org_ns milo ps (add_unseen orgAccounts acc)))"

definition resolvePlatformScope ::
  "(go_string \<Rightarrow> go_string) \<Rightarrow> milo_reader \<Rightarrow> 'a query_scope_scheme \<Rightarrow> resolved_scope api_res" where
  "resolvePlatformScope org_ns milo spec =
    (if qs_accounts spec = [] \<and> qs_projects spec = [] then
       Inl (BadRequest ''a platform query must set spec.billingAccounts or spec.projects'')
     else case (if qs_accounts spec \<noteq> [] then platform_refs milo (qs_accounts spec)
                else project_accounts org_ns milo (qs_projects spec) []) of
       Inl e \<Rightarrow> Inl e
     | Inr accounts \<Rightarrow> Inr \<lparr>rs_accounts = sortAccounts accounts, rs_projects = qs_projects spec\<rparr>)"

definition resolveScope ::
  "(go_string \<Rightarrow> go_string) \<Rightarrow> milo_reader \<Rightarrow> usage_scope \<Rightarrow> 'a query_scope_scheme \<Rightarrow> resolved_scope api_res" where
  "resolveScope org_ns milo scope spec =
    (case scope of
       ScopeOrganization org \<Rightarrow> resolveOrganizationScope org_ns milo org spec
     | ScopeProject project \<Rightarrow> resolveProjectScope org_ns milo project spec
     | ScopePlatform \<Rightarrow> resolvePlatformScope org_ns milo spec
     | ScopeOther t \<Rightarrow> Inl (Forbidden (''usage cannot be queried in a '' @ t @ '' scope'')))"

section \<open>Customers\<close>

text \<open>
  The cache of customer ids: an entry is an id (empty for an account without a customer)
  and when it expires. \<open>get_customer\<close> is the client's \<open>GetCustomer\<close> at that moment.
\<close>

type_synonym customer_cache = "(go_string \<times> (go_string \<times> int)) list"

definition customerIDTTL :: int where "customerIDTTL = 10 * minute"
definition missingCustomerTTL :: int where "missingCustomerTTL = minute"

definition lookup_customer ::
  "(go_string \<Rightarrow> go_string res) \<Rightarrow> int \<Rightarrow> go_string \<Rightarrow> customer_cache \<Rightarrow> go_string res \<times> customer_cache" where
  "lookup_customer get_customer now uid cache =
    (case get_customer uid of
       Inl e \<Rightarrow>
         if errors_is e ErrCustomerNotFound
         then (Inr [], (uid, ([], now + missingCustomerTTL)) # filter (\<lambda>c. fst c \<noteq> uid) cache)
         else (Inl e, cache)
     | Inr i \<Rightarrow> (Inr i, (uid, (i, now + customerIDTTL)) # filter (\<lambda>c. fst c \<noteq> uid) cache))"

definition customerID ::
  "(go_string \<Rightarrow> go_string res) \<Rightarrow> int \<Rightarrow> go_string \<Rightarrow> customer_cache \<Rightarrow> go_string res \<times> customer_cache" where
  "customerID get_customer now uid cache =
    (case map_of cache uid of
       Some (i, expires) \<Rightarrow>
         if now < expires then (Inr i, cache)
         else lookup_customer get_customer now uid cache
     | None \<Rightarrow> lookup_customer get_customer now uid cache)"

text \<open>
  \<open>customers\<close>: one lookup per account, each at a moment of its own (\<open>found[i]\<close> is written
  by lookup \<open>i\<close> alone, so the result is in account order). The lookups share the cache;
  they run here one after the other, and the group's error is the first one.
\<close>

record account_customer =
  ac_key :: go_string
  ac_id :: go_string

fun find_customers ::
  "(int \<Rightarrow> go_string \<Rightarrow> go_string res) \<Rightarrow> (int \<times> billing_account) list \<Rightarrow> customer_cache \<Rightarrow>
   account_customer list res \<times> customer_cache" where
  "find_customers get_customer [] cache = (Inr [], cache)"
| "find_customers get_customer ((now, a) # as) cache =
    (case customerID (get_customer now) now (ba_uid a) cache of
       (Inl e, cache') \<Rightarrow> (Inl e, cache')
     | (Inr i, cache') \<Rightarrow>
       (case find_customers get_customer as cache' of
          (Inl e, cache'') \<Rightarrow> (Inl e, cache'')
        | (Inr found, cache'') \<Rightarrow> (Inr (\<lparr>ac_key = ba_uid a, ac_id = i\<rparr> # found), cache'')))"

definition customers ::
  "(int \<Rightarrow> go_string \<Rightarrow> go_string res) \<Rightarrow> (int \<times> billing_account) list \<Rightarrow> customer_cache \<Rightarrow>
   account_customer list res \<times> customer_cache" where
  "customers get_customer accounts cache =
    (case find_customers get_customer accounts cache of
       (Inl e, cache') \<Rightarrow> (Inl e, cache')
     | (Inr found, cache') \<Rightarrow> (Inr (filter (\<lambda>c. ac_id c \<noteq> []) found), cache'))"

definition customerIDs :: "account_customer list \<Rightarrow> go_string list" where
  "customerIDs cs = map ac_id cs"

section \<open>Properties\<close>

text \<open>
  What Milo's API promises of its reads: an account is read under its own namespace and
  name, and a namespaced list holds accounts of that namespace.
\<close>

definition reader_ok :: "milo_reader \<Rightarrow> bool" where
  "reader_ok milo \<longleftrightarrow>
    (\<forall>ns n a. get_account milo ns n = Found a \<longrightarrow> ba_namespace a = ns \<and> ba_name a = n) \<and>
    (\<forall>ns as. list_accounts milo ns = Inr as \<longrightarrow> (\<forall>a \<in> set as. ba_namespace a = ns))"

lemma set_sortAccounts [simp]: "set (sortAccounts as) = set as"
  by (simp add: sortAccounts_def)

lemma check_projects_ok:
  "check_projects milo org ps = Inr u \<longleftrightarrow> (\<forall>p \<in> set ps. projectOrganization milo p = Inr org)"
  by (induction ps) (auto split: sum.splits)

lemma getAccount_ok: "reader_ok milo \<Longrightarrow> getAccount milo ns n = Inr a \<Longrightarrow> ba_namespace a = ns \<and> ba_name a = n"
  by (auto simp: reader_ok_def getAccount_def split: lookup.splits)

lemma listAccounts_ok: "reader_ok milo \<Longrightarrow> listAccounts milo ns = Inr as \<Longrightarrow> \<forall>a \<in> set as. ba_namespace a = ns"
  by (auto simp: reader_ok_def listAccounts_def split: sum.splits)

lemma org_refs_ok:
  "reader_ok milo \<Longrightarrow> org_refs milo org ns refs = Inr as \<Longrightarrow>
   (\<forall>a \<in> set as. ba_namespace a = ns) \<and> map ba_name as = map ar_name refs"
  by (induction refs arbitrary: as) (auto dest: getAccount_ok split: sum.splits if_splits)

lemma platform_refs_ok:
  "reader_ok milo \<Longrightarrow> platform_refs milo refs = Inr as \<Longrightarrow>
   map (\<lambda>a. (ba_namespace a, ba_name a)) as = map (\<lambda>r. (ar_namespace r, ar_name r)) refs"
  by (induction refs arbitrary: as) (auto dest: getAccount_ok split: sum.splits if_splits)

lemma add_unseen_props:
  "set (add_unseen new acc) \<subseteq> set acc \<union> set new \<and>
   (distinct (map ba_uid acc) \<longrightarrow> distinct (map ba_uid (add_unseen new acc)))"
  unfolding add_unseen_def
proof (induction new arbitrary: acc)
  case (Cons a new)
  show ?case
  proof (cases "ba_uid a \<in> ba_uid ` set acc")
    case True
    then show ?thesis using Cons [of acc] by auto
  next
    case False
    then show ?thesis using Cons [of "acc @ [a]"] by auto
  qed
qed simp

lemma project_accounts_ok:
  assumes "reader_ok milo" and "project_accounts org_ns milo ps acc = Inr as"
  shows "(\<forall>a \<in> set as. a \<in> set acc \<or> (\<exists>p \<in> set ps. \<exists>org. projectOrganization milo p = Inr org \<and> ba_namespace a = org_ns org))
    \<and> (distinct (map ba_uid acc) \<longrightarrow> distinct (map ba_uid as))"
  using assms(2)
proof (induction ps arbitrary: acc)
  case (Cons p ps)
  then obtain org new where o: "projectOrganization milo p = Inr org" "listAccounts milo (org_ns org) = Inr new"
    "project_accounts org_ns milo ps (add_unseen new acc) = Inr as"
    by (auto split: sum.splits)
  from Cons.IH [OF o(3)] listAccounts_ok [OF assms(1) o(2)] add_unseen_props [of new acc] o(1) show ?case
    by fastforce
qed auto

lemma resolveScope_in_scope:
  assumes "reader_ok milo" and "resolveScope org_ns milo scope spec = Inr r"
  shows "case scope of
     ScopeOrganization org \<Rightarrow>
       (\<forall>a \<in> set (rs_accounts r). ba_namespace a = org_ns org) \<and> rs_projects r = qs_projects spec \<and>
       (\<forall>p \<in> set (rs_projects r). projectOrganization milo p = Inr org) \<and>
       (qs_accounts spec \<noteq> [] \<longrightarrow> ba_name ` set (rs_accounts r) = ar_name ` set (qs_accounts spec))
   | ScopeProject project \<Rightarrow>
       rs_projects r = [project] \<and> qs_accounts spec = [] \<and>
       (\<exists>org. projectOrganization milo project = Inr org \<and> (\<forall>a \<in> set (rs_accounts r). ba_namespace a = org_ns org))
   | ScopePlatform \<Rightarrow>
       rs_projects r = qs_projects spec \<and>
       (if qs_accounts spec \<noteq> []
        then (\<lambda>a. (ba_namespace a, ba_name a)) ` set (rs_accounts r) = (\<lambda>x. (ar_namespace x, ar_name x)) ` set (qs_accounts spec)
        else qs_projects spec \<noteq> [] \<and> distinct (map ba_uid (rs_accounts r)) \<and>
          (\<forall>a \<in> set (rs_accounts r). \<exists>p \<in> set (qs_projects spec). \<exists>org.
             projectOrganization milo p = Inr org \<and> ba_namespace a = org_ns org))
   | ScopeOther t \<Rightarrow> False"
proof (cases scope)
  case (ScopeOrganization org)
  with assms(2) have r: "resolveOrganizationScope org_ns milo org spec = Inr r" by (simp add: resolveScope_def)
  show ?thesis
  proof (cases "qs_accounts spec = []")
    case True
    with r ScopeOrganization show ?thesis
      using listAccounts_ok [OF assms(1)]
      by (auto simp: resolveOrganizationScope_def Let_def check_projects_ok split: sum.splits)
  next
    case False
    with r obtain as where as: "org_refs milo org (org_ns org) (qs_accounts spec) = Inr as"
      "\<forall>p \<in> set (qs_projects spec). projectOrganization milo p = Inr org"
      "r = \<lparr>rs_accounts = sortAccounts as, rs_projects = qs_projects spec\<rparr>"
      by (auto simp: resolveOrganizationScope_def Let_def check_projects_ok split: sum.splits)
    from org_refs_ok [OF assms(1) as(1)] have "ba_name ` set as = ar_name ` set (qs_accounts spec)"
      by (metis set_map)
    with as org_refs_ok [OF assms(1) as(1)] ScopeOrganization show ?thesis by simp
  qed
next
  case (ScopeProject project)
  with assms show ?thesis
    using listAccounts_ok [OF assms(1)]
    by (auto simp: resolveScope_def resolveProjectScope_def split: sum.splits if_splits)
next
  case ScopePlatform
  with assms(2) have r: "resolvePlatformScope org_ns milo spec = Inr r" by (simp add: resolveScope_def)
  show ?thesis
  proof (cases "qs_accounts spec = []")
    case True
    with r obtain as where as: "qs_projects spec \<noteq> []" "project_accounts org_ns milo (qs_projects spec) [] = Inr as"
      "r = \<lparr>rs_accounts = sortAccounts as, rs_projects = qs_projects spec\<rparr>"
      by (auto simp: resolvePlatformScope_def split: sum.splits if_splits)
    from project_accounts_ok [OF assms(1) as(2)] have "distinct (map ba_uid as)" by simp
    then have "distinct (map ba_uid (sortAccounts as))"
      by (simp add: distinct_map sortAccounts_def)
    with as True project_accounts_ok [OF assms(1) as(2)] ScopePlatform show ?thesis by simp
  next
    case False
    with r obtain as where as: "platform_refs milo (qs_accounts spec) = Inr as"
      "r = \<lparr>rs_accounts = sortAccounts as, rs_projects = qs_projects spec\<rparr>"
      by (auto simp: resolvePlatformScope_def split: sum.splits if_splits)
    from platform_refs_ok [OF assms(1) as(1)]
    have "(\<lambda>a. (ba_namespace a, ba_name a)) ` set as = (\<lambda>x. (ar_namespace x, ar_name x)) ` set (qs_accounts spec)"
      by (metis set_map)
    with as False ScopePlatform show ?thesis by simp
  qed
next
  case (ScopeOther t)
  with assms(2) show ?thesis by (simp add: resolveScope_def)
qed

text \<open>
  A query never reads outside its scope. In an organization every account read is in
  the organization's namespace and every project filtered by is the organization's; in a
  project the usage is always filtered to that project, and the accounts are those of its
  organization; on the platform the accounts are exactly the named ones, or those of the
  named projects' organizations; no other scope is answered. The spec can only narrow.
\<close>

theorem resolveScope_boundary:
  assumes "reader_ok milo" and "resolveScope org_ns milo scope spec = Inr r"
  shows "case scope of
     ScopeOrganization org \<Rightarrow>
       (\<forall>a \<in> set (rs_accounts r). ba_namespace a = org_ns org) \<and> rs_projects r = qs_projects spec \<and>
       (\<forall>p \<in> set (rs_projects r). projectOrganization milo p = Inr org) \<and>
       (qs_accounts spec \<noteq> [] \<longrightarrow> ba_name ` set (rs_accounts r) = ar_name ` set (qs_accounts spec))
   | ScopeProject project \<Rightarrow>
       rs_projects r = [project] \<and> qs_accounts spec = [] \<and>
       (\<exists>org. projectOrganization milo project = Inr org \<and> (\<forall>a \<in> set (rs_accounts r). ba_namespace a = org_ns org))
   | ScopePlatform \<Rightarrow>
       rs_projects r = qs_projects spec \<and>
       (if qs_accounts spec \<noteq> []
        then (\<lambda>a. (ba_namespace a, ba_name a)) ` set (rs_accounts r) = (\<lambda>x. (ar_namespace x, ar_name x)) ` set (qs_accounts spec)
        else qs_projects spec \<noteq> [] \<and> distinct (map ba_uid (rs_accounts r)) \<and>
          (\<forall>a \<in> set (rs_accounts r). \<exists>p \<in> set (qs_projects spec). \<exists>org.
             projectOrganization milo p = Inr org \<and> ba_namespace a = org_ns org))
   | ScopeOther t \<Rightarrow> False"
  using assms by (rule resolveScope_in_scope)

definition sample_milo :: milo_reader where
  "sample_milo = \<lparr>get_project = (\<lambda>p. Found \<lparr>pj_org_label = ''org'', pj_owner_kind = [], pj_owner_name = []\<rparr>),
     get_account = (\<lambda>ns n. Found \<lparr>ba_name = n, ba_namespace = ns, ba_uid = n\<rparr>),
     list_accounts = (\<lambda>ns. Inr [\<lparr>ba_name = ''acct'', ba_namespace = ns, ba_uid = ''u''\<rparr>])\<rparr>"

theorem resolveScope_boundary_witness:
  "\<exists>org. projectOrganization sample_milo ''web'' = Inr org \<and>
     (\<forall>a \<in> set [\<lparr>ba_name = ''acct'', ba_namespace = ''ns-org'', ba_uid = ''u''\<rparr>]. ba_namespace a = ''ns-'' @ org)"
  using resolveScope_boundary [of sample_milo "\<lambda>org. ''ns-'' @ org" "ScopeProject ''web''" "\<lparr>qs_accounts = [], qs_projects = []\<rparr>"
      "\<lparr>rs_accounts = [\<lparr>ba_name = ''acct'', ba_namespace = ''ns-org'', ba_uid = ''u''\<rparr>], rs_projects = [''web'']\<rparr>"]
  by (simp add: reader_ok_def resolveScope_def resolveProjectScope_def projectOrganization_def listAccounts_def
      sortAccounts_def sample_milo_def)

text \<open>
  The cache against a history of OpenMeter's answers: every entry is an answer of the past
  that expires when its time to live has passed since that answer.
\<close>

definition cache_ok :: "(int \<Rightarrow> go_string \<Rightarrow> go_string res) \<Rightarrow> int \<Rightarrow> customer_cache \<Rightarrow> bool" where
  "cache_ok hist now cache \<longleftrightarrow> (\<forall>(uid, i, expires) \<in> set cache. \<exists>at_time \<le> now.
     hist at_time uid = Inr i \<and> expires = at_time + customerIDTTL \<or>
     (\<exists>e. hist at_time uid = Inl e \<and> errors_is e ErrCustomerNotFound) \<and> i = [] \<and> expires = at_time + missingCustomerTTL)"

lemma cache_ok_Cons:
  "cache_ok hist now ((uid, i, expires) # cache) \<longleftrightarrow>
    (\<exists>at_time \<le> now. hist at_time uid = Inr i \<and> expires = at_time + customerIDTTL \<or>
       (\<exists>e. hist at_time uid = Inl e \<and> errors_is e ErrCustomerNotFound) \<and> i = [] \<and> expires = at_time + missingCustomerTTL) \<and>
    cache_ok hist now cache"
  by (simp add: cache_ok_def)

lemma cache_ok_filter: "cache_ok hist now cache \<Longrightarrow> cache_ok hist now (filter P cache)"
  by (simp add: cache_ok_def)

lemma lookup_customer_cache:
  assumes "cache_ok hist now cache" and "lookup_customer (hist now) now uid cache = (x, cache')"
  shows "cache_ok hist now cache' \<and>
    (\<forall>i. x = Inr i \<longrightarrow> hist now uid = Inr i \<or> (\<exists>e. hist now uid = Inl e \<and> errors_is e ErrCustomerNotFound) \<and> i = [])"
proof (cases "hist now uid")
  case (Inl e)
  with assms show ?thesis
    by (cases "errors_is e ErrCustomerNotFound")
      (auto simp: lookup_customer_def cache_ok_Cons cache_ok_filter intro!: exI [of _ now])
next
  case (Inr i)
  with assms show ?thesis by (auto simp: lookup_customer_def cache_ok_Cons cache_ok_filter)
qed

text \<open>
  A customer id used for a query is never stale for long: it is an answer OpenMeter gave
  less than ten minutes ago, and "this account has no customer" less than one minute ago;
  a lookup keeps the cache in that state.
\<close>

theorem customerID_fresh:
  assumes "cache_ok hist now cache" and "customerID (hist now) now uid cache = (x, cache')"
  shows "cache_ok hist now cache' \<and>
    (\<forall>i. x = Inr i \<longrightarrow> (\<exists>at_time \<le> now.
       hist at_time uid = Inr i \<and> now - at_time < 10 * minute \<or>
       (\<exists>e. hist at_time uid = Inl e \<and> errors_is e ErrCustomerNotFound) \<and> i = [] \<and> now - at_time < minute))"
proof -
  have lookup: ?thesis if "lookup_customer (hist now) now uid cache = (x, cache')"
    using lookup_customer_cache [OF assms(1) that] by (force simp: minute_def second_def)
  show ?thesis
  proof (cases "map_of cache uid")
    case None
    with assms(2) lookup show ?thesis by (simp add: customerID_def)
  next
    case (Some entry)
    obtain i expires where entry: "entry = (i, expires)" by force
    show ?thesis
    proof (cases "now < expires")
      case False
      with Some entry assms(2) lookup show ?thesis by (simp add: customerID_def)
    next
      case True
      then have x: "x = Inr i" "cache' = cache" using Some entry assms(2) by (simp_all add: customerID_def)
      have "(uid, i, expires) \<in> set cache" using map_of_SomeD [OF Some] entry by simp
      with assms(1) obtain at_time where "at_time \<le> now"
        "hist at_time uid = Inr i \<and> expires = at_time + customerIDTTL \<or>
         (\<exists>e. hist at_time uid = Inl e \<and> errors_is e ErrCustomerNotFound) \<and> i = [] \<and> expires = at_time + missingCustomerTTL"
        unfolding cache_ok_def by fastforce
      with x True assms(1) show ?thesis
        by (auto simp: customerIDTTL_def missingCustomerTTL_def intro!: exI [of _ at_time])
    qed
  qed
qed

theorem customerID_fresh_witness:
  "cache_ok (\<lambda>_ _. Inr ''c1'') 5 [(''u'', ''c1'', 5 + customerIDTTL)]"
proof -
  have "customerID ((\<lambda>_ _. Inr ''c1'') (5::int)) 5 ''u'' [] = (Inr ''c1'', [(''u'', ''c1'', 5 + customerIDTTL)])"
    by (simp add: customerID_def lookup_customer_def)
  from customerID_fresh [OF _ this] show ?thesis by (simp add: cache_ok_def)
qed

end
