(* ===== verification/Api.thy ===== *)
theory Api
  imports OmTypes
begin

text \<open>
  The boundary to OpenMeter: the requests the provider's client sends, the replies it
  gets, and the JSON-over-HTTP helper of the v3 API (\<open>internal/openmeter/v3.go\<close>).

  An operation maps the exchanges so far to its result and the longer list of exchanges
  (\<open>'a api\<close>). The server \<open>srv\<close> is a parameter: its reply may depend on every earlier
  exchange, so a statement about all \<open>srv\<close> covers every server, changing ones included.
  A reply is a network error or an HTTP response with what the decoders make of its body:
  \<open>rp_sdk\<close> is the \<open>JSON200\<close>/\<open>JSON201\<close> field the generated v1 SDK fills in (None when nil),
  \<open>rp_json\<close> what \<open>json.Unmarshal\<close> makes of the body (None on an error). A body of another
  shape than the request asks for counts as undecodable.
\<close>

section \<open>OpenMeter's resources\<close>

datatype meter_aggregation =
    MeterAggregationSum | MeterAggregationCount | MeterAggregationUniqueCount
  | MeterAggregationMax | MeterAggregationMin | MeterAggregationLatest | MeterAggregationAvg

record om_meter =
  mt_slug :: go_string
  mt_event_type :: go_string
  mt_aggregation :: meter_aggregation
  mt_value_property :: "go_string option"
  mt_name :: "go_string option"
  mt_description :: "go_string option"
  mt_group_by :: "str_map option"

record meter_update =
  mu_name :: "go_string option"
  mu_description :: "go_string option"
  mu_group_by :: "str_map option"

record om_feature =
  ft_id :: go_string
  ft_key :: go_string
  ft_meter :: "go_string option"
  ft_filters :: "filter_map option"

record feature_create =
  fc_key :: go_string
  fc_name :: go_string
  fc_meter :: go_string
  fc_filters :: "filter_map option"
  fc_metadata :: "str_map option"

datatype plan_status = PlanDraft | PlanActive | PlanScheduled | PlanArchived

record om_plan_version =
  pl_id :: go_string
  pl_key :: go_string
  pl_version :: int
  pl_status :: plan_status
  pl_description :: "go_string option"
  pl_deleted_at :: "int option"
  pl_phases :: "plan_phase list"

record plan_create =
  pc_key :: go_string
  pc_name :: go_string
  pc_description :: go_string
  pc_currency :: go_string
  pc_cadence :: go_string
  pc_phases :: "plan_phase list"

record plan_upsert =
  pu_name :: go_string
  pu_description :: go_string
  pu_phases :: "plan_phase list"

datatype subscription_status =
    SubscriptionStatusActive | SubscriptionStatusCanceled | SubscriptionStatusScheduled
  | SubscriptionStatusInactive

record plan_ref =
  pr_id :: go_string
  pr_key :: go_string
  pr_version :: int

text \<open>Times are nanoseconds; a zero \<open>time.Time\<close> is None.\<close>

record om_subscription =
  sub_id :: go_string
  sub_status :: subscription_status
  sub_plan :: "plan_ref option"
  sub_active_from :: int
  sub_active_to :: "int option"
  sub_deleted_at :: "int option"
  sub_currency :: go_string
  sub_cadence :: go_string
  sub_billing_anchor :: "int option"

record om_period =
  period_from :: int
  period_to :: int

datatype timing = TimingImmediate | TimingAt int

record subscription_create =
  sc_customer_key :: go_string
  sc_plan_key :: go_string
  sc_metadata :: str_map
  sc_billing_anchor :: "int option"

record subscription_change =
  ch_plan_key :: go_string
  ch_timing :: timing
  ch_metadata :: str_map
  ch_billing_anchor :: "int option"

record subscription_change_v3 =
  c3_timing :: timing
  c3_billing_anchor :: "int option"
  c3_customer_key :: go_string
  c3_plan_key :: go_string
  c3_version :: int

datatype window_size = WindowSizeHour | WindowSizeDay | WindowSizeMonth

text \<open>A \<open>float64\<close> that is a number is the rational it stands for.\<close>

type_synonym float64 = rat

record meter_query_request =
  qb_from :: int
  qb_to :: int
  qb_window :: "window_size option"
  qb_time_zone :: "go_string option"
  qb_customers :: "go_string list option"
  qb_group_by :: "go_string list option"
  qb_filters :: "filter_map option"

record om_meter_row =
  or_window_start :: int
  or_window_end :: int
  or_customer :: "go_string option"
  or_group_by :: "(go_string \<times> go_string option) list"
  or_value :: float64

record om_address =
  ad_country :: "go_string option"
  ad_line1 :: "go_string option"
  ad_line2 :: "go_string option"
  ad_city :: "go_string option"
  ad_state :: "go_string option"
  ad_postal_code :: "go_string option"
  ad_phone :: "go_string option"

text \<open>
  A customer; the usage attribution is absent or holds subject keys. The bodies of create
  and replace carry the same optional fields.
\<close>

record om_customer =
  cu_id :: go_string
  cu_key :: "go_string option"
  cu_name :: go_string
  cu_description :: "go_string option"
  cu_metadata :: "str_map option"
  cu_email :: "go_string option"
  cu_currency :: "go_string option"
  cu_address :: "om_address option"
  cu_subject_keys :: "go_string list option"

record customer_body =
  cb_name :: go_string
  cb_key :: "go_string option"
  cb_description :: "go_string option"
  cb_metadata :: "str_map option"
  cb_email :: "go_string option"
  cb_currency :: "go_string option"
  cb_address :: "om_address option"
  cb_subject_keys :: "go_string list option"

record stripe_app_data =
  sa_app_id :: "go_string option"
  sa_customer :: go_string
  sa_payment_method :: "go_string option"

text \<open>
  A collection alignment by its discriminator. An anchored one holds what decoding gives:
  None when the recurring period does not decode, else the calendar day of the anchor, in
  days from 2024-01-01, and the interval when it is a string. \<open>AlignOther\<close> is a union with
  another discriminator, or none.
\<close>

datatype collection_alignment =
    AlignSubscription | AlignAnchored "(int \<times> go_string option) option" | AlignOther go_string

record collection_settings =
  co_interval :: "go_string option"
  co_alignment :: "collection_alignment option"

record invoicing_settings =
  iv_due_after :: "go_string option"
  iv_auto_advance :: "bool option"
  iv_draft_period :: "go_string option"
  iv_progressive :: "bool option"
  iv_tax_config :: "go_string option"
  iv_end_proration :: "go_string option"

record payment_settings =
  py_collection_method :: "go_string option"

record billing_workflow =
  wf_collection :: "collection_settings option"
  wf_invoicing :: "invoicing_settings option"
  wf_payment :: "payment_settings option"
  wf_tax :: "go_string option"

record billing_party =
  bp_name :: "go_string option"
  bp_tax_code :: "go_string option"
  bp_addresses :: "om_address list option"

record billing_profile =
  pf_id :: go_string
  pf_name :: go_string
  pf_description :: "go_string option"
  pf_default :: bool
  pf_deleted_at :: "int option"
  pf_metadata :: "str_map option"
  pf_supplier :: billing_party
  pf_workflow :: billing_workflow
  pf_apps :: "(go_string \<times> go_string \<times> go_string) option"

record profile_create =
  pn_name :: go_string
  pn_default :: bool
  pn_supplier :: billing_party
  pn_metadata :: "str_map option"
  pn_workflow :: billing_workflow
  pn_apps :: "go_string \<times> go_string \<times> go_string"

record profile_update =
  px_name :: go_string
  px_description :: "go_string option"
  px_default :: bool
  px_supplier :: billing_party
  px_metadata :: "str_map option"
  px_workflow :: billing_workflow

record invoice_line =
  il_id :: go_string
  il_deleted_at :: "int option"
  il_price_type :: "go_string option"
  il_card_price_type :: "go_string option"
  il_name :: go_string
  il_currency :: go_string
  il_from :: int
  il_to :: int
  il_totals :: invoice_totals

record om_invoice =
  in_id :: go_string
  in_status :: go_string
  in_extended_status :: go_string
  in_failed :: bool
  in_deleted_at :: "int option"
  in_created_at :: int
  in_customer :: "go_string option"
  in_total :: go_string
  in_currency :: go_string
  in_lines :: "invoice_line list option"
  in_period :: "(int \<times> int) option"
  in_updated_at :: int
  in_due_at :: "int option"
  in_stripe_id :: "go_string option"

section \<open>Requests and replies\<close>

datatype customer_request =
    GetCustomerReq go_string
  | CreateCustomerReq customer_body
  | UpdateCustomerReq go_string customer_body
  | DeleteCustomerReq go_string
  | ListCustomersReq go_string nat
  | GetStripeDataReq go_string
  | UpsertStripeDataReq go_string stripe_app_data
  | DeleteAppDataReq go_string go_string

datatype profile_request =
    FirstProfileReq
  | ListProfilesReq nat
  | GetProfileReq go_string
  | CreateProfileReq profile_create
  | UpdateProfileReq go_string profile_update
  | DeleteProfileReq go_string
  | UpsertOverrideReq go_string go_string
  | DeleteOverrideReq go_string

datatype invoice_request =
    ListInvoicesReq go_string bool nat
  | ListInvoiceLinesReq go_string go_string
  | InvoicePendingLinesReq go_string
  | DeleteInvoiceReq go_string

text \<open>
  Writes to Kubernetes: a merge patch of an object's finalizers or annotations (with the
  resulting list or map), an update that only changes the finalizers, a status patch that
  sets one condition, an invoice created or its status patched (with the resulting status),
  the status of an invoice request updated. They carry the object's kind, namespace and
  name. Their reply is an HTTP response too; 404 and 409 are what \<open>apierrors.IsNotFound\<close> and
  \<open>apierrors.IsConflict\<close> recognise, and 409 on a create is \<open>apierrors.IsAlreadyExists\<close>.
\<close>

record condition =
  cd_type :: go_string
  cd_status :: go_string
  cd_reason :: go_string
  cd_message :: go_string
  cd_generation :: int

record object_key =
  ok_kind :: go_string
  ok_namespace :: go_string
  ok_name :: go_string

record invoice_period =
  ip_start :: int
  ip_end :: int

record milo_status =
  ms_phase :: go_string
  ms_currency :: go_string
  ms_total :: go_string
  ms_amount_paid :: go_string
  ms_amount_due :: go_string
  ms_generation :: int
  ms_due_date :: "int option"
  ms_paid_at :: "int option"
  ms_document_uri :: go_string
  ms_conditions :: "condition list"

record invoice_create =
  ic_key :: object_key
  ic_annotations :: str_map
  ic_owner_name :: go_string
  ic_owner_uid :: go_string
  ic_account_ref :: go_string
  ic_period :: invoice_period

record preview_line =
  pv_description :: go_string
  pv_period :: "invoice_period option"
  pv_amount :: go_string

record request_status =
  rs_phase :: go_string
  rs_generation :: int
  rs_currency :: go_string
  rs_lines :: "preview_line list"
  rs_total :: go_string
  rs_completed_at :: "int option"
  rs_conditions :: "condition list"

datatype kube_request =
    PatchFinalizers object_key "go_string list"
  | UpdateFinalizers object_key "go_string list"
  | PatchAnnotations object_key str_map
  | PatchCondition object_key condition
  | CreateInvoice invoice_create
  | PatchInvoiceStatus object_key milo_status
  | UpdateRequestStatus object_key request_status

text \<open>
  Stripe's API as \<open>internal/stripe/invoices.go\<close> uses it: \<open>api_invoice\<close> is the part of an
  invoice object it decodes, a payment intent its status and last error (type, code, decline
  code), an invoice payment its creation time, type and payment intent.
\<close>

record api_invoice =
  ai_id :: go_string
  ai_number :: "go_string option"
  ai_status :: "go_string option"
  ai_currency :: go_string
  ai_total :: int
  ai_amount_due :: int
  ai_amount_paid :: int
  ai_amount_remaining :: int
  ai_created :: int
  ai_period_start :: int
  ai_period_end :: int
  ai_due_date :: "int option"
  ai_hosted_invoice_url :: "go_string option"
  ai_metadata :: str_map
  ai_paid_at :: "int option"
  ai_attempt_count :: int
  ai_next_payment_attempt :: "int option"
  ai_payment_intent :: json_val

datatype stripe_request =
    StripeGetInvoice go_string
  | StripeListInvoices go_string "go_string option"
  | StripeGetPaymentIntent go_string
  | StripeListPayments go_string
  | StripeSetMetadata go_string str_map

datatype stripe_body =
    StripeInvoiceBody api_invoice
  | StripeInvoicePage "api_invoice list" bool
  | PaymentIntentBody go_string "(go_string \<times> go_string \<times> go_string) option"
  | PaymentsPage "(int \<times> go_string \<times> json_val) list"

datatype request =
    ReqGetMeter go_string
  | ReqCreateMeter om_meter
  | ReqUpdateMeter go_string meter_update
  | ReqDeleteMeter go_string
  | ReqQueryMeter go_string meter_query_request
  | ReqGetFeature go_string
  | ReqCreateFeature feature_create
  | ReqListFeatures "go_string option" bool nat
  | ReqDeleteFeature go_string
  | ReqListPlans go_string nat
  | ReqGetPlan go_string
  | ReqCreatePlan plan_create
  | ReqUpdatePlan go_string plan_upsert
  | ReqPublishPlan go_string
  | ReqArchivePlan go_string
  | ReqDeletePlan go_string
  | ReqListSubscriptions go_string nat
  | ReqGetSubscription go_string
  | ReqCreateSubscription subscription_create
  | ReqDeleteSubscription go_string
  | ReqRestoreSubscription go_string
  | ReqChangeSubscription go_string subscription_change
  | ReqChangeSubscriptionV3 go_string subscription_change_v3
  | ReqMigrateSubscription go_string int timing
  | ReqUnscheduleCancelation go_string
  | ReqCancelSubscription go_string timing
  | ReqCustomer customer_request
  | ReqProfile profile_request
  | ReqInvoice invoice_request
  | ReqKube kube_request
  | ReqStripe stripe_request
datatype account_body =
    CustomerBody om_customer
  | CustomerPage "om_customer list" int int
  | StripeData stripe_app_data
  | ProfileBody billing_profile
  | ProfilePage "billing_profile list" int int
  | InvoicePage "om_invoice list" int int

datatype body =
    MeterBody om_meter
  | MeterRows "om_meter_row list"
  | FeatureBody om_feature
  | FeatureArray "om_feature list"
  | FeaturePage "om_feature list" int
  | PlanBody om_plan_version
  | PlanPage "om_plan_version list" int
  | SubscriptionPage "om_subscription list" int
  | SubscriptionBody "om_period option option"
  | AccountBody account_body
  | StripeBody stripe_body
record om_reply =
  rp_http :: http_response
  rp_sdk :: "body option"
  rp_json :: "body option"
  rp_readable :: bool

type_synonym reply = "go_string + om_reply"
type_synonym exchanges = "(request \<times> reply) list"
type_synonym server = "exchanges \<Rightarrow> request \<Rightarrow> reply"
type_synonym 'a api = "exchanges \<Rightarrow> 'a res \<times> exchanges"

definition call :: "server \<Rightarrow> request \<Rightarrow> exchanges \<Rightarrow> reply \<times> exchanges" where
  "call srv q t = (srv t q, t @ [(q, srv t q)])"

definition ret :: "'a \<Rightarrow> 'a api" where
  "ret x t = (Inr x, t)"

definition fail :: "go_error \<Rightarrow> 'a api" where
  "fail e t = (Inl e, t)"

definition and_then :: "'a api \<Rightarrow> ('a \<Rightarrow> 'b api) \<Rightarrow> 'b api" where
  "and_then m f t = (case m t of (Inl e, t') \<Rightarrow> (Inl e, t') | (Inr x, t') \<Rightarrow> f x t')"

text \<open>\<open>fmt.Errorf("...: %w", err)\<close> around an operation's error.\<close>

definition wrapping :: "go_string \<Rightarrow> 'a api \<Rightarrow> 'a api" where
  "wrapping msg m t = (case m t of (Inl e, t') \<Rightarrow> (Inl (Wrap msg [e]), t') | (Inr x, t') \<Rightarrow> (Inr x, t'))"

definition permanent :: "go_string \<Rightarrow> go_error" where
  "permanent msg = PermanentError (Leaf msg) 0 []"

definition transient :: "go_string \<Rightarrow> go_error" where
  "transient msg = TransientError (Leaf msg) 0 0"

definition network_error :: "go_string \<Rightarrow> go_error" where
  "network_error msg = the (classify None (Some (Leaf msg)))"

text \<open>
  A v1 call whose response is only classified: the network error, the error of the status,
  or the response.
\<close>

definition v1_call :: "server \<Rightarrow> request \<Rightarrow> om_reply api" where
  "v1_call srv q t =
    (case call srv q t of
       (Inl msg, t') \<Rightarrow> (Inl (network_error msg), t')
     | (Inr r, t') \<Rightarrow> (Inr r, t'))"

definition checked :: "om_reply \<Rightarrow> om_reply api" where
  "checked r = (case classify (Some (rp_http r)) None of Some e \<Rightarrow> fail e | None \<Rightarrow> ret r)"

section \<open>The v3 helper\<close>

text \<open>
  \<open>v3API.do\<close>: the status, the error and the decoded body. Encoding the request bodies of
  this client and building the request never fail.
\<close>

definition v3_do :: "server \<Rightarrow> request \<Rightarrow> bool \<Rightarrow> exchanges \<Rightarrow> (int \<times> go_error option \<times> body option) \<times> exchanges" where
  "v3_do srv q want t =
    (case call srv q t of
       (Inl msg, t') \<Rightarrow> ((0, Some (network_error msg), None), t')
     | (Inr r, t') \<Rightarrow>
       (let status = status_code (rp_http r) in
        if \<not> rp_readable r then ((status, Some (transient ''read''), None), t')
        else case classify (Some (rp_http r)) None of
          Some e \<Rightarrow> ((status, Some e, None), t')
        | None \<Rightarrow>
          if want then
            (case rp_json r of
               None \<Rightarrow> ((status, Some (transient ''decode''), None), t')
             | Some b \<Rightarrow> ((status, None, Some b), t'))
          else ((status, None, None), t')))"

text \<open>A v3 call for a plan.\<close>

definition v3_plan :: "server \<Rightarrow> request \<Rightarrow> om_plan_version api" where
  "v3_plan srv q t =
    (case v3_do srv q True t of
       ((_, Some e, _), t') \<Rightarrow> (Inl e, t')
     | ((_, None, Some (PlanBody p)), t') \<Rightarrow> (Inr p, t')
     | ((_, None, _), t') \<Rightarrow> (Inl (transient ''decode''), t'))"

section \<open>Reasoning about exchanges\<close>

text \<open>The requests of a list of exchanges.\<close>

definition sent :: "exchanges \<Rightarrow> request list" where
  "sent t = map fst t"

lemma sent_simps [simp]: "sent [] = []" "sent ((q, r) # t) = q # sent t" "sent (t @ u) = sent t @ sent u"
  by (simp_all add: sent_def)

lemma call_simps [op_simps]:
  "call srv q t = (srv t q, t @ [(q, srv t q)])"
  "ret x t = (Inr x, t)" "fail e t = (Inl e, t)"
  by (simp_all add: call_def ret_def fail_def)

lemma and_then_Inr:
  "and_then m f t = (Inr y, t'') \<longleftrightarrow> (\<exists>x t'. m t = (Inr x, t') \<and> f x t' = (Inr y, t''))"
  by (auto simp: and_then_def split: prod.splits sum.splits)

lemma and_then_Inl:
  "and_then m f t = (Inl e, t'') \<longleftrightarrow>
   m t = (Inl e, t'') \<or> (\<exists>x t'. m t = (Inr x, t') \<and> f x t' = (Inl e, t''))"
  by (auto simp: and_then_def split: prod.splits sum.splits)

lemma and_then_eq [op_simps]:
  "m t = (Inl e, t') \<Longrightarrow> and_then m f t = (Inl e, t')"
  "m t = (Inr x, t') \<Longrightarrow> and_then m f t = f x t'"
  by (simp_all add: and_then_def)

text \<open>The exchanges an operation adds, when they all satisfy a predicate.\<close>

definition adds :: "(request \<Rightarrow> bool) \<Rightarrow> 'a api \<Rightarrow> bool" where
  "adds P m \<longleftrightarrow> (\<forall>t. \<exists>u. snd (m t) = t @ u \<and> (\<forall>q \<in> set (sent u). P q))"

lemma adds_ret [intro, simp]: "adds P (ret x)"
  by (auto simp: adds_def ret_def)

lemma adds_fail [intro, simp]: "adds P (fail e)"
  by (auto simp: adds_def fail_def)

lemma adds_and_then [intro]:
  assumes "adds P m" and "\<And>x. adds P (f x)"
  shows "adds P (and_then m f)"
  unfolding adds_def
proof
  fix t
  obtain r t1 where m: "m t = (r, t1)" by force
  from assms(1) m obtain u where u: "t1 = t @ u" "\<forall>q \<in> set (sent u). P q"
    unfolding adds_def by (metis snd_conv)
  show "\<exists>u. snd (and_then m f t) = t @ u \<and> (\<forall>q \<in> set (sent u). P q)"
  proof (cases r)
    case (Inl e)
    with m u show ?thesis by (simp add: and_then_def)
  next
    case (Inr x)
    obtain v where "snd (f x t1) = t1 @ v" "\<forall>q \<in> set (sent v). P q"
      using assms(2) [of x] unfolding adds_def by blast
    with m u Inr show ?thesis by (auto simp: and_then_def)
  qed
qed

lemma adds_wrapping [intro]: "adds P m \<Longrightarrow> adds P (wrapping msg m)"
  unfolding adds_def wrapping_def by (auto split: prod.splits sum.splits) (metis snd_conv)+

lemma adds_v1_call [intro]: "P q \<Longrightarrow> adds P (v1_call srv q)"
  by (auto simp: adds_def v1_call_def call_def split: sum.splits)

lemma adds_checked [intro, simp]: "adds P (checked r)"
  by (auto simp: checked_def split: option.splits)

lemma v3_do_trace: "snd (v3_do srv q want t) = t @ [(q, srv t q)]"
  by (auto simp: v3_do_def call_def Let_def split: sum.splits option.splits)

lemma v3_plan_trace: "snd (v3_plan srv q t) = t @ [(q, srv t q)]"
proof -
  obtain st e b t' where "v3_do srv q True t = ((st, e, b), t')" by (metis prod.collapse)
  with v3_do_trace [of srv q True t] show ?thesis
    by (simp add: v3_plan_def split: option.splits body.splits)
qed

lemma adds_v3_plan [intro]: "P q \<Longrightarrow> adds P (v3_plan srv q)"
  by (simp add: adds_def v3_plan_trace)

lemma adds_if [intro]: "adds P m \<Longrightarrow> adds P n \<Longrightarrow> adds P (if b then m else n)"
  by simp

lemma adds_mono: "adds P m \<Longrightarrow> (\<And>q. P q \<Longrightarrow> Q q) \<Longrightarrow> adds Q m"
  unfolding adds_def by meson

end
