(* ===== verification/MeterQueries.thy ===== *)
theory MeterQueries
  imports Api "HOL-Library.AList"
begin

text \<open>
  Reading a meter's usage (\<open>internal/openmeter/usage.go\<close>). A Go map from group-by keys is an
  association list with one entry per key.
\<close>

section \<open>Queries\<close>

record meter_query =
  mq_slug :: go_string
  mq_from :: int
  mq_to :: int
  mq_window :: "window_size option"
  mq_time_zone :: go_string
  mq_customers :: "go_string list"
  mq_group_by :: "go_string list"
  mq_filter_group_by :: "(go_string \<times> go_string list) list"
  mq_filters :: filter_map

record meter_query_row =
  qr_window_start :: int
  qr_window_end :: int
  qr_customer :: go_string
  qr_group_by :: str_map
  qr_value :: float64

text \<open>One round of the second loop of \<open>groupByFilters\<close>.\<close>

definition merge_filter :: "go_string \<times> filter_string \<Rightarrow> filter_map \<Rightarrow> filter_map" where
  "merge_filter kf filters =
    (case map_of filters (fst kf) of
       None \<Rightarrow> filters @ [kf]
     | Some existing \<Rightarrow> AList.update (fst kf) (filter_and [existing, snd kf]) filters)"

definition groupByFilters :: "meter_query \<Rightarrow> filter_map" where
  "groupByFilters q =
    fold merge_filter (mq_filters q) (map (\<lambda>(key, values). (key, filter_in values)) (mq_filter_group_by q))"

definition query_body :: "meter_query \<Rightarrow> meter_query_request" where
  "query_body q =
    \<lparr>qb_from = mq_from q, qb_to = mq_to q, qb_window = mq_window q,
     qb_time_zone = (if mq_time_zone q \<noteq> [] then Some (mq_time_zone q) else None),
     qb_customers = (if mq_customers q \<noteq> [] then Some (mq_customers q) else None),
     qb_group_by = (if mq_group_by q \<noteq> [] then Some (mq_group_by q) else None),
     qb_filters = (if groupByFilters q \<noteq> [] then Some (groupByFilters q) else None)\<rparr>"

text \<open>Only the requested keys are kept; a value OpenMeter leaves out or sets to null is empty.\<close>

definition query_row :: "meter_query \<Rightarrow> om_meter_row \<Rightarrow> meter_query_row" where
  "query_row q r =
    \<lparr>qr_window_start = or_window_start r, qr_window_end = or_window_end r,
     qr_customer = (case or_customer r of None \<Rightarrow> [] | Some c \<Rightarrow> c),
     qr_group_by = map (\<lambda>key. (key, case map_of (or_group_by r) key of Some (Some v) \<Rightarrow> v | _ \<Rightarrow> [])) (mq_group_by q),
     qr_value = or_value r\<rparr>"

definition QueryMeter :: "server \<Rightarrow> meter_query \<Rightarrow> meter_query_row list api" where
  "QueryMeter srv q =
    (if mq_slug q = [] then fail (permanent ''slug is required'')
     else and_then (v1_call srv (ReqQueryMeter (mq_slug q) (query_body q))) (\<lambda>r.
       if status_code (rp_http r) = 404 then
         (if isOpenMeterNotFound (rp_http r) then fail (Wrap (mq_slug q) [Sentinel ErrMeterNotFound])
          else fail (unrecognizedNotFound ''query'' (mq_slug q) (resp_body (rp_http r))))
       else and_then (checked r) (\<lambda>r.
         case rp_sdk r of
           Some (MeterRows data) \<Rightarrow> ret (map (query_row q) data)
         | _ \<Rightarrow> fail (permanent (''query meter '' @ mq_slug q @ '': empty response body'')))))"

section \<open>Properties\<close>

lemma map_of_accepts: "distinct (map fst fm) \<Longrightarrow> accepts fm ev \<longleftrightarrow> (\<forall>k f. map_of fm k = Some f \<longrightarrow> passes f (ev k))"
  by (auto simp: accepts_def dest: map_of_SomeD)

lemma passes_filter_and [simp]: "passes (filter_and fs) v \<longleftrightarrow> (\<forall>f \<in> set fs. passes f v)"
  by simp

lemma merge_filter_distinct: "distinct (map fst fm) \<Longrightarrow> distinct (map fst (merge_filter kf fm))"
  by (auto simp: merge_filter_def distinct_update map_of_eq_None_iff split: option.splits)

lemma merge_filter_accepts:
  assumes "distinct (map fst fm)"
  shows "accepts (merge_filter kf fm) ev \<longleftrightarrow> accepts fm ev \<and> passes (snd kf) (ev (fst kf))"
proof (cases "map_of fm (fst kf)")
  case None
  then show ?thesis by (cases kf) (auto simp: merge_filter_def accepts_def)
next
  case (Some existing)
  have d: "distinct (map fst (AList.update (fst kf) (filter_and [existing, snd kf]) fm))"
    using assms by (rule distinct_update)
  have "accepts (AList.update (fst kf) (filter_and [existing, snd kf]) fm) ev \<longleftrightarrow>
      accepts fm ev \<and> passes (snd kf) (ev (fst kf))"
    unfolding map_of_accepts [OF d] map_of_accepts [OF assms] using Some
    by (auto simp: update_conv' simp del: passes.simps)
  with Some show ?thesis by (simp add: merge_filter_def)
qed

lemma merge_filters:
  "distinct (map fst fm) \<Longrightarrow> accepts (fold merge_filter kfs fm) ev \<longleftrightarrow> accepts fm ev \<and> accepts kfs ev"
proof (induction kfs arbitrary: fm)
  case (Cons kf kfs)
  then show ?case
    using merge_filter_distinct [of fm kf] merge_filter_accepts [of fm kf ev]
    by (cases kf) (auto simp del: passes.simps)
qed simp

lemma groupByFilters_accepts:
  assumes "distinct (map fst (mq_filter_group_by q))"
  shows "accepts (groupByFilters q) ev \<longleftrightarrow>
    (\<forall>(key, values) \<in> set (mq_filter_group_by q). ev key \<in> set values) \<and> accepts (mq_filters q) ev"
proof -
  let ?base = "map (\<lambda>(key, values). (key, filter_in values)) (mq_filter_group_by q)"
  have "map fst ?base = map fst (mq_filter_group_by q)" by auto
  then have "distinct (map fst ?base)" using assms by metis
  then have "accepts (groupByFilters q) ev \<longleftrightarrow> accepts ?base ev \<and> accepts (mq_filters q) ev"
    unfolding groupByFilters_def by (rule merge_filters)
  moreover have "accepts ?base ev \<longleftrightarrow> (\<forall>(key, values) \<in> set (mq_filter_group_by q). ev key \<in> set values)"
    by (auto simp: accepts_def)
  ultimately show ?thesis by simp
qed

text \<open>
  A query's combined filter accepts an event exactly when every restricted key has one
  of its listed values and the feature's own filters accept it too: a key in both maps must
  pass both, so neither the project restriction nor the price's filter can displace the other.
\<close>

theorem groupByFilters_meaning:
  assumes "distinct (map fst (mq_filter_group_by q))"
  shows "accepts (groupByFilters q) ev \<longleftrightarrow>
    (\<forall>(key, values) \<in> set (mq_filter_group_by q). ev key \<in> set values) \<and> accepts (mq_filters q) ev"
  using assms by (rule groupByFilters_accepts)

definition sample_query :: meter_query where
  "sample_query = \<lparr>mq_slug = ''cpu'', mq_from = 0, mq_to = 10, mq_window = None, mq_time_zone = [],
     mq_customers = [''c1''], mq_group_by = [''region''], mq_filter_group_by = [(''project'', [''web''])],
     mq_filters = [(''project'', filter_nin [''db'']), (''region'', filter_eq ''eu'')]\<rparr>"

theorem groupByFilters_meaning_witness:
  "accepts (groupByFilters sample_query) (\<lambda>k. if k = ''project'' then ''web'' else ''eu'') \<and>
   \<not> accepts (groupByFilters sample_query) (\<lambda>k. ''eu'')"
  using groupByFilters_meaning [of sample_query "\<lambda>k. if k = ''project'' then ''web'' else ''eu''"]
    groupByFilters_meaning [of sample_query "\<lambda>k. ''eu''"]
  by (simp add: sample_query_def)

lemma adds_QueryMeter:
  "(mq_slug q \<noteq> [] \<Longrightarrow> P (ReqQueryMeter (mq_slug q) (query_body q))) \<Longrightarrow> adds P (QueryMeter srv q)"
  by (auto simp: QueryMeter_def intro!: adds_and_then adds_v1_call split: option.splits body.splits)

end
