(* ===== verification/Meters.thy ===== *)
theory Meters
  imports Api
begin

text \<open>
  Meters in OpenMeter (\<open>internal/openmeter/meter.go\<close>): the mapping of Milo's aggregations
  and dimensions, and the calls that create, update, read and delete a meter. A Go map is
  compared with \<open>maps.Equal\<close>, which is equality of the lookup functions.
\<close>

section \<open>Desired meters\<close>

datatype milo_aggregation =
    MiloSum | MiloCount | MiloUniqueCount | MiloMax | MiloMin | MiloLatest | MiloAverage
  | MiloOther go_string

record desired_meter =
  dm_slug :: go_string
  dm_event_type :: go_string
  dm_aggregation :: meter_aggregation
  dm_name :: go_string
  dm_description :: go_string
  dm_group_by :: str_map
  dm_value_property :: go_string

record meter_definition =
  md_dimensions :: "go_string list"
  md_system_dimensions :: "go_string list"

definition MeterAggregation :: "milo_aggregation \<Rightarrow> meter_aggregation res" where
  "MeterAggregation a =
    (case a of
       MiloSum \<Rightarrow> Inr MeterAggregationSum
     | MiloCount \<Rightarrow> Inr MeterAggregationCount
     | MiloUniqueCount \<Rightarrow> Inr MeterAggregationUniqueCount
     | MiloMax \<Rightarrow> Inr MeterAggregationMax
     | MiloMin \<Rightarrow> Inr MeterAggregationMin
     | MiloLatest \<Rightarrow> Inr MeterAggregationLatest
     | MiloAverage \<Rightarrow> Inr MeterAggregationAvg
     | MiloOther s \<Rightarrow> Inl (permanent (''unmapped MeterAggregation '' @ s)))"

definition ValuePropertyValue :: go_string where "ValuePropertyValue = ''$.value''"
definition ValuePropertyResourceUID :: go_string where "ValuePropertyResourceUID = ''$.resource.uid''"

definition MeterValueProperty :: "milo_aggregation \<Rightarrow> go_string" where
  "MeterValueProperty a = (if a = MiloUniqueCount then ValuePropertyResourceUID else ValuePropertyValue)"

definition valueNeedsProperty :: "meter_aggregation \<Rightarrow> bool" where
  "valueNeedsProperty a \<longleftrightarrow> a \<noteq> MeterAggregationCount"

definition SystemDimensions :: "'a meter_definition_scheme \<Rightarrow> go_string list" where
  "SystemDimensions md =
    (if md_system_dimensions md \<noteq> [] then md_system_dimensions md else [SystemDimensionProjectName])"

definition MeterDimensions :: "'a meter_definition_scheme \<Rightarrow> go_string list" where
  "MeterDimensions md = md_dimensions md @ SystemDimensions md"

section \<open>Comparing a meter with the desired one\<close>

definition or_empty :: "go_string option \<Rightarrow> go_string" where
  "or_empty s = (case s of None \<Rightarrow> [] | Some x \<Rightarrow> x)"

definition checkImmutableFields :: "om_meter \<Rightarrow> desired_meter \<Rightarrow> go_error option" where
  "checkImmutableFields existing desired =
    (if mt_event_type existing \<noteq> dm_event_type desired then
       Some (permanent (''meter '' @ dm_slug desired @ '': eventType cannot change''))
     else if mt_aggregation existing \<noteq> dm_aggregation desired then
       Some (permanent (''meter '' @ dm_slug desired @ '': aggregation cannot change''))
     else
       let existingValueProperty = or_empty (mt_value_property existing);
           wantValueProperty = (if valueNeedsProperty (dm_aggregation desired) then dm_value_property desired else [])
       in if existingValueProperty \<noteq> wantValueProperty then
            Some (permanent (''meter '' @ dm_slug desired @ '': valueProperty cannot change''))
          else None)"

definition maps_equal :: "str_map \<Rightarrow> str_map \<Rightarrow> bool" where
  "maps_equal m n \<longleftrightarrow> (\<forall>k \<in> fst ` (set m \<union> set n). map_of m k = map_of n k)"

definition meterNeedsUpdate :: "om_meter \<Rightarrow> desired_meter \<Rightarrow> bool" where
  "meterNeedsUpdate existing desired \<longleftrightarrow>
    (if dm_name desired \<noteq> [] \<and> mt_name existing \<noteq> Some (dm_name desired) then True
     else if or_empty (mt_description existing) \<noteq> dm_description desired then True
     else \<not> maps_equal (case mt_group_by existing of None \<Rightarrow> [] | Some g \<Rightarrow> g) (dm_group_by desired))"

section \<open>Calls\<close>

definition GetMeter :: "server \<Rightarrow> go_string \<Rightarrow> om_meter api" where
  "GetMeter srv slug =
    (if slug = [] then fail (permanent ''slug is required'')
     else and_then (v1_call srv (ReqGetMeter slug)) (\<lambda>r.
       if status_code (rp_http r) = 404 then
         (if isOpenMeterNotFound (rp_http r) then fail (Wrap slug [Sentinel ErrMeterNotFound])
          else fail (unrecognizedNotFound ''get'' slug (resp_body (rp_http r))))
       else and_then (checked r) (\<lambda>r.
         case rp_sdk r of
           Some (MeterBody m) \<Rightarrow> ret m
         | _ \<Rightarrow> fail (permanent (''get meter '' @ slug @ '': empty response body'')))))"

definition decodeMeter :: "om_reply \<Rightarrow> om_meter option" where
  "decodeMeter r =
    (if trim_space (payload_text (resp_body (rp_http r))) = [] then None
     else case rp_json r of
       Some (MeterBody m) \<Rightarrow> if mt_slug m = [] then None else Some m
     | _ \<Rightarrow> None)"

text \<open>
  The tail \<open>createMeter\<close> and \<open>updateMeter\<close> share: the SDK's meter, else the decoded body,
  else a GET whose failure is transient.
\<close>

definition meter_answer :: "server \<Rightarrow> go_string \<Rightarrow> go_string \<Rightarrow> om_reply \<Rightarrow> om_meter api" where
  "meter_answer srv opn slug r =
    (case rp_sdk r of
       Some (MeterBody m) \<Rightarrow> ret m
     | _ \<Rightarrow>
       (case decodeMeter r of
          Some m \<Rightarrow> ret m
        | None \<Rightarrow> (\<lambda>t. case GetMeter srv slug t of
             (Inl e, t') \<Rightarrow> (Inl (TransientError (Wrap (opn @ '' meter '' @ slug @ '': got no meter body, and the follow-up GetMeter failed'') [e]) 0 0), t')
           | (Inr m, t') \<Rightarrow> (Inr m, t'))))"

definition nonempty :: "'a list \<Rightarrow> 'a list option" where
  "nonempty xs = (if xs \<noteq> [] then Some xs else None)"

definition create_body :: "desired_meter \<Rightarrow> om_meter" where
  "create_body desired =
    \<lparr>mt_slug = dm_slug desired, mt_event_type = dm_event_type desired, mt_aggregation = dm_aggregation desired,
     mt_value_property = (if valueNeedsProperty (dm_aggregation desired) then Some (dm_value_property desired) else None),
     mt_name = nonempty (dm_name desired), mt_description = nonempty (dm_description desired),
     mt_group_by = nonempty (dm_group_by desired)\<rparr>"

definition createMeter :: "server \<Rightarrow> desired_meter \<Rightarrow> om_meter api" where
  "createMeter srv desired =
    and_then (v1_call srv (ReqCreateMeter (create_body desired))) (\<lambda>r.
    and_then (checked r) (\<lambda>r. meter_answer srv ''create'' (dm_slug desired) r))"

definition update_body :: "desired_meter \<Rightarrow> meter_update" where
  "update_body desired =
    \<lparr>mu_name = nonempty (dm_name desired), mu_description = nonempty (dm_description desired),
     mu_group_by = nonempty (dm_group_by desired)\<rparr>"

definition updateMeter :: "server \<Rightarrow> go_string \<Rightarrow> desired_meter \<Rightarrow> om_meter api" where
  "updateMeter srv slug desired =
    and_then (v1_call srv (ReqUpdateMeter slug (update_body desired))) (\<lambda>r.
    and_then (checked r) (\<lambda>r. meter_answer srv ''update'' slug r))"

definition EnsureMeter :: "server \<Rightarrow> desired_meter \<Rightarrow> (om_meter \<times> bool) api" where
  "EnsureMeter srv desired =
    (if dm_slug desired = [] then fail (permanent ''DesiredMeter.Slug is required'')
     else if dm_event_type desired = [] then fail (permanent ''DesiredMeter.EventType is required'')
     else (\<lambda>t. case GetMeter srv (dm_slug desired) t of
       (Inl e, t') \<Rightarrow>
         if errors_is e ErrMeterNotFound then
           and_then (createMeter srv desired) (\<lambda>m. ret (m, True)) t'
         else (Inl e, t')
     | (Inr existing, t') \<Rightarrow>
         (case checkImmutableFields existing desired of
            Some e \<Rightarrow> (Inl e, t')
          | None \<Rightarrow>
            if \<not> meterNeedsUpdate existing desired then (Inr (existing, False), t')
            else and_then (updateMeter srv (mt_slug existing) desired) (\<lambda>m. ret (m, True)) t')))"

definition DeleteMeter :: "server \<Rightarrow> go_string \<Rightarrow> unit api" where
  "DeleteMeter srv slug =
    (if slug = [] then fail (permanent ''slug is required'')
     else and_then (v1_call srv (ReqDeleteMeter slug)) (\<lambda>r.
       if status_code (rp_http r) = 404 then
         (if isOpenMeterNotFound (rp_http r) then ret ()
          else fail (unrecognizedNotFound ''delete'' slug (resp_body (rp_http r))))
       else and_then (checked r) (\<lambda>_. ret ())))"

section \<open>Properties\<close>

definition immutables_agree :: "om_meter \<Rightarrow> desired_meter \<Rightarrow> bool" where
  "immutables_agree m d \<longleftrightarrow> mt_event_type m = dm_event_type d \<and> mt_aggregation m = dm_aggregation d \<and>
    or_empty (mt_value_property m) = (if dm_aggregation d = MeterAggregationCount then [] else dm_value_property d)"

lemma checkImmutableFields_None: "checkImmutableFields m d = None \<longleftrightarrow> immutables_agree m d"
  by (auto simp: checkImmutableFields_def immutables_agree_def valueNeedsProperty_def Let_def)

lemma maps_equal_iff: "maps_equal m n \<longleftrightarrow> map_of m = map_of n"
proof
  assume eq: "maps_equal m n"
  show "map_of m = map_of n"
  proof
    fix k
    show "map_of m k = map_of n k"
    proof (cases "k \<in> fst ` (set m \<union> set n)")
      case True
      then show ?thesis using eq unfolding maps_equal_def by blast
    next
      case False
      then have "map_of m k = None" "map_of n k = None" by (auto simp: map_of_eq_None_iff image_Un)
      then show ?thesis by simp
    qed
  qed
qed (simp add: maps_equal_def)

text \<open>What \<open>GetMeter\<close> does: exactly one GET, and not-found only on OpenMeter's own answer.\<close>

lemma GetMeter_cases:
  assumes "GetMeter srv slug t = (x, t')" and "slug \<noteq> []"
  obtains (found) r m where "srv t (ReqGetMeter slug) = Inr r" "x = Inr m" "rp_sdk r = Some (MeterBody m)"
      "ok_status (status_code (rp_http r))" "t' = t @ [(ReqGetMeter slug, Inr r)]"
  | (absent) r where "srv t (ReqGetMeter slug) = Inr r" "isOpenMeterNotFound (rp_http r)"
      "x = Inl (Wrap slug [Sentinel ErrMeterNotFound])" "t' = t @ [(ReqGetMeter slug, Inr r)]"
  | (error) e where "x = Inl e" "\<not> errors_is e ErrMeterNotFound"
      "t' = t @ [(ReqGetMeter slug, srv t (ReqGetMeter slug))]"
proof (cases "srv t (ReqGetMeter slug)")
  case (Inl msg)
  with assms show thesis
    by (intro error [of "network_error msg"])
       (auto simp: GetMeter_def and_then_def v1_call_def call_def network_error_def classify_def errors_is_def)
next
  case (Inr r)
  show thesis
  proof (cases "status_code (rp_http r) = 404")
    case True
    with assms Inr show thesis
      by (cases "isOpenMeterNotFound (rp_http r)")
         (auto simp: GetMeter_def and_then_def v1_call_def call_def fail_def unrecognizedNotFound_def errors_is_def Let_def
           intro: absent error)
  next
    case False
    note not404 = this
    show thesis
    proof (cases "classify (Some (rp_http r)) None")
      case None
      then have "ok_status (status_code (rp_http r))" by (simp add: classify_None_iff)
      with assms Inr not404 None show thesis
        by (cases "\<exists>m. rp_sdk r = Some (MeterBody m)")
           (auto simp: GetMeter_def and_then_def v1_call_def call_def checked_def fail_def ret_def permanent_def
             errors_is_def split: option.splits body.splits intro: found error)
    next
      case (Some e)
      then have "\<not> errors_is e ErrMeterNotFound" by (rule_tac classify_response [of "rp_http r" None]) auto
      with assms Inr not404 Some show thesis
        by (intro error [of e]) (auto simp: GetMeter_def and_then_def v1_call_def call_def checked_def fail_def)
    qed
  qed
qed

lemma meter_answer_trace:
  "\<exists>u. snd (meter_answer srv opn slug r t) = t @ u \<and> set (sent u) \<subseteq> {ReqGetMeter slug}"
proof (cases "slug = []")
  case True
  then show ?thesis
    by (auto simp: meter_answer_def GetMeter_def ret_def fail_def split: option.splits body.splits)
next
  case False
  obtain x t' where x: "GetMeter srv slug t = (x, t')" by force
  from x False have "\<exists>u. t' = t @ u \<and> set (sent u) \<subseteq> {ReqGetMeter slug}"
    by (rule GetMeter_cases) auto
  with x show ?thesis
    by (auto simp: meter_answer_def ret_def split: option.splits body.splits sum.splits)
qed

lemma write_meter_trace:
  "\<exists>u. snd (and_then (and_then (v1_call srv q) (\<lambda>r. and_then (checked r) (\<lambda>r. meter_answer srv opn slug r)))
      (\<lambda>m. ret (m, True)) t) = t @ (q, srv t q) # u \<and> set (sent u) \<subseteq> {ReqGetMeter slug}"
proof (cases "srv t q")
  case (Inl msg)
  then show ?thesis by (simp add: and_then_def v1_call_def call_def)
next
  case (Inr r)
  let ?t = "t @ [(q, Inr r)]"
  obtain u where u: "snd (meter_answer srv opn slug r ?t) = ?t @ u" "set (sent u) \<subseteq> {ReqGetMeter slug}"
    using meter_answer_trace by blast
  show ?thesis
  proof (cases "classify (Some (rp_http r)) None")
    case None
    with Inr u show ?thesis
      by (auto simp: and_then_def v1_call_def call_def checked_def ret_def split: prod.splits sum.splits)
  next
    case (Some e)
    with Inr show ?thesis by (simp add: and_then_def v1_call_def call_def checked_def fail_def)
  qed
qed

text \<open>
  C37. Writes are guarded: \<open>EnsureMeter\<close> reads the meter first; it creates one only after
  OpenMeter's own not-found answer (never after a stray 404), updates one only when its
  immutable fields agree and a mutable field differs, sends no other write, and reports
  "unchanged" only after a single GET of a meter that agrees with the desired one.
\<close>

theorem EnsureMeter_guarded:
  assumes "dm_slug d \<noteq> []" and "dm_event_type d \<noteq> []"
  shows "\<exists>r0 u. snd (EnsureMeter srv d t) = t @ (ReqGetMeter (dm_slug d), r0) # u \<and>
    (\<forall>q \<in> set (sent u).
       (\<exists>slug. q = ReqGetMeter slug)
     \<or> q = ReqCreateMeter (create_body d) \<and> (\<exists>r. r0 = Inr r \<and> isOpenMeterNotFound (rp_http r))
     \<or> (\<exists>r m. q = ReqUpdateMeter (mt_slug m) (update_body d) \<and> r0 = Inr r \<and> rp_sdk r = Some (MeterBody m)
          \<and> immutables_agree m d \<and> meterNeedsUpdate m d)) \<and>
    (\<forall>m. fst (EnsureMeter srv d t) = Inr (m, False) \<longrightarrow>
       u = [] \<and> immutables_agree m d \<and> \<not> meterNeedsUpdate m d)"
proof -
  obtain x t1 where x: "GetMeter srv (dm_slug d) t = (x, t1)" by force
  from x assms(1) show ?thesis
  proof (cases rule: GetMeter_cases)
    case (found r m)
    show ?thesis
    proof (cases "immutables_agree m d \<and> meterNeedsUpdate m d")
      case True
      obtain u where u: "snd (and_then (updateMeter srv (mt_slug m) d) (\<lambda>m. ret (m, True)) t1)
          = t1 @ (ReqUpdateMeter (mt_slug m) (update_body d), srv t1 (ReqUpdateMeter (mt_slug m) (update_body d))) # u"
        "set (sent u) \<subseteq> {ReqGetMeter (mt_slug m)}"
        using write_meter_trace unfolding updateMeter_def by blast
      have e: "EnsureMeter srv d t = and_then (updateMeter srv (mt_slug m) d) (\<lambda>m. ret (m, True)) t1"
        using assms x found True by (simp add: EnsureMeter_def checkImmutableFields_None [THEN iffD2])
      have "fst (EnsureMeter srv d t) \<noteq> Inr (m', False)" for m'
        unfolding e by (auto simp: and_then_def ret_def split: prod.splits sum.splits)
      then show ?thesis
        using found True u unfolding e by (intro exI [of _ "Inr r"] exI) (auto split: if_splits)
    next
      case False
      then have "EnsureMeter srv d t = (case checkImmutableFields m d of Some e \<Rightarrow> (Inl e, t1) | None \<Rightarrow> (Inr (m, False), t1))"
        using assms x found checkImmutableFields_None [of m d] by (auto simp: EnsureMeter_def split: option.splits)
      then show ?thesis
        using found False checkImmutableFields_None [of m d] by (auto split: option.splits)
    qed
  next
    case (absent r)
    obtain u where u: "snd (and_then (createMeter srv d) (\<lambda>m. ret (m, True)) t1)
        = t1 @ (ReqCreateMeter (create_body d), srv t1 (ReqCreateMeter (create_body d))) # u"
      "set (sent u) \<subseteq> {ReqGetMeter (dm_slug d)}"
      using write_meter_trace unfolding createMeter_def by blast
    have e: "EnsureMeter srv d t = and_then (createMeter srv d) (\<lambda>m. ret (m, True)) t1"
      using assms x absent by (simp add: EnsureMeter_def errors_is_def)
    have "fst (EnsureMeter srv d t) \<noteq> Inr (m', False)" for m'
      unfolding e by (auto simp: and_then_def ret_def split: prod.splits sum.splits)
    then show ?thesis
      using absent u unfolding e by (intro exI [of _ "Inr r"] exI) auto
  next
    case (error e)
    then show ?thesis using assms x by (simp add: EnsureMeter_def)
  qed
qed

definition sample_meter :: desired_meter where
  "sample_meter = \<lparr>dm_slug = ''cpu'', dm_event_type = ''cpu'', dm_aggregation = MeterAggregationSum,
     dm_name = ''CPU'', dm_description = [], dm_group_by = [(''region'', ''$.dimensions.region'')],
     dm_value_property = ''$.value''\<rparr>"

theorem EnsureMeter_guarded_witness:
  "\<exists>r0 u. snd (EnsureMeter (\<lambda>_ _. Inl ''down'') sample_meter []) = [] @ (ReqGetMeter (dm_slug sample_meter), r0) # u \<and>
    (\<forall>q \<in> set (sent u).
       (\<exists>slug. q = ReqGetMeter slug)
     \<or> q = ReqCreateMeter (create_body sample_meter) \<and> (\<exists>r. r0 = Inr r \<and> isOpenMeterNotFound (rp_http r))
     \<or> (\<exists>r m. q = ReqUpdateMeter (mt_slug m) (update_body sample_meter) \<and> r0 = Inr r \<and> rp_sdk r = Some (MeterBody m)
          \<and> immutables_agree m sample_meter \<and> meterNeedsUpdate m sample_meter)) \<and>
    (\<forall>m. fst (EnsureMeter (\<lambda>_ _. Inl ''down'') sample_meter []) = Inr (m, False) \<longrightarrow>
       u = [] \<and> immutables_agree m sample_meter \<and> \<not> meterNeedsUpdate m sample_meter)"
  by (rule EnsureMeter_guarded) (simp_all add: sample_meter_def)

text \<open>
  What OpenMeter documents a create or update to leave behind: the immutable fields as
  created, and of the mutable fields those sent (an omitted description or group-by is
  empty, an omitted name is the server's choice).
\<close>

definition stored :: "om_meter \<Rightarrow> meter_update \<Rightarrow> om_meter \<Rightarrow> bool" where
  "stored created sent_fields m \<longleftrightarrow>
    mt_event_type m = mt_event_type created \<and> mt_aggregation m = mt_aggregation created \<and>
    mt_value_property m = mt_value_property created \<and>
    (\<forall>n. mu_name sent_fields = Some n \<longrightarrow> mt_name m = Some n) \<and>
    or_empty (mt_description m) = or_empty (mu_description sent_fields) \<and>
    map_of (case mt_group_by m of None \<Rightarrow> [] | Some g \<Rightarrow> g) =
      map_of (case mu_group_by sent_fields of None \<Rightarrow> [] | Some g \<Rightarrow> g)"

text \<open>
  \<open>EnsureMeter\<close> converges: once OpenMeter holds what \<open>createMeter\<close> and \<open>updateMeter\<close>
  send for the desired meter, the next call reads the meter, finds nothing to do, and
  writes nothing; so a reconciler that repeats the call never loops on writes.
\<close>

theorem EnsureMeter_idempotent:
  assumes "dm_slug d \<noteq> []" and "dm_event_type d \<noteq> []"
    and "srv t (ReqGetMeter (dm_slug d)) = Inr r" and "ok_status (status_code (rp_http r))"
    and "rp_sdk r = Some (MeterBody m)" and "stored (create_body d) (update_body d) m"
  shows "EnsureMeter srv d t = (Inr (m, False), t @ [(ReqGetMeter (dm_slug d), Inr r)])"
proof -
  have "status_code (rp_http r) \<noteq> 404" using assms(4) by (simp add: ok_status_def)
  then have "GetMeter srv (dm_slug d) t = (Inr m, t @ [(ReqGetMeter (dm_slug d), Inr r)])"
    using assms(1,3-5) by (simp add: GetMeter_def and_then_def v1_call_def call_def checked_def ret_def)
  moreover have "immutables_agree m d"
    using assms(6) by (auto simp: stored_def immutables_agree_def create_body_def valueNeedsProperty_def or_empty_def)
  moreover have "\<not> meterNeedsUpdate m d"
    using assms(6) by (auto simp: stored_def meterNeedsUpdate_def maps_equal_iff update_body_def nonempty_def or_empty_def
        split: if_splits)
  ultimately show ?thesis
    using assms(1,2) by (simp add: EnsureMeter_def checkImmutableFields_None [THEN iffD2])
qed

definition ok_reply :: "body \<Rightarrow> om_reply" where
  "ok_reply b = \<lparr>rp_http = sample_response\<lparr>status_code := 200\<rparr>, rp_sdk = Some b, rp_json = Some b, rp_readable = True\<rparr>"

theorem EnsureMeter_idempotent_witness:
  "EnsureMeter (\<lambda>_ _. Inr (ok_reply (MeterBody (create_body sample_meter)))) sample_meter [] =
    (Inr (create_body sample_meter, False), [] @ [(ReqGetMeter (dm_slug sample_meter), Inr (ok_reply (MeterBody (create_body sample_meter))))])"
  by (rule EnsureMeter_idempotent)
     (auto simp: ok_reply_def ok_status_def sample_meter_def stored_def create_body_def update_body_def nonempty_def or_empty_def)

text \<open>
  A finalizer is only released for a meter that is gone: \<open>DeleteMeter\<close> succeeds exactly
  when OpenMeter answers 2xx or with its own not-found problem; any other 404 (a wrong
  server URL, an ingress) is an error.
\<close>

theorem DeleteMeter_succeeds_iff:
  assumes "slug \<noteq> []"
  shows "fst (DeleteMeter srv slug t) = Inr () \<longleftrightarrow>
    (\<exists>r. srv t (ReqDeleteMeter slug) = Inr r \<and>
       (ok_status (status_code (rp_http r)) \<or> isOpenMeterNotFound (rp_http r)))"
proof (cases "srv t (ReqDeleteMeter slug)")
  case (Inl msg)
  with assms show ?thesis by (simp add: DeleteMeter_def and_then_def v1_call_def call_def)
next
  case (Inr r)
  have nf: "isOpenMeterNotFound (rp_http r) \<Longrightarrow> status_code (rp_http r) = 404"
    by (simp add: isOpenMeterNotFound_def)
  show ?thesis
  proof (cases "status_code (rp_http r) = 404")
    case True
    with assms Inr show ?thesis
      by (simp add: DeleteMeter_def and_then_def v1_call_def call_def ret_def fail_def ok_status_def)
  next
    case False
    have "classify (Some (rp_http r)) None = None \<longleftrightarrow> ok_status (status_code (rp_http r))"
      by (rule classify_None_iff)
    with assms Inr False nf show ?thesis
      by (auto simp: DeleteMeter_def and_then_def v1_call_def call_def ret_def fail_def checked_def split: option.splits)
  qed
qed

theorem DeleteMeter_succeeds_iff_witness:
  "fst (DeleteMeter (\<lambda>_ _. Inr (ok_reply (MeterBody (create_body sample_meter)))) ''cpu'' []) = Inr () \<longleftrightarrow>
    (\<exists>r. (\<lambda>_ _. Inr (ok_reply (MeterBody (create_body sample_meter)))) [] (ReqDeleteMeter ''cpu'') = (Inr r :: reply) \<and>
       (ok_status (status_code (rp_http r)) \<or> isOpenMeterNotFound (rp_http r)))"
  by (rule DeleteMeter_succeeds_iff) simp

text \<open>
  Every Milo aggregation has its own OpenMeter aggregation, so no two are confused, and
  the only one without a value property is COUNT.
\<close>

lemma MeterAggregation_injective:
  "(\<forall>a b. MeterAggregation a = MeterAggregation b \<and> \<not> isl (MeterAggregation a) \<longrightarrow> a = b) \<and>
   (\<forall>a x. MeterAggregation a = Inr x \<longrightarrow> (valueNeedsProperty x \<longleftrightarrow> a \<noteq> MiloCount)) \<and>
   (\<forall>x. \<exists>a. MeterAggregation a = Inr x)"
proof (intro conjI allI)
  show "MeterAggregation a = MeterAggregation b \<and> \<not> isl (MeterAggregation a) \<longrightarrow> a = b" for a b
    by (cases a; cases b) (simp_all add: MeterAggregation_def)
  show "MeterAggregation a = Inr x \<longrightarrow> (valueNeedsProperty x \<longleftrightarrow> a \<noteq> MiloCount)" for a x
    by (cases a) (auto simp: MeterAggregation_def valueNeedsProperty_def)
  show "\<exists>a. MeterAggregation a = Inr x" for x
    by (cases x) (auto simp: MeterAggregation_def intro: exI [of _ MiloSum] exI [of _ MiloCount] exI [of _ MiloUniqueCount]
        exI [of _ MiloMax] exI [of _ MiloMin] exI [of _ MiloLatest] exI [of _ MiloAverage])
qed

end
