(* ===== verification/Floats.thy ===== *)
theory Floats
  imports Decimals
begin

text \<open>
  Go's \<open>float64\<close> as far as usage values need it: a finite number is the rational it stands
  for, an operation is the exact one rounded to the nearest representable number (ties to
  even), and \<open>strconv.FormatFloat(v, 'f', -1, 64)\<close> prints the shortest decimal that reads
  back as \<open>v\<close>. Infinities, NaN and the sign of zero are left out.
\<close>

section \<open>Rounding\<close>

fun nat_bits :: "nat \<Rightarrow> nat" where
  "nat_bits n = (if n = 0 then 0 else Suc (nat_bits (n div 2)))"

declare nat_bits.simps [simp del]

definition pow2 :: "int \<Rightarrow> rat" where
  "pow2 k = (if 0 \<le> k then 2 ^ nat k else 1 / 2 ^ nat (- k))"

definition half_even :: "rat \<Rightarrow> int" where
  "half_even y =
    (let f = \<lfloor>y\<rfloor>; d = y - of_int f in if d < 1 / 2 \<or> d = 1 / 2 \<and> even f then f else f + 1)"

text \<open>The places of the smallest positive number, \<open>2 ^ -1074\<close>.\<close>

definition max_places :: nat where "max_places = 1074"

text \<open>The exponent of the unit in the last place: 53 significant bits, at least the smallest number's.\<close>

definition ulp_exponent :: "rat \<Rightarrow> int" where
  "ulp_exponent x =
    (let (p, q) = quotient_of \<bar>x\<bar>;
         e = int (nat_bits (nat p)) - int (nat_bits (nat q))
     in max ((if pow2 e \<le> \<bar>x\<bar> then e else e - 1) - 52) (- int max_places))"

definition round64 :: "rat \<Rightarrow> rat" where
  "round64 x = (if x = 0 then 0
     else sgn x * of_int (half_even (\<bar>x\<bar> / pow2 (ulp_exponent x))) * pow2 (ulp_exponent x))"

definition fadd :: "rat \<Rightarrow> rat \<Rightarrow> rat" where
  "fadd a b = round64 (a + b)"

definition fdiv :: "rat \<Rightarrow> rat \<Rightarrow> rat" where
  "fdiv a b = round64 (a / b)"

definition fsum :: "rat list \<Rightarrow> rat" where
  "fsum values = fold (\<lambda>v total. fadd total v) values 0"

section \<open>Printing\<close>

text \<open>The multiple of \<open>10 ^ -k\<close> closest to \<open>v\<close>.\<close>

definition decimal_near :: "int \<Rightarrow> rat \<Rightarrow> rat" where
  "decimal_near k v = sgn v * of_nat (round_half_up (\<bar>v\<bar> * pow10 k)) / pow10 k"

fun shortest_from :: "nat \<Rightarrow> int \<Rightarrow> rat \<Rightarrow> int" where
  "shortest_from 0 k v = k"
| "shortest_from (Suc fuel) k v = (if round64 (decimal_near k v) = v then k else shortest_from fuel (k + 1) v)"

definition places_from :: "rat \<Rightarrow> int" where
  "places_from v = - int (length (nat_digits (nat \<lfloor>\<bar>v\<bar>\<rfloor>)))"

definition formatValue :: "rat \<Rightarrow> go_string" where
  "formatValue v =
    (let k = shortest_from (nat (int max_places - places_from v)) (places_from v) v in float_string (nat k) (decimal_near k v))"

section \<open>Facts\<close>

lemma round64_0 [simp]: "round64 0 = 0"
  by (simp add: round64_def)

lemma fsum_single: "round64 v = v \<Longrightarrow> fsum [v] = v"
  by (simp add: fsum_def fadd_def)

lemma pow2_scaled: "- int max_places \<le> j \<Longrightarrow> scaled max_places (of_int n * pow2 j)"
proof (cases "0 \<le> j")
  case True
  have "of_int n * pow2 j * 10 ^ max_places = (of_int (n * 2 ^ nat j * 10 ^ max_places) :: rat)"
    using True by (simp add: pow2_def)
  then show ?thesis unfolding scaled_def by (metis Ints_of_int)
next
  case False
  assume j: "- int max_places \<le> j"
  have split: "max_places = nat (- j) + (max_places - nat (- j))" using j by simp
  have "(10 :: rat) ^ max_places = (2 * 5) ^ max_places" by simp
  also have "\<dots> = 2 ^ nat (- j) * 2 ^ (max_places - nat (- j)) * 5 ^ max_places"
    unfolding power_mult_distrib using split by (metis power_add)
  finally have "of_int n * pow2 j * 10 ^ max_places = of_int (n * 2 ^ (max_places - nat (- j)) * 5 ^ max_places)"
    using False by (simp add: pow2_def)
  then show ?thesis unfolding scaled_def by (metis Ints_of_int)
qed

lemma float_scaled: "round64 v = v \<Longrightarrow> scaled max_places v"
proof -
  assume v: "round64 v = v"
  have e: "- int max_places \<le> ulp_exponent v"
    unfolding ulp_exponent_def by (auto simp: Let_def split: prod.splits)
  show ?thesis
  proof (cases "v = 0")
    case False
    define n where "n = half_even (\<bar>v\<bar> / pow2 (ulp_exponent v))"
    have "v = of_int (sgn' * n) * pow2 (ulp_exponent v)" if "of_int sgn' = sgn v" for sgn'
      using v False that unfolding round64_def n_def by simp
    moreover have "of_int (if v < 0 then -1 else 1) = sgn v"
      using False by (simp add: sgn_if)
    ultimately show ?thesis using pow2_scaled [OF e] by metis
  qed (simp add: scaled_def)
qed

lemma decimal_near_scaled: "scaled (nat k) (decimal_near k v)"
proof (cases "0 \<le> k")
  case True
  then have "decimal_near k v * 10 ^ nat k = sgn v * of_nat (round_half_up (\<bar>v\<bar> * pow10 k))"
    by (simp add: decimal_near_def pow10_def)
  moreover have "sgn v * of_nat (round_half_up (\<bar>v\<bar> * pow10 k)) \<in> \<int>"
    by (simp add: sgn_if)
  ultimately show ?thesis by (simp add: scaled_def)
next
  case False
  then have "decimal_near k v = sgn v * of_nat (round_half_up (\<bar>v\<bar> * pow10 k) * 10 ^ nat (- k))"
    by (simp add: decimal_near_def pow10_def)
  also have "\<dots> \<in> \<int>" unfolding sgn_if by auto
  finally show ?thesis using False by (simp add: scaled_def)
qed

lemma decimal_near_exact: "scaled max_places v \<Longrightarrow> decimal_near (int max_places) v = v"
proof -
  assume "scaled max_places v"
  then obtain z where z: "v * 10 ^ max_places = of_int z" unfolding scaled_def by (auto elim: Ints_cases)
  have "\<bar>v\<bar> * 10 ^ max_places = \<bar>v * 10 ^ max_places\<bar>" by (simp add: abs_mult)
  also have "\<dots> = of_int \<bar>z\<bar>" using z by simp
  finally have a: "\<bar>v\<bar> * 10 ^ max_places = of_int \<bar>z\<bar>" .
  have r: "round_half_up (of_int \<bar>z\<bar>) = nat \<bar>z\<bar>"
    unfolding round_half_up_def by (subst floor_unique [of "\<bar>z\<bar>"]) simp_all
  have p: "pow10 (int max_places) = 10 ^ max_places" by (simp add: pow10_def)
  have "decimal_near (int max_places) v = sgn v * of_nat (nat \<bar>z\<bar>) / 10 ^ max_places"
    unfolding decimal_near_def p a r ..
  also have "of_nat (nat \<bar>z\<bar>) = \<bar>v\<bar> * 10 ^ max_places" using a by simp
  finally have "decimal_near (int max_places) v = sgn v * \<bar>v\<bar>" by simp
  then show ?thesis by (simp add: sgn_mult_abs)
qed

lemma shortest_from_ok:
  "round64 (decimal_near (k + int fuel) v) = v \<Longrightarrow> round64 (decimal_near (shortest_from fuel k v) v) = v"
  by (induction fuel arbitrary: k) (auto simp: algebra_simps)

lemma shortest_from_bound: "shortest_from fuel k v \<le> k + int fuel"
proof (induction fuel arbitrary: k)
  case (Suc fuel)
  from Suc [of "k + 1"] show ?case by simp
qed simp

lemma formatValue_reads_back:
  assumes "round64 v = v"
  shows "\<exists>d. rat_SetString (formatValue v) = Some d \<and> round64 d = v"
proof -
  define k where "k = shortest_from (nat (int max_places - places_from v)) (places_from v) v"
  have p: "places_from v + int (nat (int max_places - places_from v)) = int max_places"
    unfolding places_from_def by simp
  have "decimal_near (int max_places) v = v" by (rule decimal_near_exact [OF float_scaled [OF assms]])
  then have "round64 (decimal_near (places_from v + int (nat (int max_places - places_from v))) v) = v"
    unfolding p using assms by simp
  then have d: "round64 (decimal_near k v) = v" unfolding k_def by (rule shortest_from_ok)
  have "k \<le> int max_places" using shortest_from_bound [of "nat (int max_places - places_from v)" "places_from v" v] p by (simp add: k_def)
  then have "nat k \<le> 1000000" by (simp add: max_places_def)
  from rat_SetString_float_string [OF this, of "decimal_near k v"] decimal_near_scaled [of k v]
  have "rat_SetString (float_string (nat k) (decimal_near k v)) = Some (decimal_near k v)"
    by (metis rounded_def rounded_scaled)
  with d show ?thesis unfolding formatValue_def Let_def k_def [symmetric] by blast
qed

lemma formatValue_test:
  "formatValue 0 = ''0''" "formatValue (25 / 2) = ''12.5''" "formatValue (round64 (1 / 10)) = ''0.1''"
  by code_simp+

end
