(* ===== verification/UsageSeries.thy ===== *)
theory UsageSeries
  imports UsageScope MeterQueries Meters Floats
begin

text \<open>
  Running a usage query (\<open>internal/registry/usagequery/query.go\<close>): which meters it reads,
  one grouping of one meter, merging OpenMeter's rows into series, and the whole run.

  The meters and groupings of a query are read concurrently, each into a slot of its own
  (\<open>results[i].Groupings[j]\<close>); the model reads them one after the other, against a server
  whose replies may depend on all earlier exchanges, and takes the first error as the
  group's. Error texts leave out the text of the error they wrap.
\<close>

section \<open>Meters\<close>

datatype phase = PhasePublished | PhaseDeprecated | PhaseOther go_string

record milo_meter = meter_definition +
  mm_name :: go_string
  mm_meter_name :: go_string
  mm_aggregation :: milo_aggregation
  mm_unit :: go_string
  mm_phase :: phase

datatype granularity = GranularityNone | GranularityHour | GranularityMonth | GranularityOther go_string

record usage_query_spec = query_scope +
  us_meters :: "go_string list"
  us_groupings :: "go_string list list"
  us_start :: int
  us_end :: int
  us_time_zone :: go_string
  us_granularity :: granularity
  us_include_spend :: bool

record meter_plan =
  mp_definition :: milo_meter
  mp_slug :: go_string
  mp_keys :: str_map

record meter_reader =
  get_meter_definition :: "go_string \<Rightarrow> milo_meter lookup"
  list_meter_definitions :: "go_string + milo_meter list"

fun named_meters :: "meter_reader \<Rightarrow> go_string list \<Rightarrow> milo_meter list api_res" where
  "named_meters milo [] = Inr []"
| "named_meters milo (name # names) =
    (case get_meter_definition milo name of
       Absent \<Rightarrow> Inl (BadRequest (''spec.meters: MeterDefinition '' @ name @ '' does not exist''))
     | Failed e \<Rightarrow> Inl (InternalError (''reading MeterDefinition '' @ name))
     | Found md \<Rightarrow> (case named_meters milo names of Inl e \<Rightarrow> Inl e | Inr mds \<Rightarrow> Inr (md # mds)))"

definition queried_definitions :: "meter_reader \<Rightarrow> usage_query_spec \<Rightarrow> milo_meter list api_res" where
  "queried_definitions milo spec =
    (if us_meters spec \<noteq> [] then named_meters milo (us_meters spec)
     else case list_meter_definitions milo of
       Inl e \<Rightarrow> Inl (InternalError ''listing MeterDefinitions'')
     | Inr items \<Rightarrow>
         Inr (sort_key mm_name (filter (\<lambda>md. mm_phase md = PhasePublished \<or> mm_phase md = PhaseDeprecated) items)))"

definition plan_of :: "milo_meter \<Rightarrow> meter_plan" where
  "plan_of md = \<lparr>mp_definition = md, mp_slug = MeterSlug (mm_meter_name md),
     mp_keys = map (\<lambda>dm. (dm, GroupByKey dm)) (MeterDimensions md)\<rparr>"

text \<open>The first dimension of the groupings the meter lacks, as the bad request it is.\<close>

definition missing_dimension :: "milo_meter \<Rightarrow> nat \<Rightarrow> go_string \<Rightarrow> api_error" where
  "missing_dimension md i dm =
    BadRequest (''spec.groupings['' @ nat_digits i @ ''].groupBy: MeterDefinition '' @ mm_name md @
      '' has no dimension '' @ dm @ '' (it has: '' @ join '', '' (sort (remdups (MeterDimensions md))) @ '')'')"

fun check_groupings :: "milo_meter \<Rightarrow> nat \<Rightarrow> go_string list list \<Rightarrow> unit api_res" where
  "check_groupings md i [] = Inr ()"
| "check_groupings md i (dims # groupings) =
    (case List.find (\<lambda>dm. map_of (mp_keys (plan_of md)) dm = None) dims of
       Some dm \<Rightarrow> Inl (missing_dimension md i dm)
     | None \<Rightarrow> check_groupings md (Suc i) groupings)"

fun plan_each :: "usage_query_spec \<Rightarrow> milo_meter list \<Rightarrow> meter_plan list api_res" where
  "plan_each spec [] = Inr []"
| "plan_each spec (md # mds) =
    (case (if us_meters spec = [] then Inr () else check_groupings md 0 (us_groupings spec)) of
       Inl e \<Rightarrow> Inl e
     | Inr _ \<Rightarrow> (case plan_each spec mds of Inl e \<Rightarrow> Inl e | Inr plans \<Rightarrow> Inr (plan_of md # plans)))"

definition planMeters :: "meter_reader \<Rightarrow> usage_query_spec \<Rightarrow> meter_plan list api_res" where
  "planMeters milo spec =
    (case queried_definitions milo spec of Inl e \<Rightarrow> Inl e | Inr definitions \<Rightarrow> plan_each spec definitions)"

section \<open>Series\<close>

record usage_point =
  up_start :: int
  up_end :: int
  up_value :: go_string

record usage_series =
  sr_group :: str_map
  sr_total :: go_string
  sr_points :: "usage_point list"

record bucket =
  bk_start :: int
  bk_end :: int
  bk_values :: "float64 list"

record row_group =
  gr_values :: str_map
  gr_buckets :: "bucket list"
  gr_totals :: "float64 list"

definition value_of :: "str_map \<Rightarrow> go_string \<Rightarrow> go_string" where
  "value_of m k = (case map_of m k of None \<Rightarrow> [] | Some v \<Rightarrow> v)"

definition groupSortKey :: "str_map \<Rightarrow> go_string list \<Rightarrow> go_string" where
  "groupSortKey values dims = join [CHR 0x00] (map (value_of values) dims)"

definition combine :: "milo_aggregation \<Rightarrow> float64 list \<Rightarrow> float64" where
  "combine agg values =
    (case values of [] \<Rightarrow> 0
     | v # vs \<Rightarrow>
       (case agg of
          MiloMax \<Rightarrow> fold max vs v
        | MiloMin \<Rightarrow> fold min vs v
        | MiloAverage \<Rightarrow> fdiv (fsum values) (of_nat (length values))
        | _ \<Rightarrow> fsum values))"

text \<open>\<open>groupOf\<close>: the group values of a row and its entry in \<open>groups\<close>, created when missing.\<close>

definition row_values :: "go_string list \<Rightarrow> go_string list \<Rightarrow> meter_query_row \<Rightarrow> str_map" where
  "row_values dims keys row = map (\<lambda>(dm, key). (dm, value_of (qr_group_by row) key)) (zip dims keys)"

definition row_id :: "go_string list \<Rightarrow> go_string list \<Rightarrow> meter_query_row \<Rightarrow> go_string" where
  "row_id dims keys row = groupSortKey (row_values dims keys row) dims"

type_synonym row_groups = "(go_string \<times> row_group) list"

definition with_group ::
  "go_string list \<Rightarrow> go_string list \<Rightarrow> meter_query_row \<Rightarrow> (row_group \<Rightarrow> row_group) \<Rightarrow> row_groups \<Rightarrow> row_groups" where
  "with_group dims keys row f groups =
    (let i = row_id dims keys row;
         gs = (if i \<in> fst ` set groups then groups
               else groups @ [(i, \<lparr>gr_values = row_values dims keys row, gr_buckets = [], gr_totals = []\<rparr>)])
     in map (\<lambda>(j, g). (j, if j = i then f g else g)) gs)"

definition add_total :: "float64 \<Rightarrow> row_group \<Rightarrow> row_group" where
  "add_total v g = g\<lparr>gr_totals := gr_totals g @ [v]\<rparr>"

definition add_bucket :: "meter_query_row \<Rightarrow> row_group \<Rightarrow> row_group" where
  "add_bucket row g =
    (let bs = (if qr_window_start row \<in> bk_start ` set (gr_buckets g) then gr_buckets g
               else gr_buckets g @ [\<lparr>bk_start = qr_window_start row, bk_end = qr_window_end row, bk_values = []\<rparr>])
     in g\<lparr>gr_buckets := map (\<lambda>b. if bk_start b = qr_window_start row then b\<lparr>bk_values := bk_values b @ [qr_value row]\<rparr> else b) bs\<rparr>)"

definition add_row :: "go_string list \<Rightarrow> go_string list \<Rightarrow> bool \<Rightarrow> meter_query_row \<Rightarrow> row_groups \<Rightarrow> row_groups" where
  "add_row dims keys windowed row =
    with_group dims keys row (if windowed then add_bucket row else add_total (qr_value row))"

definition group_rows ::
  "go_string list \<Rightarrow> go_string list \<Rightarrow> bool \<Rightarrow> meter_query_row list \<Rightarrow> meter_query_row list option \<Rightarrow> row_groups" where
  "group_rows dims keys windowed rows totals =
    fold (add_row dims keys False) (case totals of None \<Rightarrow> [] | Some ts \<Rightarrow> ts)
      (fold (add_row dims keys windowed) rows [])"

definition point_of :: "milo_aggregation \<Rightarrow> bucket \<Rightarrow> usage_point" where
  "point_of agg b = \<lparr>up_start = bk_start b, up_end = bk_end b, up_value = formatValue (combine agg (bk_values b))\<rparr>"

definition group_series ::
  "go_string list \<Rightarrow> milo_aggregation \<Rightarrow> bool \<Rightarrow> meter_query_row list option \<Rightarrow> row_group \<Rightarrow> usage_series" where
  "group_series dims agg windowed totals g =
    (let buckets = sort_key bk_start (gr_buckets g) in
     \<lparr>sr_group = (if dims \<noteq> [] then gr_values g else []),
      sr_total = (if totals \<noteq> None \<or> \<not> windowed then formatValue (combine agg (gr_totals g))
                  else formatValue (fsum (map (\<lambda>b. combine agg (bk_values b)) buckets))),
      sr_points = (if windowed then map (point_of agg) buckets else [])\<rparr>)"

definition buildSeries ::
  "meter_query_row list \<Rightarrow> go_string list \<Rightarrow> go_string list \<Rightarrow> milo_aggregation \<Rightarrow> bool \<Rightarrow>
   meter_query_row list option \<Rightarrow> (go_string \<times> usage_series) list" where
  "buildSeries rows dims keys agg windowed totals =
    map (\<lambda>(i, g). (i, group_series dims agg windowed totals g)) (group_rows dims keys windowed rows totals)"

definition clamp_point :: "int \<Rightarrow> int \<Rightarrow> usage_point \<Rightarrow> usage_point" where
  "clamp_point start stop p =
    p\<lparr>up_start := (if up_start p < start then start else up_start p),
      up_end := (if stop < up_end p then stop else up_end p)\<rparr>"

definition clampPoints :: "int \<Rightarrow> int \<Rightarrow> (go_string \<times> usage_series) list \<Rightarrow> (go_string \<times> usage_series) list" where
  "clampPoints start stop series =
    map (\<lambda>(i, s). (i, s\<lparr>sr_points := map (clamp_point start stop) (sr_points s)\<rparr>)) series"

section \<open>Running a query\<close>

definition windowSize :: "granularity \<Rightarrow> window_size" where
  "windowSize g =
    (case g of GranularityHour \<Rightarrow> WindowSizeHour | GranularityMonth \<Rightarrow> WindowSizeMonth | _ \<Rightarrow> WindowSizeDay)"

record grouping_result =
  gp_group_by :: "go_string list"
  gp_series :: "usage_series list"

record executor =
  ex_spec :: usage_query_spec
  ex_customers :: "go_string list"
  ex_projects :: "go_string list"

text \<open>The keys of a grouping's dimensions, or None when the meter lacks one.\<close>

fun grouping_keys :: "str_map \<Rightarrow> go_string list \<Rightarrow> go_string list option" where
  "grouping_keys m [] = Some []"
| "grouping_keys m (dm # dims) =
    (case map_of m dm of None \<Rightarrow> None | Some key \<Rightarrow> map_option ((#) key) (grouping_keys m dims))"

definition grouping_query :: "executor \<Rightarrow> meter_plan \<Rightarrow> go_string list \<Rightarrow> meter_query res" where
  "grouping_query e plan keys =
    (let q = \<lparr>mq_slug = mp_slug plan, mq_from = us_start (ex_spec e), mq_to = us_end (ex_spec e), mq_window = None,
              mq_time_zone = us_time_zone (ex_spec e), mq_customers = ex_customers e, mq_group_by = keys,
              mq_filter_group_by = [], mq_filters = []\<rparr> in
     if ex_projects e \<noteq> [] then
       (case map_of (mp_keys plan) SystemDimensionProjectName of
          None \<Rightarrow> Inl (Sentinel ErrMeterLacksDimension)
        | Some key \<Rightarrow> Inr (q\<lparr>mq_filter_group_by := [(key, ex_projects e)]\<rparr>))
     else Inr q)"

definition runGrouping :: "server \<Rightarrow> executor \<Rightarrow> meter_plan \<Rightarrow> go_string list \<Rightarrow> grouping_result api" where
  "runGrouping srv e plan dims =
    (if ex_customers e = [] then ret \<lparr>gp_group_by = dims, gp_series = []\<rparr>
     else case grouping_keys (mp_keys plan) dims of
       None \<Rightarrow> ret \<lparr>gp_group_by = dims, gp_series = []\<rparr>
     | Some keys \<Rightarrow>
       (case grouping_query e plan keys of
          Inl err \<Rightarrow> fail err
        | Inr q \<Rightarrow>
          (let agg = mm_aggregation (mp_definition plan);
               result = (\<lambda>series. ret \<lparr>gp_group_by = dims,
                  gp_series = sort_key (\<lambda>s. groupSortKey (sr_group s) dims) (map snd series)\<rparr>) in
           if us_granularity (ex_spec e) = GranularityNone then
             and_then (QueryMeter srv q) (\<lambda>rows. result (buildSeries rows dims keys agg False None))
           else
             and_then (QueryMeter srv (q\<lparr>mq_window := Some (windowSize (us_granularity (ex_spec e)))\<rparr>)) (\<lambda>rows.
             and_then (if agg \<noteq> MiloSum \<and> agg \<noteq> MiloCount
                       then and_then (QueryMeter srv q) (\<lambda>totals. ret (Some totals)) else ret None) (\<lambda>totals.
               result (clampPoints (us_start (ex_spec e)) (us_end (ex_spec e))
                 (buildSeries rows dims keys agg True totals)))))))"

definition isMeterError :: "go_error \<Rightarrow> bool" where
  "isMeterError e \<longleftrightarrow> errors_is e ErrMeterNotFound \<or> errors_is e ErrMeterLacksDimension \<or> IsPermanent e"

definition meterErrorMessage :: "go_error \<Rightarrow> go_string" where
  "meterErrorMessage e =
    (if errors_is e ErrMeterNotFound then ''this meter is not set up in OpenMeter yet''
     else if errors_is e ErrMeterLacksDimension then ''this meter cannot be filtered by project''
     else ''OpenMeter rejected the query'')"

record usage_spend =
  sp_total :: go_string
  sp_currency :: go_string

record meter_usage =
  mu_definition :: go_string
  mu_meter_name :: go_string
  mu_aggregation :: milo_aggregation
  mu_unit :: go_string
  mu_groupings :: "grouping_result list"
  mu_error :: go_string
  mu_spend :: "usage_spend option"
  mu_spend_error :: go_string

text \<open>
  One goroutine of \<open>run\<close>: an error of the meter itself is kept for the meter, any other
  one fails the query.
\<close>

definition grouping_slot :: "server \<Rightarrow> executor \<Rightarrow> meter_plan \<Rightarrow> go_string list \<Rightarrow> (go_error + grouping_result) api" where
  "grouping_slot srv e plan dims t =
    (case runGrouping srv e plan dims t of
       (Inl err, t') \<Rightarrow>
         if IsTransient err \<or> \<not> isMeterError err then (Inl err, t') else (Inr (Inl err), t')
     | (Inr result, t') \<Rightarrow> (Inr (Inr result), t'))"

fun grouping_slots ::
  "server \<Rightarrow> executor \<Rightarrow> meter_plan \<Rightarrow> go_string list list \<Rightarrow> (go_error + grouping_result) list api" where
  "grouping_slots srv e plan [] = ret []"
| "grouping_slots srv e plan (dims # groupings) =
    and_then (grouping_slot srv e plan dims) (\<lambda>slot.
    and_then (grouping_slots srv e plan groupings) (\<lambda>slots. ret (slot # slots)))"

text \<open>A meter's entry: its groupings, or the joined errors of those that failed.\<close>

definition meter_entry :: "meter_plan \<Rightarrow> (go_error + grouping_result) list \<Rightarrow> meter_usage" where
  "meter_entry plan slots =
    (let md = mp_definition plan; errs = map projl (filter isl slots) in
     \<lparr>mu_definition = mm_name md, mu_meter_name = mm_meter_name md, mu_aggregation = mm_aggregation md,
      mu_unit = mm_unit md, mu_groupings = (if errs = [] then map projr slots else []),
      mu_error = (if errs = [] then [] else meterErrorMessage (Wrap [] errs)),
      mu_spend = None, mu_spend_error = []\<rparr>)"

fun run_meters :: "server \<Rightarrow> executor \<Rightarrow> meter_plan list \<Rightarrow> meter_usage list api" where
  "run_meters srv e [] = ret []"
| "run_meters srv e (plan # plans) =
    and_then (grouping_slots srv e plan (us_groupings (ex_spec e))) (\<lambda>slots.
    and_then (run_meters srv e plans) (\<lambda>meters. ret (meter_entry plan slots # meters)))"

definition executor_run :: "server \<Rightarrow> executor \<Rightarrow> meter_plan list \<Rightarrow> exchanges \<Rightarrow> meter_usage list api_res \<times> exchanges" where
  "executor_run srv e plans t =
    (case run_meters srv e plans t of
       (Inl err, t') \<Rightarrow> (Inl (ServiceUnavailable ''querying usage''), t')
     | (Inr meters, t') \<Rightarrow> (Inr meters, t'))"

section \<open>Properties of series\<close>

definition rows_of :: "go_string list \<Rightarrow> go_string list \<Rightarrow> go_string \<Rightarrow> meter_query_row list \<Rightarrow> meter_query_row list" where
  "rows_of dims keys i rows = filter (\<lambda>r. row_id dims keys r = i) rows"

definition new_group :: "go_string list \<Rightarrow> go_string list \<Rightarrow> meter_query_row \<Rightarrow> row_group" where
  "new_group dims keys row = \<lparr>gr_values = row_values dims keys row, gr_buckets = [], gr_totals = []\<rparr>"

definition row_update :: "bool \<Rightarrow> meter_query_row \<Rightarrow> row_group \<Rightarrow> row_group" where
  "row_update windowed row = (if windowed then add_bucket row else add_total (qr_value row))"

lemma map_of_update_key:
  "map_of (map (\<lambda>(j, g). (j, if j = i then f g else g)) gs) k = (if k = i then map_option f (map_of gs k) else map_of gs k)"
  by (induction gs) auto

lemma with_group_map_of:
  "map_of (with_group dims keys row f gs) k =
    (if k = row_id dims keys row
     then Some (f (case map_of gs k of None \<Rightarrow> new_group dims keys row | Some g \<Rightarrow> g)) else map_of gs k)"
proof -
  have "map_of gs k = None \<longleftrightarrow> k \<notin> fst ` set gs" by (simp add: map_of_eq_None_iff)
  then show ?thesis
    by (auto simp: with_group_def Let_def map_of_update_key new_group_def map_add_def split: option.splits)
qed

lemma with_group_keys:
  "map fst (with_group dims keys row f gs) =
    (if row_id dims keys row \<in> fst ` set gs then map fst gs else map fst gs @ [row_id dims keys row])"
  by (auto simp: with_group_def Let_def intro!: nth_equalityI split: prod.splits)

lemma fold_rows_keys:
  "distinct (map fst gs) \<Longrightarrow> distinct (map fst (fold (add_row dims keys w) rows gs)) \<and>
   set (map fst (fold (add_row dims keys w) rows gs)) = set (map fst gs) \<union> row_id dims keys ` set rows"
proof (induction rows arbitrary: gs)
  case (Cons r rows)
  have keys: "map fst (add_row dims keys w r gs) =
      (if row_id dims keys r \<in> fst ` set gs then map fst gs else map fst gs @ [row_id dims keys r])"
    unfolding add_row_def by (rule with_group_keys)
  then have "distinct (map fst (add_row dims keys w r gs))" using Cons.prems by simp
  moreover have "set (map fst (add_row dims keys w r gs)) = insert (row_id dims keys r) (set (map fst gs))"
    unfolding keys by (simp add: insert_absorb)
  ultimately show ?case using Cons.IH [of "add_row dims keys w r gs"] by simp
qed simp

lemma fold_rows_group:
  "map_of (fold (add_row dims keys w) rows gs) i =
    (if rows_of dims keys i rows = [] then map_of gs i
     else Some (fold (row_update w) (rows_of dims keys i rows)
       (case map_of gs i of None \<Rightarrow> new_group dims keys (hd (rows_of dims keys i rows)) | Some g \<Rightarrow> g)))"
proof (induction rows arbitrary: gs)
  case (Cons r rows)
  have "map_of (add_row dims keys w r gs) i =
      (if i = row_id dims keys r
       then Some (row_update w r (case map_of gs i of None \<Rightarrow> new_group dims keys r | Some g \<Rightarrow> g)) else map_of gs i)"
    unfolding add_row_def row_update_def by (rule with_group_map_of)
  with Cons [of "add_row dims keys w r gs"] show ?case
    by (auto simp: rows_of_def split: option.splits)
qed (simp add: rows_of_def)

lemma fold_totals: "fold (row_update False) rs g = g\<lparr>gr_totals := gr_totals g @ map qr_value rs\<rparr>"
  by (induction rs arbitrary: g) (simp_all add: row_update_def add_total_def)

text \<open>The buckets of a group hold, for every window start of its rows, the values of that window.\<close>

definition buckets_ok :: "meter_query_row list \<Rightarrow> bucket list \<Rightarrow> bool" where
  "buckets_ok rs bs \<longleftrightarrow> distinct (map bk_start bs) \<and> bk_start ` set bs = qr_window_start ` set rs \<and>
    (\<forall>b \<in> set bs. bk_values b = map qr_value (filter (\<lambda>r. qr_window_start r = bk_start b) rs))"

lemma add_bucket_ok:
  assumes "buckets_ok rs (gr_buckets g)"
  shows "buckets_ok (rs @ [r]) (gr_buckets (add_bucket r g))"
proof (cases "qr_window_start r \<in> bk_start ` set (gr_buckets g)")
  case True
  let ?f = "\<lambda>b. if bk_start b = qr_window_start r then b\<lparr>bk_values := bk_values b @ [qr_value r]\<rparr> else b"
  have s: "bk_start (?f b) = bk_start b" for b by simp
  have "map bk_start (map ?f (gr_buckets g)) = map bk_start (gr_buckets g)" by simp
  moreover have "bk_start ` ?f ` set (gr_buckets g) = bk_start ` set (gr_buckets g)"
    unfolding image_image s ..
  ultimately show ?thesis using True assms
    by (auto simp: buckets_ok_def add_bucket_def simp del: map_map)
next
  case False
  then have "\<forall>x \<in> set rs. qr_window_start x \<noteq> qr_window_start r"
    using assms unfolding buckets_ok_def by (metis image_eqI)
  then have none: "filter (\<lambda>x. qr_window_start x = qr_window_start r) rs = []" by simp
  have same: "map (\<lambda>b. if bk_start b = qr_window_start r then b\<lparr>bk_values := bk_values b @ [qr_value r]\<rparr> else b) (gr_buckets g) = gr_buckets g"
    using False by (intro map_idI) (metis image_eqI)
  show ?thesis using False assms none
    by (auto simp: buckets_ok_def add_bucket_def same)
qed

lemma fold_buckets:
  "gr_buckets g = [] \<Longrightarrow> buckets_ok rs (gr_buckets (fold (row_update True) rs g)) \<and>
     gr_totals (fold (row_update True) rs g) = gr_totals g \<and> gr_values (fold (row_update True) rs g) = gr_values g"
proof (induction rs rule: rev_induct)
  case Nil
  then show ?case by (simp add: buckets_ok_def)
next
  case (snoc r rs)
  have "fold (row_update True) (rs @ [r]) g = add_bucket r (fold (row_update True) rs g)"
    by (simp add: row_update_def [of True r])
  moreover have "gr_totals (add_bucket r h) = gr_totals h" "gr_values (add_bucket r h) = gr_values h" for h
    by (simp_all add: add_bucket_def)
  ultimately show ?case using snoc add_bucket_ok [of rs "fold (row_update True) rs g" r] by simp
qed


lemma sorted_buckets:
  assumes "buckets_ok rs bs"
  shows "sorted_wrt (<) (map bk_start (sort_key bk_start bs))"
    and "map bk_start (sort_key bk_start bs) = sorted_list_of_set (qr_window_start ` set rs)"
proof -
  have d: "distinct (map bk_start (sort_key bk_start bs))"
    using assms by (simp add: buckets_ok_def distinct_map)
  then show "sorted_wrt (<) (map bk_start (sort_key bk_start bs))"
    by (simp add: strict_sorted_iff)
  have "set (map bk_start (sort_key bk_start bs)) = qr_window_start ` set rs"
    using assms by (simp add: buckets_ok_def)
  then show "map bk_start (sort_key bk_start bs) = sorted_list_of_set (qr_window_start ` set rs)"
    using d by (metis sorted_sort_key sorted_list_of_set_sort_remdups distinct_remdups_id sorted_sort_id)
qed

text \<open>The group of an id after both loops.\<close>

lemma group_rows_group:
  assumes "(i, g) \<in> set (group_rows dims keys windowed rows totals)" and "totals \<noteq> None \<longrightarrow> windowed"
  shows "buckets_ok (if windowed then rows_of dims keys i rows else []) (gr_buckets g) \<and>
    gr_totals g = map qr_value (rows_of dims keys i
      (if windowed then (case totals of None \<Rightarrow> [] | Some ts \<Rightarrow> ts) else rows))"
proof -
  let ?ts = "case totals of None \<Rightarrow> [] | Some ts \<Rightarrow> ts"
  let ?gs = "fold (add_row dims keys windowed) rows []"
  have d1: "distinct (map fst ?gs)" using fold_rows_keys [of "[]"] by simp
  then have "distinct (map fst (group_rows dims keys windowed rows totals))"
    unfolding group_rows_def using fold_rows_keys [of ?gs dims keys False ?ts] by blast
  with assms(1) have "map_of (group_rows dims keys windowed rows totals) i = Some g" by simp
  then have g: "(if rows_of dims keys i ?ts = [] then map_of ?gs i
       else Some (fold (row_update False) (rows_of dims keys i ?ts)
         (case map_of ?gs i of None \<Rightarrow> new_group dims keys (hd (rows_of dims keys i ?ts)) | Some g \<Rightarrow> g))) = Some g"
    unfolding group_rows_def fold_rows_group [of dims keys False ?ts] .
  have first: "map_of ?gs i = (if rows_of dims keys i rows = [] then None
      else Some (fold (row_update windowed) (rows_of dims keys i rows) (new_group dims keys (hd (rows_of dims keys i rows)))))"
    unfolding fold_rows_group by simp
  show ?thesis
  proof (cases windowed)
    case True
    have b: "buckets_ok (rows_of dims keys i rows) (gr_buckets h) \<and> gr_totals h = []"
      if h: "h = (case map_of ?gs i of None \<Rightarrow> new_group dims keys r | Some g \<Rightarrow> g)" for h r
    proof (cases "rows_of dims keys i rows = []")
      case True
      then have "h = new_group dims keys r" unfolding h first by simp
      with True show ?thesis by (simp add: new_group_def buckets_ok_def)
    next
      case False
      then have "h = fold (row_update windowed) (rows_of dims keys i rows) (new_group dims keys (hd (rows_of dims keys i rows)))"
        unfolding h first by simp
      with \<open>windowed\<close> fold_buckets [of "new_group dims keys (hd (rows_of dims keys i rows))" "rows_of dims keys i rows"]
      show ?thesis by (simp add: new_group_def)
    qed
    show ?thesis
    proof (cases "rows_of dims keys i ?ts = []")
      case True
      with g have "map_of ?gs i = Some g" by (simp only: if_True refl)
      with b [of g] True \<open>windowed\<close> show ?thesis by (simp add: fold_totals)
    next
      case False
      with g b [OF refl, of "hd (rows_of dims keys i ?ts)"] \<open>windowed\<close> show ?thesis by (auto simp: fold_totals)
    qed
  next
    case False
    with assms(2) have "totals = None" by simp
    with g first False show ?thesis
      by (auto simp: rows_of_def [of dims keys i "[]"] fold_totals new_group_def buckets_ok_def split: if_splits)
  qed
qed



definition sample_row :: "go_string \<Rightarrow> int \<Rightarrow> rat \<Rightarrow> meter_query_row" where
  "sample_row region start v = \<lparr>qr_window_start = start, qr_window_end = start + 10, qr_customer = ''c1'',
     qr_group_by = [(''region'', region)], qr_value = v\<rparr>"


text \<open>
  Distinct combinations get distinct ids as long as no value holds a NUL byte.
\<close>

lemma join_inject:
  "length xs = length ys \<Longrightarrow> \<forall>x \<in> set (xs @ ys). c \<notin> set x \<Longrightarrow> join [c] xs = join [c] ys \<Longrightarrow> xs = ys"
proof (induction xs ys rule: list_induct2)
  case (Cons x xs y ys)
  show ?case
  proof (cases xs)
    case Nil
    with Cons show ?thesis by simp
  next
    case (Cons x' xs')
    then have ys: "ys \<noteq> []" using Cons.hyps by auto
    have "x @ c # join [c] xs = y @ c # join [c] ys"
      using Cons.prems(2) ys Cons by (simp add: join_Cons)
    then have "x = y \<and> join [c] xs = join [c] ys"
      using Cons.prems(1) by (auto simp: append_eq_append_conv2 Cons_eq_append_conv append_eq_Cons_conv)
    then show ?thesis using Cons.IH Cons.prems(1) by simp
  qed
qed simp

lemma groupSortKey_inject:
  assumes "\<forall>d \<in> set dims. CHR 0x00 \<notin> set (value_of m d) \<and> CHR 0x00 \<notin> set (value_of n d)"
    and "groupSortKey m dims = groupSortKey n dims"
  shows "\<forall>d \<in> set dims. value_of m d = value_of n d"
proof -
  have "\<forall>x \<in> set (map (value_of m) dims @ map (value_of n) dims). CHR 0x00 \<notin> set x"
    using assms(1) by auto
  from join_inject [OF _ this] assms(2) have "map (value_of m) dims = map (value_of n) dims"
    by (simp add: groupSortKey_def)
  then show ?thesis by simp
qed

lemma fold_max_min:
  fixes v :: rat
  shows "fold max vs v \<in> set (v # vs) \<and> (\<forall>x \<in> set (v # vs). x \<le> fold max vs v)"
    and "fold min vs v \<in> set (v # vs) \<and> (\<forall>x \<in> set (v # vs). fold min vs v \<le> x)"
  by (simp_all add: Max.set_eq_fold [symmetric] Min.set_eq_fold [symmetric] del: set_simps)


text \<open>
  With one billing account every aggregation is exact: a single value is its own
  combination, and the text in the answer reads back as that value. The maximum and the
  minimum over several accounts are exact too: one of the values, and no value beyond it.
\<close>

theorem combine_exact:
  assumes "round64 v = v"
  shows "combine agg [v] = v \<and> (\<exists>d. rat_SetString (formatValue (combine agg [v])) = Some d \<and> round64 d = v) \<and>
    combine MiloMax (v # vs) \<in> set (v # vs) \<and> (\<forall>x \<in> set (v # vs). x \<le> combine MiloMax (v # vs)) \<and>
    combine MiloMin (v # vs) \<in> set (v # vs) \<and> (\<forall>x \<in> set (v # vs). combine MiloMin (v # vs) \<le> x)"
proof -
  have one: "combine agg [v] = v"
    using assms by (cases agg) (simp_all add: combine_def fsum_single fdiv_def)
  with formatValue_reads_back [OF assms] fold_max_min [of vs v] show ?thesis
    by (simp add: combine_def)
qed

theorem combine_exact_witness:
  "combine MiloAverage [25 / 2] = 25 / 2 \<and>
   (\<exists>d. rat_SetString (formatValue (combine MiloAverage [25 / 2])) = Some d \<and> round64 d = 25 / 2)"
proof -
  have "round64 (25 / 2) = 25 / 2" by code_simp
  from combine_exact [OF this] show ?thesis by blast
qed

section \<open>Properties of a run\<close>

text \<open>
  A request that reads usage of these customers only and, when there are projects, of these
  projects only, whatever the events hold.
\<close>

definition reads_only :: "go_string list \<Rightarrow> go_string list \<Rightarrow> request \<Rightarrow> bool" where
  "reads_only cs ps q \<longleftrightarrow>
    (case q of ReqQueryMeter slug b \<Rightarrow>
       (\<exists>ids. qb_customers b = Some ids \<and> ids \<noteq> [] \<and> set ids \<subseteq> set cs) \<and>
       (ps \<noteq> [] \<longrightarrow> (\<exists>fm. qb_filters b = Some fm \<and>
          (\<forall>ev. accepts fm ev \<longrightarrow> ev (GroupByKey SystemDimensionProjectName) \<in> set ps)))
     | _ \<Rightarrow> False)"

lemma query_reads_only:
  assumes "mq_customers q \<noteq> []" "set (mq_customers q) \<subseteq> set cs"
    and "ps \<noteq> [] \<Longrightarrow> mq_filter_group_by q = [(GroupByKey SystemDimensionProjectName, ps)]"
  shows "reads_only cs ps (ReqQueryMeter slug (query_body q))"
proof -
  have "\<exists>fm. qb_filters (query_body q) = Some fm \<and>
          (\<forall>ev. accepts fm ev \<longrightarrow> ev (GroupByKey SystemDimensionProjectName) \<in> set ps)" if "ps \<noteq> []"
  proof -
    have meaning: "accepts (groupByFilters q) ev \<longleftrightarrow>
        ev (GroupByKey SystemDimensionProjectName) \<in> set ps \<and> accepts (mq_filters q) ev" for ev
      using groupByFilters_accepts [of q ev] assms(3) [OF that] by simp
    have "groupByFilters q \<noteq> []"
    proof
      assume "groupByFilters q = []"
      then have all: "\<And>ev. ev (GroupByKey SystemDimensionProjectName) \<in> set ps" using meaning by simp
      obtain v where "v \<notin> set ps" using ex_new_if_finite [OF infinite_UNIV_listI finite_set] by blast
      with all [of "\<lambda>_. v"] show False by simp
    qed
    with meaning show ?thesis by (auto simp: query_body_def)
  qed
  with assms(1,2) show ?thesis by (simp add: reads_only_def query_body_def)
qed

lemma plan_each_plans:
  "plan_each spec mds = Inr plans \<Longrightarrow> plans = map plan_of mds"
  by (induction mds arbitrary: plans) (auto split: sum.splits)

lemma planMeters_plans:
  "planMeters milo spec = Inr plans \<Longrightarrow> \<exists>mds. plans = map plan_of mds"
  by (auto simp: planMeters_def dest: plan_each_plans split: sum.splits)

lemma map_of_plan_of:
  "map_of (mp_keys (plan_of md)) d = (if d \<in> set (MeterDimensions md) then Some (GroupByKey d) else None)"
  by (auto simp: plan_of_def map_of_map_restrict restrict_map_def comp_def map_of_eq_None_iff)


lemma grouping_query_scoped:
  assumes "grouping_query e (plan_of md) keys = Inr q" and "ex_customers e \<noteq> []"
  shows "reads_only (ex_customers e) (ex_projects e) (ReqQueryMeter slug (query_body (q\<lparr>mq_window := w\<rparr>)))"
  using assms
  by (intro query_reads_only)
    (auto simp: grouping_query_def Let_def map_of_plan_of split: if_splits option.splits)

lemma adds_runGrouping:
  "adds (reads_only (ex_customers e) (ex_projects e)) (runGrouping srv e (plan_of md) dims)"
proof (cases "ex_customers e = [] \<or> grouping_keys (mp_keys (plan_of md)) dims = None")
  case True
  then show ?thesis by (auto simp: runGrouping_def)
next
  case False
  then obtain keys where keys: "grouping_keys (mp_keys (plan_of md)) dims = Some keys" "ex_customers e \<noteq> []" by auto
  show ?thesis
  proof (cases "grouping_query e (plan_of md) keys")
    case (Inl err)
    with keys show ?thesis by (simp add: runGrouping_def)
  next
    case (Inr q)
    have scoped: "adds (reads_only (ex_customers e) (ex_projects e)) (QueryMeter srv (q\<lparr>mq_window := w\<rparr>))" for w
      by (rule adds_QueryMeter) (rule grouping_query_scoped [OF Inr keys(2)])
    have plain: "adds (reads_only (ex_customers e) (ex_projects e)) (QueryMeter srv q)"
      using scoped [of "mq_window q"] by simp
    show ?thesis using keys Inr
      by (auto simp: runGrouping_def Let_def intro!: adds_and_then scoped plain)
  qed
qed

lemma adds_grouping_slot:
  "adds (reads_only (ex_customers e) (ex_projects e)) (grouping_slot srv e (plan_of md) dims)"
proof -
  have "snd (grouping_slot srv e (plan_of md) dims t) = snd (runGrouping srv e (plan_of md) dims t)" for t
    by (simp add: grouping_slot_def split: prod.splits sum.splits)
  with adds_runGrouping show ?thesis by (simp add: adds_def)
qed

lemma adds_grouping_slots:
  "adds (reads_only (ex_customers e) (ex_projects e)) (grouping_slots srv e (plan_of md) groupings)"
  by (induction groupings) (auto intro!: adds_and_then adds_grouping_slot)

lemma adds_run_meters:
  "adds (reads_only (ex_customers e) (ex_projects e)) (run_meters srv e (map plan_of mds))"
  by (induction mds) (auto intro!: adds_and_then adds_grouping_slots)

lemma executor_run_adds:
  assumes "planMeters milo spec = Inr plans"
  shows "\<exists>u. snd (executor_run srv e plans t) = t @ u \<and> (\<forall>q \<in> set (sent u). reads_only (ex_customers e) (ex_projects e) q)"
proof -
  from planMeters_plans [OF assms] obtain mds where plans: "plans = map plan_of mds" by blast
  have "snd (executor_run srv e plans t) = snd (run_meters srv e plans t)"
    by (simp add: executor_run_def split: prod.splits sum.splits)
  with adds_run_meters [of e srv mds] plans show ?thesis by (simp add: adds_def)
qed

text \<open>
  A usage query never reads usage outside its scope: whatever OpenMeter answers, every
  request the run sends is a meter query that names customers, all of them customers of the
  scope, and when the scope has projects its filter accepts only events of those projects.
\<close>

theorem executor_run_scoped:
  assumes "planMeters milo spec = Inr plans" and "executor_run srv e plans t = (r, t')"
  shows "\<exists>u. t' = t @ u \<and> (\<forall>q \<in> set (sent u). reads_only (ex_customers e) (ex_projects e) q)"
  using executor_run_adds [OF assms(1), of srv e t] assms(2) by simp

definition sample_md :: milo_meter where
  "sample_md = \<lparr>md_dimensions = [''region''], md_system_dimensions = [], mm_name = ''cpu'', mm_meter_name = ''cpu'',
     mm_aggregation = MiloSum, mm_unit = ''s'', mm_phase = PhasePublished\<rparr>"

definition sample_spec :: usage_query_spec where
  "sample_spec = \<lparr>qs_accounts = [], qs_projects = [''web''], us_meters = [''cpu''], us_groupings = [[''region'']],
     us_start = 0, us_end = 100, us_time_zone = [], us_granularity = GranularityNone, us_include_spend = False\<rparr>"

definition sample_executor :: executor where
  "sample_executor = \<lparr>ex_spec = sample_spec, ex_customers = [''c1''], ex_projects = [''web'']\<rparr>"

definition sample_reader :: meter_reader where
  "sample_reader = \<lparr>get_meter_definition = (\<lambda>n. Found sample_md), list_meter_definitions = Inr [sample_md]\<rparr>"

lemma sample_plan_meters: "planMeters sample_reader sample_spec = Inr [plan_of sample_md]"
  by (simp add: planMeters_def queried_definitions_def sample_spec_def sample_reader_def map_of_plan_of
      MeterDimensions_def sample_md_def)

theorem executor_run_scoped_witness:
  "\<exists>u. snd (executor_run (\<lambda>_ _. Inl ''down'') sample_executor [plan_of sample_md] []) = [] @ u \<and>
     (\<forall>q \<in> set (sent u). reads_only [''c1''] [''web''] q)"
  using executor_run_scoped [OF sample_plan_meters prod.collapse [symmetric],
      of "\<lambda>_ _. Inl ''down''" sample_executor "[]"]
  by (simp add: sample_executor_def)

text \<open>What a slot holds: the answer of its own query, or an error of the meter.\<close>

definition slot_ok :: "server \<Rightarrow> executor \<Rightarrow> meter_plan \<Rightarrow> go_string list \<Rightarrow> go_error + grouping_result \<Rightarrow> bool" where
  "slot_ok srv e plan dims slot \<longleftrightarrow>
    (case slot of
       Inl err \<Rightarrow> isMeterError err \<and> \<not> IsTransient err
     | Inr g \<Rightarrow> gp_group_by g = dims \<and> (\<exists>ta tb. runGrouping srv e plan dims ta = (Inr g, tb)))"

lemma runGrouping_dims: "runGrouping srv e plan dims t = (Inr g, t1) \<Longrightarrow> gp_group_by g = dims"
  by (auto simp: runGrouping_def Let_def ret_def fail_def and_then_Inr split: if_splits option.splits sum.splits)

lemma grouping_slots_result:
  "grouping_slots srv e plan groupings t = (Inr slots, t') \<Longrightarrow> list_all2 (slot_ok srv e plan) groupings slots"
proof (induction groupings arbitrary: t slots)
  case Nil
  then show ?case by (simp add: ret_def)
next
  case (Cons dims groupings)
  from Cons.prems obtain slot t1 rest where s: "grouping_slot srv e plan dims t = (Inr slot, t1)"
    "grouping_slots srv e plan groupings t1 = (Inr rest, t')" "slots = slot # rest"
    by (auto simp: and_then_Inr ret_def)
  have "slot_ok srv e plan dims slot"
    using s(1) runGrouping_dims
    by (fastforce simp: grouping_slot_def slot_ok_def split: prod.splits sum.splits if_splits)
  with Cons.IH [OF s(2)] s(3) show ?case by simp
qed

lemma run_meters_result:
  "run_meters srv e plans t = (Inr meters, t') \<Longrightarrow>
   list_all2 (\<lambda>plan m. \<exists>ta tb slots. grouping_slots srv e plan (us_groupings (ex_spec e)) ta = (Inr slots, tb) \<and>
      m = meter_entry plan slots) plans meters"
proof (induction plans arbitrary: t meters)
  case Nil
  then show ?case by (simp add: ret_def)
next
  case (Cons plan plans)
  then show ?case by (force simp: and_then_Inr ret_def)
qed

lemma meterErrorMessage_nonempty [simp]: "meterErrorMessage e \<noteq> []"
  by (simp add: meterErrorMessage_def)

text \<open>
  What a meter's entry promises: every requested grouping, each the answer of its own
  query, or an error text for errors of the meter itself and no grouping at all.
\<close>

definition entry_ok :: "server \<Rightarrow> executor \<Rightarrow> meter_plan \<Rightarrow> meter_usage \<Rightarrow> bool" where
  "entry_ok srv e plan m \<longleftrightarrow> mu_definition m = mm_name (mp_definition plan) \<and>
    (if mu_error m = []
     then list_all2 (\<lambda>dims g. gp_group_by g = dims \<and> (\<exists>ta tb. runGrouping srv e plan dims ta = (Inr g, tb)))
            (us_groupings (ex_spec e)) (mu_groupings m)
     else mu_groupings m = [] \<and> (\<exists>errs. errs \<noteq> [] \<and> mu_error m = meterErrorMessage (Wrap [] errs) \<and>
            (\<forall>err \<in> set errs. isMeterError err \<and> \<not> IsTransient err)))"

lemma meter_entry_ok:
  assumes "list_all2 (slot_ok srv e plan) (us_groupings (ex_spec e)) slots"
  shows "entry_ok srv e plan (meter_entry plan slots)"
proof (cases "filter isl slots = []")
  case True
  then have "\<forall>s \<in> set slots. \<not> isl s" by (simp add: filter_empty_conv)
  with assms have "list_all2 (\<lambda>dims g. gp_group_by g = dims \<and> (\<exists>ta tb. runGrouping srv e plan dims ta = (Inr g, tb)))
      (us_groupings (ex_spec e)) (map projr slots)"
    by (induction rule: list_all2_induct) (auto simp: slot_ok_def split: sum.splits)
  with True show ?thesis by (simp add: meter_entry_def entry_ok_def Let_def)
next
  case False
  have "isMeterError err \<and> \<not> IsTransient err" if "Inl err \<in> set slots" for err
    using assms that by (auto simp: list_all2_conv_all_nth in_set_conv_nth slot_ok_def split: sum.splits)
  then have "\<forall>err \<in> set (map projl (filter isl slots)). isMeterError err \<and> \<not> IsTransient err"
    by (auto simp: isl_def)
  moreover have "map projl (filter isl slots) \<noteq> []" using False by simp
  ultimately show ?thesis
    unfolding entry_ok_def by (auto simp: meter_entry_def Let_def intro!: exI [of _ "map projl (filter isl slots)"])
qed

text \<open>
  A query that succeeds answers every meter, in order, and never partly: a meter either
  has every requested grouping, each the answer of its own query, or an error text and no
  grouping; only errors of the meter itself are kept that way, so a transient failure never
  passes as an answer.
\<close>

theorem executor_run_complete:
  assumes "executor_run srv e plans t = (Inr meters, t')"
  shows "list_all2 (entry_ok srv e) plans meters"
proof -
  from assms have "run_meters srv e plans t = (Inr meters, t')"
    by (simp add: executor_run_def split: prod.splits sum.splits)
  from run_meters_result [OF this] show ?thesis
    by (rule list_all2_mono) (auto intro!: meter_entry_ok grouping_slots_result)
qed

theorem executor_run_complete_witness:
  "list_all2 (entry_ok (\<lambda>_ _. Inl ''down'') (sample_executor\<lparr>ex_customers := []\<rparr>)) [plan_of sample_md]
     [meter_entry (plan_of sample_md) [Inr \<lparr>gp_group_by = [''region''], gp_series = []\<rparr>]]"
proof (rule executor_run_complete)
  show "executor_run (\<lambda>_ _. Inl ''down'') (sample_executor\<lparr>ex_customers := []\<rparr>) [plan_of sample_md] [] =
      (Inr [meter_entry (plan_of sample_md) [Inr \<lparr>gp_group_by = [''region''], gp_series = []\<rparr>]], [])"
    by (simp add: executor_run_def sample_executor_def sample_spec_def grouping_slot_def runGrouping_def and_then_def ret_def)
qed

end
