(* ===== verification/Paging.thy ===== *)
theory Paging
  imports Api
begin

text \<open>
  The contract of the client's paging loops. Every listing of the client walks pages of
  100 items from page 1 until a page is empty or the pages seen cover the reported total
  (a feature listing may also answer with a bare array, which ends it). The loops may run
  forever against a server that keeps raising its total, so the model gives them fuel and
  the error \<open>Unfinished\<close> when it runs out; \<open>enough_fuel\<close> says how much is enough for a
  server whose totals are bounded, and \<open>loop_pages\<close> that the result is exactly the pages
  the server sent, in order.
\<close>

definition page_size :: int where "page_size = 100"

type_synonym 'a page = "'a list \<times> int option"

text \<open>The loop's exit test; no total means the answer was a bare array.\<close>

definition last_page :: "nat \<Rightarrow> 'a page \<Rightarrow> bool" where
  "last_page n p \<longleftrightarrow>
    (case snd p of None \<Rightarrow> True | Some tot \<Rightarrow> fst p = [] \<or> tot \<le> int n * page_size)"

text \<open>The pages a run fetches from page \<open>n\<close> on, starting after the exchanges \<open>t\<close>.\<close>

inductive pages :: "(nat \<Rightarrow> 'a page api) \<Rightarrow> nat \<Rightarrow> exchanges \<Rightarrow> 'a page list \<Rightarrow> exchanges \<Rightarrow> bool" for fetch where
  final: "fetch n t = (Inr p, t') \<Longrightarrow> last_page n p \<Longrightarrow> pages fetch n t [p] t'"
| more: "fetch n t = (Inr p, t') \<Longrightarrow> \<not> last_page n p \<Longrightarrow> pages fetch (Suc n) t' ps t'' \<Longrightarrow> pages fetch n t (p # ps) t''"

definition bounded_total :: "(nat \<Rightarrow> 'a page api) \<Rightarrow> int \<Rightarrow> bool" where
  "bounded_total fetch N \<longleftrightarrow> (\<forall>n t items tot. fst (fetch n t) = Inr (items, Some tot) \<longrightarrow> tot \<le> N)"

locale paged_listing =
  fixes fetch :: "nat \<Rightarrow> 'a page api" and loop :: "nat \<Rightarrow> nat \<Rightarrow> 'a list \<Rightarrow> 'a list api"
  assumes loop_0: "loop 0 n acc = fail Unfinished"
    and loop_Suc: "loop (Suc fuel) n acc = and_then (fetch n) (\<lambda>p.
      if last_page n p then ret (acc @ fst p) else loop fuel (Suc n) (acc @ fst p))"
    and fetch_finishes: "fst (fetch n t) \<noteq> Inl Unfinished"
begin

lemma loop_pages:
  "loop fuel n acc t = (Inr xs, t') \<Longrightarrow> \<exists>ps. pages fetch n t ps t' \<and> xs = acc @ concat (map fst ps)"
proof (induction fuel arbitrary: n acc t)
  case 0
  then show ?case by (simp add: loop_0 fail_def)
next
  case (Suc fuel)
  then obtain p t1 where p: "fetch n t = (Inr p, t1)"
    and rest: "(if last_page n p then ret (acc @ fst p) else loop fuel (Suc n) (acc @ fst p)) t1 = (Inr xs, t')"
    by (auto simp: loop_Suc and_then_Inr)
  show ?case
  proof (cases "last_page n p")
    case True
    with p rest show ?thesis by (intro exI [of _ "[p]"]) (auto simp: ret_def intro: pages.final)
  next
    case False
    with rest have "loop fuel (Suc n) (acc @ fst p) t1 = (Inr xs, t')" by simp
    from Suc.IH [OF this] obtain ps where "pages fetch (Suc n) t1 ps t'" "xs = (acc @ fst p) @ concat (map fst ps)"
      by blast
    with p False show ?thesis by (intro exI [of _ "p # ps"]) (auto intro: pages.more)
  qed
qed

lemma enough_fuel_from:
  assumes "bounded_total fetch N" and "N \<le> (int n + int fuel) * page_size"
  shows "fst (loop (Suc fuel) n acc t) \<noteq> Inl Unfinished"
  using assms(2)
proof (induction fuel arbitrary: n acc t)
  case 0
  obtain x t1 where x: "fetch n t = (x, t1)" by force
  have "last_page n p" if "x = Inr p" for p
  proof (cases "snd p")
    case None
    then show ?thesis by (simp add: last_page_def)
  next
    case (Some tot)
    then have "fst (fetch n t) = Inr (fst p, Some tot)" using x that by (metis fst_conv prod.collapse)
    then have "tot \<le> N" using assms(1) unfolding bounded_total_def by blast
    then show ?thesis using 0 Some by (simp add: last_page_def)
  qed
  then show ?case using x fetch_finishes [of n t]
    by (cases x) (auto simp: loop_Suc and_then_def ret_def)
next
  case (Suc fuel)
  obtain x t1 where x: "fetch n t = (x, t1)" by force
  show ?case
  proof (cases x)
    case (Inl e)
    then show ?thesis using x fetch_finishes [of n t] by (auto simp: loop_Suc [of "Suc fuel"] and_then_def)
  next
    case (Inr p)
    then show ?thesis
      using x Suc.IH [of "Suc n" "acc @ fst p" t1] Suc.prems
      by (simp add: loop_Suc [of "Suc fuel"] and_then_def ret_def algebra_simps)
  qed
qed

text \<open>A listing from page 1 whose total is at most \<open>N\<close> ends within \<open>N / 100\<close> pages, rounded up, and at least one.\<close>

lemma enough_fuel:
  assumes "bounded_total fetch N" and "N \<le> int fuel * page_size" and "0 < fuel"
  shows "fst (loop fuel 1 acc t) \<noteq> Inl Unfinished"
proof -
  obtain m where m: "fuel = Suc m" using assms(3) by (cases fuel) auto
  then have "N \<le> (int 1 + int m) * page_size" using assms(2) by simp
  then show ?thesis unfolding m by (rule enough_fuel_from [OF assms(1)])
qed

end


section \<open>Listings that page by the reported size\<close>

text \<open>
  The customer and invoice listings page by the page size the server reports, or by the
  number of items when it reports none, and keep the items that pass a filter of their own.
\<close>

type_synonym 'a reported_page = "'a list \<times> int \<times> int"

definition reported_last :: "nat \<Rightarrow> 'a reported_page \<Rightarrow> bool" where
  "reported_last n p =
    (case p of (items, psize, tot) \<Rightarrow>
     let seen = (if psize \<le> 0 then int (length items) else psize) in items = [] \<or> tot \<le> int n * seen)"

inductive reported_pages ::
  "(nat \<Rightarrow> 'a reported_page api) \<Rightarrow> nat \<Rightarrow> exchanges \<Rightarrow> 'a reported_page list \<Rightarrow> exchanges \<Rightarrow> bool" for fetch where
  last_one: "fetch n t = (Inr p, t') \<Longrightarrow> reported_last n p \<Longrightarrow> reported_pages fetch n t [p] t'"
| more_to_come: "fetch n t = (Inr p, t') \<Longrightarrow> \<not> reported_last n p \<Longrightarrow> reported_pages fetch (Suc n) t' ps t'' \<Longrightarrow>
    reported_pages fetch n t (p # ps) t''"

text \<open>A fetch built from a classified call and a decoder that reports its own errors never runs out of fuel.\<close>

lemma v1_fetch_finishes:
  assumes "\<And>r t. fst (dec r t) \<noteq> Inl Unfinished"
  shows "fst (and_then (v1_call srv q) (\<lambda>r. and_then (checked r) dec) t) \<noteq> Inl Unfinished"
  using assms classify_not_unfinished
  by (auto simp: and_then_def v1_call_def call_def checked_def ret_def fail_def network_error_def
      classify_def [of None] split: sum.splits option.splits)

lemma reported_last_bound:
  assumes "tot \<le> int N" and "N \<le> n"
  shows "reported_last n (items, psize, tot)"
proof (cases items)
  case (Cons y ys)
  have "int n * 1 \<le> int n * (if psize \<le> 0 then int (length items) else psize)"
    by (rule mult_left_mono) (auto simp: Cons)
  with assms show ?thesis by (simp add: reported_last_def Let_def)
qed (simp add: reported_last_def)

locale reported_listing =
  fixes fetch :: "nat \<Rightarrow> 'a reported_page api" and keep :: "'a list \<Rightarrow> 'b list"
    and loop :: "nat \<Rightarrow> nat \<Rightarrow> 'b list \<Rightarrow> 'b list api"
  assumes loop_0: "loop 0 n acc = fail Unfinished"
    and loop_Suc: "loop (Suc fuel) n acc = and_then (fetch n) (\<lambda>p.
      if reported_last n p then ret (acc @ keep (fst p)) else loop fuel (Suc n) (acc @ keep (fst p)))"
    and fetch_finishes: "fst (fetch n t) \<noteq> Inl Unfinished"
begin

lemma loop_pages:
  "loop fuel n acc t = (Inr xs, t') \<Longrightarrow> \<exists>ps. reported_pages fetch n t ps t' \<and> xs = acc @ concat (map (\<lambda>p. keep (fst p)) ps)"
proof (induction fuel arbitrary: n acc t)
  case 0
  then show ?case by (simp add: loop_0 fail_def)
next
  case (Suc fuel)
  then obtain p t1 where p: "fetch n t = (Inr p, t1)"
    and rest: "(if reported_last n p then ret (acc @ keep (fst p)) else loop fuel (Suc n) (acc @ keep (fst p))) t1 = (Inr xs, t')"
    by (auto simp: loop_Suc and_then_Inr)
  show ?case
  proof (cases "reported_last n p")
    case True
    with p rest show ?thesis by (intro exI [of _ "[p]"]) (auto simp: ret_def intro: reported_pages.last_one)
  next
    case False
    with rest have "loop fuel (Suc n) (acc @ keep (fst p)) t1 = (Inr xs, t')" by simp
    from Suc.IH [OF this] obtain ps where
      "reported_pages fetch (Suc n) t1 ps t'" "xs = (acc @ keep (fst p)) @ concat (map (\<lambda>p. keep (fst p)) ps)" by blast
    with p False show ?thesis by (intro exI [of _ "p # ps"]) (auto intro: reported_pages.more_to_come)
  qed
qed

text \<open>A page that is not the last holds an item, so a total of at most \<open>N\<close> ends within \<open>N\<close> pages and at least one.\<close>

lemma enough_fuel:
  assumes "\<And>n t items psize tot. fst (fetch n t) = Inr (items, psize, tot) \<Longrightarrow> tot \<le> int N" and "N \<le> n + fuel"
  shows "fst (loop (Suc fuel) n acc t) \<noteq> Inl Unfinished"
  using assms(2)
proof (induction fuel arbitrary: n acc t)
  case 0
  obtain x t1 where x: "fetch n t = (x, t1)" by force
  have "reported_last n p" if "x = Inr p" for p
    using that x 0 assms(1) [of n t "fst p" "fst (snd p)" "snd (snd p)"]
      reported_last_bound [of "snd (snd p)" N n "fst p" "fst (snd p)"] by simp
  then show ?case using x fetch_finishes [of n t] by (cases x) (auto simp: loop_Suc and_then_def ret_def)
next
  case (Suc fuel)
  obtain x t1 where x: "fetch n t = (x, t1)" by force
  show ?case
  proof (cases x)
    case (Inl e)
    then show ?thesis using x fetch_finishes [of n t] by (auto simp: loop_Suc [of "Suc fuel"] and_then_def)
  next
    case (Inr p)
    then show ?thesis
      using x Suc.IH [of "Suc n" "acc @ keep (fst p)" t1] Suc.prems
      by (simp add: loop_Suc [of "Suc fuel"] and_then_def ret_def)
  qed
qed

end

end
