(* ===== verification/Plans.thy ===== *)
theory Plans
  imports Paging "HOL-Library.Multiset"
begin

text \<open>
  Plans in OpenMeter (\<open>internal/openmeter/plan.go\<close>), written through the v3 API: the spec
  hash, the listing of versions, and the calls that publish and delete a version.

  \<open>enc\<close> is \<open>json.Marshal\<close> of the hashed struct (key, name, currency, cadence and the
  phases, whose types are OpenMeter's). \<open>fuel\<close> bounds the pages of a listing (see Paging).
  \<open>sort.Slice\<close> is \<open>sort_key\<close>: versions of one key have different numbers, so its order of
  equal elements does not matter.
\<close>

type_synonym plan_encoder = "go_string \<times> go_string \<times> go_string \<times> go_string \<times> plan_phase list \<Rightarrow> go_string"

definition PlanSpecHashPrefix :: go_string where "PlanSpecHashPrefix = ''milo-spec-hash:''"
definition planBillingCadence :: go_string where "planBillingCadence = ''P1M''"

definition plan_currency :: "desired_plan \<Rightarrow> go_string" where
  "plan_currency d = (if dp_currency d = [] then ''USD'' else dp_currency d)"

definition SpecHash :: "plan_encoder \<Rightarrow> desired_plan \<Rightarrow> go_string" where
  "SpecHash enc d = sha256_hex (enc (dp_key d, dp_name d, plan_currency d, planBillingCadence, dp_phases d))"

definition planSpecHash :: "om_plan_version \<Rightarrow> go_string" where
  "planSpecHash p =
    (case pl_description p of
       None \<Rightarrow> []
     | Some s \<Rightarrow> let hash = trim_prefix s PlanSpecHashPrefix in if hash = s then [] else hash)"

section \<open>Reading\<close>

definition plans_page :: "server \<Rightarrow> go_string \<Rightarrow> nat \<Rightarrow> om_plan_version page api" where
  "plans_page srv key n t =
    (case v3_do srv (ReqListPlans key n) True t of
       ((_, Some e, _), t') \<Rightarrow> (Inl e, t')
     | ((_, None, Some (PlanPage ps tot)), t') \<Rightarrow> (Inr (ps, Some tot), t')
     | ((_, None, _), t') \<Rightarrow> (Inl (transient ''decode''), t'))"

fun listPlans_from :: "server \<Rightarrow> go_string \<Rightarrow> nat \<Rightarrow> nat \<Rightarrow> om_plan_version list \<Rightarrow> om_plan_version list api" where
  "listPlans_from srv key 0 n all = fail Unfinished"
| "listPlans_from srv key (Suc fuel) n all =
    and_then (plans_page srv key n) (\<lambda>p.
      if last_page n p then ret (all @ fst p) else listPlans_from srv key fuel (Suc n) (all @ fst p))"

definition listPlans :: "nat \<Rightarrow> server \<Rightarrow> go_string \<Rightarrow> om_plan_version list api" where
  "listPlans fuel srv key = listPlans_from srv key fuel 1 []"

definition ListPlanVersions :: "nat \<Rightarrow> server \<Rightarrow> go_string \<Rightarrow> om_plan_version list api" where
  "ListPlanVersions fuel srv key =
    (if key = [] then fail (permanent ''plan key is required'')
     else and_then (listPlans fuel srv key) (\<lambda>plans.
       ret (sort_key pl_version (filter (\<lambda>p. pl_key p = key) plans))))"

definition GetPlan :: "server \<Rightarrow> go_string \<Rightarrow> om_plan_version api" where
  "GetPlan srv i = v3_plan srv (ReqGetPlan i)"

definition PlanFeatureIDs :: "om_plan_version \<Rightarrow> go_string list" where
  "PlanFeatureIDs plan = concat (map (\<lambda>ph. concat (map (\<lambda>rc.
     case rc_feature rc of Some i \<Rightarrow> if i \<noteq> [] then [i] else [] | None \<Rightarrow> []) (ph_cards ph))) (pl_phases plan))"

definition planHasUnitConfig :: "om_plan_version \<Rightarrow> bool" where
  "planHasUnitConfig plan \<longleftrightarrow> (\<exists>ph \<in> set (pl_phases plan). \<exists>rc \<in> set (ph_cards ph). rc_unit_config rc \<noteq> None)"

section \<open>Writing\<close>

definition publishPlan :: "server \<Rightarrow> go_string \<Rightarrow> om_plan_version api" where
  "publishPlan srv i = v3_plan srv (ReqPublishPlan i)"

definition plan_body :: "desired_plan \<Rightarrow> go_string \<Rightarrow> plan_create" where
  "plan_body desired hash =
    \<lparr>pc_key = dp_key desired, pc_name = dp_name desired, pc_description = PlanSpecHashPrefix @ hash,
     pc_currency = plan_currency desired, pc_cadence = planBillingCadence, pc_phases = dp_phases desired\<rparr>"

definition createAndPublishPlan :: "server \<Rightarrow> desired_plan \<Rightarrow> go_string \<Rightarrow> om_plan_version api" where
  "createAndPublishPlan srv desired hash =
    and_then (v3_plan srv (ReqCreatePlan (plan_body desired hash))) (\<lambda>plan. publishPlan srv (pl_id plan))"

definition upsert_body :: "desired_plan \<Rightarrow> go_string \<Rightarrow> plan_upsert" where
  "upsert_body desired hash =
    \<lparr>pu_name = dp_name desired, pu_description = PlanSpecHashPrefix @ hash, pu_phases = dp_phases desired\<rparr>"

definition updateDraftPlan :: "server \<Rightarrow> om_plan_version \<Rightarrow> desired_plan \<Rightarrow> go_string \<Rightarrow> om_plan_version api" where
  "updateDraftPlan srv draft desired hash = v3_plan srv (ReqUpdatePlan (pl_id draft) (upsert_body desired hash))"

definition EnsurePlan :: "plan_encoder \<Rightarrow> nat \<Rightarrow> server \<Rightarrow> desired_plan \<Rightarrow> om_plan_version api" where
  "EnsurePlan enc fuel srv desired =
    (if dp_key desired = [] then fail (permanent ''DesiredPlan.Key is required'')
     else let hash = SpecHash enc desired in
       and_then (ListPlanVersions fuel srv (dp_key desired)) (\<lambda>versions.
         if versions = [] then createAndPublishPlan srv desired hash
         else let latest = last versions in
           (case pl_status latest of
              PlanDraft \<Rightarrow>
                (if planSpecHash latest \<noteq> hash then
                   and_then (updateDraftPlan srv latest desired hash) (\<lambda>latest. publishPlan srv (pl_id latest))
                 else publishPlan srv (pl_id latest))
            | PlanActive \<Rightarrow> if planSpecHash latest = hash then ret latest else createAndPublishPlan srv desired hash
            | PlanScheduled \<Rightarrow> if planSpecHash latest = hash then ret latest else createAndPublishPlan srv desired hash
            | PlanArchived \<Rightarrow> createAndPublishPlan srv desired hash)))"

definition DeletePlan :: "server \<Rightarrow> om_plan_version \<Rightarrow> unit api" where
  "DeletePlan srv plan =
    (if pl_id plan = [] then fail (permanent ''plan id is required'')
     else if pl_deleted_at plan \<noteq> None then ret ()
     else let delete = (\<lambda>t. case v3_do srv (ReqDeletePlan (pl_id plan)) False t of
            ((status, err, _), t') \<Rightarrow>
              if status = 404 then (Inr (), t')
              else case err of Some e \<Rightarrow> (Inl (Wrap (''delete plan '' @ pl_id plan) [e]), t') | None \<Rightarrow> (Inr (), t')) in
       if pl_status plan = PlanActive then
         (\<lambda>t. case v3_do srv (ReqArchivePlan (pl_id plan)) False t of
            ((status, err, _), t') \<Rightarrow>
              if status = 404 then (Inr (), t')
              else case err of Some e \<Rightarrow> (Inl (Wrap (''archive plan '' @ pl_id plan) [e]), t') | None \<Rightarrow> delete t')
       else delete)"

section \<open>The listing is the paging contract\<close>

lemma v3_do_not_unfinished: "v3_do srv q w t = ((st, Some e, b), t') \<Longrightarrow> e \<noteq> Unfinished"
  by (auto simp: v3_do_def call_def Let_def transient_def network_error_def classify_def
      split: sum.splits option.splits if_splits)

lemma plans_page_finishes: "fst (plans_page srv key n t) \<noteq> Inl Unfinished"
proof -
  obtain st e b t' where v: "v3_do srv (ReqListPlans key n) True t = ((st, e, b), t')" by (metis prod.collapse)
  show ?thesis
  proof (cases e)
    case None
    with v show ?thesis by (simp add: plans_page_def transient_def split: option.splits body.splits)
  next
    case (Some err)
    with v v3_do_not_unfinished show ?thesis by (force simp: plans_page_def)
  qed
qed

interpretation plans: paged_listing "plans_page srv key" "listPlans_from srv key" for srv key
  by unfold_locales (simp_all add: plans_page_finishes)

lemma plans_page_trace: "snd (plans_page srv key n t) = t @ [(ReqListPlans key n, srv t (ReqListPlans key n))]"
proof -
  obtain st e b t' where "v3_do srv (ReqListPlans key n) True t = ((st, e, b), t')" by (metis prod.collapse)
  with v3_do_trace [of srv "ReqListPlans key n" True t] show ?thesis
    by (simp add: plans_page_def split: option.splits body.splits)
qed

lemma adds_plans_page: "adds (\<lambda>q. \<exists>n. q = ReqListPlans key n) (plans_page srv key n)"
  by (simp add: adds_def plans_page_trace)

lemma adds_listPlans: "adds (\<lambda>q. \<exists>n. q = ReqListPlans key n) (listPlans fuel srv key)"
proof -
  have "adds (\<lambda>q. \<exists>n. q = ReqListPlans key n) (listPlans_from srv key fuel n all)" for n all
    by (induction fuel arbitrary: n all) (auto intro!: adds_plans_page adds_and_then)
  then show ?thesis by (simp add: listPlans_def)
qed

section \<open>Properties\<close>

text \<open>A write followed by a publish: what is sent, and that success includes the publish.\<close>

lemma write_publish_trace:
  obtains u where "snd (and_then (v3_plan srv q) (\<lambda>plan. publishPlan srv (pl_id plan)) t) = t @ u"
    "\<forall>q' \<in> set (sent u). q' = q \<or> (\<exists>i. q' = ReqPublishPlan i)"
    "\<And>p. fst (and_then (v3_plan srv q) (\<lambda>plan. publishPlan srv (pl_id plan)) t) = Inr p \<Longrightarrow>
      u \<noteq> [] \<and> (\<exists>i. last (sent u) = ReqPublishPlan i)"
proof -
  obtain x t1 where x: "v3_plan srv q t = (x, t1)" by force
  with v3_plan_trace [of srv q t] have t1: "t1 = t @ [(q, srv t q)]" by simp
  show thesis
  proof (cases x)
    case (Inl e)
    with x t1 show thesis by (intro that [of "[(q, srv t q)]"]) (auto simp: and_then_def)
  next
    case (Inr plan)
    let ?q = "ReqPublishPlan (pl_id plan)"
    have "snd (and_then (v3_plan srv q) (\<lambda>plan. publishPlan srv (pl_id plan)) t) = t @ [(q, srv t q), (?q, srv t1 ?q)]"
      using x Inr t1 by (simp add: and_then_def publishPlan_def v3_plan_trace)
    then show thesis by (intro that) auto
  qed
qed

lemma publish_trace:
  "snd (publishPlan srv i t) = t @ [(ReqPublishPlan i, srv t (ReqPublishPlan i))]"
  by (simp add: publishPlan_def v3_plan_trace)


definition sample_plan :: desired_plan where
  "sample_plan = \<lparr>dp_key = ''offer'', dp_name = ''Offer'', dp_currency = [], dp_phases = []\<rparr>"

definition page_reply :: "body \<Rightarrow> reply" where
  "page_reply b = Inr \<lparr>rp_http = sample_response\<lparr>status_code := 200\<rparr>, rp_sdk = Some b, rp_json = Some b, rp_readable = True\<rparr>"

lemma classify_sample_ok [simp]: "classify (Some (sample_response\<lparr>status_code := 200\<rparr>)) ne = None"
  by (rule classify_ok) (simp add: ok_status_def)

lemma sample_versions:
  "ListPlanVersions 1 (\<lambda>_ _. page_reply (PlanPage [] 0)) (dp_key sample_plan) [] =
    (Inr [], [(ReqListPlans ''offer'' 1, page_reply (PlanPage [] 0))])"
  by (simp add: ListPlanVersions_def listPlans_def sample_plan_def and_then_def plans_page_def v3_do_def call_def
      page_reply_def last_page_def ret_def Let_def page_size_def)


text \<open>
  Listing the versions of a plan finishes, and is exact: against a server whose totals
  stay at or below \<open>N\<close>, \<open>N / 100\<close> pages of fuel (at least one) are enough; a success
  returns exactly the listed plans with the wanted key, in the order of their versions, so
  a foreign plan is never touched.
\<close>

theorem ListPlanVersions_exact:
  assumes "key \<noteq> []" and "bounded_total (plans_page srv key) N" and "N \<le> int fuel * page_size" and "0 < fuel"
  shows "fst (ListPlanVersions fuel srv key t) \<noteq> Inl Unfinished \<and>
    (\<forall>vs t'. ListPlanVersions fuel srv key t = (Inr vs, t') \<longrightarrow>
      (\<exists>ps. pages (plans_page srv key) 1 t ps t' \<and>
         mset vs = filter_mset (\<lambda>p. pl_key p = key) (mset (concat (map fst ps))) \<and> sorted (map pl_version vs)))"
proof (intro conjI allI impI)
  have "fst (listPlans fuel srv key t) \<noteq> Inl Unfinished"
    unfolding listPlans_def by (rule plans.enough_fuel [OF assms(2-4)])
  then show "fst (ListPlanVersions fuel srv key t) \<noteq> Inl Unfinished"
    using assms(1) by (auto simp: ListPlanVersions_def and_then_def ret_def split: prod.splits sum.splits)
  show "\<exists>ps. pages (plans_page srv key) 1 t ps t' \<and>
         mset vs = filter_mset (\<lambda>p. pl_key p = key) (mset (concat (map fst ps))) \<and> sorted (map pl_version vs)"
    if "ListPlanVersions fuel srv key t = (Inr vs, t')" for vs t'
  proof -
    from that assms(1) obtain plans where l: "listPlans_from srv key fuel 1 [] t = (Inr plans, t')"
      and vs: "vs = sort_key pl_version (filter (\<lambda>p. pl_key p = key) plans)"
      by (auto simp: ListPlanVersions_def listPlans_def and_then_Inr ret_def)
    from plans.loop_pages [OF l] vs show ?thesis by auto
  qed
qed

lemma sample_bounded: "bounded_total (plans_page (\<lambda>_ _. page_reply (PlanPage [] 0)) key) 0"
  by (simp add: bounded_total_def plans_page_def v3_do_def call_def page_reply_def Let_def)

theorem ListPlanVersions_exact_witness:
  "fst (ListPlanVersions 1 (\<lambda>_ _. page_reply (PlanPage [] 0)) ''offer'' []) \<noteq> Inl Unfinished"
  using ListPlanVersions_exact [OF _ sample_bounded, of "''offer''" 1 "[]"] by (simp add: page_size_def)

text \<open>
  Deleting a version respects OpenMeter's order: an active version is archived first and
  deleted only after the archive succeeded, any other version is deleted directly, a
  version already deleted causes no call; and success means every call answered 2xx or the
  last one 404 (already gone).
\<close>

theorem DeletePlan_order:
  assumes "pl_id p \<noteq> []"
  shows "\<exists>u. snd (DeletePlan srv p t) = t @ u \<and>
    (if pl_deleted_at p \<noteq> None then u = []
     else if pl_status p = PlanActive then
       sent u = [ReqArchivePlan (pl_id p)] \<or>
       sent u = [ReqArchivePlan (pl_id p), ReqDeletePlan (pl_id p)] \<and>
         (\<exists>r. snd (hd u) = Inr r \<and> ok_status (status_code (rp_http r)))
     else sent u = [ReqDeletePlan (pl_id p)]) \<and>
    (fst (DeletePlan srv p t) = Inr () \<longrightarrow> u \<noteq> [] \<longrightarrow>
       (\<exists>r. snd (last u) = Inr r \<and>
          (status_code (rp_http r) = 404 \<or> last (sent u) = ReqDeletePlan (pl_id p) \<and> ok_status (status_code (rp_http r)))))"
proof -
  have v3: "\<exists>st err b. v3_do srv q False t = ((st, err, b), t @ [(q, srv t q)]) \<and>
      (err = None \<longrightarrow> (\<exists>r. srv t q = Inr r \<and> ok_status (status_code (rp_http r)))) \<and>
      (st = 404 \<longrightarrow> (\<exists>r. srv t q = Inr r \<and> status_code (rp_http r) = 404))" for q t
    by (auto simp: v3_do_def call_def Let_def classify_None_iff split: sum.splits option.splits)
  obtain st err b where a: "v3_do srv (ReqArchivePlan (pl_id p)) False t =
      ((st, err, b), t @ [(ReqArchivePlan (pl_id p), srv t (ReqArchivePlan (pl_id p)))])"
    "err = None \<longrightarrow> (\<exists>r. srv t (ReqArchivePlan (pl_id p)) = Inr r \<and> ok_status (status_code (rp_http r)))"
    "st = 404 \<longrightarrow> (\<exists>r. srv t (ReqArchivePlan (pl_id p)) = Inr r \<and> status_code (rp_http r) = 404)"
    using v3 by blast
  let ?t = "if pl_status p = PlanActive then t @ [(ReqArchivePlan (pl_id p), srv t (ReqArchivePlan (pl_id p)))] else t"
  obtain st' err' b' where d: "v3_do srv (ReqDeletePlan (pl_id p)) False ?t =
      ((st', err', b'), ?t @ [(ReqDeletePlan (pl_id p), srv ?t (ReqDeletePlan (pl_id p)))])"
    "err' = None \<longrightarrow> (\<exists>r. srv ?t (ReqDeletePlan (pl_id p)) = Inr r \<and> ok_status (status_code (rp_http r)))"
    "st' = 404 \<longrightarrow> (\<exists>r. srv ?t (ReqDeletePlan (pl_id p)) = Inr r \<and> status_code (rp_http r) = 404)"
    using v3 by blast
  show ?thesis
  proof (cases "pl_status p = PlanActive")
    case True
    then show ?thesis using assms a d
      by (auto simp: DeletePlan_def ret_def Let_def split: option.splits)
  next
    case False
    then show ?thesis using assms d
      by (auto simp: DeletePlan_def ret_def Let_def split: option.splits)
  qed
qed

definition sample_version :: om_plan_version where
  "sample_version = \<lparr>pl_id = ''p1'', pl_key = ''offer'', pl_version = 1, pl_status = PlanActive,
     pl_description = None, pl_deleted_at = None, pl_phases = []\<rparr>"

theorem DeletePlan_order_witness:
  "\<exists>u. snd (DeletePlan (\<lambda>_ _. page_reply (PlanPage [] 0)) sample_version []) = [] @ u \<and>
     (sent u = [ReqArchivePlan ''p1''] \<or> sent u = [ReqArchivePlan ''p1'', ReqDeletePlan ''p1''])"
  using DeletePlan_order [of sample_version "\<lambda>_ _. page_reply (PlanPage [] 0)" "[]"]
  by (auto simp: sample_version_def)

end
