(* ===== verification/Features.thy ===== *)
theory Features
  imports Plans
begin

text \<open>
  Features in OpenMeter (\<open>internal/openmeter/feature.go\<close>) and the reading of a plan's usage
  rate cards (\<open>internal/openmeter/pricing.go\<close>).

  \<open>fj\<close> is the JSON encoding of a \<open>FilterString\<close>, \<open>dec\<close> is
  \<open>alpacadecimal.NewFromString\<close>, \<open>uc_valid\<close> is \<open>UnitConfig.Validate\<close>: code outside the
  repository. A feature's filter map is an association list with one entry per key.
\<close>

section \<open>Comparing filters\<close>

definition canonical :: "filter_string \<Rightarrow> filter_string" where
  "canonical f = Filter (f_eq f) (map_option sort (f_in f)) (map_option sort (f_nin f)) (f_and f)"

definition canonicalFilterJSON :: "(filter_string \<Rightarrow> go_string) \<Rightarrow> filter_string \<Rightarrow> go_string" where
  "canonicalFilterJSON fj f = fj (canonical f)"

definition FiltersEqual :: "(filter_string \<Rightarrow> go_string) \<Rightarrow> filter_map \<Rightarrow> filter_map \<Rightarrow> bool" where
  "FiltersEqual fj a b \<longleftrightarrow> length a = length b \<and>
    (\<forall>(dim, fa) \<in> set a. case map_of b dim of None \<Rightarrow> False
       | Some fb \<Rightarrow> canonicalFilterJSON fj fa = canonicalFilterJSON fj fb)"

definition filters_of :: "om_feature \<Rightarrow> filter_map" where
  "filters_of f = (case ft_filters f of None \<Rightarrow> [] | Some m \<Rightarrow> m)"

definition checkFeatureMatches ::
  "(filter_string \<Rightarrow> go_string) \<Rightarrow> om_feature \<Rightarrow> desired_feature \<Rightarrow> go_error option" where
  "checkFeatureMatches fj existing desired =
    (let existingSlug = (case ft_meter existing of None \<Rightarrow> [] | Some s \<Rightarrow> s) in
     if existingSlug \<noteq> df_meter desired then
       Some (permanent (''feature '' @ df_key desired @ '' is bound to another meter''))
     else if \<not> FiltersEqual fj (filters_of existing) (df_filters desired) then
       Some (permanent (''feature '' @ df_key desired @ '' exists with different group-by filters; features are immutable''))
     else None)"

section \<open>Calls\<close>

definition feature_body :: "desired_feature \<Rightarrow> feature_create" where
  "feature_body desired =
    \<lparr>fc_key = df_key desired, fc_name = df_name desired, fc_meter = df_meter desired,
     fc_filters = (if df_filters desired \<noteq> [] then Some (df_filters desired) else None),
     fc_metadata = (if df_metadata desired \<noteq> [] then Some (df_metadata desired) else None)\<rparr>"

definition create_feature :: "server \<Rightarrow> desired_feature \<Rightarrow> om_feature api" where
  "create_feature srv desired =
    and_then (v1_call srv (ReqCreateFeature (feature_body desired))) (\<lambda>r.
    and_then (checked r) (\<lambda>r.
      case rp_sdk r of
        Some (FeatureBody f) \<Rightarrow> ret f
      | _ \<Rightarrow> fail (transient ''unexpected empty 201 response from CreateFeature'')))"

definition EnsureFeature ::
  "(filter_string \<Rightarrow> go_string) \<Rightarrow> server \<Rightarrow> desired_feature \<Rightarrow> om_feature api" where
  "EnsureFeature fj srv desired =
    (if df_key desired = [] then fail (permanent ''DesiredFeature.Key is required'')
     else if df_meter desired = [] then fail (permanent ''DesiredFeature.MeterSlug is required'')
     else and_then (v1_call srv (ReqGetFeature (df_key desired))) (\<lambda>r.
       let status = status_code (rp_http r) in
       case (if status = 200 then rp_sdk r else None) of
         Some (FeatureBody existing) \<Rightarrow>
           (case checkFeatureMatches fj existing desired of Some e \<Rightarrow> fail e | None \<Rightarrow> ret existing)
       | _ \<Rightarrow>
           if status \<noteq> 404 then
             and_then (checked r) (\<lambda>_. fail (transient ''unexpected empty 200 response from GetFeature''))
           else create_feature srv desired))"

definition features_page :: "server \<Rightarrow> go_string option \<Rightarrow> bool \<Rightarrow> nat \<Rightarrow> om_feature page api" where
  "features_page srv meterSlug includeArchived n =
    and_then (v1_call srv (ReqListFeatures meterSlug includeArchived n)) (\<lambda>r.
    and_then (checked r) (\<lambda>r.
      case rp_sdk r of
        None \<Rightarrow> fail (transient ''unexpected empty 200 response from ListFeatures'')
      | Some (FeatureArray fs) \<Rightarrow> ret (fs, None)
      | Some (FeaturePage fs tot) \<Rightarrow> ret (fs, Some tot)
      | _ \<Rightarrow> fail (Leaf ''decode ListFeatures response'')))"

fun listFeatures_from ::
  "server \<Rightarrow> go_string option \<Rightarrow> bool \<Rightarrow> nat \<Rightarrow> nat \<Rightarrow> om_feature list \<Rightarrow> om_feature list api" where
  "listFeatures_from srv meterSlug arch 0 n all = fail Unfinished"
| "listFeatures_from srv meterSlug arch (Suc fuel) n all =
    and_then (features_page srv meterSlug arch n) (\<lambda>p.
      if last_page n p then ret (all @ fst p) else listFeatures_from srv meterSlug arch fuel (Suc n) (all @ fst p))"

definition listFeatures :: "nat \<Rightarrow> server \<Rightarrow> go_string option \<Rightarrow> bool \<Rightarrow> om_feature list api" where
  "listFeatures fuel srv meterSlug includeArchived = listFeatures_from srv meterSlug includeArchived fuel 1 []"

definition ListFeatures :: "nat \<Rightarrow> server \<Rightarrow> go_string option \<Rightarrow> om_feature list api" where
  "ListFeatures fuel srv meterSlug = listFeatures fuel srv meterSlug False"

definition DeleteFeature :: "server \<Rightarrow> go_string \<Rightarrow> unit api" where
  "DeleteFeature srv idOrKey =
    (if idOrKey = [] then fail (permanent ''feature id or key is required'')
     else and_then (v1_call srv (ReqDeleteFeature idOrKey)) (\<lambda>r.
       if status_code (rp_http r) = 404 then ret () else and_then (checked r) (\<lambda>_. ret ())))"

definition referencedFeatureIDs :: "nat \<Rightarrow> server \<Rightarrow> go_string set api" where
  "referencedFeatureIDs fuel srv =
    and_then (listPlans fuel srv []) (\<lambda>plans. ret (set (concat (map PlanFeatureIDs plans))))"

fun archive_each :: "server \<Rightarrow> go_string set \<Rightarrow> go_string list \<Rightarrow> unit api" where
  "archive_each srv refs [] = ret ()"
| "archive_each srv refs (i # ids) =
    (if i \<in> refs then archive_each srv refs ids
     else and_then (wrapping (''archive feature '' @ i) (DeleteFeature srv i)) (\<lambda>_. archive_each srv refs ids))"

definition ArchiveFeaturesIfUnreferenced :: "nat \<Rightarrow> server \<Rightarrow> go_string list \<Rightarrow> unit api" where
  "ArchiveFeaturesIfUnreferenced fuel srv candidateIDs =
    (if candidateIDs = [] then ret ()
     else and_then (referencedFeatureIDs fuel srv) (\<lambda>refs. archive_each srv refs candidateIDs))"

definition ArchiveUnreferencedMeterFeatures :: "nat \<Rightarrow> server \<Rightarrow> go_string \<Rightarrow> unit api" where
  "ArchiveUnreferencedMeterFeatures fuel srv meterSlug =
    and_then (ListFeatures fuel srv (Some meterSlug)) (\<lambda>features.
      ArchiveFeaturesIfUnreferenced fuel srv (map ft_id features))"

section \<open>Usage rate cards\<close>

record rated_tier =
  rt_up_to :: "rat option"
  rt_unit :: "rat option"
  rt_flat_price :: "rat option"

datatype rated_price = UnitPrice rat | GraduatedTieredPrice "rated_tier list"

record rated_unit_config =
  ru_operation :: go_string
  ru_factor :: rat
  ru_display_unit :: "go_string option"
  ru_rounding :: go_string
  ru_precision :: int

record usage_rate_card =
  ur_key :: go_string
  ur_meter :: go_string
  ur_filters :: filter_map
  ur_cadence :: go_string
  ur_price :: rated_price
  ur_unit_config :: "rated_unit_config option"
  ur_discounts :: "int option"

definition opt_decimal :: "(go_string \<Rightarrow> rat option) \<Rightarrow> go_string \<Rightarrow> go_string option \<Rightarrow> rat option res" where
  "opt_decimal dec what s =
    (case s of None \<Rightarrow> Inr None
     | Some x \<Rightarrow> (case dec x of Some v \<Rightarrow> Inr (Some v) | None \<Rightarrow> Inl (Leaf (what @ x))))"

fun rated_tiers :: "(go_string \<Rightarrow> rat option) \<Rightarrow> price_tier list \<Rightarrow> rated_tier list res" where
  "rated_tiers dec [] = Inr []"
| "rated_tiers dec (t # ts) =
    (case opt_decimal dec ''tier upToAmount '' (up_to_amount t) of Inl e \<Rightarrow> Inl e
     | Inr up \<Rightarrow>
    (case opt_decimal dec ''tier unit price '' (unit_price t) of Inl e \<Rightarrow> Inl e
     | Inr un \<Rightarrow>
    (case opt_decimal dec ''tier flat price '' (flat_price t) of Inl e \<Rightarrow> Inl e
     | Inr fl \<Rightarrow>
    (case rated_tiers dec ts of Inl e \<Rightarrow> Inl e
     | Inr rest \<Rightarrow> Inr (\<lparr>rt_up_to = up, rt_unit = un, rt_flat_price = fl\<rparr> # rest)))))"

definition rating_usagePrice :: "(go_string \<Rightarrow> rat option) \<Rightarrow> billing_price \<Rightarrow> rated_price res" where
  "rating_usagePrice dec p =
    (case p of
       PriceUnit amount \<Rightarrow>
         (case dec amount of Some a \<Rightarrow> Inr (UnitPrice a) | None \<Rightarrow> Inl (Leaf (''unit price amount '' @ amount)))
     | PriceGraduated tiers \<Rightarrow>
         (case rated_tiers dec tiers of Inl e \<Rightarrow> Inl e | Inr ts \<Rightarrow> Inr (GraduatedTieredPrice ts))
     | PriceFlat amount \<Rightarrow> Inl (Leaf ''unsupported usage price type flat'')
     | PriceOther t \<Rightarrow> Inl (Leaf (''unsupported usage price type '' @ t)))"

definition unitConfig ::
  "(go_string \<Rightarrow> rat option) \<Rightarrow> (rated_unit_config \<Rightarrow> go_error option) \<Rightarrow> unit_config \<Rightarrow> rated_unit_config res" where
  "unitConfig dec uc_valid uc =
    (case dec (uc_factor uc) of
       None \<Rightarrow> Inl (Leaf (''unit conversion factor '' @ uc_factor uc))
     | Some factor \<Rightarrow>
       (let out = \<lparr>ru_operation = uc_operation uc, ru_factor = factor, ru_display_unit = uc_display_unit uc,
              ru_rounding = (case uc_rounding uc of None \<Rightarrow> [] | Some m \<Rightarrow> m),
              ru_precision = (case uc_precision uc of None \<Rightarrow> 0 | Some n \<Rightarrow> n)\<rparr> in
        case uc_valid out of Some e \<Rightarrow> Inl e | None \<Rightarrow> Inr out))"

definition PriceNeedsEarlierUsage :: "rated_price option \<Rightarrow> bool" where
  "PriceNeedsEarlierUsage p \<longleftrightarrow> (case p of Some (UnitPrice a) \<Rightarrow> False | _ \<Rightarrow> True)"

text \<open>One rate card of the loop in \<open>PlanUsageRateCards\<close>; a flat fee has no feature and is skipped.\<close>

definition usage_rate_card_of ::
  "(go_string \<Rightarrow> rat option) \<Rightarrow> (rated_unit_config \<Rightarrow> go_error option) \<Rightarrow> om_feature list \<Rightarrow> rate_card \<Rightarrow>
   usage_rate_card list \<Rightarrow> usage_rate_card list res" where
  "usage_rate_card_of dec uc_valid features rc out =
    (case rc_feature rc of
       None \<Rightarrow> Inr out
     | Some i \<Rightarrow>
       (case map_of (rev (map (\<lambda>f. (ft_id f, f)) features)) i of
          None \<Rightarrow> Inl (Leaf (''rate card '' @ rc_key rc @ '': feature '' @ i @ '' not found or has no meter''))
        | Some feature \<Rightarrow>
       (case ft_meter feature of
          None \<Rightarrow> Inl (Leaf (''rate card '' @ rc_key rc @ '': feature '' @ i @ '' not found or has no meter''))
        | Some slug \<Rightarrow>
       (case rating_usagePrice dec (rc_price rc) of
          Inl e \<Rightarrow> Inl (Wrap (''rate card '' @ rc_key rc) [e])
        | Inr price \<Rightarrow>
       (case (case rc_unit_config rc of None \<Rightarrow> Inr None
              | Some uc \<Rightarrow> map_sum id Some (unitConfig dec uc_valid uc)) of
          Inl e \<Rightarrow> Inl (Wrap (''rate card '' @ rc_key rc) [e])
        | Inr config \<Rightarrow>
          Inr (out @ [\<lparr>ur_key = rc_key rc, ur_meter = slug, ur_filters = filters_of feature,
                ur_cadence = (case rc_cadence rc of None \<Rightarrow> [] | Some c \<Rightarrow> c),
                ur_price = price, ur_unit_config = config, ur_discounts = rc_discount rc\<rparr>]))))))"

definition PlanUsageRateCards ::
  "(go_string \<Rightarrow> rat option) \<Rightarrow> (rated_unit_config \<Rightarrow> go_error option) \<Rightarrow> nat \<Rightarrow> server \<Rightarrow> go_string \<Rightarrow>
   usage_rate_card list api" where
  "PlanUsageRateCards dec uc_valid fuel srv planID =
    and_then (wrapping (''get plan '' @ planID) (GetPlan srv planID)) (\<lambda>plan.
      if PlanFeatureIDs plan = [] then ret []
      else and_then (wrapping ''list features'' (listFeatures fuel srv None True)) (\<lambda>features t.
        (each (usage_rate_card_of dec uc_valid features) (concat (map ph_cards (pl_phases plan))) [], t)))"

section \<open>The listing is the paging contract\<close>

lemma features_page_finishes: "fst (features_page srv m arch n t) \<noteq> Inl Unfinished"
  using classify_not_unfinished
  by (auto simp: features_page_def and_then_def v1_call_def call_def checked_def ret_def fail_def network_error_def
      transient_def classify_def [of None] split: sum.splits option.splits body.splits)

interpretation features: paged_listing "features_page srv m arch" "listFeatures_from srv m arch" for srv m arch
  by unfold_locales (simp_all add: features_page_finishes)

section \<open>Properties\<close>

lemma adds_listFeatures: "(\<And>n. P (ReqListFeatures m arch n)) \<Longrightarrow> adds P (listFeatures fuel srv m arch)"
proof -
  assume P: "\<And>n. P (ReqListFeatures m arch n)"
  have "adds P (listFeatures_from srv m arch fuel n all)" for n all
    using P by (induction fuel arbitrary: n all)
      (auto simp: features_page_def intro!: adds_and_then adds_v1_call split: option.splits body.splits)
  then show ?thesis by (simp add: listFeatures_def)
qed

lemma DeleteFeature_trace:
  "\<exists>u. snd (DeleteFeature srv i t) = t @ u \<and> (if i = [] then u = [] \<and> isl (fst (DeleteFeature srv i t))
     else sent u = [ReqDeleteFeature i])"
  by (auto simp: DeleteFeature_def fail_def and_then_def v1_call_def call_def checked_def ret_def
      split: sum.splits option.splits)

lemma archive_each_trace:
  "\<exists>u. snd (archive_each srv refs ids t) = t @ u \<and>
     prefix (sent u) (map ReqDeleteFeature (filter (\<lambda>i. i \<notin> refs) ids)) \<and>
     (fst (archive_each srv refs ids t) = Inr () \<longrightarrow> sent u = map ReqDeleteFeature (filter (\<lambda>i. i \<notin> refs) ids))"
proof (induction ids arbitrary: t)
  case Nil
  then show ?case by (simp add: ret_def)
next
  case (Cons i ids)
  show ?case
  proof (cases "i \<in> refs")
    case True
    with Cons show ?thesis by simp
  next
    case False
    obtain x t1 where x: "DeleteFeature srv i t = (x, t1)" by force
    obtain u where u: "t1 = t @ u" "if i = [] then u = [] \<and> isl x else sent u = [ReqDeleteFeature i]"
      using DeleteFeature_trace [of srv i t] unfolding x by (metis fst_conv snd_conv)
    show ?thesis
    proof (cases x)
      case (Inl e)
      with False x u show ?thesis
        by (intro exI [of _ u]) (auto simp: and_then_def wrapping_def split: if_splits)
    next
      case (Inr y)
      then have "sent u = [ReqDeleteFeature i]" using u(2) by (auto split: if_splits)
      moreover obtain v where "snd (archive_each srv refs ids t1) = t1 @ v"
        "prefix (sent v) (map ReqDeleteFeature (filter (\<lambda>i. i \<notin> refs) ids))"
        "fst (archive_each srv refs ids t1) = Inr () \<longrightarrow> sent v = map ReqDeleteFeature (filter (\<lambda>i. i \<notin> refs) ids)"
        using Cons.IH by blast
      ultimately show ?thesis
        using False x u(1) Inr by (intro exI [of _ "u @ v"]) (auto simp: and_then_def wrapping_def)
    qed
  qed
qed

text \<open>
  C35. A feature a plan still bills by is never archived: after the walk over every plan
  page, the only features archived are candidates that no listed plan version references,
  each at most as often as it is a candidate and in order; a failed walk archives nothing;
  and success means every unreferenced candidate was archived.
\<close>

theorem ArchiveFeatures_safe:
  assumes "cands \<noteq> []"
  shows "case listPlans fuel srv [] t of
     (Inl e, t1) \<Rightarrow> ArchiveFeaturesIfUnreferenced fuel srv cands t = (Inl e, t1)
   | (Inr plans, t1) \<Rightarrow>
       \<exists>u ps. snd (ArchiveFeaturesIfUnreferenced fuel srv cands t) = t1 @ u \<and>
         pages (plans_page srv []) 1 t ps t1 \<and>
         (let unreferenced = filter (\<lambda>i. \<forall>p \<in> set (concat (map fst ps)). i \<notin> set (PlanFeatureIDs p)) cands in
          prefix (sent u) (map ReqDeleteFeature unreferenced) \<and>
          (fst (ArchiveFeaturesIfUnreferenced fuel srv cands t) = Inr () \<longrightarrow> sent u = map ReqDeleteFeature unreferenced))"
proof (cases "fst (listPlans fuel srv [] t)")
  case (Inl e)
  then show ?thesis using assms
    by (auto simp: ArchiveFeaturesIfUnreferenced_def referencedFeatureIDs_def and_then_def split: prod.splits)
next
  case (Inr plans)
  then obtain t1 where l: "listPlans fuel srv [] t = (Inr plans, t1)" by (metis prod.collapse)
  from plans.loop_pages [OF this [unfolded listPlans_def]]
  obtain ps where ps: "pages (plans_page srv []) 1 t ps t1" "plans = concat (map fst ps)" by auto
  let ?refs = "set (concat (map PlanFeatureIDs plans))"
  have a: "ArchiveFeaturesIfUnreferenced fuel srv cands t = archive_each srv ?refs cands t1"
    using assms l by (simp add: ArchiveFeaturesIfUnreferenced_def referencedFeatureIDs_def and_then_def ret_def)
  obtain u where "snd (archive_each srv ?refs cands t1) = t1 @ u"
    "prefix (sent u) (map ReqDeleteFeature (filter (\<lambda>i. i \<notin> ?refs) cands))"
    "fst (archive_each srv ?refs cands t1) = Inr () \<longrightarrow> sent u = map ReqDeleteFeature (filter (\<lambda>i. i \<notin> ?refs) cands)"
    using archive_each_trace by blast
  moreover have "filter (\<lambda>i. i \<notin> ?refs) cands = filter (\<lambda>i. \<forall>p \<in> set (concat (map fst ps)). i \<notin> set (PlanFeatureIDs p)) cands"
    using ps(2) by (intro filter_cong) auto
  ultimately show ?thesis
    using l ps(1) unfolding a by (auto simp: Let_def)
qed

theorem ArchiveFeatures_safe_witness:
  "\<exists>u. snd (ArchiveFeaturesIfUnreferenced 1 (\<lambda>_ _. page_reply (PlanPage [sample_version] 1)) [''f1''] []) =
     [(ReqListPlans [] 1, page_reply (PlanPage [sample_version] 1))] @ u"
proof -
  have "listPlans 1 (\<lambda>_ _. page_reply (PlanPage [sample_version] 1)) [] [] =
      (Inr [sample_version], [(ReqListPlans [] 1, page_reply (PlanPage [sample_version] 1))])"
    by (simp add: listPlans_def and_then_def plans_page_def v3_do_def call_def page_reply_def last_page_def ret_def
        Let_def page_size_def)
  then show ?thesis
    using ArchiveFeatures_safe [of "[''f1'']" 1 "\<lambda>_ _. page_reply (PlanPage [sample_version] 1)" "[]"] by auto
qed

lemma passes_canonical: "passes (canonical f) v \<longleftrightarrow> passes f v"
  by (cases f) (simp add: canonical_def split: option.splits)

lemma FiltersEqual_iff:
  assumes "inj_on fj (canonical ` snd ` (set a \<union> set b))" and "distinct (map fst a)" and "distinct (map fst b)"
  shows "FiltersEqual fj a b \<longleftrightarrow> map_option canonical \<circ> map_of a = map_option canonical \<circ> map_of b"
proof
  assume eq: "FiltersEqual fj a b"
  then have len: "length a = length b" by (simp add: FiltersEqual_def)
  have ab: "\<exists>g. map_of b k = Some g \<and> canonical f = canonical g" if kf: "(k, f) \<in> set a" for k f
  proof -
    obtain g where g: "map_of b k = Some g" "fj (canonical f) = fj (canonical g)"
      using eq kf by (fastforce simp: FiltersEqual_def canonicalFilterJSON_def split: option.splits)
    then have "canonical g \<in> canonical ` snd ` (set a \<union> set b)" "canonical f \<in> canonical ` snd ` (set a \<union> set b)"
      using kf by (force dest: map_of_SomeD)+
    with g assms(1) show ?thesis by (auto dest: inj_onD)
  qed
  have "fst ` set a \<subseteq> fst ` set b" using ab by (force dest: map_of_SomeD)
  moreover have "card (fst ` set a) = card (fst ` set b)"
    using len assms(2,3) by (metis distinct_card length_map set_map)
  ultimately have keys: "fst ` set a = fst ` set b" by (simp add: card_subset_eq)
  show "map_option canonical \<circ> map_of a = map_option canonical \<circ> map_of b"
  proof
    fix k
    show "(map_option canonical \<circ> map_of a) k = (map_option canonical \<circ> map_of b) k"
    proof (cases "map_of a k")
      case None
      then have "map_of b k = None" using keys by (simp add: map_of_eq_None_iff)
      with None show ?thesis by simp
    next
      case (Some f)
      then have "(k, f) \<in> set a" by (rule map_of_SomeD)
      from ab [OF this] Some show ?thesis by auto
    qed
  qed
next
  assume eq: "map_option canonical \<circ> map_of a = map_option canonical \<circ> map_of b"
  then have at: "map_option canonical (map_of a k) = map_option canonical (map_of b k)" for k
    by (metis comp_apply)
  have "fst ` set a = fst ` set b"
  proof (rule set_eqI)
    show "k \<in> fst ` set a \<longleftrightarrow> k \<in> fst ` set b" for k
      using at [of k] by (metis option.map_disc_iff map_of_eq_None_iff)
  qed
  then have "length a = length b"
    using assms(2,3) by (metis distinct_card length_map set_map)
  moreover have "case map_of b k of None \<Rightarrow> False | Some g \<Rightarrow> canonicalFilterJSON fj f = canonicalFilterJSON fj g"
    if "(k, f) \<in> set a" for k f
    using at [of k] that assms(2) by (cases "map_of b k") (auto simp: canonicalFilterJSON_def)
  ultimately show "FiltersEqual fj a b" by (auto simp: FiltersEqual_def)
qed

lemma accepts_map_of:
  "distinct (map fst a) \<Longrightarrow> accepts a ev \<longleftrightarrow> (\<forall>k f. map_of a k = Some f \<longrightarrow> passes f (ev k))"
  by (auto simp: accepts_def)

text \<open>
  Feature filters are compared by meaning: for an encoding that is injective on the filters at hand, as
  JSON is, two filter maps are equal for \<open>FiltersEqual\<close> exactly when they have the same dimensions and, per
  dimension, the same filter up to the order of \<open>$in\<close> and \<open>$nin\<close> values; equal filter maps
  accept exactly the same usage.
\<close>

theorem FiltersEqual_meaning:
  assumes "inj_on fj (canonical ` snd ` (set a \<union> set b))" and "distinct (map fst a)" and "distinct (map fst b)"
  shows "(FiltersEqual fj a b \<longleftrightarrow> map_option canonical \<circ> map_of a = map_option canonical \<circ> map_of b)
    \<and> (FiltersEqual fj a b \<longrightarrow> accepts a = accepts b)"
proof (intro conjI impI)
  show "FiltersEqual fj a b \<longleftrightarrow> map_option canonical \<circ> map_of a = map_option canonical \<circ> map_of b"
    by (rule FiltersEqual_iff [OF assms])
  assume "FiltersEqual fj a b"
  then have at: "map_option canonical (map_of a k) = map_option canonical (map_of b k)" for k
    unfolding FiltersEqual_iff [OF assms] by (metis comp_apply)
  have half: "accepts y ev" if acc: "accepts x ev" "distinct (map fst x)" "distinct (map fst y)"
    "\<And>k. map_option canonical (map_of x k) = map_option canonical (map_of y k)" for x y ev
  proof -
    have "passes g (ev k)" if g: "map_of y k = Some g" for k g
    proof -
      obtain f where "map_of x k = Some f" "canonical f = canonical g"
        using acc(4) [of k] g by auto
      then show ?thesis
        using acc(1,2) passes_canonical by (metis accepts_map_of)
    qed
    then show ?thesis using acc(3) by (simp add: accepts_map_of)
  qed
  show "accepts a = accepts b"
    using half [OF _ assms(2,3) at] half [OF _ assms(3,2) at [symmetric]] by blast
qed

definition sample_fj :: "filter_string \<Rightarrow> go_string" where
  "sample_fj f = (case f_eq f of Some v \<Rightarrow> v | None \<Rightarrow> join '','' (the (f_nin f)))"

theorem FiltersEqual_meaning_witness:
  "FiltersEqual sample_fj [(''region'', filter_nin [''a'', ''b'']), (''tier'', filter_eq ''c'')]
      [(''tier'', filter_eq ''c''), (''region'', filter_nin [''b'', ''a''])] \<and>
   accepts [(''region'', filter_nin [''a'', ''b'']), (''tier'', filter_eq ''c'')] =
     accepts [(''tier'', filter_eq ''c''), (''region'', filter_nin [''b'', ''a''])]"
proof -
  have eq: "FiltersEqual sample_fj [(''region'', filter_nin [''a'', ''b'']), (''tier'', filter_eq ''c'')]
      [(''tier'', filter_eq ''c''), (''region'', filter_nin [''b'', ''a''])]"
    by code_simp
  show ?thesis
    using eq FiltersEqual_meaning [of sample_fj "[(''region'', filter_nin [''a'', ''b'']), (''tier'', filter_eq ''c'')]"
      "[(''tier'', filter_eq ''c''), (''region'', filter_nin [''b'', ''a''])]"]
    by (simp add: inj_on_def canonical_def sample_fj_def)
qed

lemma checkFeatureMatches_None:
  "checkFeatureMatches fj f d = None \<longleftrightarrow>
   (case ft_meter f of None \<Rightarrow> [] | Some s \<Rightarrow> s) = df_meter d \<and> FiltersEqual fj (filters_of f) (df_filters d)"
  by (auto simp: checkFeatureMatches_def Let_def)

text \<open>
  A plan never bills by a feature with other content: \<open>EnsureFeature\<close> returns an
  existing feature only when its meter and filters are the desired ones, and otherwise only
  one it has just created with the desired content, after OpenMeter answered 404 for the
  key; an existing feature that differs is an error and nothing is written.
\<close>

theorem EnsureFeature_content:
  assumes "EnsureFeature fj srv d t = (Inr f, t')"
  shows "(\<exists>r. t' = t @ [(ReqGetFeature (df_key d), Inr r)] \<and> rp_sdk r = Some (FeatureBody f) \<and>
      (case ft_meter f of None \<Rightarrow> [] | Some s \<Rightarrow> s) = df_meter d \<and> FiltersEqual fj (filters_of f) (df_filters d))
    \<or> (\<exists>r r'. t' = t @ [(ReqGetFeature (df_key d), Inr r), (ReqCreateFeature (feature_body d), Inr r')] \<and>
         status_code (rp_http r) = 404 \<and> ok_status (status_code (rp_http r')) \<and> rp_sdk r' = Some (FeatureBody f))"
proof -
  have keys: "df_key d \<noteq> []" "df_meter d \<noteq> []"
    using assms by (auto simp: EnsureFeature_def fail_def split: if_splits)
  with assms obtain r where r: "srv t (ReqGetFeature (df_key d)) = Inr r"
    by (cases "srv t (ReqGetFeature (df_key d))") (auto simp: EnsureFeature_def and_then_def v1_call_def call_def)
  let ?t = "t @ [(ReqGetFeature (df_key d), Inr r)]"
  show ?thesis
  proof (cases "\<exists>g. status_code (rp_http r) = 200 \<and> rp_sdk r = Some (FeatureBody g)")
    case True
    then show ?thesis
      using assms keys r
      by (auto simp: EnsureFeature_def and_then_def v1_call_def call_def fail_def ret_def checkFeatureMatches_None
          split: option.splits)
  next
    case False
    then have "status_code (rp_http r) = 404 \<and> create_feature srv d ?t = (Inr f, t')"
      using assms keys r
      by (auto simp: EnsureFeature_def and_then_def v1_call_def call_def fail_def ret_def checked_def Let_def
          split: option.splits body.splits if_splits)
    then show ?thesis
      by (auto simp: create_feature_def and_then_def v1_call_def call_def checked_def ret_def fail_def classify_None_iff
          split: sum.splits option.splits body.splits)
  qed
qed

definition sample_feature :: desired_feature where
  "sample_feature = \<lparr>df_key = ''cpu_all'', df_name = ''cpu'', df_meter = ''cpu'', df_filters = [], df_metadata = []\<rparr>"

theorem EnsureFeature_content_witness:
  "\<exists>r. [(ReqGetFeature ''cpu_all'', page_reply (FeatureBody \<lparr>ft_id = ''f1'', ft_key = ''cpu_all'', ft_meter = Some ''cpu'', ft_filters = None\<rparr>))]
     = [] @ [(ReqGetFeature ''cpu_all'', Inr r)]"
  using EnsureFeature_content [of sample_fj "\<lambda>_ _. page_reply (FeatureBody \<lparr>ft_id = ''f1'', ft_key = ''cpu_all'', ft_meter = Some ''cpu'', ft_filters = None\<rparr>)"
      sample_feature "[]" "\<lparr>ft_id = ''f1'', ft_key = ''cpu_all'', ft_meter = Some ''cpu'', ft_filters = None\<rparr>"
      "[(ReqGetFeature ''cpu_all'', page_reply (FeatureBody \<lparr>ft_id = ''f1'', ft_key = ''cpu_all'', ft_meter = Some ''cpu'', ft_filters = None\<rparr>))]"]
  by (simp add: EnsureFeature_def sample_feature_def and_then_def v1_call_def call_def page_reply_def checkFeatureMatches_def
      FiltersEqual_def filters_of_def ret_def)

end
