(* ===== verification/Subscriptions.thy ===== *)
theory Subscriptions
  imports Plans
begin

text \<open>
  Subscriptions (\<open>internal/openmeter/subscription.go\<close>): the decision of the next mutation,
  the convergence loop around it, deferred plan changes, and cancelation.

  A subscription step is a datatype with the fields each kind uses. \<open>clock\<close> is \<open>time.Now\<close>,
  read when the desired subscription names no time. \<open>sort.Slice\<close> by start time is
  \<open>sort_key\<close>; the starts of one customer's scheduled subscriptions differ.
\<close>

section \<open>The next step\<close>

datatype subscription_step =
    StepNone (step_current: om_subscription) (step_pending: "om_subscription option")
  | StepCreate
  | StepDeleteScheduled om_subscription
  | StepRestore om_subscription
  | StepChange om_subscription "int option"
  | StepMigrate om_subscription

record desired_subscription =
  ds_customer_key :: go_string
  ds_plan_key :: go_string
  ds_metadata :: str_map
  ds_billing_anchor :: "int option"
  ds_move_anchor :: bool
  ds_change_at_period_end :: bool
  ds_change_due :: "int option"
  ds_now :: "int option"

record subscription_state =
  st_current :: om_subscription
  st_pending :: "om_subscription option"
  st_plan_version :: int
  st_change_at :: "int option"

definition maxSubscriptionSteps :: nat where "maxSubscriptionSteps = 4"
definition periodChangeTolerance :: int where "periodChangeTolerance = 90 * second"

definition sub_matches :: "go_string \<Rightarrow> int \<Rightarrow> om_subscription \<Rightarrow> bool" where
  "sub_matches planKey activeVersion s \<longleftrightarrow>
    (case sub_plan s of None \<Rightarrow> False | Some p \<Rightarrow> pr_key p = planKey \<and> activeVersion \<le> pr_version p)"

definition is_current :: "om_subscription \<Rightarrow> bool" where
  "is_current s \<longleftrightarrow> sub_status s = SubscriptionStatusActive \<or> sub_status s = SubscriptionStatusCanceled"

definition current_of :: "om_subscription list \<Rightarrow> om_subscription option" where
  "current_of subs = List.find is_current subs"

definition scheduled_of :: "om_subscription list \<Rightarrow> om_subscription list" where
  "scheduled_of subs = sort_key sub_active_from (filter (\<lambda>s. sub_status s = SubscriptionStatusScheduled) subs)"

definition nextSubscriptionStep :: "om_subscription list \<Rightarrow> go_string \<Rightarrow> int \<Rightarrow> subscription_step" where
  "nextSubscriptionStep subs planKey activeVersion =
    (let ok = sub_matches planKey activeVersion; scheduled = scheduled_of subs in
     case current_of subs of
       None \<Rightarrow>
         (case List.find (\<lambda>s. \<not> ok s) scheduled of
            Some s \<Rightarrow> StepDeleteScheduled s
          | None \<Rightarrow> (case scheduled of pending # _ \<Rightarrow> StepNone pending None | [] \<Rightarrow> StepCreate))
     | Some current \<Rightarrow>
         if sub_status current = SubscriptionStatusCanceled then
           (case scheduled of
              [s] \<Rightarrow> if ok s then StepNone current (Some s) else StepRestore current
            | _ \<Rightarrow> StepRestore current)
         else (case scheduled of
            s # _ \<Rightarrow> StepDeleteScheduled s
          | [] \<Rightarrow>
            (case sub_plan current of
               None \<Rightarrow> StepChange current None
             | Some p \<Rightarrow>
               if pr_key p \<noteq> planKey then StepChange current None
               else if pr_version p < activeVersion then StepMigrate current
               else StepNone current None)))"

section \<open>Calls\<close>

definition subscriptions_page :: "server \<Rightarrow> go_string \<Rightarrow> nat \<Rightarrow> om_subscription page api" where
  "subscriptions_page srv customerKey n =
    and_then (v1_call srv (ReqListSubscriptions customerKey n)) (\<lambda>r.
      if status_code (rp_http r) = 404 then fail (Sentinel ErrCustomerNotFound)
      else and_then (checked r) (\<lambda>r.
        case rp_sdk r of
          Some (SubscriptionPage ss tot) \<Rightarrow> ret (ss, Some tot)
        | _ \<Rightarrow> fail (transient ''unexpected empty 200 response from ListCustomerSubscriptions'')))"

fun listSubscriptions_from ::
  "server \<Rightarrow> go_string \<Rightarrow> nat \<Rightarrow> nat \<Rightarrow> om_subscription list \<Rightarrow> om_subscription list api" where
  "listSubscriptions_from srv key 0 n all = fail Unfinished"
| "listSubscriptions_from srv key (Suc fuel) n all =
    and_then (subscriptions_page srv key n) (\<lambda>p.
      if last_page n p then ret (all @ fst p) else listSubscriptions_from srv key fuel (Suc n) (all @ fst p))"

definition ListSubscriptions :: "nat \<Rightarrow> server \<Rightarrow> go_string \<Rightarrow> om_subscription list api" where
  "ListSubscriptions fuel srv customerKey = listSubscriptions_from srv customerKey fuel 1 []"

text \<open>A v1 subscription call: sent, then classified with the subscription rules.\<close>

definition checked_subscription :: "om_reply \<Rightarrow> unit api" where
  "checked_subscription r = (case classifySubscription (rp_http r) of Some e \<Rightarrow> fail e | None \<Rightarrow> ret ())"

definition subscription_call :: "server \<Rightarrow> request \<Rightarrow> unit api" where
  "subscription_call srv q = and_then (v1_call srv q) checked_subscription"

text \<open>The same for a delete, where 404 is success.\<close>

definition delete_call :: "server \<Rightarrow> go_string \<Rightarrow> unit api" where
  "delete_call srv i =
    and_then (v1_call srv (ReqDeleteSubscription i)) (\<lambda>r.
      if status_code (rp_http r) = 404 then ret () else checked_subscription r)"

definition timing_of :: "int option \<Rightarrow> timing" where
  "timing_of atime = (case atime of None \<Rightarrow> TimingImmediate | Some x \<Rightarrow> TimingAt x)"

text \<open>
  The body of a v3 change. A change of plan may move the anchor to the desired one;
  otherwise the existing anchor is carried over.
\<close>

definition change_v3_body ::
  "desired_subscription \<Rightarrow> om_subscription \<Rightarrow> int option \<Rightarrow> bool \<Rightarrow> int \<Rightarrow> subscription_change_v3" where
  "change_v3_body desired target atime is_change version =
    \<lparr>c3_timing = timing_of atime,
     c3_billing_anchor =
       (if is_change \<and> ds_move_anchor desired \<and> ds_billing_anchor desired \<noteq> None then ds_billing_anchor desired
        else sub_billing_anchor target),
     c3_customer_key = ds_customer_key desired, c3_plan_key = ds_plan_key desired, c3_version = version\<rparr>"

definition changeSubscriptionV3 ::
  "server \<Rightarrow> desired_subscription \<Rightarrow> om_subscription \<Rightarrow> int option \<Rightarrow> bool \<Rightarrow> int \<Rightarrow> unit api" where
  "changeSubscriptionV3 srv desired target atime is_change version t =
    (case v3_do srv (ReqChangeSubscriptionV3 (sub_id target) (change_v3_body desired target atime is_change version)) False t of
       ((_, err, _), t') \<Rightarrow> (case reclassifySubscription err of Some e \<Rightarrow> (Inl e, t') | None \<Rightarrow> (Inr (), t')))"

definition change_body :: "desired_subscription \<Rightarrow> int option \<Rightarrow> subscription_change" where
  "change_body desired atime =
    \<lparr>ch_plan_key = ds_plan_key desired, ch_timing = timing_of atime, ch_metadata = ds_metadata desired,
     ch_billing_anchor = (if ds_move_anchor desired then ds_billing_anchor desired else None)\<rparr>"

definition applySubscriptionStep ::
  "server \<Rightarrow> desired_subscription \<Rightarrow> subscription_step \<Rightarrow> om_plan_version \<Rightarrow> unit api" where
  "applySubscriptionStep srv desired step active =
    (case step of
       StepCreate \<Rightarrow>
         subscription_call srv (ReqCreateSubscription
           \<lparr>sc_customer_key = ds_customer_key desired, sc_plan_key = ds_plan_key desired,
            sc_metadata = ds_metadata desired, sc_billing_anchor = ds_billing_anchor desired\<rparr>)
     | StepDeleteScheduled target \<Rightarrow> delete_call srv (sub_id target)
     | StepRestore target \<Rightarrow> subscription_call srv (ReqRestoreSubscription (sub_id target))
     | StepChange target atime \<Rightarrow>
         if planHasUnitConfig active then changeSubscriptionV3 srv desired target atime True (pl_version active)
         else subscription_call srv (ReqChangeSubscription (sub_id target) (change_body desired atime))
     | StepMigrate target \<Rightarrow>
         if planHasUnitConfig active then changeSubscriptionV3 srv desired target None False (pl_version active)
         else subscription_call srv (ReqMigrateSubscription (sub_id target) (pl_version active) TimingImmediate)
     | StepNone _ _ \<Rightarrow> fail (permanent ''unknown subscription step''))"

definition currentBillingPeriod :: "server \<Rightarrow> go_string \<Rightarrow> om_period option api" where
  "currentBillingPeriod srv i =
    and_then (v1_call srv (ReqGetSubscription i)) (\<lambda>r.
    and_then (checked_subscription r) (\<lambda>_.
      case rp_sdk r of
        Some (SubscriptionBody (Some p)) \<Rightarrow> ret p
      | _ \<Rightarrow> ret None))"

definition periodChangeTime ::
  "om_subscription \<Rightarrow> om_period option \<Rightarrow> int \<Rightarrow> int option \<Rightarrow> int option \<times> int option" where
  "periodChangeTime sub period now due =
    (case period of
       None \<Rightarrow> (None, None)
     | Some p \<Rightarrow>
       if sub_active_from sub < period_from p \<and> period_from p \<le> now \<and> now - period_from p \<le> periodChangeTolerance
       then (Some (period_from p), None)
       else if (case due of Some d \<Rightarrow> d \<le> now | None \<Rightarrow> False) then (None, None)
       else (None, Some (period_to p)))"

section \<open>The convergence loop\<close>

definition step_name :: "subscription_step \<Rightarrow> go_string" where
  "step_name s = (case s of StepNone _ _ \<Rightarrow> ''none'' | StepCreate \<Rightarrow> ''create'' | StepDeleteScheduled _ \<Rightarrow> ''delete-scheduled''
     | StepRestore _ \<Rightarrow> ''restore'' | StepChange _ _ \<Rightarrow> ''change'' | StepMigrate _ \<Rightarrow> ''migrate'')"

definition apply_named ::
  "server \<Rightarrow> desired_subscription \<Rightarrow> subscription_step \<Rightarrow> om_plan_version \<Rightarrow> unit api" where
  "apply_named srv desired step active =
    wrapping (step_name step @ '' subscription'') (applySubscriptionStep srv desired step active)"

fun ensure_steps ::
  "nat \<Rightarrow> server \<Rightarrow> desired_subscription \<Rightarrow> om_plan_version \<Rightarrow> int \<Rightarrow> nat \<Rightarrow> subscription_state api" where
  "ensure_steps fuel srv desired active now 0 =
    fail (transient ''subscription for customer did not converge'')"
| "ensure_steps fuel srv desired active now (Suc k) =
    and_then (ListSubscriptions fuel srv (ds_customer_key desired)) (\<lambda>subs.
      case nextSubscriptionStep subs (ds_plan_key desired) (pl_version active) of
        StepNone cur pend \<Rightarrow>
          ret \<lparr>st_current = cur, st_pending = pend, st_plan_version = pl_version active, st_change_at = None\<rparr>
      | StepChange target _ \<Rightarrow>
          if ds_change_at_period_end desired then
            and_then (wrapping ''get billing period'' (currentBillingPeriod srv (sub_id target))) (\<lambda>period.
              case periodChangeTime target period now (ds_change_due desired) of
                (_, Some wait) \<Rightarrow>
                  ret \<lparr>st_current = target, st_pending = None, st_plan_version = pl_version active, st_change_at = Some wait\<rparr>
              | (atime, None) \<Rightarrow>
                  and_then (apply_named srv desired (StepChange target atime) active)
                    (\<lambda>_. ensure_steps fuel srv desired active now k))
          else and_then (apply_named srv desired (StepChange target None) active)
                 (\<lambda>_. ensure_steps fuel srv desired active now k)
      | step \<Rightarrow>
          and_then (apply_named srv desired step active) (\<lambda>_. ensure_steps fuel srv desired active now k))"

definition active_version :: "om_plan_version list \<Rightarrow> om_plan_version option" where
  "active_version versions = List.find (\<lambda>v. pl_status v = PlanActive) (rev versions)"

definition EnsureSubscription ::
  "nat \<Rightarrow> server \<Rightarrow> int \<Rightarrow> desired_subscription \<Rightarrow> subscription_state api" where
  "EnsureSubscription fuel srv clock desired =
    (if ds_customer_key desired = [] \<or> ds_plan_key desired = [] then
       fail (permanent ''DesiredSubscription.CustomerKey and PlanKey are required'')
     else and_then (wrapping ''list plan versions'' (ListPlanVersions fuel srv (ds_plan_key desired))) (\<lambda>versions.
       case active_version versions of
         None \<Rightarrow> fail (Wrap (''plan '' @ ds_plan_key desired) [Sentinel ErrPlanNotPublished])
       | Some active \<Rightarrow>
           ensure_steps fuel srv desired active
             (case ds_now desired of None \<Rightarrow> clock | Some n \<Rightarrow> n) maxSubscriptionSteps))"

section \<open>Cancelation\<close>

fun delete_scheduled :: "server \<Rightarrow> om_subscription list \<Rightarrow> unit api" where
  "delete_scheduled srv [] = ret ()"
| "delete_scheduled srv (s # ss) =
    (if sub_status s \<noteq> SubscriptionStatusScheduled then delete_scheduled srv ss
     else and_then (and_then (v1_call srv (ReqDeleteSubscription (sub_id s))) (\<lambda>r.
            if status_code (rp_http r) = 404 then ret ()
            else wrapping (''delete scheduled subscription '' @ sub_id s) (checked_subscription r)))
          (\<lambda>_. delete_scheduled srv ss))"

text \<open>A call whose classified error is wrapped with a message.\<close>

definition named_call :: "server \<Rightarrow> go_string \<Rightarrow> request \<Rightarrow> unit api" where
  "named_call srv msg q = and_then (v1_call srv q) (\<lambda>r. wrapping msg (checked_subscription r))"

fun cancel_live :: "server \<Rightarrow> om_subscription list \<Rightarrow> unit api" where
  "cancel_live srv [] = ret ()"
| "cancel_live srv (s # ss) =
    (let cancel = and_then (named_call srv (''cancel subscription '' @ sub_id s) (ReqCancelSubscription (sub_id s) TimingImmediate))
           (\<lambda>_. cancel_live srv ss) in
     case sub_status s of
       SubscriptionStatusCanceled \<Rightarrow>
         and_then (named_call srv (''continue subscription '' @ sub_id s @ '' before canceling'')
             (ReqUnscheduleCancelation (sub_id s))) (\<lambda>_. cancel)
     | SubscriptionStatusActive \<Rightarrow> cancel
     | _ \<Rightarrow> cancel_live srv ss)"

definition CancelSubscriptions :: "nat \<Rightarrow> server \<Rightarrow> go_string \<Rightarrow> unit api" where
  "CancelSubscriptions fuel srv customerKey =
    (if customerKey = [] then fail (permanent ''customerKey is required'')
     else (\<lambda>t. case ListSubscriptions fuel srv customerKey t of
       (Inl e, t') \<Rightarrow> if errors_is e ErrCustomerNotFound then (Inr (), t') else (Inl e, t')
     | (Inr subs, t') \<Rightarrow> and_then (delete_scheduled srv subs) (\<lambda>_. cancel_live srv subs) t'))"

section \<open>The listing is the paging contract\<close>

lemma subscriptions_page_finishes: "fst (subscriptions_page srv key n t) \<noteq> Inl Unfinished"
  using classify_not_unfinished
  by (auto simp: subscriptions_page_def and_then_def v1_call_def call_def checked_def ret_def fail_def network_error_def
      transient_def classify_def [of None] split: sum.splits option.splits body.splits)

interpretation subscriptions: paged_listing "subscriptions_page srv key" "listSubscriptions_from srv key" for srv key
  by unfold_locales (simp_all add: subscriptions_page_finishes)

section \<open>Deferred changes\<close>

text \<open>
  A deferred plan change is never backdated beyond what OpenMeter accepts and never
  forgotten: it is timed at a period start only when that start is past the subscription's
  own start and at most 90 seconds ago; it waits only for the end of the current period and
  only while the announced due time has not passed; in every other case it happens at once.
\<close>

theorem periodChangeTime_safe:
  "case periodChangeTime sub period now due of
     (Some start, w) \<Rightarrow> w = None \<and> sub_active_from sub < start \<and> start \<le> now \<and> now - start \<le> 90 * second
       \<and> (\<exists>p. period = Some p \<and> start = period_from p)
   | (None, Some end_time) \<Rightarrow> (\<exists>p. period = Some p \<and> end_time = period_to p) \<and> (\<forall>d. due = Some d \<longrightarrow> now < d)
   | (None, None) \<Rightarrow> period = None \<or> (\<exists>d. due = Some d \<and> d \<le> now)"
  by (auto simp: periodChangeTime_def periodChangeTolerance_def split: option.splits)

section \<open>Convergence\<close>

text \<open>
  What OpenMeter documents each mutation to do to a customer's live subscriptions: \<open>eff step
  subs\<close> is the list after the mutation. A new or changed subscription is active on the
  version asked for; restoring drops the scheduled successors.
\<close>

definition documented ::
  "(subscription_step \<Rightarrow> om_subscription list \<Rightarrow> om_subscription list) \<Rightarrow> go_string \<Rightarrow> int \<Rightarrow> bool" where
  "documented eff planKey v \<longleftrightarrow>
    (\<forall>subs. \<exists>c. current_of (eff StepCreate subs) = Some c \<and> sub_status c = SubscriptionStatusActive
       \<and> sub_matches planKey v c \<and> scheduled_of (eff StepCreate subs) = scheduled_of subs) \<and>
    (\<forall>subs s. s \<in> set (scheduled_of subs) \<longrightarrow>
       current_of (eff (StepDeleteScheduled s) subs) = current_of subs \<and>
       scheduled_of (eff (StepDeleteScheduled s) subs) = remove1 s (scheduled_of subs)) \<and>
    (\<forall>subs c. current_of subs = Some c \<longrightarrow>
       current_of (eff (StepRestore c) subs) = Some (c\<lparr>sub_status := SubscriptionStatusActive\<rparr>) \<and>
       scheduled_of (eff (StepRestore c) subs) = []) \<and>
    (\<forall>subs c step. current_of subs = Some c \<and> (step = StepChange c None \<or> step = StepMigrate c) \<longrightarrow>
       (\<exists>c'. current_of (eff step subs) = Some c' \<and> sub_status c' = SubscriptionStatusActive
          \<and> sub_matches planKey v c' \<and> scheduled_of (eff step subs) = scheduled_of subs))"

definition step_measure :: "go_string \<Rightarrow> int \<Rightarrow> om_subscription list \<Rightarrow> nat" where
  "step_measure planKey v subs = length (scheduled_of subs) +
    (case current_of subs of None \<Rightarrow> 1
     | Some c \<Rightarrow> if sub_status c = SubscriptionStatusActive then (if sub_matches planKey v c then 0 else 1) else 2)"

lemma current_of_status:
  "current_of subs = Some c \<Longrightarrow> sub_status c = SubscriptionStatusActive \<or> sub_status c = SubscriptionStatusCanceled"
  by (auto simp: current_of_def find_Some_iff is_current_def)

lemma find_in_set: "List.find P xs = Some x \<Longrightarrow> x \<in> set xs"
  by (auto simp: find_Some_iff)

lemma length_remove1_less: "x \<in> set xs \<Longrightarrow> length (remove1 x xs) < length xs"
  by (metis length_pos_if_in_set length_remove1 diff_less zero_less_one)

lemma step_decreases:
  assumes "documented eff planKey v" and "step = nextSubscriptionStep subs planKey v"
    and "\<nexists>cur pend. step = StepNone cur pend"
  shows "step_measure planKey v (eff step subs) < step_measure planKey v subs"
proof (cases "current_of subs")
  case None
  show ?thesis
  proof (cases "List.find (\<lambda>s. \<not> sub_matches planKey v s) (scheduled_of subs)")
    case (Some s)
    then have s: "s \<in> set (scheduled_of subs)" "step = StepDeleteScheduled s"
      using None assms(2) by (simp_all add: find_in_set nextSubscriptionStep_def)
    with assms(1) None show ?thesis
      by (simp add: documented_def step_measure_def length_remove1_less)
  next
    case find: None
    then have "step = StepCreate" "scheduled_of subs = []"
      using None assms(2,3) by (auto simp: nextSubscriptionStep_def split: list.splits)
    moreover obtain c where "current_of (eff StepCreate subs) = Some c" "sub_status c = SubscriptionStatusActive"
      "sub_matches planKey v c" "scheduled_of (eff StepCreate subs) = scheduled_of subs"
      using assms(1) unfolding documented_def by blast
    ultimately show ?thesis using None by (simp add: step_measure_def)
  qed
next
  case (Some c)
  note cur = this
  show ?thesis
  proof (cases "sub_status c = SubscriptionStatusCanceled")
    case True
    then have "step = StepRestore c"
      using Some assms(2,3) by (auto simp: nextSubscriptionStep_def split: list.splits if_splits)
    moreover have "current_of (eff (StepRestore c) subs) = Some (c\<lparr>sub_status := SubscriptionStatusActive\<rparr>)"
      "scheduled_of (eff (StepRestore c) subs) = []"
      using assms(1) Some unfolding documented_def by blast+
    ultimately show ?thesis using Some True by (simp add: step_measure_def)
  next
    case False
    then have act: "sub_status c = SubscriptionStatusActive" using current_of_status [OF Some] by simp
    show ?thesis
    proof (cases "scheduled_of subs")
      case (Cons s ss)
      then have "step = StepDeleteScheduled s"
        using Some False assms(2) by (simp add: nextSubscriptionStep_def)
      moreover have "current_of (eff (StepDeleteScheduled s) subs) = current_of subs"
        "scheduled_of (eff (StepDeleteScheduled s) subs) = remove1 s (scheduled_of subs)"
        using assms(1) Cons unfolding documented_def by (metis list.set_intros(1))+
      ultimately show ?thesis using Some Cons by (simp add: step_measure_def)
    next
      case Nil
      then have step: "step = StepChange c None \<or> step = StepMigrate c" and no: "\<not> sub_matches planKey v c"
        using Some False assms(2,3)
        by (auto simp: nextSubscriptionStep_def sub_matches_def split: option.splits if_splits)
      obtain c' where "current_of (eff step subs) = Some c'" "sub_status c' = SubscriptionStatusActive"
        "sub_matches planKey v c'" "scheduled_of (eff step subs) = scheduled_of subs"
        using assms(1) cur step unfolding documented_def by metis
      then show ?thesis using Some act no Nil by (simp add: step_measure_def)
    qed
  qed
qed

definition advance ::
  "(subscription_step \<Rightarrow> om_subscription list \<Rightarrow> om_subscription list) \<Rightarrow> go_string \<Rightarrow> int \<Rightarrow>
   om_subscription list \<Rightarrow> om_subscription list" where
  "advance eff planKey v subs = eff (nextSubscriptionStep subs planKey v) subs"

lemma converges:
  assumes "documented eff planKey v"
  shows "\<exists>n \<le> step_measure planKey v subs. \<exists>cur pend.
    nextSubscriptionStep ((advance eff planKey v ^^ n) subs) planKey v = StepNone cur pend"
proof (induction "step_measure planKey v subs" arbitrary: subs rule: less_induct)
  case less
  show ?case
  proof (cases "\<exists>cur pend. nextSubscriptionStep subs planKey v = StepNone cur pend")
    case True
    then show ?thesis by (intro exI [of _ 0]) simp
  next
    case False
    from step_decreases [OF assms refl False]
    have dec: "step_measure planKey v (advance eff planKey v subs) < step_measure planKey v subs"
      by (simp add: advance_def)
    from less [OF dec] obtain n cur pend where n: "n \<le> step_measure planKey v (advance eff planKey v subs)"
      "nextSubscriptionStep ((advance eff planKey v ^^ n) (advance eff planKey v subs)) planKey v = StepNone cur pend"
      by blast
    have "(advance eff planKey v ^^ Suc n) subs = (advance eff planKey v ^^ n) (advance eff planKey v subs)"
      by (simp add: funpow_Suc_right del: funpow.simps)
    with n dec show ?thesis by (intro exI [of _ "Suc n"]) auto
  qed
qed

text \<open>
  C34. The decisions converge: against a server that applies each mutation as documented,
  following \<open>nextSubscriptionStep\<close> reaches a state with nothing left to do after at most two
  mutations more than there are scheduled subscriptions; so without scheduled ones the
  loop's four rounds are enough. (With several strays they are not: the call then reports a
  transient error and the next call continues.)
\<close>

theorem nextSubscriptionStep_converges:
  assumes "documented eff planKey v"
  shows "\<exists>n \<le> length (scheduled_of subs) + 2. \<exists>cur pend.
    nextSubscriptionStep ((advance eff planKey v ^^ n) subs) planKey v = StepNone cur pend"
proof -
  have "step_measure planKey v subs \<le> length (scheduled_of subs) + 2"
    by (simp add: step_measure_def split: option.splits)
  with converges [OF assms, of subs] show ?thesis by (meson order_trans)
qed

text \<open>A server that behaves as documented, on the live part of the list.\<close>

definition fresh_subscription :: "go_string \<Rightarrow> int \<Rightarrow> om_subscription" where
  "fresh_subscription planKey v = \<lparr>sub_id = ''new'', sub_status = SubscriptionStatusActive,
     sub_plan = Some \<lparr>pr_id = ''plan'', pr_key = planKey, pr_version = v\<rparr>, sub_active_from = 0,
     sub_active_to = None, sub_deleted_at = None, sub_currency = ''USD'', sub_cadence = ''P1M'', sub_billing_anchor = None\<rparr>"

definition sample_eff :: "go_string \<Rightarrow> int \<Rightarrow> subscription_step \<Rightarrow> om_subscription list \<Rightarrow> om_subscription list" where
  "sample_eff planKey v step subs =
    (case step of
       StepDeleteScheduled s \<Rightarrow> (case current_of subs of None \<Rightarrow> [] | Some c \<Rightarrow> [c]) @ remove1 s (scheduled_of subs)
     | StepRestore c \<Rightarrow> [c\<lparr>sub_status := SubscriptionStatusActive\<rparr>]
     | _ \<Rightarrow> fresh_subscription planKey v # scheduled_of subs)"

lemma scheduled_only:
  assumes "set xs \<subseteq> set (scheduled_of subs)" and "sorted (map sub_active_from xs)"
  shows "scheduled_of xs = xs" "current_of xs = None"
proof -
  have st: "sub_status s = SubscriptionStatusScheduled" if "s \<in> set xs" for s
    using assms(1) that by (auto simp: scheduled_of_def)
  then show "scheduled_of xs = xs"
    using assms(2) by (simp add: scheduled_of_def sort_key_id_if_sorted)
  show "current_of xs = None"
    using st by (auto simp: current_of_def find_None_iff is_current_def)
qed

lemma scheduled_of_Cons: "is_current c \<Longrightarrow> scheduled_of (c # xs) = scheduled_of xs"
  by (auto simp: scheduled_of_def is_current_def)

lemma current_of_Cons: "current_of (c # xs) = (if is_current c then Some c else current_of xs)"
  by (simp add: current_of_def)

lemma sorted_scheduled: "sorted (map sub_active_from (scheduled_of subs))"
  by (simp add: scheduled_of_def)

lemma sample_eff_documented: "documented (sample_eff planKey v) planKey v"
proof -
  have fresh: "is_current (fresh_subscription planKey v)" "sub_matches planKey v (fresh_subscription planKey v)"
    "sub_status (fresh_subscription planKey v) = SubscriptionStatusActive"
    by (simp_all add: fresh_subscription_def is_current_def sub_matches_def)
  note whole = scheduled_only [OF subset_refl sorted_scheduled]
  have new: "current_of (fresh_subscription planKey v # scheduled_of subs) = Some (fresh_subscription planKey v)"
    "scheduled_of (fresh_subscription planKey v # scheduled_of subs) = scheduled_of subs" for subs
    using fresh whole [of subs] by (simp_all add: current_of_Cons scheduled_of_Cons)
  have rem: "scheduled_of (remove1 s (scheduled_of subs)) = remove1 s (scheduled_of subs)"
    "current_of (remove1 s (scheduled_of subs)) = None" for s subs
    by (rule scheduled_only [of _ subs]; simp add: set_remove1_subset sorted_map_remove1 sorted_scheduled)+
  have del: "current_of ((case current_of subs of None \<Rightarrow> [] | Some c \<Rightarrow> [c]) @ remove1 s (scheduled_of subs)) = current_of subs"
    "scheduled_of ((case current_of subs of None \<Rightarrow> [] | Some c \<Rightarrow> [c]) @ remove1 s (scheduled_of subs)) = remove1 s (scheduled_of subs)"
    for s subs
    using rem [of s subs] current_of_status [of subs]
    by (auto simp: current_of_Cons scheduled_of_Cons is_current_def split: option.splits)
  show ?thesis
    unfolding documented_def
    using fresh new del
    by (auto simp: sample_eff_def current_of_Cons scheduled_of_Cons is_current_def scheduled_of_def [of "[]"])
qed

theorem nextSubscriptionStep_converges_witness:
  "\<exists>n \<le> length (scheduled_of [fresh_subscription ''other'' 1]) + 2. \<exists>cur pend.
    nextSubscriptionStep ((advance (sample_eff ''pro'' 2) ''pro'' 2 ^^ n) [fresh_subscription ''other'' 1]) ''pro'' 2 = StepNone cur pend"
  by (rule nextSubscriptionStep_converges [OF sample_eff_documented])

section \<open>What a call does\<close>

text \<open>The requests that change subscriptions.\<close>

fun mutates :: "request \<Rightarrow> bool" where
  "mutates (ReqCreateSubscription _) = True"
| "mutates (ReqDeleteSubscription _) = True"
| "mutates (ReqRestoreSubscription _) = True"
| "mutates (ReqChangeSubscription _ _) = True"
| "mutates (ReqChangeSubscriptionV3 _ _) = True"
| "mutates (ReqMigrateSubscription _ _ _) = True"
| "mutates (ReqUnscheduleCancelation _) = True"
| "mutates (ReqCancelSubscription _ _) = True"
| "mutates _ = False"

text \<open>An operation that sends at most \<open>n\<close> mutations.\<close>

definition mutations :: "nat \<Rightarrow> 'a api \<Rightarrow> bool" where
  "mutations n m \<longleftrightarrow> (\<forall>t. \<exists>u. snd (m t) = t @ u \<and> length (filter mutates (sent u)) \<le> n)"

lemma mutations_and_then:
  assumes "mutations a m" and "\<And>x. mutations b (f x)"
  shows "mutations (a + b) (and_then m f)"
  unfolding mutations_def
proof
  fix t
  obtain r t1 where m: "m t = (r, t1)" by force
  obtain u where u: "t1 = t @ u" "length (filter mutates (sent u)) \<le> a"
    using assms(1) m unfolding mutations_def by (metis snd_conv)
  show "\<exists>u. snd (and_then m f t) = t @ u \<and> length (filter mutates (sent u)) \<le> a + b"
  proof (cases r)
    case (Inl e)
    with m u show ?thesis by (simp add: and_then_def trans_le_add1)
  next
    case (Inr x)
    obtain v where "snd (f x t1) = t1 @ v" "length (filter mutates (sent v)) \<le> b"
      using assms(2) [of x] unfolding mutations_def by blast
    with m u Inr show ?thesis by (intro exI [of _ "u @ v"]) (auto simp: and_then_def)
  qed
qed

lemma mutations_mono: "mutations a m \<Longrightarrow> a \<le> b \<Longrightarrow> mutations b m"
  unfolding mutations_def by (meson order_trans)

lemma mutations_simps [simp]: "mutations n (ret x)" "mutations n (fail e)"
  by (simp_all add: mutations_def ret_def fail_def)

lemma mutations_adds: "adds (\<lambda>q. \<not> mutates q) m \<Longrightarrow> mutations 0 m"
  unfolding adds_def mutations_def by (metis filter_False list.size(3) order_refl)

lemma adds_checked_subscription: "adds P (checked_subscription r)"
  by (simp add: checked_subscription_def split: option.splits)

lemma mutations_v1_call: "mutations 1 (v1_call srv q)"
  by (auto simp: mutations_def v1_call_def call_def split: sum.splits)

lemma mutations_checked: "mutations 0 (checked_subscription r)"
  by (simp add: checked_subscription_def split: option.splits)

lemma mutations_wrapping: "mutations n m \<Longrightarrow> mutations n (wrapping msg m)"
  unfolding mutations_def wrapping_def
  by (auto split: prod.splits sum.splits) (metis snd_conv)+

lemma mutations_apply: "mutations 1 (applySubscriptionStep srv desired step active)"
proof -
  have call: "mutations 1 (subscription_call srv q)" for q
    using mutations_and_then [OF mutations_v1_call mutations_checked] by (simp add: subscription_call_def)
  have del: "mutations 1 (delete_call srv i)" for i
  proof -
    have "mutations (1 + 0) (delete_call srv i)"
      unfolding delete_call_def by (rule mutations_and_then [OF mutations_v1_call]) (simp add: mutations_checked)
    then show ?thesis by simp
  qed
  have v3: "mutations 1 (changeSubscriptionV3 srv desired target atime b v)" for target atime b v
    unfolding mutations_def
  proof
    fix t
    let ?q = "ReqChangeSubscriptionV3 (sub_id target) (change_v3_body desired target atime b v)"
    obtain st err bd t' where v: "v3_do srv ?q False t = ((st, err, bd), t')" by (metis prod.collapse)
    with v3_do_trace [of srv ?q False t] have "t' = t @ [(?q, srv t ?q)]" by simp
    then show "\<exists>u. snd (changeSubscriptionV3 srv desired target atime b v t) = t @ u \<and> length (filter mutates (sent u)) \<le> 1"
      using v by (auto simp: changeSubscriptionV3_def split: option.splits)
  qed
  show ?thesis
    using call del v3 by (auto simp: applySubscriptionStep_def split: subscription_step.splits)
qed

lemma mutations_list: "mutations 0 (ListSubscriptions fuel srv key)"
proof -
  have "adds (\<lambda>q. \<not> mutates q) (listSubscriptions_from srv key fuel n all)" for n all
    by (induction fuel arbitrary: n all)
       (auto simp: subscriptions_page_def intro!: adds_and_then adds_v1_call split: option.splits body.splits)
  then show ?thesis unfolding ListSubscriptions_def by (rule mutations_adds)
qed

lemma mutations_period: "mutations 0 (currentBillingPeriod srv i)"
  unfolding currentBillingPeriod_def
  by (rule mutations_adds)
     (auto intro!: adds_and_then adds_v1_call adds_checked_subscription split: option.splits body.splits)

lemma mutations_ensure: "mutations k (ensure_steps fuel srv desired active now k)"
proof (induction k)
  case (Suc k)
  have one: "mutations (Suc k) (and_then (apply_named srv desired step active)
      (\<lambda>_. ensure_steps fuel srv desired active now k))" for step
    using mutations_and_then [OF mutations_wrapping [OF mutations_apply] Suc] by (simp add: apply_named_def)
  have period: "mutations (Suc k) (and_then (wrapping ''get billing period'' (currentBillingPeriod srv (sub_id target))) f)"
    if "\<And>p. mutations (Suc k) (f p)" for target and f :: "_ \<Rightarrow> subscription_state api"
    using mutations_and_then [OF mutations_wrapping [OF mutations_period], of "Suc k" f] that by simp
  have "mutations (0 + Suc k) (ensure_steps fuel srv desired active now (Suc k))"
    unfolding ensure_steps.simps
    by (rule mutations_and_then [OF mutations_list])
       (auto simp: one intro!: period split: subscription_step.splits prod.splits option.splits)
  then show ?case by simp
qed simp

lemma ensure_steps_state:
  "ensure_steps fuel srv desired active now k t = (Inr st, t') \<Longrightarrow>
   \<exists>ta subs tb. ListSubscriptions fuel srv (ds_customer_key desired) ta = (Inr subs, tb) \<and>
     (nextSubscriptionStep subs (ds_plan_key desired) (pl_version active) = StepNone (st_current st) (st_pending st)
        \<and> st_change_at st = None \<and> t' = tb
      \<or> nextSubscriptionStep subs (ds_plan_key desired) (pl_version active) = StepChange (st_current st) None
        \<and> ds_change_at_period_end desired \<and> st_change_at st \<noteq> None) \<and> st_plan_version st = pl_version active"
proof (induction k arbitrary: t)
  case 0
  then show ?case by (simp add: fail_def)
next
  case (Suc k)
  from Suc.prems obtain subs tb where l: "ListSubscriptions fuel srv (ds_customer_key desired) t = (Inr subs, tb)"
    by (auto simp: and_then_Inr)
  let ?step = "nextSubscriptionStep subs (ds_plan_key desired) (pl_version active)"
  have again: "?case" if "and_then (apply_named srv desired step active) (\<lambda>_. ensure_steps fuel srv desired active now k) t1 = (Inr st, t')"
    for step t1
    using that Suc.IH by (auto simp: and_then_Inr)
  show ?case
  proof (cases ?step)
    case (StepNone cur pend)
    with Suc.prems l show ?thesis
      by (intro exI [of _ t] exI [of _ subs] exI [of _ tb]) (auto simp: and_then_def ret_def)
  next
    case (StepChange target atime)
    have at: "atime = None"
      using StepChange by (auto simp: nextSubscriptionStep_def Let_def split: option.splits list.splits if_splits)
    show ?thesis
    proof (cases "ds_change_at_period_end desired")
      case False
      with Suc.prems l StepChange show ?thesis by (intro again [of "StepChange target None" tb]) (simp add: and_then_def)
    next
      case True
      with Suc.prems l StepChange obtain period tc where p:
        "wrapping ''get billing period'' (currentBillingPeriod srv (sub_id target)) tb = (Inr period, tc)"
        "(case periodChangeTime target period now (ds_change_due desired) of
            (_, Some wait) \<Rightarrow> ret \<lparr>st_current = target, st_pending = None, st_plan_version = pl_version active, st_change_at = Some wait\<rparr>
          | (at', None) \<Rightarrow> and_then (apply_named srv desired (StepChange target at') active)
              (\<lambda>_. ensure_steps fuel srv desired active now k)) tc = (Inr st, t')"
        by (auto simp: and_then_Inr and_then_def [of "ListSubscriptions _ _ _"])
      obtain a w where aw: "periodChangeTime target period now (ds_change_due desired) = (a, w)" by force
      show ?thesis
      proof (cases w)
        case None
        with p(2) aw show ?thesis by (intro again [of "StepChange target a" tc]) simp
      next
        case (Some wt)
        with p(2) aw l StepChange at True show ?thesis
          by (intro exI [of _ t] exI [of _ subs] exI [of _ tb]) (auto simp: ret_def)
      qed
    qed
  next
    case StepCreate
    with Suc.prems l show ?thesis
      by (intro again [of StepCreate tb]) (simp add: and_then_def [of "ListSubscriptions _ _ _"])
  next
    case (StepDeleteScheduled s)
    with Suc.prems l show ?thesis
      by (intro again [of "StepDeleteScheduled s" tb]) (simp add: and_then_def [of "ListSubscriptions _ _ _"])
  next
    case (StepRestore s)
    with Suc.prems l show ?thesis
      by (intro again [of "StepRestore s" tb]) (simp add: and_then_def [of "ListSubscriptions _ _ _"])
  next
    case (StepMigrate s)
    with Suc.prems l show ?thesis
      by (intro again [of "StepMigrate s" tb]) (simp add: and_then_def [of "ListSubscriptions _ _ _"])
  qed
qed



section \<open>Cancelation\<close>

definition delete_requests :: "om_subscription list \<Rightarrow> request list" where
  "delete_requests subs = map (ReqDeleteSubscription \<circ> sub_id) (filter (\<lambda>s. sub_status s = SubscriptionStatusScheduled) subs)"

definition cancel_requests :: "om_subscription list \<Rightarrow> request list" where
  "cancel_requests subs = concat (map (\<lambda>s. case sub_status s of
       SubscriptionStatusCanceled \<Rightarrow> [ReqUnscheduleCancelation (sub_id s), ReqCancelSubscription (sub_id s) TimingImmediate]
     | SubscriptionStatusActive \<Rightarrow> [ReqCancelSubscription (sub_id s) TimingImmediate]
     | _ \<Rightarrow> []) subs)"

text \<open>An operation that sends a prefix of the given requests, all of them when it succeeds.\<close>

definition sends :: "request list \<Rightarrow> 'a api \<Rightarrow> bool" where
  "sends qs m \<longleftrightarrow> (\<forall>t. \<exists>u. snd (m t) = t @ u \<and> prefix (sent u) qs \<and> (\<not> isl (fst (m t)) \<longrightarrow> sent u = qs))"

lemma sends_and_then:
  assumes "sends qs m" and "\<And>x. sends rs (f x)"
  shows "sends (qs @ rs) (and_then m f)"
  unfolding sends_def
proof
  fix t
  obtain r t1 where m: "m t = (r, t1)" by force
  obtain u where u: "t1 = t @ u" "prefix (sent u) qs" "\<not> isl r \<longrightarrow> sent u = qs"
    using assms(1) m unfolding sends_def by (metis fst_conv snd_conv)
  show "\<exists>u. snd (and_then m f t) = t @ u \<and> prefix (sent u) (qs @ rs) \<and> (\<not> isl (fst (and_then m f t)) \<longrightarrow> sent u = qs @ rs)"
  proof (cases r)
    case (Inl e)
    with m u show ?thesis by (auto simp: and_then_def)
  next
    case (Inr x)
    obtain v where "snd (f x t1) = t1 @ v" "prefix (sent v) rs" "\<not> isl (fst (f x t1)) \<longrightarrow> sent v = rs"
      using assms(2) [of x] unfolding sends_def by blast
    with m u Inr show ?thesis by (intro exI [of _ "u @ v"]) (auto simp: and_then_def)
  qed
qed

lemma sends_simps: "sends [] (ret x)" "sends [] (fail e)" "sends [q] (v1_call srv q)"
  by (auto simp: sends_def ret_def fail_def v1_call_def call_def split: sum.splits)

lemma sends_wrapping: "sends qs m \<Longrightarrow> sends qs (wrapping msg m)"
proof -
  assume s: "sends qs m"
  have "\<exists>u. snd (wrapping msg m t) = t @ u \<and> prefix (sent u) qs \<and> (\<not> isl (fst (wrapping msg m t)) \<longrightarrow> sent u = qs)" for t
  proof -
    obtain r t1 where m: "m t = (r, t1)" by force
    then obtain u where "t1 = t @ u" "prefix (sent u) qs" "\<not> isl r \<longrightarrow> sent u = qs"
      using s unfolding sends_def by (metis fst_conv snd_conv)
    with m show ?thesis by (cases r) (auto simp: wrapping_def)
  qed
  then show ?thesis by (simp add: sends_def)
qed

lemma sends_checked: "sends [] (checked_subscription r)"
  by (simp add: checked_subscription_def sends_simps split: option.splits)

lemma sends_delete: "sends (delete_requests subs) (delete_scheduled srv subs)"
proof (induction subs)
  case (Cons s ss)
  have one: "sends ([ReqDeleteSubscription (sub_id s)] @ []) (and_then (v1_call srv (ReqDeleteSubscription (sub_id s))) (\<lambda>r.
            if status_code (rp_http r) = 404 then ret ()
            else wrapping (''delete scheduled subscription '' @ sub_id s) (checked_subscription r)))"
    by (rule sends_and_then [OF sends_simps(3)]) (simp add: sends_simps sends_wrapping sends_checked)
  show ?case
    using sends_and_then [OF one Cons] Cons by (simp add: delete_requests_def)
qed (simp add: delete_requests_def sends_simps)

lemma sends_cancel: "sends (cancel_requests subs) (cancel_live srv subs)"
proof (induction subs)
  case (Cons s ss)
  have call: "sends [q] (named_call srv msg q)" for msg q
  proof -
    have "sends ([q] @ []) (named_call srv msg q)"
      unfolding named_call_def by (rule sends_and_then [OF sends_simps(3)]) (rule sends_wrapping [OF sends_checked])
    then show ?thesis by simp
  qed
  note cancel = sends_and_then [OF call Cons]
  show ?case
  proof (cases "sub_status s")
    case SubscriptionStatusCanceled
    have "sends ([ReqUnscheduleCancelation (sub_id s)] @ ([ReqCancelSubscription (sub_id s) TimingImmediate] @ cancel_requests ss))
      (and_then (named_call srv (''continue subscription '' @ sub_id s @ '' before canceling'') (ReqUnscheduleCancelation (sub_id s)))
        (\<lambda>_. and_then (named_call srv (''cancel subscription '' @ sub_id s) (ReqCancelSubscription (sub_id s) TimingImmediate))
           (\<lambda>_. cancel_live srv ss)))"
      by (rule sends_and_then [OF call cancel])
    with SubscriptionStatusCanceled show ?thesis by (simp add: cancel_requests_def Let_def)
  next
    case SubscriptionStatusActive
    with cancel show ?thesis by (simp add: cancel_requests_def Let_def)
  qed (use Cons in \<open>simp_all add: cancel_requests_def\<close>)
qed (simp add: cancel_requests_def sends_simps)

text \<open>
  Cancelation is complete and ordered: after listing the customer's subscriptions, the
  scheduled ones are deleted before anything else, then every live one is canceled
  immediately, a canceled one after its cancelation was taken back; the requests stop at
  the first error, and success means all of them were sent. A missing customer is success
  with no request.
\<close>

theorem CancelSubscriptions_complete:
  assumes "key \<noteq> []"
  shows "case ListSubscriptions fuel srv key t of
     (Inl e, t1) \<Rightarrow> CancelSubscriptions fuel srv key t = (if errors_is e ErrCustomerNotFound then Inr () else Inl e, t1)
   | (Inr subs, t1) \<Rightarrow> \<exists>u. snd (CancelSubscriptions fuel srv key t) = t1 @ u \<and>
       prefix (sent u) (delete_requests subs @ cancel_requests subs) \<and>
       (fst (CancelSubscriptions fuel srv key t) = Inr () \<longrightarrow> sent u = delete_requests subs @ cancel_requests subs)"
proof -
  obtain r t1 where l: "ListSubscriptions fuel srv key t = (r, t1)" by force
  show ?thesis
  proof (cases r)
    case (Inl e)
    with assms l show ?thesis by (simp add: CancelSubscriptions_def)
  next
    case (Inr subs)
    have s: "sends (delete_requests subs @ cancel_requests subs) (and_then (delete_scheduled srv subs) (\<lambda>_. cancel_live srv subs))"
      by (rule sends_and_then [OF sends_delete sends_cancel])
    have "CancelSubscriptions fuel srv key t = and_then (delete_scheduled srv subs) (\<lambda>_. cancel_live srv subs) t1"
      using assms l Inr by (simp add: CancelSubscriptions_def)
    moreover obtain u where "snd (and_then (delete_scheduled srv subs) (\<lambda>_. cancel_live srv subs) t1) = t1 @ u"
      "prefix (sent u) (delete_requests subs @ cancel_requests subs)"
      "\<not> isl (fst (and_then (delete_scheduled srv subs) (\<lambda>_. cancel_live srv subs) t1)) \<longrightarrow>
        sent u = delete_requests subs @ cancel_requests subs"
      using s unfolding sends_def by blast
    ultimately show ?thesis using l Inr by simp
  qed
qed

theorem CancelSubscriptions_complete_witness:
  "CancelSubscriptions 0 (\<lambda>_ _. Inl []) ''acct'' [] = (Inl Unfinished, [])"
  using CancelSubscriptions_complete [of "''acct''" 0 "\<lambda>_ _. Inl []" "[]"]
  by (simp add: ListSubscriptions_def fail_def errors_is_def)

section \<open>What the operations send\<close>

lemma adds_ListSubscriptions: "(\<And>n. P (ReqListSubscriptions key n)) \<Longrightarrow> adds P (ListSubscriptions fuel srv key)"
proof -
  assume P: "\<And>n. P (ReqListSubscriptions key n)"
  have "adds P (listSubscriptions_from srv key fuel n all)" for n all
    using P by (induction fuel arbitrary: n all)
      (auto simp: subscriptions_page_def intro!: adds_and_then adds_v1_call split: option.splits body.splits)
  then show ?thesis by (simp add: ListSubscriptions_def)
qed

lemma adds_CancelSubscriptions:
  assumes "\<And>n. P (ReqListSubscriptions key n)" "\<And>i. P (ReqDeleteSubscription i)"
    "\<And>i tm. P (ReqCancelSubscription i tm)" "\<And>i. P (ReqUnscheduleCancelation i)"
  shows "adds P (CancelSubscriptions fuel srv key)"
proof -
  have del: "adds P (delete_scheduled srv ss)" for ss
    using assms(2) by (induction ss) (auto intro!: adds_if adds_and_then adds_v1_call adds_wrapping adds_checked_subscription)
  have call: "adds P (named_call srv msg q)" if "P q" for msg q
    unfolding named_call_def using that by (auto intro!: adds_and_then adds_v1_call adds_wrapping adds_checked_subscription)
  have live: "adds P (cancel_live srv ss)" for ss
    using assms(3,4) by (induction ss) (auto simp: Let_def intro!: adds_and_then call split: subscription_status.splits)
  have rest: "adds P (and_then (delete_scheduled srv ss) (\<lambda>_. cancel_live srv ss))" for ss
    by (intro adds_and_then del live)
  have "\<exists>u. snd (case ListSubscriptions fuel srv key t of
       (Inl e, t') \<Rightarrow> if errors_is e ErrCustomerNotFound then (Inr (), t') else (Inl e, t')
     | (Inr subs, t') \<Rightarrow> and_then (delete_scheduled srv subs) (\<lambda>_. cancel_live srv subs) t') = t @ u \<and> (\<forall>q \<in> set (sent u). P q)" for t
  proof -
    obtain x t1 u where l: "ListSubscriptions fuel srv key t = (x, t1)" "t1 = t @ u" "\<forall>q \<in> set (sent u). P q"
      using adds_ListSubscriptions [of P key fuel srv] assms(1) unfolding adds_def by (metis prod.collapse)
    then show ?thesis using rest unfolding adds_def by (cases x) (auto, metis Un_iff append.assoc sent_simps(3) set_append)
  qed
  then show ?thesis by (simp add: CancelSubscriptions_def adds_def fail_def)
qed

end
