(* ===== verification/Spend.thy ===== *)
theory Spend
  imports GoTime UsageSeries Features Subscriptions "HOL-Library.Multiset"
begin

text \<open>
  What a query's usage costs (\<open>internal/registry/usagequery/spend.go\<close> and \<open>PriceUsage\<close> of
  \<open>internal/openmeter/pricing.go\<close>).

  Outside the repository and so parameters, in the record \<open>spend_env\<close>: the server behind
  the client, \<open>alpacadecimal\<close>'s conversions, OpenMeter's rating engine (\<open>se_rater\<close>) and its
  recurrence of billing periods (\<open>se_periods\<close>: the cadence and anchor to \<open>GetPeriodAt\<close>).
  Decimal sums are exact, so a decimal is a rational. The billing accounts and the ranges
  are worked on concurrently; the totals are updated in the order of completion, which is
  the parameter \<open>arrive\<close>.
\<close>

section \<open>Pricing\<close>

record usage_to_price =
  tp_price :: "rated_price option"
  tp_unit_config :: "rated_unit_config option"
  tp_discounts :: "int option"
  tp_currency :: go_string
  tp_from :: int
  tp_to :: int
  tp_quantity :: rat
  tp_pre_quantity :: rat

record standard_line =
  ln_currency :: go_string
  ln_period_from :: int
  ln_period_to :: int
  ln_invoice_at :: int
  ln_discounts :: "int option"
  ln_price :: rated_price
  ln_quantity :: rat
  ln_metered_quantity :: rat
  ln_pre_quantity :: rat
  ln_metered_pre_quantity :: rat
  ln_unit_config :: "rated_unit_config option"

record rated_totals =
  tt_amount :: rat
  tt_charges_total :: rat
  tt_discounts_total :: rat

definition PriceUsage :: "(standard_line \<Rightarrow> rated_totals res) \<Rightarrow> usage_to_price \<Rightarrow> rat res" where
  "PriceUsage rater u =
    (case tp_price u of
       None \<Rightarrow> Inl (Leaf ''rate card has no price'')
     | Some price \<Rightarrow>
       (case rater \<lparr>ln_currency = tp_currency u, ln_period_from = tp_from u, ln_period_to = tp_to u,
            ln_invoice_at = tp_to u, ln_discounts = tp_discounts u, ln_price = price,
            ln_quantity = tp_quantity u, ln_metered_quantity = tp_quantity u,
            ln_pre_quantity = tp_pre_quantity u, ln_metered_pre_quantity = tp_pre_quantity u,
            ln_unit_config = tp_unit_config u\<rparr> of
          Inl e \<Rightarrow> Inl (Wrap ''rate usage'' [e])
        | Inr t \<Rightarrow> Inr (tt_amount t + tt_charges_total t - tt_discounts_total t)))"

section \<open>Ranges\<close>

record spend_env =
  se_server :: server
  se_fuel :: nat
  se_decimal :: "go_string \<Rightarrow> rat option"
  se_unit_config_valid :: "rated_unit_config \<Rightarrow> go_error option"
  se_periods :: "go_string \<Rightarrow> int option \<Rightarrow> (int \<Rightarrow> (int \<times> int) res) res"
  se_period_fuel :: nat
  se_rater :: "standard_line \<Rightarrow> rated_totals res"
  se_from_float :: "float64 \<Rightarrow> rat"
  se_decimal_string :: "rat \<Rightarrow> go_string"

record priced_range =
  rg_plan :: nat
  rg_customer :: go_string
  rg_currency :: go_string
  rg_price :: rated_price
  rg_unit_config :: "rated_unit_config option"
  rg_filters :: filter_map
  rg_discounts :: "int option"
  rg_from :: int
  rg_to :: int
  rg_earlier_from :: int

definition overlaps :: "int \<Rightarrow> int option \<Rightarrow> int \<Rightarrow> int \<Rightarrow> bool" where
  "overlaps active_from active_to start stop \<longleftrightarrow>
    active_from < stop \<and> (case active_to of None \<Rightarrow> True | Some x \<Rightarrow> start < x)"

definition latest :: "int \<Rightarrow> int list \<Rightarrow> int" where
  "latest first rest = fold (\<lambda>t out. if out < t then t else out) rest first"

text \<open>
  The loop of \<open>cardRanges\<close>. It moves on only if every period ends after the instant it was
  asked for, so it has fuel; \<open>mk\<close> fills in the fields the parts share.
\<close>

fun card_parts ::
  "nat \<Rightarrow> (int \<Rightarrow> (int \<times> int) res) \<Rightarrow> (int \<Rightarrow> int \<Rightarrow> int \<Rightarrow> priced_range) \<Rightarrow> int \<Rightarrow> int \<Rightarrow> int \<Rightarrow> priced_range list res" where
  "card_parts 0 period mk active_from to t = Inl Unfinished"
| "card_parts (Suc fuel) period mk active_from to t =
    (if \<not> t < to then Inr []
     else case period t of
       Inl e \<Rightarrow> Inl (Wrap ''billing period'' [e])
     | Inr (pfrom, pto) \<Rightarrow>
       (let part_end = (if pto < to then pto else to);
            r = mk (truncate_second t) (truncate_second part_end) (truncate_second (latest pfrom [active_from]))
        in case card_parts fuel period mk active_from to part_end of
          Inl e \<Rightarrow> Inl e
        | Inr rs \<Rightarrow> Inr (if rg_from r < rg_to r then r # rs else rs)))"

definition active_to_of :: "om_subscription \<Rightarrow> int \<Rightarrow> int" where
  "active_to_of sub stop = (case sub_active_to sub of None \<Rightarrow> stop | Some x \<Rightarrow> if x < stop then x else stop)"

definition part_of :: "om_subscription \<Rightarrow> usage_rate_card \<Rightarrow> nat \<Rightarrow> int \<Rightarrow> int \<Rightarrow> int \<Rightarrow> priced_range" where
  "part_of sub rc plan a b earlier =
    \<lparr>rg_plan = plan, rg_customer = [], rg_currency = sub_currency sub, rg_price = ur_price rc,
     rg_unit_config = ur_unit_config rc, rg_filters = ur_filters rc, rg_discounts = ur_discounts rc,
     rg_from = a, rg_to = b, rg_earlier_from = earlier\<rparr>"

definition cardRanges ::
  "spend_env \<Rightarrow> om_subscription \<Rightarrow> usage_rate_card \<Rightarrow> (go_string \<Rightarrow> nat option) \<Rightarrow> int \<Rightarrow> int \<Rightarrow> priced_range list res" where
  "cardRanges env sub rc planBySlug start stop =
    (case planBySlug (ur_meter rc) of
       None \<Rightarrow> Inr []
     | Some plan \<Rightarrow>
       (let from_time = latest (sub_active_from sub) [start]; to = active_to_of sub stop in
        if \<not> from_time < to then Inr []
        else let cadence = (if ur_cadence rc \<noteq> [] then ur_cadence rc else sub_cadence sub) in
          case se_periods env cadence (sub_billing_anchor sub) of
            Inl e \<Rightarrow> Inl (Wrap (''billing cadence '' @ cadence) [e])
          | Inr period \<Rightarrow>
              card_parts (se_period_fuel env) period (part_of sub rc plan) (sub_active_from sub) to from_time))"

text \<open>\<open>planRateCards\<close>: each plan version is read once per query.\<close>

type_synonym card_cache = "(go_string \<times> usage_rate_card list) list"

definition planRateCards :: "spend_env \<Rightarrow> go_string \<Rightarrow> card_cache \<Rightarrow> (usage_rate_card list \<times> card_cache) api" where
  "planRateCards env planID cache =
    (case map_of cache planID of
       Some cards \<Rightarrow> ret (cards, cache)
     | None \<Rightarrow>
       and_then (PlanUsageRateCards (se_decimal env) (se_unit_config_valid env) (se_fuel env) (se_server env) planID)
         (\<lambda>cards. ret (cards, (planID, cards) # cache)))"

fun ranges_of_cards ::
  "spend_env \<Rightarrow> om_subscription \<Rightarrow> (go_string \<Rightarrow> nat option) \<Rightarrow> int \<Rightarrow> int \<Rightarrow> go_string \<Rightarrow> usage_rate_card list \<Rightarrow>
   priced_range list res" where
  "ranges_of_cards env sub planBySlug start stop customer [] = Inr []"
| "ranges_of_cards env sub planBySlug start stop customer (rc # cards) =
    (case cardRanges env sub rc planBySlug start stop of
       Inl e \<Rightarrow> Inl (Wrap (''subscription '' @ sub_id sub @ '' rate card '' @ ur_key rc) [e])
     | Inr ranges \<Rightarrow>
       (case ranges_of_cards env sub planBySlug start stop customer cards of
          Inl e \<Rightarrow> Inl e
        | Inr others \<Rightarrow> Inr (map (\<lambda>r. r\<lparr>rg_customer := customer\<rparr>) ranges @ others)))"

definition billable :: "om_subscription \<Rightarrow> int \<Rightarrow> int \<Rightarrow> bool" where
  "billable sub start stop \<longleftrightarrow> sub_deleted_at sub = None \<and> sub_plan sub \<noteq> None \<and>
    overlaps (sub_active_from sub) (sub_active_to sub) start stop"

fun ranges_of_subs ::
  "spend_env \<Rightarrow> (go_string \<Rightarrow> nat option) \<Rightarrow> int \<Rightarrow> int \<Rightarrow> go_string \<Rightarrow> om_subscription list \<Rightarrow> card_cache \<Rightarrow>
   (priced_range list \<times> card_cache) api" where
  "ranges_of_subs env planBySlug start stop customer [] cache = ret ([], cache)"
| "ranges_of_subs env planBySlug start stop customer (sub # subs) cache =
    (if \<not> billable sub start stop then ranges_of_subs env planBySlug start stop customer subs cache
     else and_then (wrapping (''subscription '' @ sub_id sub) (planRateCards env (pr_id (the (sub_plan sub))) cache))
       (\<lambda>(cards, cache').
         case ranges_of_cards env sub planBySlug start stop customer cards of
           Inl e \<Rightarrow> fail e
         | Inr ranges \<Rightarrow>
           and_then (ranges_of_subs env planBySlug start stop customer subs cache')
             (\<lambda>(others, cache''). ret (ranges @ others, cache''))))"

definition customerRanges ::
  "spend_env \<Rightarrow> usage_query_spec \<Rightarrow> account_customer \<Rightarrow> (go_string \<Rightarrow> nat option) \<Rightarrow> card_cache \<Rightarrow>
   (priced_range list \<times> card_cache) api" where
  "customerRanges env spec customer planBySlug cache t =
    (case ListSubscriptions (se_fuel env) (se_server env) (ac_key customer) t of
       (Inl e, t') \<Rightarrow> if errors_is e ErrCustomerNotFound then (Inr ([], cache), t') else (Inl e, t')
     | (Inr subs, t') \<Rightarrow> ranges_of_subs env planBySlug (us_start spec) (us_end spec) (ac_id customer) subs cache t')"

definition plan_by_slug :: "meter_plan list \<Rightarrow> go_string \<Rightarrow> nat option" where
  "plan_by_slug plans = map_of (rev (zip (map mp_slug plans) [0 ..< length plans]))"

fun ranges_of_customers ::
  "spend_env \<Rightarrow> usage_query_spec \<Rightarrow> (go_string \<Rightarrow> nat option) \<Rightarrow> account_customer list \<Rightarrow> card_cache \<Rightarrow> priced_range list api" where
  "ranges_of_customers env spec planBySlug [] cache = ret []"
| "ranges_of_customers env spec planBySlug (c # cs) cache =
    and_then (customerRanges env spec c planBySlug cache) (\<lambda>(ranges, cache').
    and_then (ranges_of_customers env spec planBySlug cs cache') (\<lambda>others. ret (ranges @ others)))"

definition pricedRanges :: "spend_env \<Rightarrow> usage_query_spec \<Rightarrow> account_customer list \<Rightarrow> meter_plan list \<Rightarrow> priced_range list api" where
  "pricedRanges env spec cs plans = ranges_of_customers env spec (plan_by_slug plans) cs []"

section \<open>Amounts\<close>

definition usage_query :: "go_string list \<Rightarrow> meter_plan \<Rightarrow> priced_range \<Rightarrow> int \<Rightarrow> int \<Rightarrow> meter_query res" where
  "usage_query projects plan r a b =
    (let q = \<lparr>mq_slug = mp_slug plan, mq_from = a, mq_to = b, mq_window = None, mq_time_zone = [],
              mq_customers = [rg_customer r], mq_group_by = [], mq_filter_group_by = [], mq_filters = rg_filters r\<rparr> in
     if projects \<noteq> [] then
       (case map_of (mp_keys plan) SystemDimensionProjectName of
          None \<Rightarrow> Inl (Sentinel ErrMeterLacksDimension)
        | Some key \<Rightarrow> Inr (q\<lparr>mq_filter_group_by := [(key, projects)]\<rparr>))
     else Inr q)"

definition usage_between :: "spend_env \<Rightarrow> go_string list \<Rightarrow> meter_plan \<Rightarrow> priced_range \<Rightarrow> int \<Rightarrow> int \<Rightarrow> rat api" where
  "usage_between env projects plan r a b =
    (case usage_query projects plan r a b of
       Inl e \<Rightarrow> fail e
     | Inr q \<Rightarrow>
       and_then (wrapping (''meter '' @ mm_name (mp_definition plan)) (QueryMeter (se_server env) q)) (\<lambda>rows.
         ret (\<Sum>row\<leftarrow>rows. se_from_float env (qr_value row))))"

definition priceRange :: "spend_env \<Rightarrow> go_string list \<Rightarrow> meter_plan \<Rightarrow> priced_range \<Rightarrow> rat api" where
  "priceRange env projects plan r =
    and_then (usage_between env projects plan r (rg_from r) (rg_to r)) (\<lambda>quantity.
      if quantity = 0 then ret 0
      else and_then
        (if PriceNeedsEarlierUsage (Some (rg_price r)) \<and> rg_earlier_from r < rg_from r
         then usage_between env projects plan r (rg_earlier_from r) (rg_from r) else ret 0) (\<lambda>earlier.
        case PriceUsage (se_rater env)
          \<lparr>tp_price = Some (rg_price r), tp_unit_config = rg_unit_config r, tp_discounts = rg_discounts r,
           tp_currency = rg_currency r, tp_from = rg_from r, tp_to = rg_to r, tp_quantity = quantity,
           tp_pre_quantity = earlier\<rparr> of
          Inl e \<Rightarrow> fail (Wrap (''meter '' @ mm_name (mp_definition plan)) [e])
        | Inr amount \<Rightarrow> ret amount))"

text \<open>Every range priced once; an error is the range's own outcome.\<close>

fun price_each ::
  "spend_env \<Rightarrow> go_string list \<Rightarrow> meter_plan list \<Rightarrow> priced_range list \<Rightarrow> exchanges \<Rightarrow>
   (priced_range \<times> rat res) list \<times> exchanges" where
  "price_each env projects plans [] t = ([], t)"
| "price_each env projects plans (r # rs) t =
    (case priceRange env projects (plans ! rg_plan r) r t of (x, t') \<Rightarrow>
     case price_each env projects plans rs t' of (xs, t'') \<Rightarrow> ((r, x) # xs, t''))"

record meter_spend_total =
  ms_currencies :: "go_string set"
  ms_amount :: rat
  ms_errs :: "go_string list"
  ms_priced :: bool

record spend_result =
  sd_spend :: "usage_spend option"
  sd_err :: go_string

definition add_outcome :: "priced_range \<times> rat res \<Rightarrow> meter_spend_total list \<Rightarrow> meter_spend_total list" where
  "add_outcome ro totals =
    (let i = rg_plan (fst ro); t = totals ! i in
     totals[i := (case snd ro of
        Inl e \<Rightarrow> t\<lparr>ms_errs := ms_errs t @ [error_text e]\<rparr>
      | Inr amount \<Rightarrow> t\<lparr>ms_amount := ms_amount t + amount\<rparr>)])"

definition mark_priced :: "priced_range \<Rightarrow> meter_spend_total list \<Rightarrow> meter_spend_total list" where
  "mark_priced r totals =
    (let i = rg_plan r; t = totals ! i in
     totals[i := t\<lparr>ms_priced := True, ms_currencies := insert (rg_currency r) (ms_currencies t)\<rparr>])"

definition spend_result_of :: "spend_env \<Rightarrow> meter_spend_total \<Rightarrow> spend_result" where
  "spend_result_of env t =
    (if ms_errs t \<noteq> [] then
       \<lparr>sd_spend = None, sd_err = ''could not price the usage: '' @ join ''; '' (remdups_adj (sort (ms_errs t)))\<rparr>
     else if \<not> ms_priced t then \<lparr>sd_spend = None, sd_err = []\<rparr>
     else if 1 < card (ms_currencies t) then
       \<lparr>sd_spend = None, sd_err = ''the billing accounts are billed in different currencies ('' @
          join '', '' (sorted_list_of_set (ms_currencies t)) @ '')''\<rparr>
     else \<lparr>sd_spend = Some \<lparr>sp_total = se_decimal_string env (ms_amount t),
             sp_currency = hd (sorted_list_of_set (ms_currencies t))\<rparr>, sd_err = []\<rparr>)"

definition no_spend :: meter_spend_total where
  "no_spend = \<lparr>ms_currencies = {}, ms_amount = 0, ms_errs = [], ms_priced = False\<rparr>"

definition spend_run ::
  "spend_env \<Rightarrow> usage_query_spec \<Rightarrow> account_customer list \<Rightarrow> go_string list \<Rightarrow>
   ((priced_range \<times> rat res) list \<Rightarrow> (priced_range \<times> rat res) list) \<Rightarrow> meter_plan list \<Rightarrow> exchanges \<Rightarrow>
   spend_result list \<times> exchanges" where
  "spend_run env spec cs projects arrive plans t =
    (case pricedRanges env spec cs plans t of
       (Inl e, t') \<Rightarrow>
         (replicate (length plans) \<lparr>sd_spend = None, sd_err = ''could not read the billing accounts' plans: '' @ error_text e\<rparr>, t')
     | (Inr ranges, t') \<Rightarrow>
       (case price_each env projects plans ranges t' of (outcomes, t'') \<Rightarrow>
        (map (spend_result_of env)
           (fold add_outcome (arrive outcomes) (fold mark_priced ranges (replicate (length plans) no_spend))), t'')))"

text \<open>\<open>totalSpend\<close>: the unreadable meters, the currencies and the sum so far.\<close>

definition total_step ::
  "(go_string \<Rightarrow> rat option) \<Rightarrow> meter_usage \<Rightarrow> go_string list \<times> go_string set \<times> rat \<Rightarrow> go_string list \<times> go_string set \<times> rat" where
  "total_step decimal m s =
    (case s of (unreadable, currencies, amount_sum) \<Rightarrow>
     if mu_error m \<noteq> [] \<or> mu_spend_error m \<noteq> [] then (unreadable @ [mu_definition m], currencies, amount_sum)
     else case mu_spend m of
       None \<Rightarrow> s
     | Some sp \<Rightarrow>
       (case decimal (sp_total sp) of
          None \<Rightarrow> (unreadable @ [mu_definition m], currencies, amount_sum)
        | Some amount \<Rightarrow> (unreadable, insert (sp_currency sp) currencies, amount_sum + amount)))"

definition totalSpend :: "spend_env \<Rightarrow> meter_usage list \<Rightarrow> usage_spend option \<times> go_string" where
  "totalSpend env meters =
    (case fold (total_step (se_decimal env)) meters ([], {}, 0) of (unreadable, currencies, amount_sum) \<Rightarrow>
     if unreadable \<noteq> [] then (None, ''the spend of these meters could not be read: '' @ join '', '' unreadable)
     else if 1 < card currencies then
       (None, ''the meters are billed in different currencies ('' @ join '', '' (sorted_list_of_set currencies) @ '')'')
     else if card currencies = 0 then (None, [])
     else (Some \<lparr>sp_total = se_decimal_string env amount_sum, sp_currency = hd (sorted_list_of_set currencies)\<rparr>, []))"


section \<open>The ranges tile the time\<close>

text \<open>
  Ranges that follow each other without gap or overlap from \<open>a\<close> to \<open>b\<close>, none of them empty.
\<close>

fun tiles :: "int \<Rightarrow> int \<Rightarrow> priced_range list \<Rightarrow> bool" where
  "tiles a b [] \<longleftrightarrow> a = b"
| "tiles a b (r # rs) \<longleftrightarrow> rg_from r = a \<and> rg_from r < rg_to r \<and> tiles (rg_to r) b rs"

text \<open>What \<open>GetPeriodAt\<close> documents: the period that contains the instant.\<close>

definition period_contract :: "(int \<Rightarrow> (int \<times> int) res) \<Rightarrow> bool" where
  "period_contract period \<longleftrightarrow> (\<forall>t. \<exists>a b. period t = Inr (a, b) \<and> a \<le> t \<and> t < b)"

text \<open>A range lies within one billing period and continues from that period's usage.\<close>

definition in_one_period :: "(int \<Rightarrow> (int \<times> int) res) \<Rightarrow> int \<Rightarrow> priced_range \<Rightarrow> bool" where
  "in_one_period period active_from r \<longleftrightarrow>
    (\<exists>t a b. period t = Inr (a, b) \<and> rg_from r = truncate_second t \<and> rg_to r \<le> truncate_second b \<and>
       rg_earlier_from r = truncate_second (max a active_from) \<and> rg_earlier_from r \<le> rg_from r)"

lemma latest_max [simp]: "latest a [b] = max a b"
  by (simp add: latest_def)

lemma card_parts_tile:
  assumes "period_contract period" and "\<And>a b c. rg_from (mk a b c) = a \<and> rg_to (mk a b c) = b \<and> rg_earlier_from (mk a b c) = c"
    and "active_from \<le> t" and "t \<le> to" and "nat (to - t) < fuel"
  shows "\<exists>rs. card_parts fuel period mk active_from to t = Inr rs \<and>
    tiles (truncate_second t) (truncate_second to) rs \<and> (\<forall>r \<in> set rs. in_one_period period active_from r)"
  using assms(3-5)
proof (induction fuel arbitrary: t)
  case 0
  then show ?case by simp
next
  case (Suc fuel)
  show ?case
  proof (cases "t < to")
    case False
    with Suc.prems show ?thesis by simp
  next
    case True
    obtain a b where p: "period t = Inr (a, b)" "a \<le> t" "t < b"
      using assms(1) unfolding period_contract_def by blast
    define part_end where "part_end = (if b < to then b else to)"
    have pe: "t < part_end" "part_end \<le> to" "part_end \<le> b" using p True by (auto simp: part_end_def)
    from Suc.IH [of part_end] pe Suc.prems obtain rs where rs:
      "card_parts fuel period mk active_from to part_end = Inr rs"
      "tiles (truncate_second part_end) (truncate_second to) rs" "\<forall>r \<in> set rs. in_one_period period active_from r"
      by force
    let ?r = "mk (truncate_second t) (truncate_second part_end) (truncate_second (max a active_from))"
    have "in_one_period period active_from ?r"
      unfolding in_one_period_def using assms(2) p pe Suc.prems
      by (intro exI [of _ t] exI [of _ a] exI [of _ b]) (auto intro: truncate_second_mono)
    moreover have "truncate_second t \<le> truncate_second part_end" using pe truncate_second_mono by simp
    moreover have "card_parts (Suc fuel) period mk active_from to t = Inr (if rg_from ?r < rg_to ?r then ?r # rs else rs)"
      using True p rs(1) by (simp add: part_end_def [symmetric] Let_def del: if_split)
    ultimately show ?thesis using rs assms(2) by auto
  qed
qed

text \<open>
  C18. The usage of a rate card is priced once: the ranges of a card tile the time the
  subscription was active within the query, whole seconds without gap or overlap, each range
  within one billing period and continuing from that period's own start or the
  subscription's; the splitting ends, given a recurrence whose periods hold the instant
  asked for and fuel above the length of the time.
\<close>

theorem cardRanges_tile:
  assumes "planBySlug (ur_meter rc) = Some plan"
    and "se_periods env (if ur_cadence rc \<noteq> [] then ur_cadence rc else sub_cadence sub) (sub_billing_anchor sub) = Inr period"
    and "period_contract period"
    and "nat (active_to_of sub stop - max (sub_active_from sub) start) < se_period_fuel env"
  shows "\<exists>rs. cardRanges env sub rc planBySlug start stop = Inr rs \<and>
    (if max (sub_active_from sub) start < active_to_of sub stop
     then tiles (truncate_second (max (sub_active_from sub) start)) (truncate_second (active_to_of sub stop)) rs else rs = []) \<and>
    (\<forall>r \<in> set rs. in_one_period period (sub_active_from sub) r)"
proof (cases "max (sub_active_from sub) start < active_to_of sub stop")
  case False
  then show ?thesis unfolding if_not_P [OF False] using assms(1) by (auto simp: cardRanges_def Let_def)
next
  case True
  have "\<exists>rs. card_parts (se_period_fuel env) period (part_of sub rc plan) (sub_active_from sub) (active_to_of sub stop)
      (max (sub_active_from sub) start) = Inr rs \<and>
    tiles (truncate_second (max (sub_active_from sub) start)) (truncate_second (active_to_of sub stop)) rs \<and>
    (\<forall>r \<in> set rs. in_one_period period (sub_active_from sub) r)"
    by (rule card_parts_tile [OF assms(3)]) (use True assms(4) in \<open>auto simp: part_of_def\<close>)
  then obtain rs where rs: "card_parts (se_period_fuel env) period (part_of sub rc plan) (sub_active_from sub)
      (active_to_of sub stop) (max (sub_active_from sub) start) = Inr rs"
    "tiles (truncate_second (max (sub_active_from sub) start)) (truncate_second (active_to_of sub stop)) rs"
    "\<forall>r \<in> set rs. in_one_period period (sub_active_from sub) r" by blast
  have "cardRanges env sub rc planBySlug start stop = Inr rs"
    using assms(1,2) True rs(1) by (simp add: cardRanges_def Let_def)
  with rs True show ?thesis by simp
qed

definition sample_env :: spend_env where
  "sample_env = \<lparr>se_server = (\<lambda>_ _. Inl ''down''), se_fuel = 1, se_decimal = rat_SetString, se_unit_config_valid = (\<lambda>_. None),
     se_periods = (\<lambda>_ _. Inr (\<lambda>t. Inr (t - t mod (10 * second), t - t mod (10 * second) + 10 * second))),
     se_period_fuel = 3, se_rater = (\<lambda>l. Inr \<lparr>tt_amount = ln_quantity l, tt_charges_total = 0, tt_discounts_total = 0\<rparr>),
     se_from_float = id, se_decimal_string = float_string 2\<rparr>"

definition sample_billed :: om_subscription where
  "sample_billed = \<lparr>sub_id = ''s'', sub_status = SubscriptionStatusActive,
     sub_plan = Some \<lparr>pr_id = ''p'', pr_key = ''p'', pr_version = 1\<rparr>, sub_active_from = 3 * second,
     sub_active_to = None, sub_deleted_at = None, sub_currency = ''USD'', sub_cadence = ''P1M'', sub_billing_anchor = None\<rparr>"

definition sample_card :: usage_rate_card where
  "sample_card = \<lparr>ur_key = ''c'', ur_meter = ''cpu'', ur_filters = [], ur_cadence = [], ur_price = UnitPrice 1,
     ur_unit_config = None, ur_discounts = None\<rparr>"

theorem cardRanges_tile_witness:
  "\<exists>rs. cardRanges (sample_env\<lparr>se_period_fuel := nat (100 * second)\<rparr>) sample_billed sample_card (\<lambda>_. Some 0) 0 (25 * second) = Inr rs \<and>
     tiles (3 * second) (25 * second) rs"
proof -
  define period :: "int \<Rightarrow> (int \<times> int) res" where
    "period = (\<lambda>t. Inr (t - t mod (10 * second), t - t mod (10 * second) + 10 * second))"
  have "period_contract period"
    unfolding period_contract_def
  proof
    fix t :: int
    have "0 \<le> t mod (10 * second)" "t mod (10 * second) < 10 * second" by (simp_all add: second_def)
    then have "t - t mod (10 * second) \<le> t \<and> t < t - t mod (10 * second) + 10 * second" by linarith
    then show "\<exists>a b. period t = Inr (a, b) \<and> a \<le> t \<and> t < b" by (simp add: period_def)
  qed
  then show ?thesis
    using cardRanges_tile [of "\<lambda>_. Some 0" sample_card 0 "sample_env\<lparr>se_period_fuel := nat (100 * second)\<rparr>" sample_billed period "25 * second" 0]
    by (auto simp: sample_env_def sample_billed_def sample_card_def period_def active_to_of_def second_def truncate_second_def)
qed


section \<open>The ranges of a query\<close>

text \<open>Every range is of a queried meter and of one of the customers.\<close>

definition range_ok :: "nat \<Rightarrow> go_string set \<Rightarrow> priced_range \<Rightarrow> bool" where
  "range_ok n ids r \<longleftrightarrow> rg_plan r < n \<and> rg_customer r \<in> ids"

lemma plan_by_slug_bound: "plan_by_slug plans slug = Some i \<Longrightarrow> i < length plans \<and> mp_slug (plans ! i) = slug"
proof -
  assume "plan_by_slug plans slug = Some i"
  then have "(slug, i) \<in> set (zip (map mp_slug plans) [0 ..< length plans])"
    unfolding plan_by_slug_def by (auto dest: map_of_SomeD)
  then show ?thesis by (auto simp: in_set_zip)
qed

lemma card_parts_mk: "card_parts fuel period mk a to t = Inr rs \<Longrightarrow> r \<in> set rs \<Longrightarrow> \<exists>x y z. r = mk x y z"
proof (induction fuel arbitrary: t rs)
  case (Suc fuel)
  show ?case
  proof (cases "t < to")
    case True
    with Suc.prems(1) obtain x y z pe rs' where "card_parts fuel period mk a to pe = Inr rs'"
      "rs = (if rg_from (mk x y z) < rg_to (mk x y z) then mk x y z # rs' else rs')"
      by (auto simp: Let_def split: sum.splits prod.splits simp del: if_split cong: if_cong)
    with Suc.IH Suc.prems(2) show ?thesis by (auto split: if_splits)
  qed (use Suc.prems in simp)
qed simp

lemma cardRanges_plan:
  "cardRanges env sub rc (plan_by_slug plans) start stop = Inr rs \<Longrightarrow> r \<in> set rs \<Longrightarrow> rg_plan r < length plans"
  by (auto simp: cardRanges_def Let_def part_of_def dest!: card_parts_mk plan_by_slug_bound split: option.splits if_splits sum.splits)

lemma ranges_of_cards_ok:
  "ranges_of_cards env sub (plan_by_slug plans) start stop customer rcs = Inr rs \<Longrightarrow> r \<in> set rs \<Longrightarrow>
   range_ok (length plans) {customer} r"
proof (induction rcs arbitrary: rs)
  case (Cons rc rcs)
  from Cons.prems(1) obtain a b where ab: "cardRanges env sub rc (plan_by_slug plans) start stop = Inr a"
    "ranges_of_cards env sub (plan_by_slug plans) start stop customer rcs = Inr b"
    "rs = map (\<lambda>r. r\<lparr>rg_customer := customer\<rparr>) a @ b"
    by (auto split: sum.splits)
  with Cons.IH [OF ab(2)] Cons.prems(2) cardRanges_plan [OF ab(1)] show ?case by (auto simp: range_ok_def)
qed simp

lemma ranges_of_subs_ok:
  "ranges_of_subs env (plan_by_slug plans) start stop customer subs cache t = (Inr (rs, cache'), t') \<Longrightarrow> r \<in> set rs \<Longrightarrow>
   range_ok (length plans) {customer} r"
proof (induction subs arbitrary: cache t rs)
  case (Cons sub subs)
  show ?case
  proof (cases "billable sub start stop")
    case True
    with Cons.prems(1) obtain rcs c1 t1 where one:
      "(case ranges_of_cards env sub (plan_by_slug plans) start stop customer rcs of
           Inl e \<Rightarrow> fail e
         | Inr ranges \<Rightarrow>
           and_then (ranges_of_subs env (plan_by_slug plans) start stop customer subs c1)
             (\<lambda>(others, cache''). ret (ranges @ others, cache''))) t1 = (Inr (rs, cache'), t')"
      by (auto simp: and_then_Inr)
    then obtain ranges where ranges: "ranges_of_cards env sub (plan_by_slug plans) start stop customer rcs = Inr ranges"
      by (cases "ranges_of_cards env sub (plan_by_slug plans) start stop customer rcs") (simp_all add: fail_def)
    with one obtain others where
      o: "ranges_of_subs env (plan_by_slug plans) start stop customer subs c1 t1 = (Inr (others, cache'), t')" "rs = ranges @ others"
      by (auto simp: and_then_Inr ret_def)
    from Cons.IH [OF o(1)] ranges_of_cards_ok [OF ranges] Cons.prems(2) o(2) show ?thesis by auto
  qed (use Cons in auto)
qed (simp add: ret_def)

lemma ranges_of_customers_ok:
  "ranges_of_customers env spec (plan_by_slug plans) cs cache t = (Inr rs, t') \<Longrightarrow> r \<in> set rs \<Longrightarrow>
   range_ok (length plans) (ac_id ` set cs) r"
proof (induction cs arbitrary: cache t rs)
  case (Cons c cs)
  from Cons.prems(1) obtain ranges c1 t1 others where c: "customerRanges env spec c (plan_by_slug plans) cache t = (Inr (ranges, c1), t1)"
    "ranges_of_customers env spec (plan_by_slug plans) cs c1 t1 = (Inr others, t')" "rs = ranges @ others"
    by (auto simp: and_then_Inr ret_def split: prod.splits)
  have "range_ok (length plans) {ac_id c} x" if "x \<in> set ranges" for x
    using c(1) that ranges_of_subs_ok by (auto simp: customerRanges_def split: prod.splits sum.splits if_splits)
  with Cons.IH [OF c(2)] Cons.prems(2) c(3) show ?case by (auto simp: range_ok_def)
qed (simp add: ret_def)

lemma pricedRanges_ok:
  "pricedRanges env spec cs plans t = (Inr rs, t') \<Longrightarrow> r \<in> set rs \<Longrightarrow> range_ok (length plans) (ac_id ` set cs) r"
  unfolding pricedRanges_def by (rule ranges_of_customers_ok)

section \<open>The sum does not depend on the order of completion\<close>

text \<open>
  What a meter's spend is to be, from the outcomes of its own ranges alone: an error when
  one of them failed, nothing when there are none, an error when they differ in currency,
  and otherwise the sum of their amounts.
\<close>

definition outcome_errors :: "(priced_range \<times> rat res) list \<Rightarrow> go_string list" where
  "outcome_errors os = map (error_text \<circ> projl \<circ> snd) (filter (isl \<circ> snd) os)"

definition outcome_sum :: "(priced_range \<times> rat res) list \<Rightarrow> rat" where
  "outcome_sum os = (\<Sum>x\<leftarrow>filter (\<lambda>x. \<not> isl (snd x)) os. projr (snd x))"

definition spend_spec :: "spend_env \<Rightarrow> (priced_range \<times> rat res) list \<Rightarrow> spend_result" where
  "spend_spec env os =
    (let cur = (\<lambda>x. rg_currency (fst x)) ` set os in
     if outcome_errors os \<noteq> [] then
       \<lparr>sd_spend = None, sd_err = ''could not price the usage: '' @ join ''; '' (remdups_adj (sort (outcome_errors os)))\<rparr>
     else if os = [] then \<lparr>sd_spend = None, sd_err = []\<rparr>
     else if 1 < card cur then
       \<lparr>sd_spend = None, sd_err = ''the billing accounts are billed in different currencies ('' @
          join '', '' (sorted_list_of_set cur) @ '')''\<rparr>
     else \<lparr>sd_spend = Some \<lparr>sp_total = se_decimal_string env (outcome_sum os),
             sp_currency = hd (sorted_list_of_set cur)\<rparr>, sd_err = []\<rparr>)"

definition of_plan :: "nat \<Rightarrow> (priced_range \<times> rat res) list \<Rightarrow> (priced_range \<times> rat res) list" where
  "of_plan i os = filter (\<lambda>x. rg_plan (fst x) = i) os"

lemma fold_add_outcome:
  assumes "\<forall>x \<in> set os. rg_plan (fst x) < length totals" and "i < length totals"
  shows "length (fold add_outcome os totals) = length totals \<and>
    fold add_outcome os totals ! i =
      (totals ! i)\<lparr>ms_errs := ms_errs (totals ! i) @ outcome_errors (of_plan i os),
                   ms_amount := ms_amount (totals ! i) + outcome_sum (of_plan i os)\<rparr>"
  using assms
proof (induction os arbitrary: totals)
  case Nil
  then show ?case by (simp add: outcome_errors_def outcome_sum_def of_plan_def)
next
  case (Cons x os)
  have len: "length (add_outcome x totals) = length totals" by (simp add: add_outcome_def Let_def)
  have "\<forall>y \<in> set os. rg_plan (fst y) < length (add_outcome x totals)" "i < length (add_outcome x totals)"
    using Cons.prems len by auto
  from Cons.IH [OF this] len show ?case using Cons.prems
    by (cases "snd x") (auto simp: add_outcome_def Let_def of_plan_def outcome_errors_def outcome_sum_def nth_list_update)
qed

lemma fold_mark_priced:
  assumes "\<forall>r \<in> set rs. rg_plan r < length totals" and "i < length totals"
  shows "length (fold mark_priced rs totals) = length totals \<and>
    fold mark_priced rs totals ! i =
      (totals ! i)\<lparr>ms_priced := ms_priced (totals ! i) \<or> (\<exists>r \<in> set rs. rg_plan r = i),
                   ms_currencies := ms_currencies (totals ! i) \<union> rg_currency ` {r \<in> set rs. rg_plan r = i}\<rparr>"
  using assms
proof (induction rs arbitrary: totals)
  case (Cons r rs)
  have len: "length (mark_priced r totals) = length totals" by (simp add: mark_priced_def Let_def)
  have "\<forall>y \<in> set rs. rg_plan y < length (mark_priced r totals)" "i < length (mark_priced r totals)"
    using Cons.prems len by auto
  from Cons.IH [OF this] len show ?case using Cons.prems
    by (auto simp: mark_priced_def Let_def nth_list_update intro!: arg_cong [of _ _ "\<lambda>c. ms_currencies_update (\<lambda>_. c) _"])
qed simp

lemma price_each_ranges: "map fst (fst (price_each env ps plans rs t)) = rs"
  by (induction rs arbitrary: t) (simp_all split: prod.splits, metis fst_conv)

lemma outcome_arrival:
  assumes "mset xs = mset ys"
  shows "sort (outcome_errors (of_plan i xs)) = sort (outcome_errors (of_plan i ys))"
    and "outcome_errors (of_plan i xs) = [] \<longleftrightarrow> outcome_errors (of_plan i ys) = []"
    and "outcome_sum (of_plan i xs) = outcome_sum (of_plan i ys)"
proof -
  have m: "mset (outcome_errors (of_plan i xs)) = mset (outcome_errors (of_plan i ys))"
    using assms by (simp add: outcome_errors_def of_plan_def mset_filter)
  then show "sort (outcome_errors (of_plan i xs)) = sort (outcome_errors (of_plan i ys))"
    by (metis mset_sort properties_for_sort sorted_sort)
  show "outcome_errors (of_plan i xs) = [] \<longleftrightarrow> outcome_errors (of_plan i ys) = []"
    using m by (metis mset_zero_iff)
  have "mset (map (projr \<circ> snd) (filter (\<lambda>x. \<not> isl (snd x)) (of_plan i xs))) =
      mset (map (projr \<circ> snd) (filter (\<lambda>x. \<not> isl (snd x)) (of_plan i ys)))"
    using assms by (simp add: of_plan_def mset_filter)
  then show "outcome_sum (of_plan i xs) = outcome_sum (of_plan i ys)"
    unfolding outcome_sum_def by (metis (no_types) comp_apply map_eq_conv sum_mset_sum_list)
qed


lemma spend_result_of_spec:
  assumes "mset (arrive outcomes) = mset outcomes" and "\<forall>x \<in> set outcomes. rg_plan (fst x) < n" and "i < n"
  shows "spend_result_of env (fold add_outcome (arrive outcomes)
      (fold mark_priced (map fst outcomes) (replicate n no_spend)) ! i) = spend_spec env (of_plan i outcomes)"
proof -
  let ?marked = "fold mark_priced (map fst outcomes) (replicate n no_spend)"
  have marked: "length ?marked = n \<and> ?marked ! i = no_spend\<lparr>ms_priced := (of_plan i outcomes \<noteq> []),
      ms_currencies := (\<lambda>x. rg_currency (fst x)) ` set (of_plan i outcomes)\<rparr>"
  proof -
    have "{r \<in> set (map fst outcomes). rg_plan r = i} = fst ` set (of_plan i outcomes)" by (auto simp: of_plan_def)
    then have "rg_currency ` {r \<in> set (map fst outcomes). rg_plan r = i} = (\<lambda>x. rg_currency (fst x)) ` set (of_plan i outcomes)"
      by (simp add: image_image)
    moreover have "(\<exists>r \<in> set (map fst outcomes). rg_plan r = i) \<longleftrightarrow> of_plan i outcomes \<noteq> []"
      by (auto simp: of_plan_def filter_empty_conv)
    ultimately show ?thesis
      using fold_mark_priced [of "map fst outcomes" "replicate n no_spend" i] assms(2,3) by (simp add: no_spend_def)
  qed
  have same: "set (arrive outcomes) = set outcomes" using assms(1) by (metis set_mset_mset)
  have "fold add_outcome (arrive outcomes) ?marked ! i =
      (?marked ! i)\<lparr>ms_errs := ms_errs (?marked ! i) @ outcome_errors (of_plan i (arrive outcomes)),
                    ms_amount := ms_amount (?marked ! i) + outcome_sum (of_plan i (arrive outcomes))\<rparr>"
    using fold_add_outcome [of "arrive outcomes" ?marked i] marked assms(2,3) same by simp
  then show ?thesis
    using marked outcome_arrival [OF assms(1), of i]
    by (simp add: spend_result_of_def spend_spec_def no_spend_def)
qed

text \<open>
  C16. What a meter's usage costs depends only on the outcomes of the meter's own ranges, not
  on the order in which they are priced: whatever the order of completion, the result is the
  reference one, an error when a range could not be priced, nothing when no plan prices the
  meter, an error when the accounts are billed in different currencies, and otherwise the
  exact sum of the ranges' amounts.
\<close>

theorem spend_run_correct:
  assumes "pricedRanges env spec cs plans t = (Inr ranges, t')"
    and "price_each env projects plans ranges t' = (outcomes, t'')"
    and "mset (arrive outcomes) = mset outcomes" and "i < length plans"
  shows "fst (spend_run env spec cs projects arrive plans t) ! i = spend_spec env (of_plan i outcomes)"
proof -
  have ranges: "map fst outcomes = ranges" using price_each_ranges [of env projects plans ranges t'] assms(2) by simp
  have "\<forall>x \<in> set outcomes. rg_plan (fst x) < length plans"
    using pricedRanges_ok [OF assms(1)] unfolding ranges [symmetric] range_ok_def by (metis image_eqI list.set_map)
  note result = spend_result_of_spec [where arrive = arrive and env = env, OF assms(3) this assms(4)]
  have "length (fold add_outcome (arrive outcomes) (fold mark_priced ranges (replicate (length plans) no_spend))) = length plans"
  proof -
    have m: "length (fold mark_priced rs totals) = length totals" for rs totals
      by (induction rs arbitrary: totals) (simp_all add: mark_priced_def Let_def)
    have "length (fold add_outcome os totals) = length totals" for os totals
      by (induction os arbitrary: totals) (simp_all add: add_outcome_def Let_def)
    with m show ?thesis by simp
  qed
  then show ?thesis using result assms(1,2,4) by (simp add: spend_run_def ranges)
qed

section \<open>What the calculation reads\<close>

text \<open>
  The requests a spend calculation may send: the customers' own subscriptions, plans and
  features, and usage of the customers within the projects. Nothing is written.
\<close>

definition spend_reads :: "account_customer list \<Rightarrow> go_string list \<Rightarrow> request \<Rightarrow> bool" where
  "spend_reads cs ps q \<longleftrightarrow>
    (case q of
       ReqListSubscriptions key n \<Rightarrow> key \<in> ac_key ` set cs
     | ReqGetPlan i \<Rightarrow> True
     | ReqListFeatures m arch n \<Rightarrow> True
     | ReqQueryMeter slug b \<Rightarrow> reads_only (map ac_id cs) ps q
     | _ \<Rightarrow> False)"

lemma adds_pure: "adds P (\<lambda>t. (x, t))"
  by (simp add: adds_def)

lemma adds_PlanUsageRateCards:
  assumes "P (ReqGetPlan i)" and "\<And>n. P (ReqListFeatures None True n)"
  shows "adds P (PlanUsageRateCards dec ok fuel srv i)"
  unfolding PlanUsageRateCards_def
  by (intro adds_and_then adds_wrapping adds_if adds_ret adds_pure adds_listFeatures assms)
    (use assms in \<open>auto simp: GetPlan_def\<close>)

lemma adds_planRateCards: "adds (spend_reads cs ps) (planRateCards env i cache)"
  by (auto simp: planRateCards_def spend_reads_def intro!: adds_and_then adds_PlanUsageRateCards split: option.splits)

lemma adds_ranges_of_subs: "adds (spend_reads cs ps) (ranges_of_subs env slugs start stop customer subs cache)"
  by (induction subs arbitrary: cache)
    (auto intro!: adds_and_then adds_wrapping adds_planRateCards split: sum.splits prod.splits)

lemma adds_customerRanges:
  assumes "c \<in> set cs"
  shows "adds (spend_reads cs ps) (customerRanges env spec c slugs cache)"
  unfolding adds_def
proof
  fix t
  obtain x t1 where l: "ListSubscriptions (se_fuel env) (se_server env) (ac_key c) t = (x, t1)" by force
  have "adds (spend_reads cs ps) (ListSubscriptions (se_fuel env) (se_server env) (ac_key c))"
    by (rule adds_ListSubscriptions) (use assms in \<open>simp add: spend_reads_def\<close>)
  with l obtain u where u: "t1 = t @ u" "\<forall>q \<in> set (sent u). spend_reads cs ps q"
    unfolding adds_def by (metis snd_conv)
  show "\<exists>u. snd (customerRanges env spec c slugs cache t) = t @ u \<and> (\<forall>q \<in> set (sent u). spend_reads cs ps q)"
  proof (cases x)
    case (Inl e)
    with l u show ?thesis by (simp add: customerRanges_def)
  next
    case (Inr subs)
    obtain v where "snd (ranges_of_subs env slugs (us_start spec) (us_end spec) (ac_id c) subs cache t1) = t1 @ v"
      "\<forall>q \<in> set (sent v). spend_reads cs ps q"
      using adds_ranges_of_subs [of cs ps env] unfolding adds_def by blast
    with l u Inr show ?thesis by (auto simp: customerRanges_def)
  qed
qed

lemma adds_pricedRanges: "adds (spend_reads cs ps) (pricedRanges env spec cs plans)"
proof -
  have "adds (spend_reads cs ps) (ranges_of_customers env spec slugs ds cache)" if "set ds \<subseteq> set cs" for slugs ds cache
    using that by (induction ds arbitrary: cache)
      (auto intro!: adds_and_then adds_customerRanges split: prod.splits)
  then show ?thesis by (simp add: pricedRanges_def)
qed

lemma adds_usage_between:
  assumes "rg_customer r \<in> ac_id ` set cs"
  shows "adds (spend_reads cs ps) (usage_between env ps (plan_of md) r a b)"
proof (cases "usage_query ps (plan_of md) r a b")
  case (Inl e)
  then show ?thesis by (simp add: usage_between_def)
next
  case (Inr q)
  have "spend_reads cs ps (ReqQueryMeter (mq_slug q) (query_body q))"
    unfolding spend_reads_def request.simps
    by (rule query_reads_only)
      (use Inr assms in \<open>auto simp: usage_query_def Let_def map_of_plan_of split: if_splits option.splits\<close>)
  with Inr show ?thesis
    by (auto simp: usage_between_def intro!: adds_and_then adds_wrapping adds_QueryMeter)
qed

lemma adds_priceRange:
  assumes "rg_customer r \<in> ac_id ` set cs"
  shows "adds (spend_reads cs ps) (priceRange env ps (plan_of md) r)"
  unfolding priceRange_def
  by (intro adds_and_then adds_usage_between [OF assms] adds_if adds_ret) (auto split: sum.splits)

lemma price_each_reads:
  assumes "\<forall>r \<in> set rs. range_ok (length mds) (ac_id ` set cs) r"
  shows "\<exists>u. snd (price_each env ps (map plan_of mds) rs t) = t @ u \<and> (\<forall>q \<in> set (sent u). spend_reads cs ps q)"
  using assms
proof (induction rs arbitrary: t)
  case (Cons r rs)
  then have r: "map plan_of mds ! rg_plan r = plan_of (mds ! rg_plan r)" "rg_customer r \<in> ac_id ` set cs"
    by (auto simp: range_ok_def)
  obtain x t1 where x: "priceRange env ps (plan_of (mds ! rg_plan r)) r t = (x, t1)" by force
  with adds_priceRange [OF r(2), of ps env "mds ! rg_plan r"] obtain u where
    u: "t1 = t @ u" "\<forall>q \<in> set (sent u). spend_reads cs ps q" unfolding adds_def by (metis snd_conv)
  from Cons.prems have "\<forall>r \<in> set rs. range_ok (length mds) (ac_id ` set cs) r" by simp
  from Cons.IH [OF this] obtain v where
    "snd (price_each env ps (map plan_of mds) rs t1) = t1 @ v" "\<forall>q \<in> set (sent v). spend_reads cs ps q" by blast
  with x u r(1) show ?case by (auto split: prod.splits)
qed simp

lemma spend_run_adds:
  assumes "planMeters milo mspec = Inr plans" and "spend_run env spec cs projects arrive plans t = (r, t')"
  shows "\<exists>u. t' = t @ u \<and> (\<forall>q \<in> set (sent u). spend_reads cs projects q)"
proof -
  from planMeters_plans [OF assms(1)] obtain mds where plans: "plans = map plan_of mds" by blast
  obtain x t1 where x: "pricedRanges env spec cs plans t = (x, t1)" by force
  with adds_pricedRanges [of cs projects env spec plans] obtain u where
    u: "t1 = t @ u" "\<forall>q \<in> set (sent u). spend_reads cs projects q" unfolding adds_def by (metis snd_conv)
  show ?thesis
  proof (cases x)
    case (Inl e)
    with x u assms(2) show ?thesis by (auto simp: spend_run_def)
  next
    case (Inr rs)
    have "\<forall>r \<in> set rs. range_ok (length mds) (ac_id ` set cs) r"
      using pricedRanges_ok x Inr plans by fastforce
    from price_each_reads [OF this] obtain v where
      "snd (price_each env projects plans rs t1) = t1 @ v" "\<forall>q \<in> set (sent v). spend_reads cs projects q"
      unfolding plans by blast
    with x u Inr assms(2) show ?thesis by (auto simp: spend_run_def split: prod.splits)
  qed
qed

text \<open>
  Pricing usage reads nothing beyond the query's scope and writes nothing: whatever
  OpenMeter answers, the only requests are for the subscriptions of the scope's customers,
  for plans and features, and meter queries for a customer of the scope filtered to the
  scope's projects.
\<close>

theorem spend_run_reads:
  assumes "planMeters milo mspec = Inr plans" and "spend_run env spec cs projects arrive plans t = (r, t')"
  shows "\<exists>u. t' = t @ u \<and> (\<forall>q \<in> set (sent u). spend_reads cs projects q)"
  using assms by (rule spend_run_adds)

theorem spend_run_reads_witness:
  "\<exists>u. snd (spend_run sample_env sample_spec [\<lparr>ac_key = ''k'', ac_id = ''c1''\<rparr>] [''web''] id [plan_of sample_md] []) = [] @ u \<and>
     (\<forall>q \<in> set (sent u). spend_reads [\<lparr>ac_key = ''k'', ac_id = ''c1''\<rparr>] [''web''] q)"
  by (rule spend_run_reads [OF sample_plan_meters prod.collapse [symmetric]])


section \<open>The total\<close>

definition unread :: "(go_string \<Rightarrow> rat option) \<Rightarrow> meter_usage \<Rightarrow> bool" where
  "unread dec m \<longleftrightarrow> mu_error m \<noteq> [] \<or> mu_spend_error m \<noteq> [] \<or>
    (case mu_spend m of None \<Rightarrow> False | Some sp \<Rightarrow> dec (sp_total sp) = None)"

definition amount_in :: "(go_string \<Rightarrow> rat option) \<Rightarrow> meter_usage \<Rightarrow> rat" where
  "amount_in dec m = (if unread dec m then 0 else case mu_spend m of None \<Rightarrow> 0 | Some sp \<Rightarrow> the (dec (sp_total sp)))"

definition currencies_in :: "(go_string \<Rightarrow> rat option) \<Rightarrow> meter_usage \<Rightarrow> go_string set" where
  "currencies_in dec m = (if unread dec m then {} else case mu_spend m of None \<Rightarrow> {} | Some sp \<Rightarrow> {sp_currency sp})"

lemma total_step_parts:
  "total_step dec m (un, cs, s) =
    (un @ (if unread dec m then [mu_definition m] else []), cs \<union> currencies_in dec m, s + amount_in dec m)"
  by (auto simp: total_step_def unread_def amount_in_def currencies_in_def split: option.splits)

lemma total_step_fold:
  "fold (total_step dec) ms (un, cs, s) =
    (un @ map mu_definition (filter (unread dec) ms), cs \<union> (\<Union>m \<in> set ms. currencies_in dec m), s + (\<Sum>m\<leftarrow>ms. amount_in dec m))"
  by (induction ms arbitrary: un cs s) (simp_all add: total_step_parts Un_assoc add.assoc)

text \<open>
  A total is never partial: when the query reports a total spend, every meter was read
  and priced without error, all priced meters are in the total's currency, and the total is
  the exact sum of their amounts.
\<close>

theorem totalSpend_whole:
  assumes "totalSpend env meters = (Some sp, err)"
  shows "err = [] \<and>
    (\<forall>m \<in> set meters. mu_error m = [] \<and> mu_spend_error m = [] \<and>
       (\<forall>x. mu_spend m = Some x \<longrightarrow> se_decimal env (sp_total x) \<noteq> None \<and> sp_currency x = sp_currency sp)) \<and>
    sp_total sp = se_decimal_string env
      (\<Sum>m\<leftarrow>meters. case mu_spend m of None \<Rightarrow> 0 | Some x \<Rightarrow> the (se_decimal env (sp_total x)))"
proof -
  define cur where "cur = (\<Union>m \<in> set meters. currencies_in (se_decimal env) m)"
  from assms have readable: "\<forall>m \<in> set meters. \<not> unread (se_decimal env) m"
    and one: "\<not> 1 < card cur" "card cur \<noteq> 0"
    and sp: "sp = \<lparr>sp_total = se_decimal_string env (\<Sum>m\<leftarrow>meters. amount_in (se_decimal env) m),
        sp_currency = hd (sorted_list_of_set cur)\<rparr>" and err: "err = []"
    by (auto simp: totalSpend_def total_step_fold cur_def [symmetric] filter_empty_conv split: if_splits)
  from one have "card cur = 1" by linarith
  then obtain c where c: "cur = {c}" by (metis card_1_singletonE)
  with sp have "sp_currency sp = c" by simp
  moreover have "\<forall>m \<in> set meters. \<forall>x. mu_spend m = Some x \<longrightarrow> sp_currency x \<in> cur"
    using readable unfolding cur_def currencies_in_def by fastforce
  moreover have "map (amount_in (se_decimal env)) meters =
      map (\<lambda>m. case mu_spend m of None \<Rightarrow> 0 | Some x \<Rightarrow> the (se_decimal env (sp_total x))) meters"
    using readable by (intro map_cong) (auto simp: amount_in_def)
  moreover have "\<forall>m \<in> set meters. mu_error m = [] \<and> mu_spend_error m = [] \<and>
      (\<forall>x. mu_spend m = Some x \<longrightarrow> se_decimal env (sp_total x) \<noteq> None)"
    using readable by (auto simp: unread_def)
  ultimately have "err = [] \<and> (\<forall>m \<in> set meters. mu_error m = [] \<and> mu_spend_error m = [] \<and>
       (\<forall>x. mu_spend m = Some x \<longrightarrow> se_decimal env (sp_total x) \<noteq> None \<and> sp_currency x = sp_currency sp)) \<and>
    sp_total sp = se_decimal_string env (sum_list (map (\<lambda>m. case mu_spend m of None \<Rightarrow> 0 | Some x \<Rightarrow> the (se_decimal env (sp_total x))) meters))"
    using err sp c by (metis (no_types, lifting) singletonD usage_spend.select_convs(1))
  then show ?thesis .
qed

definition sample_usage :: "go_string \<Rightarrow> meter_usage" where
  "sample_usage amt = \<lparr>mu_definition = ''cpu'', mu_meter_name = ''cpu'', mu_aggregation = MiloSum, mu_unit = ''s'',
     mu_groupings = [], mu_error = [], mu_spend = Some \<lparr>sp_total = amt, sp_currency = ''USD''\<rparr>, mu_spend_error = []\<rparr>"

theorem totalSpend_whole_witness:
  "sp_total \<lparr>sp_total = ''7.75'', sp_currency = ''USD''\<rparr> = se_decimal_string sample_env
      (\<Sum>m\<leftarrow>[sample_usage ''5.25'', sample_usage ''2.5'']. case mu_spend m of None \<Rightarrow> 0 | Some x \<Rightarrow> the (se_decimal sample_env (sp_total x)))"
proof -
  have "rat_SetString ''5.25'' = Some (21 / 4)" "rat_SetString ''2.5'' = Some (5 / 2)" "float_string 2 (31 / 4) = ''7.75''"
    by code_simp+
  then have "totalSpend sample_env [sample_usage ''5.25'', sample_usage ''2.5''] = (Some \<lparr>sp_total = ''7.75'', sp_currency = ''USD''\<rparr>, [])"
    by (simp add: totalSpend_def total_step_parts unread_def amount_in_def currencies_in_def sample_usage_def sample_env_def)
  from totalSpend_whole [OF this] show ?thesis by blast
qed

definition spend_server :: server where
  "spend_server = (\<lambda>t q. case q of
      ReqListSubscriptions k n \<Rightarrow> page_reply (SubscriptionPage [sample_billed] 1)
    | ReqGetPlan i \<Rightarrow> page_reply (PlanBody \<lparr>pl_id = ''p'', pl_key = ''p'', pl_version = 1, pl_status = PlanActive,
        pl_description = None, pl_deleted_at = None, pl_phases = [\<lparr>ph_key = ''k'', ph_name = ''k'', ph_cards =
          [\<lparr>rc_key = ''c'', rc_name = ''c'', rc_description = [], rc_cadence = None, rc_price = PriceUnit ''1.5'',
            rc_unit_config = None, rc_discount = None, rc_payment_term = None, rc_feature = Some ''f''\<rparr>]\<rparr>]\<rparr>)
    | ReqListFeatures m a n \<Rightarrow> page_reply (FeatureArray [\<lparr>ft_id = ''f'', ft_key = ''f'', ft_meter = Some ''cpu'', ft_filters = None\<rparr>])
    | ReqQueryMeter s b \<Rightarrow> page_reply (MeterRows [\<lparr>or_window_start = 0, or_window_end = 1, or_customer = Some ''c1'',
        or_group_by = [], or_value = 5\<rparr>])
    | _ \<Rightarrow> Inl ''unexpected'')"

definition spend_sample :: spend_env where
  "spend_sample = sample_env\<lparr>se_server := spend_server\<rparr>"

theorem spend_run_correct_witness:
  "fst (spend_run spend_sample (sample_spec\<lparr>us_end := 8 * second\<rparr>) [\<lparr>ac_key = ''k'', ac_id = ''c1''\<rparr>] [] rev [plan_of sample_md] []) ! 0 =
    \<lparr>sd_spend = Some \<lparr>sp_total = ''5.00'', sp_currency = ''USD''\<rparr>, sd_err = []\<rparr>"
proof -
  let ?cs = "[\<lparr>ac_key = ''k'', ac_id = ''c1''\<rparr>]" and ?spec = "sample_spec\<lparr>us_end := 8 * second\<rparr>" and ?plans = "[plan_of sample_md]"
  have "\<not> isl (fst (pricedRanges spend_sample ?spec ?cs ?plans []))" by code_simp
  then obtain ranges t' where r: "pricedRanges spend_sample ?spec ?cs ?plans [] = (Inr ranges, t')"
    by (metis prod.collapse sum.collapse(2))
  obtain outcomes t'' where o: "price_each spend_sample [] ?plans ranges t' = (outcomes, t'')" by force
  have "(case pricedRanges spend_sample ?spec ?cs ?plans [] of (Inr rs, u) \<Rightarrow>
      spend_spec spend_sample (of_plan 0 (fst (price_each spend_sample [] ?plans rs u))) | _ \<Rightarrow> \<lparr>sd_spend = None, sd_err = []\<rparr>) =
      \<lparr>sd_spend = Some \<lparr>sp_total = ''5.00'', sp_currency = ''USD''\<rparr>, sd_err = []\<rparr>" by code_simp
  with r o have "spend_spec spend_sample (of_plan 0 outcomes) = \<lparr>sd_spend = Some \<lparr>sp_total = ''5.00'', sp_currency = ''USD''\<rparr>, sd_err = []\<rparr>"
    by simp
  with spend_run_correct [OF r o, of rev 0] show ?thesis by simp
qed

end
