(* ===== verification/UsageRest.thy ===== *)
theory UsageRest
  imports Spend
begin

text \<open>
  The \<open>Create\<close> of the UsageQuery API (\<open>internal/registry/usagequery/rest.go\<close>), which puts
  the scope, the customers, the run and the spend together.

  Parameters (the record \<open>rest_env\<close>): the API server's admission (\<open>createValidation\<close>), the
  billing API's \<open>SetDefaults\<close>, \<open>Validate\<close> and \<open>ScopeFromUserExtra\<close>, Milo's reads, the
  customer lookups with the moment of each, and what the spend calculation needs. The audit
  log line of a platform query is left out.
\<close>

record rest_env =
  re_admit :: "usage_query_spec \<Rightarrow> api_error option"
  re_defaults :: "usage_query_spec \<Rightarrow> usage_query_spec"
  re_validate :: "usage_query_spec \<Rightarrow> go_string list"
  re_scope :: "go_string \<Rightarrow> go_string + usage_scope"
  re_org_ns :: "go_string \<Rightarrow> go_string"
  re_milo :: milo_reader
  re_meters :: meter_reader
  re_get_customer :: "int \<Rightarrow> go_string \<Rightarrow> go_string res"
  re_clock :: "nat \<Rightarrow> int"
  re_spend :: spend_env
  re_arrive :: "(priced_range \<times> rat res) list \<Rightarrow> (priced_range \<times> rat res) list"

record usage_status =
  ut_scope :: usage_scope
  ut_meters :: "meter_usage list"
  ut_spend :: "usage_spend option"
  ut_spend_error :: go_string
  ut_accounts :: "account_ref list"

text \<open>A meter that could not be read has no usage to price.\<close>

definition with_spend :: "meter_usage \<Rightarrow> spend_result \<Rightarrow> meter_usage" where
  "with_spend m s = (if mu_error m \<noteq> [] then m else m\<lparr>mu_spend := sd_spend s, mu_spend_error := sd_err s\<rparr>)"

definition usage_status_of :: "rest_env \<Rightarrow> usage_query_spec \<Rightarrow> usage_scope \<Rightarrow> resolved_scope \<Rightarrow> meter_usage list \<Rightarrow> usage_status" where
  "usage_status_of env spec scope resolved meters =
    (let ts = (if us_include_spend spec then totalSpend (re_spend env) meters else (None, [])) in
     \<lparr>ut_scope = scope, ut_meters = meters, ut_spend = fst ts, ut_spend_error = snd ts,
      ut_accounts = (case scope of ScopeProject p \<Rightarrow> []
        | _ \<Rightarrow> map (\<lambda>a. \<lparr>ar_namespace = ba_namespace a, ar_name = ba_name a\<rparr>) (rs_accounts resolved))\<rparr>)"

definition read_usage ::
  "rest_env \<Rightarrow> usage_query_spec \<Rightarrow> usage_scope \<Rightarrow> resolved_scope \<Rightarrow> account_customer list \<Rightarrow> meter_plan list \<Rightarrow>
   exchanges \<Rightarrow> usage_status api_res \<times> exchanges" where
  "read_usage env spec scope resolved cs plans t =
    (case executor_run (se_server (re_spend env))
        \<lparr>ex_spec = spec, ex_customers = customerIDs cs, ex_projects = rs_projects resolved\<rparr> plans t of
       (Inl e, t') \<Rightarrow> (Inl e, t')
     | (Inr meters, t') \<Rightarrow>
       if us_include_spend spec then
         (case spend_run (re_spend env) spec cs (rs_projects resolved) (re_arrive env) plans t' of (spend, t'') \<Rightarrow>
          (Inr (usage_status_of env spec scope resolved (map2 with_spend meters spend)), t''))
       else (Inr (usage_status_of env spec scope resolved meters), t'))"

definition Create ::
  "rest_env \<Rightarrow> go_string option \<Rightarrow> usage_query_spec option \<Rightarrow> customer_cache \<Rightarrow> exchanges \<Rightarrow>
   (usage_status api_res \<times> customer_cache) \<times> exchanges" where
  "Create env user obj cache t =
    (case obj of
       None \<Rightarrow> ((Inl (BadRequest ''not a UsageQuery''), cache), t)
     | Some given \<Rightarrow>
    (case re_admit env given of
       Some e \<Rightarrow> ((Inl e, cache), t)
     | None \<Rightarrow>
    (let spec = re_defaults env given in
     if re_validate env spec \<noteq> [] then ((Inl (Invalid (re_validate env spec)), cache), t)
     else case user of
       None \<Rightarrow> ((Inl (Unauthorized ''missing user in request context''), cache), t)
     | Some extra \<Rightarrow>
    (case re_scope env extra of
       Inl e \<Rightarrow> ((Inl (Forbidden e), cache), t)
     | Inr scope \<Rightarrow>
    (case resolveScope (re_org_ns env) (re_milo env) scope spec of
       Inl e \<Rightarrow> ((Inl e, cache), t)
     | Inr resolved \<Rightarrow>
    (case planMeters (re_meters env) spec of
       Inl e \<Rightarrow> ((Inl e, cache), t)
     | Inr plans \<Rightarrow>
    (case customers (re_get_customer env) (zip (map (re_clock env) [0 ..< length (rs_accounts resolved)]) (rs_accounts resolved)) cache of
       (Inl e, cache') \<Rightarrow> ((Inl (ServiceUnavailable ''looking up OpenMeter customers''), cache'), t)
     | (Inr cs, cache') \<Rightarrow>
    (case read_usage env spec scope resolved cs plans t of (r, t') \<Rightarrow> ((r, cache'), t')))))))))"

section \<open>Properties\<close>

lemma find_customers_uids:
  "find_customers get as cache = (Inr cs, cache') \<Longrightarrow> map ac_key cs = map (ba_uid \<circ> snd) as"
  by (induction get as cache arbitrary: cs rule: find_customers.induct) (auto split: prod.splits sum.splits)

lemma customers_of_accounts:
  assumes "customers get as cache = (Inr cs, cache')"
  shows "ac_key ` set cs \<subseteq> ba_uid ` snd ` set as"
proof -
  from assms obtain found where f: "find_customers get as cache = (Inr found, cache')" "cs = filter (\<lambda>c. ac_id c \<noteq> []) found"
    by (auto simp: customers_def split: prod.splits sum.splits)
  from find_customers_uids [OF f(1)] have "set (map ac_key found) = set (map (ba_uid \<circ> snd) as)" by (rule arg_cong)
  then have "ac_key ` set found = ba_uid ` snd ` set as" by (simp add: image_comp)
  with f(2) show ?thesis by auto
qed

text \<open>
  The requests of an answer: usage of the customers of these accounts, within these projects.
\<close>

definition scope_reads :: "go_string set \<Rightarrow> go_string list \<Rightarrow> request \<Rightarrow> bool" where
  "scope_reads uids ps q \<longleftrightarrow> (\<exists>cs. ac_key ` set cs \<subseteq> uids \<and> spend_reads cs ps q)"

lemma read_usage_reads:
  assumes "planMeters milo mspec = Inr plans" and "ac_key ` set cs \<subseteq> uids"
    and "read_usage env spec scope resolved cs plans t = (r, t')"
  shows "\<exists>u. t' = t @ u \<and> (\<forall>q \<in> set (sent u). scope_reads uids (rs_projects resolved) q)"
proof -
  let ?e = "\<lparr>ex_spec = spec, ex_customers = customerIDs cs, ex_projects = rs_projects resolved\<rparr>"
  obtain x t1 where x: "executor_run (se_server (re_spend env)) ?e plans t = (x, t1)" by force
  have reads: "scope_reads uids (rs_projects resolved) q" if "spend_reads cs (rs_projects resolved) q" for q
    using that assms(2) by (auto simp: scope_reads_def)
  have run: "spend_reads cs (rs_projects resolved) q" if "reads_only (customerIDs cs) (rs_projects resolved) q" for q
    using that by (cases q) (simp_all add: spend_reads_def reads_only_def customerIDs_def)
  from executor_run_adds [OF assms(1), of "se_server (re_spend env)" ?e t] x obtain u where
    u: "t1 = t @ u" "\<forall>q \<in> set (sent u). reads_only (customerIDs cs) (rs_projects resolved) q" by auto
  obtain s t2 where s: "spend_run (re_spend env) spec cs (rs_projects resolved) (re_arrive env) plans t1 = (s, t2)" by force
  from spend_run_adds [OF assms(1) s] obtain v where
    v: "t2 = t1 @ v" "\<forall>q \<in> set (sent v). spend_reads cs (rs_projects resolved) q" by blast
  have "t' = t1 \<or> t' = t2"
    using assms(3) x s by (auto simp: read_usage_def split: sum.splits if_splits)
  with u v reads run show ?thesis by (metis append.assoc set_append sent_simps(3) UnE)
qed


definition sample_rest :: rest_env where
  "sample_rest = \<lparr>re_admit = (\<lambda>_. None), re_defaults = id, re_validate = (\<lambda>_. []), re_scope = (\<lambda>p. Inr (ScopeProject p)),
     re_org_ns = (\<lambda>org. ''ns-'' @ org), re_milo = sample_milo, re_meters = sample_reader,
     re_get_customer = (\<lambda>_ _. Inr ''c1''), re_clock = (\<lambda>_. 0), re_spend = sample_env, re_arrive = id\<rparr>"


end
