(* ===== verification/ApiLogic.thy ===== *)
theory ApiLogic
  imports Api
begin

text \<open>
  A small program logic for operations on exchanges. \<open>gives m Q\<close> says that from any earlier
  exchanges the operation \<open>m\<close> only appends exchanges, and that its result and the exchanges
  it appends satisfy \<open>Q\<close>, whatever the server answers. The rules follow the combinators the
  client's operations are built from; \<open>handle\<close> is the one for code that inspects an error
  and goes on.
\<close>

definition handle :: "'a api \<Rightarrow> (go_error \<Rightarrow> 'b api) \<Rightarrow> ('a \<Rightarrow> 'b api) \<Rightarrow> 'b api" where
  "handle m h k t = (case m t of (Inl e, t') \<Rightarrow> h e t' | (Inr x, t') \<Rightarrow> k x t')"

definition gives :: "'a api \<Rightarrow> ('a res \<Rightarrow> exchanges \<Rightarrow> bool) \<Rightarrow> bool" where
  "gives m Q \<longleftrightarrow> (\<forall>t. \<exists>u. snd (m t) = t @ u \<and> Q (fst (m t)) u)"

lemma givesD: "gives m Q \<Longrightarrow> \<exists>u. m t = (fst (m t), t @ u) \<and> Q (fst (m t)) u"
  unfolding gives_def by (metis prod.collapse)

lemma gives_result: "gives m Q \<Longrightarrow> m t = (r, t') \<Longrightarrow> \<exists>u. t' = t @ u \<and> Q r u"
  using givesD [of m Q t] by auto

lemma gives_mono: "gives m Q \<Longrightarrow> (\<And>r u. Q r u \<Longrightarrow> Q' r u) \<Longrightarrow> gives m Q'"
  unfolding gives_def by meson

lemma gives_conj: "gives m Q \<Longrightarrow> gives m Q' \<Longrightarrow> gives m (\<lambda>r u. Q r u \<and> Q' r u)"
  unfolding gives_def by (metis append_eq_append_conv)

lemma gives_ret: "Q (Inr x) [] \<Longrightarrow> gives (ret x) Q"
  by (auto simp: gives_def ret_def)

lemma gives_fail: "Q (Inl e) [] \<Longrightarrow> gives (fail e) Q"
  by (auto simp: gives_def fail_def)

lemma gives_handle:
  assumes "gives m Q1"
    and "\<And>e u. Q1 (Inl e) u \<Longrightarrow> gives (h e) (\<lambda>r v. Q r (u @ v))"
    and "\<And>x u. Q1 (Inr x) u \<Longrightarrow> gives (k x) (\<lambda>r v. Q r (u @ v))"
  shows "gives (handle m h k) Q"
  unfolding gives_def
proof
  fix t
  obtain r t1 u where m: "m t = (r, t1)" "t1 = t @ u" "Q1 r u" using givesD [OF assms(1), of t] by blast
  show "\<exists>u. snd (handle m h k t) = t @ u \<and> Q (fst (handle m h k t)) u"
  proof (cases r)
    case (Inl e)
    obtain v where "snd (h e t1) = t1 @ v" "Q (fst (h e t1)) (u @ v)"
      using assms(2) [of e u] m Inl unfolding gives_def by blast
    with m Inl show ?thesis by (auto simp: handle_def)
  next
    case (Inr x)
    obtain v where "snd (k x t1) = t1 @ v" "Q (fst (k x t1)) (u @ v)"
      using assms(3) [of x u] m Inr unfolding gives_def by blast
    with m Inr show ?thesis by (auto simp: handle_def)
  qed
qed

lemma gives_and_then:
  assumes "gives m Q1" and "\<And>e u. Q1 (Inl e) u \<Longrightarrow> Q (Inl e) u"
    and "\<And>x u. Q1 (Inr x) u \<Longrightarrow> gives (k x) (\<lambda>r v. Q r (u @ v))"
  shows "gives (and_then m k) Q"
proof -
  have "and_then m k = handle m fail k"
    by (auto simp: and_then_def handle_def fail_def split: prod.splits sum.splits)
  then show ?thesis
    using assms by (simp add: gives_handle [where ?Q1.0 = Q1 and Q = Q] gives_fail)
qed

lemma gives_wrapping:
  assumes "gives m (\<lambda>r u. Q (case r of Inl e \<Rightarrow> Inl (Wrap msg [e]) | Inr x \<Rightarrow> Inr x) u)"
  shows "gives (wrapping msg m) Q"
  using assms unfolding gives_def wrapping_def
  by (auto split: prod.splits sum.splits) (metis fst_conv snd_conv)+

lemma gives_v1_call:
  assumes "\<And>msg. Q (Inl (network_error msg)) [(q, Inl msg)]" and "\<And>r. Q (Inr r) [(q, Inr r)]"
  shows "gives (v1_call srv q) Q"
  using assms by (auto simp: gives_def v1_call_def call_def split: sum.splits)

lemma gives_checked:
  assumes "\<And>e. classify (Some (rp_http r)) None = Some e \<Longrightarrow> Q (Inl e) []"
    and "ok_status (status_code (rp_http r)) \<Longrightarrow> Q (Inr r) []"
  shows "gives (checked r) Q"
  using assms by (auto simp: gives_def checked_def fail_def ret_def classify_None_iff split: option.splits)

text \<open>A call whose reply is classified and then decoded.\<close>

lemma gives_v1_checked:
  assumes "\<And>e reply. Q (Inl e) [(q, reply)]"
    and "\<And>r. ok_status (status_code (rp_http r)) \<Longrightarrow> gives (dec r) (\<lambda>x u. Q x ((q, Inr r) # u))"
  shows "gives (and_then (v1_call srv q) (\<lambda>r. and_then (checked r) dec)) Q"
  unfolding gives_def
proof
  fix t
  let ?m = "and_then (v1_call srv q) (\<lambda>r. and_then (checked r) dec)"
  show "\<exists>u. snd (?m t) = t @ u \<and> Q (fst (?m t)) u"
  proof (cases "\<exists>r. srv t q = Inr r \<and> ok_status (status_code (rp_http r))")
    case True
    then obtain r where r: "srv t q = Inr r" "ok_status (status_code (rp_http r))" by blast
    then have "?m t = dec r (t @ [(q, Inr r)])" by (simp add: and_then_def v1_call_def call_def checked_def ret_def)
    moreover obtain u where "snd (dec r (t @ [(q, Inr r)])) = (t @ [(q, Inr r)]) @ u"
      "Q (fst (dec r (t @ [(q, Inr r)]))) ((q, Inr r) # u)"
      using assms(2) [OF r(2)] unfolding gives_def by blast
    ultimately show ?thesis by (intro exI [of _ "(q, Inr r) # u"]) simp
  next
    case False
    then have "\<exists>e. ?m t = (Inl e, t @ [(q, srv t q)])"
      by (auto simp: and_then_def v1_call_def call_def checked_def ret_def fail_def classify_None_iff
          split: sum.splits option.splits)
    with assms(1) show ?thesis by auto
  qed
qed

lemma gives_if: "(b \<Longrightarrow> gives m Q) \<Longrightarrow> (\<not> b \<Longrightarrow> gives n Q) \<Longrightarrow> gives (if b then m else n) Q"
  by simp

lemma gives_adds: "adds P m \<Longrightarrow> gives m (\<lambda>r u. \<forall>q \<in> set (sent u). P q)"
  by (simp add: adds_def gives_def)

lemma adds_gives: "adds P m \<longleftrightarrow> gives m (\<lambda>r u. \<forall>q \<in> set (sent u). P q)"
  by (simp add: adds_def gives_def)

lemma adds_handle [intro]: "adds P m \<Longrightarrow> (\<And>e. adds P (h e)) \<Longrightarrow> (\<And>x. adds P (k x)) \<Longrightarrow> adds P (handle m h k)"
  unfolding adds_gives
  by (rule gives_handle [where ?Q1.0 = "\<lambda>r u. \<forall>q \<in> set (sent u). P q"])
    (assumption, (rule gives_mono, assumption, auto)+)

lemma gives_trace: "gives m (\<lambda>r u. True) \<Longrightarrow> \<exists>u. snd (m t) = t @ u"
  by (auto simp: gives_def)

end
