(* ===== verification/Kube.thy ===== *)
theory Kube
  imports ApiLogic
begin

text \<open>
  What the controllers share: object metadata, the calls that write to Kubernetes, results
  of a reconcile, and the finalizer helper of controller-runtime.

  A controller reads its objects from the informer cache before it calls OpenMeter; what a
  read returned is an argument of the model. Writes are requests in the same list of
  exchanges as the calls to OpenMeter, so their order is visible. Logs, Kubernetes events
  and the de-duplication of events are left out.
\<close>

record kube_meta =
  km_namespace :: go_string
  km_name :: go_string
  km_uid :: go_string
  km_generation :: int
  km_deleting :: bool
  km_finalizers :: "go_string list"
  km_annotations :: str_map

definition object_key_of :: "go_string \<Rightarrow> kube_meta \<Rightarrow> object_key" where
  "object_key_of kind m = \<lparr>ok_kind = kind, ok_namespace = km_namespace m, ok_name = km_name m\<rparr>"

datatype ctrl_result = ResultNone | ResultRequeue | ResultRequeueAfter int

definition kube_call :: "server \<Rightarrow> kube_request \<Rightarrow> unit api" where
  "kube_call srv q t =
    (case call srv (ReqKube q) t of
       (Inl msg, t') \<Rightarrow> (Inl (Leaf msg), t')
     | (Inr r, t') \<Rightarrow>
       (let st = status_code (rp_http r) in
        if ok_status st then (Inr (), t')
        else if st = 404 then (Inl (Sentinel KubeNotFound), t')
        else if st = 409 then (Inl (Sentinel KubeConflict), t')
        else (Inl (Leaf ''kubernetes request failed''), t')))"

lemma gives_kube_call: "gives (kube_call srv q) (\<lambda>r u. sent u = [ReqKube q] \<and> (\<forall>e. r = Inl e \<longrightarrow> chain e = [e]))"
  by (auto simp: gives_def kube_call_def call_def Let_def split: sum.splits)

lemma adds_kube_call: "P (ReqKube q) \<Longrightarrow> adds P (kube_call srv q)"
  unfolding adds_gives by (rule gives_mono [OF gives_kube_call]) simp

definition kube_create :: "server \<Rightarrow> kube_request \<Rightarrow> unit api" where
  "kube_create srv q = handle (kube_call srv q)
    (\<lambda>e. fail (if e = Sentinel KubeConflict then Sentinel KubeAlreadyExists else e)) ret"

lemma gives_kube_create: "gives (kube_create srv q) (\<lambda>r u. sent u = [ReqKube q])"
  unfolding kube_create_def
  by (rule gives_handle [OF gives_kube_call]) (auto intro: gives_fail gives_ret)

definition second_ns :: int where "second_ns = 1000000000"
definition transientRequeueAfter :: int where "transientRequeueAfter = 15 * second_ns"
definition permanentRequeueAfter :: int where "permanentRequeueAfter = 300 * second_ns"

definition syncReason :: "go_error \<Rightarrow> go_string" where
  "syncReason e = (if IsPermanent e then ''Permanent'' else if IsTransient e then ''Transient'' else ''Invalid'')"

section \<open>The finalizer helper\<close>

text \<open>
  \<open>finalizer.Finalizers\<close> of controller-runtime with one registered finalizer is a parameter:
  it returns whether it changed the object, the changed metadata and an error. What it
  documents: an object that is not being deleted gets the finalizer if it lacks it; one
  that is being deleted and has it is finalized, and loses it when that succeeded.
\<close>

type_synonym finalizers_lib =
  "go_string \<Rightarrow> unit api \<Rightarrow> kube_meta \<Rightarrow> exchanges \<Rightarrow> (bool \<times> kube_meta \<times> go_error option) \<times> exchanges"

definition documented_finalizers :: "finalizers_lib \<Rightarrow> bool" where
  "documented_finalizers fz \<longleftrightarrow> (\<forall>key cb m t.
    (\<not> km_deleting m \<and> key \<in> set (km_finalizers m) \<longrightarrow> fz key cb m t = ((False, m, None), t)) \<and>
    (\<not> km_deleting m \<and> key \<notin> set (km_finalizers m) \<longrightarrow>
       fz key cb m t = ((True, m\<lparr>km_finalizers := km_finalizers m @ [key]\<rparr>, None), t)) \<and>
    (km_deleting m \<and> key \<notin> set (km_finalizers m) \<longrightarrow> fz key cb m t = ((False, m, None), t)) \<and>
    (km_deleting m \<and> key \<in> set (km_finalizers m) \<longrightarrow>
       (case cb t of
          (Inl e, t') \<Rightarrow> \<exists>e'. fz key cb m t = ((False, m, Some e'), t')
        | (Inr _, t') \<Rightarrow> fz key cb m t = ((True, m\<lparr>km_finalizers := removeAll key (km_finalizers m)\<rparr>, None), t'))))"

definition example_finalizers :: finalizers_lib where
  "example_finalizers key cb m t =
    (if key \<in> set (km_finalizers m) then
       (if km_deleting m then
          (case cb t of
             (Inl e, t') \<Rightarrow> ((False, m, Some e), t')
           | (Inr _, t') \<Rightarrow> ((True, m\<lparr>km_finalizers := removeAll key (km_finalizers m)\<rparr>, None), t'))
        else ((False, m, None), t))
     else if km_deleting m then ((False, m, None), t)
     else ((True, m\<lparr>km_finalizers := km_finalizers m @ [key]\<rparr>, None), t))"

lemma example_finalizers_documented: "documented_finalizers example_finalizers"
  by (auto simp: documented_finalizers_def example_finalizers_def split: prod.splits sum.splits)

end
