(* ===== verification/Finalization.thy ===== *)
theory Finalization
  imports Kube
begin

text \<open>
  The life of an object with a finalizer, over many passes of its controller. The API server
  keeps the object while a finalizer is on it, so everything a controller has to do before an
  object may go rests on one contract: a pass takes its finalizer off only when what it stands for is
  settled. The contract is the locale \<open>finalized_object\<close>; every controller interprets it on its own
  \<open>Reconcile\<close>. What follows for any number of passes, with other actors in between, is proved
  here once.
\<close>

section \<open>Lives\<close>

text \<open>The finalizers a request writes.\<close>

definition finalizers_written :: "request \<Rightarrow> go_string list option" where
  "finalizers_written q =
    (case q of
       ReqKube (PatchFinalizers k fs) \<Rightarrow> Some fs
     | ReqKube (UpdateFinalizers k fs) \<Rightarrow> Some fs
     | _ \<Rightarrow> None)"

lemma finalizers_written_simps [simp]:
  "finalizers_written (ReqKube (PatchFinalizers k fs)) = Some fs"
  "finalizers_written (ReqKube (UpdateFinalizers k fs)) = Some fs"
  by (simp_all add: finalizers_written_def)

lemma not_a_write: "(\<And>k. q \<noteq> ReqKube k) \<Longrightarrow> finalizers_written q = None"
  by (auto simp: finalizers_written_def split: request.splits)

lemma writes_none [simp]:
  "finalizers_written (ReqKube (PatchCondition k c)) = None" "finalizers_written (ReqKube (PatchAnnotations k a)) = None"
  "finalizers_written (ReqGetMeter s) = None" "finalizers_written (ReqGetFeature s) = None"
  "finalizers_written (ReqCreateFeature fc) = None" "finalizers_written (ReqListPlans s n) = None"
  "finalizers_written (ReqCustomer cq) = None" "finalizers_written (ReqProfile pq) = None"
  "finalizers_written (ReqInvoice iq) = None" "finalizers_written (ReqStripe sq) = None"
  by (simp_all add: finalizers_written_def)

abbreviation no_finalizers :: "request \<Rightarrow> bool" where
  "no_finalizers q \<equiv> finalizers_written q = None"

text \<open>A request that takes the finalizer \<open>key\<close> off.\<close>

definition drops :: "go_string \<Rightarrow> request \<Rightarrow> bool" where
  "drops key q \<longleftrightarrow> (\<exists>fs. finalizers_written q = Some fs \<and> key \<notin> set fs)"

lemma drops_simps [simp]:
  "drops key (ReqKube (PatchFinalizers k fs)) \<longleftrightarrow> key \<notin> set fs"
  "drops key (ReqKube (UpdateFinalizers k fs)) \<longleftrightarrow> key \<notin> set fs"
  "\<not> drops key (ReqKube (PatchCondition k c))" "\<not> drops key (ReqKube (PatchAnnotations k a))"
  by (simp_all add: drops_def finalizers_written_def)

lemma drops_written: "finalizers_written q = None \<Longrightarrow> \<not> drops key q"
  by (simp add: drops_def)

lemma drops_kube: "drops key q \<Longrightarrow> \<exists>k. q = ReqKube k"
  by (auto simp: drops_def finalizers_written_def split: request.splits)

text \<open>
  A life: the finalizers the API server has on the object, the exchanges so far, and the passes
  made, each with what it had read and the exchanges before it. \<open>'x\<close> is what a pass reads.
\<close>

record 'x life =
  lf_finalizers :: "go_string list"
  lf_exchanges :: exchanges
  lf_passes :: "('x \<times> exchanges) list"

text \<open>
  One step of a life. Others may change anything but the finalizer \<open>key\<close>, and any exchanges may happen.
  A pass runs on what it read, which may be out of date. Its write of the finalizers
  may have taken effect, whatever its reply said, if it had read the current ones: both the
  updates and the patches of finalizers carry the version that was read, and the API
  server refuses them when the object has changed since.
\<close>

inductive life_step :: "go_string \<Rightarrow> ('x \<Rightarrow> bool) \<Rightarrow> ('x \<Rightarrow> go_string list) \<Rightarrow> ('x \<Rightarrow> exchanges \<Rightarrow> exchanges) \<Rightarrow>
    'x life \<Rightarrow> 'x life \<Rightarrow> bool"
  for key ok held pass where
  others: "(key \<in> set fs') = (key \<in> set fs) \<Longrightarrow>
    life_step key ok held pass \<lparr>lf_finalizers = fs, lf_exchanges = t, lf_passes = h\<rparr>
      \<lparr>lf_finalizers = fs', lf_exchanges = t @ u, lf_passes = h\<rparr>"
| unchanged: "ok x \<Longrightarrow>
    life_step key ok held pass \<lparr>lf_finalizers = fs, lf_exchanges = t, lf_passes = h\<rparr>
      \<lparr>lf_finalizers = fs, lf_exchanges = pass x t, lf_passes = h @ [(x, t)]\<rparr>"
| written: "ok x \<Longrightarrow> pass x t = t @ u \<Longrightarrow> q \<in> set (sent u) \<Longrightarrow> finalizers_written q = Some fs' \<Longrightarrow> held x = fs \<Longrightarrow>
    life_step key ok held pass \<lparr>lf_finalizers = fs, lf_exchanges = t, lf_passes = h\<rparr>
      \<lparr>lf_finalizers = fs', lf_exchanges = pass x t, lf_passes = h @ [(x, t)]\<rparr>"

inductive_cases life_stepE: "life_step key ok held pass s s'"

abbreviation lives :: "go_string \<Rightarrow> ('x \<Rightarrow> bool) \<Rightarrow> ('x \<Rightarrow> go_string list) \<Rightarrow> ('x \<Rightarrow> exchanges \<Rightarrow> exchanges) \<Rightarrow>
    'x life \<Rightarrow> 'x life \<Rightarrow> bool" where
  "lives key ok held pass \<equiv> (life_step key ok held pass)\<^sup>*\<^sup>*"

section \<open>The phases of a finalizer\<close>

text \<open>
  The abstract machine: an object is active, then settled, and only then released. A settled object
  may stay, and a finalizer may be put back on a released one. An object whose finalizer is gone
  though nothing was settled is lost, and no step leads there.
\<close>

datatype phase = Active | Settled | Released | Lost

inductive phase_step :: "phase \<Rightarrow> phase \<Rightarrow> bool" where
  stay: "phase_step p p"
| settle: "phase_step Active Settled"
| release: "phase_step Settled Released"
| restore: "phase_step Released Settled"

inductive_simps phase_step_Lost: "phase_step p Lost"

lemma never_lost: "phase_step\<^sup>*\<^sup>* p q \<Longrightarrow> p \<noteq> Lost \<Longrightarrow> q \<noteq> Lost"
  by (induction rule: rtranclp_induct) (auto simp: phase_step_Lost)

definition phase_of :: "go_string \<Rightarrow> ('x \<Rightarrow> exchanges \<Rightarrow> bool) \<Rightarrow> 'x life \<Rightarrow> phase" where
  "phase_of key settled s =
    (if \<exists>(x, t) \<in> set (lf_passes s). settled x t
     then (if key \<in> set (lf_finalizers s) then Settled else Released)
     else (if key \<in> set (lf_finalizers s) then Active else Lost))"

definition settled_before :: "('x \<Rightarrow> exchanges \<Rightarrow> bool) \<Rightarrow> 'x life \<Rightarrow> bool" where
  "settled_before settled s \<longleftrightarrow> (\<exists>(x, t) \<in> set (lf_passes s). settled x t \<and> prefix t (lf_exchanges s))"

section \<open>The contract\<close>

locale finalized_object =
  fixes key :: go_string
    and ok :: "'x \<Rightarrow> bool"
    and held :: "'x \<Rightarrow> go_string list"
    and pass :: "'x \<Rightarrow> exchanges \<Rightarrow> exchanges"
    and settled :: "'x \<Rightarrow> exchanges \<Rightarrow> bool"
  assumes pass_extends: "ok x \<Longrightarrow> prefix t (pass x t)"
    and pass_drops: "ok x \<Longrightarrow> key \<in> set (held x) \<Longrightarrow> pass x t = t @ u \<Longrightarrow> q \<in> set (sent u) \<Longrightarrow>
      drops key q \<Longrightarrow> settled x t"
begin

text \<open>The invariant of a life: the exchanges hold those before every pass, and a released object was settled.\<close>

definition sound :: "'x life \<Rightarrow> bool" where
  "sound s \<longleftrightarrow> (\<forall>(x, t) \<in> set (lf_passes s). prefix t (lf_exchanges s)) \<and>
    (key \<notin> set (lf_finalizers s) \<longrightarrow> settled_before settled s)"

lemma sound_step:
  assumes "life_step key ok held pass s s'" "sound s"
  shows "sound s'"
  using assms
proof (cases rule: life_step.cases)
  case (others fs' fs t h u)
  with assms(2) show ?thesis by (auto simp: sound_def settled_before_def intro: prefix_prefix)
next
  case (unchanged x fs t h)
  with assms(2) pass_extends [of x t] show ?thesis
    by (auto simp: sound_def settled_before_def intro: prefix_order.trans)
next
  case (written x t u q fs' fs h)
  have "settled_before settled s'" if "key \<notin> set fs'"
  proof (cases "key \<in> set fs")
    case True
    with written that have "settled x t" by (intro pass_drops) (auto simp: drops_def)
    with written show ?thesis by (auto simp: settled_before_def)
  next
    case False
    with written assms(2) show ?thesis by (auto simp: sound_def settled_before_def intro: prefix_prefix)
  qed
  with written assms(2) show ?thesis by (auto simp: sound_def intro: prefix_prefix)
qed

lemma sound_lives: "lives key ok held pass s s' \<Longrightarrow> sound s \<Longrightarrow> sound s'"
  by (induction rule: rtranclp_induct) (auto intro: sound_step)

lemma sound_created: "key \<in> set fs \<Longrightarrow> sound \<lparr>lf_finalizers = fs, lf_exchanges = t, lf_passes = []\<rparr>"
  by (simp add: sound_def)

text \<open>Over any life of an object created with the finalizer: it is still there, or a pass settled the object.\<close>

lemma kept_until_settled:
  assumes "key \<in> set fs0" "lives key ok held pass \<lparr>lf_finalizers = fs0, lf_exchanges = t0, lf_passes = []\<rparr> s"
  shows "key \<in> set (lf_finalizers s) \<or> settled_before settled s"
  using sound_lives [OF assms(2) sound_created [OF assms(1)]] by (auto simp: sound_def)

text \<open>The passes simulate the phases: from a sound life, every step is a sequence of phase steps.\<close>

lemma passes_grow: "life_step key ok held pass s s' \<Longrightarrow> set (lf_passes s) \<subseteq> set (lf_passes s')"
  by (auto elim!: life_stepE)

lemma phase_simulation:
  assumes "life_step key ok held pass s s'" "sound s"
  shows "phase_step\<^sup>*\<^sup>* (phase_of key settled s) (phase_of key settled s')"
proof -
  have to_settled: "phase_step\<^sup>*\<^sup>* p Settled" if "p \<noteq> Lost" for p
    using that by (cases p) (auto intro: settle restore)
  then have to_released: "phase_step\<^sup>*\<^sup>* p Released" if "p \<noteq> Lost" for p
    using that release by (meson rtranclp.rtrancl_into_rtrancl)
  have kept: "phase_of key settled s \<noteq> Lost" "phase_of key settled s' \<noteq> Lost"
    using assms(2) sound_step [OF assms] by (auto simp: phase_of_def sound_def settled_before_def split: if_splits)
  have "phase_of key settled s' \<noteq> Active" if "phase_of key settled s \<noteq> Active"
    using that passes_grow [OF assms(1)] kept unfolding phase_of_def by (fastforce split: if_splits)
  then show ?thesis
    using to_released to_settled kept
    by (cases "phase_of key settled s'"; cases "phase_of key settled s") auto
qed

lemma phases_of_life:
  assumes "lives key ok held pass s s'" "sound s"
  shows "phase_step\<^sup>*\<^sup>* (phase_of key settled s) (phase_of key settled s')"
  using assms
proof (induction rule: rtranclp_induct)
  case (step y z)
  from phase_simulation [OF step(2) sound_lives [OF step(1) step(4)]] step.IH [OF step(4)] show ?case by simp
qed simp

end

end
