(* ===== verification/Notices.thy ===== *)
theory Notices
  imports Kube
begin

text \<open>
  The de-duplication of events the controllers share (\<open>notices\<close> of
  \<open>internal/controller/billingaccount_controller.go\<close>): what was last reported under a key. An event is its type, its reason
  and its message.
\<close>

datatype event = Event go_string go_string go_string

type_synonym notices = "go_string \<rightharpoonup> go_string"

definition changed :: "go_string \<Rightarrow> go_string \<Rightarrow> notices \<Rightarrow> bool \<times> notices" where
  "changed key msg n = (if n key = Some msg then (False, n) else (True, n(key \<mapsto> msg)))"

definition forget :: "go_string \<Rightarrow> notices \<Rightarrow> notices" where
  "forget key n = n(key := None)"

definition forgetPrefix :: "go_string \<Rightarrow> notices \<Rightarrow> notices" where
  "forgetPrefix pre n = (\<lambda>k. if prefix pre k then None else n k)"

end
