(* ===== verification/MeterController.thy ===== *)
theory MeterController
  imports Finalization Notices Features Meters
begin

text \<open>
  The MeterDefinition controller (\<open>internal/controller/meterdefinition_controller.go\<close>): every
  MeterDefinition has an OpenMeter meter under the slug of its meter name, removed by a
  finalizer when the definition goes.
\<close>

section \<open>Desired state\<close>

record meter_object = meter_definition +
  mo_meta :: kube_meta
  mo_meter_name :: go_string
  mo_display_name :: go_string
  mo_description :: go_string
  mo_aggregation :: milo_aggregation

definition MeterFinalizer :: go_string where "MeterFinalizer = ''openmeter.miloapis.com/meter''"
definition meterResyncInterval :: int where "meterResyncInterval = 1800 * second_ns"

definition desiredMeter :: "meter_object \<Rightarrow> desired_meter res" where
  "desiredMeter md =
    (case MeterAggregation (mo_aggregation md) of
       Inl e \<Rightarrow> Inl e
     | Inr aggregation \<Rightarrow>
       (let name = (if mo_display_name md = [] then mo_meter_name md else mo_display_name md);
            description = (if mo_description md \<noteq> [] then mo_description md else name)
        in case MeterGroupBy (MeterDimensions md) of
             Inl e \<Rightarrow> Inl e
           | Inr groupBy \<Rightarrow>
             Inr \<lparr>dm_slug = MeterSlug (mo_meter_name md), dm_event_type = mo_meter_name md, dm_aggregation = aggregation,
                  dm_name = name, dm_description = description, dm_group_by = groupBy,
                  dm_value_property = MeterValueProperty (mo_aggregation md)\<rparr>))"

section \<open>Deletion\<close>

definition meterLinkFinalize :: "nat \<Rightarrow> server \<Rightarrow> meter_object \<Rightarrow> unit api" where
  "meterLinkFinalize fuel srv md =
    (let slug = MeterSlug (mo_meter_name md) in
     handle (GetMeter srv slug)
       (\<lambda>e. if errors_is e ErrMeterNotFound then ret () else fail e)
       (\<lambda>meter.
          if mt_event_type meter \<noteq> mo_meter_name md then ret ()
          else and_then (ArchiveUnreferencedMeterFeatures fuel srv slug) (\<lambda>_. DeleteMeter srv slug)))"

section \<open>Reconciling\<close>

definition sync_meter :: "server \<Rightarrow> meter_object \<Rightarrow> ctrl_result api" where
  "sync_meter srv md =
    (case desiredMeter md of
       Inl e \<Rightarrow> fail (Wrap ''OpenMeter desiredMeter'' [e])
     | Inr desired \<Rightarrow>
       and_then (wrapping ''OpenMeter EnsureMeter'' (EnsureMeter srv desired)) (\<lambda>_. ret (ResultRequeueAfter meterResyncInterval)))"

text \<open>
  How \<open>Reconcile\<close> reports what it did: a failure is an event when its message changes, a success
  forgets the last failure, and is an event when the meter was written. \<open>meter_outcome\<close> is the part of a pass
  that is reported, \<open>report_meter\<close> what is returned and reported.
\<close>

definition meter_notice_key :: "kube_meta \<Rightarrow> go_string" where
  "meter_notice_key m = km_namespace m @ ''/'' @ km_name m"

definition handleOpenMeterError :: "kube_meta \<Rightarrow> go_string \<Rightarrow> go_error \<Rightarrow> notices \<Rightarrow> ctrl_result res \<times> notices \<times> event list" where
  "handleOpenMeterError m operation e n =
    (let msg = syncReason e @ '': '' @ error_text e; (new, n') = changed (meter_notice_key m) msg n
     in (Inl (Wrap (''OpenMeter '' @ operation) [e]), n', if new then [Event ''Warning'' ''SyncFailed'' msg] else []))"

type_synonym meter_outcome = "(go_string \<times> go_error) + (om_meter \<times> bool)"

definition meter_outcome :: "server \<Rightarrow> meter_object \<Rightarrow> exchanges \<Rightarrow> meter_outcome \<times> exchanges" where
  "meter_outcome srv md t =
    (case desiredMeter md of
       Inl e \<Rightarrow> (Inl (''desiredMeter'', e), t)
     | Inr desired \<Rightarrow>
       (case EnsureMeter srv desired t of
          (Inl e, t') \<Rightarrow> (Inl (''EnsureMeter'', e), t')
        | (Inr r, t') \<Rightarrow> (Inr r, t')))"

fun report_meter :: "kube_meta \<Rightarrow> meter_outcome \<Rightarrow> notices \<Rightarrow> ctrl_result res \<times> notices \<times> event list" where
  "report_meter m (Inl (operation, e)) n = handleOpenMeterError m operation e n"
| "report_meter m (Inr (meter, updated)) n =
    (Inr (ResultRequeueAfter meterResyncInterval), forget (meter_notice_key m) n,
     if \<not> updated then [] else [Event ''Normal'' ''Synced'' (''OpenMeter meter '' @ mt_slug meter @ '' synced'')])"

lemma sync_meter_reported:
  "sync_meter srv md t =
    (fst (report_meter (mo_meta md) (fst (meter_outcome srv md t)) n), snd (meter_outcome srv md t))"
  by (auto simp: sync_meter_def meter_outcome_def handleOpenMeterError_def fail_def and_then_def wrapping_def ret_def Let_def
      split: sum.splits prod.splits)

definition after_finalizers :: "server \<Rightarrow> meter_object \<Rightarrow> bool \<Rightarrow> go_error option \<Rightarrow> ctrl_result api" where
  "after_finalizers srv md updated finalizeErr =
    (case finalizeErr of
       Some e \<Rightarrow> fail (Wrap ''running finalizers'' [e])
     | None \<Rightarrow>
       if updated then ret ResultNone
       else if km_deleting (mo_meta md) then ret ResultNone
       else sync_meter srv md)"

definition persist_finalizers :: "server \<Rightarrow> meter_object \<Rightarrow> bool \<Rightarrow> kube_meta \<Rightarrow> go_error option \<Rightarrow> ctrl_result api" where
  "persist_finalizers srv md updated m finalizeErr =
    (if updated then
       handle (kube_call srv (PatchFinalizers (object_key_of ''MeterDefinition'' m) (km_finalizers m)))
         (\<lambda>e. if errors_is e KubeConflict then ret ResultRequeue
              else if errors_is e KubeNotFound then ret ResultNone
              else fail (Wrap ''persisting finalizer change'' [e]))
         (\<lambda>_. after_finalizers srv md updated finalizeErr)
     else after_finalizers srv md updated finalizeErr)"

definition meter_Reconcile :: "finalizers_lib \<Rightarrow> nat \<Rightarrow> server \<Rightarrow> meter_object res \<Rightarrow> ctrl_result api" where
  "meter_Reconcile fz fuel srv got =
    (case got of
       Inl e \<Rightarrow> if errors_is e KubeNotFound then ret ResultNone else fail e
     | Inr md \<Rightarrow> (\<lambda>t.
       case fz MeterFinalizer (meterLinkFinalize fuel srv md) (mo_meta md) t of
         ((updated, m, err), t') \<Rightarrow> persist_finalizers srv md updated m err t'))"

section \<open>Only the definition's own meter is deleted\<close>

definition meter_removal :: "request \<Rightarrow> bool" where
  "meter_removal q = (case q of ReqDeleteMeter _ \<Rightarrow> True | ReqDeleteFeature _ \<Rightarrow> True | _ \<Rightarrow> False)"

definition removal_read :: "request \<Rightarrow> bool" where
  "removal_read q = (case q of ReqGetMeter _ \<Rightarrow> True | ReqListFeatures _ _ _ \<Rightarrow> True | ReqListPlans _ _ \<Rightarrow> True | _ \<Rightarrow> False)"

lemma GetMeter_gives:
  "gives (GetMeter srv slug) (\<lambda>r u. (\<forall>q \<in> set (sent u). q = ReqGetMeter slug) \<and>
    (\<forall>m. r = Inr m \<longrightarrow> (\<exists>rp. u = [(ReqGetMeter slug, Inr rp)] \<and> rp_sdk rp = Some (MeterBody m))))"
  by (auto simp: gives_def GetMeter_def and_then_def v1_call_def call_def checked_def ret_def fail_def
      split: sum.splits option.splits body.splits)

lemma archive_gives:
  "gives (ArchiveUnreferencedMeterFeatures fuel srv slug)
    (\<lambda>r u. \<forall>q \<in> set (sent u). removal_read q \<or> (\<exists>i. q = ReqDeleteFeature i))"
proof -
  let ?P = "\<lambda>q. removal_read q \<or> (\<exists>i. q = ReqDeleteFeature i)"
  have del: "adds ?P (DeleteFeature srv i)" for i
    by (auto simp: DeleteFeature_def intro!: adds_if adds_and_then adds_v1_call)
  have each: "adds ?P (archive_each srv refs ids)" for refs ids
    by (induction ids) (auto intro!: adds_if adds_and_then adds_wrapping del)
  have plans: "adds ?P (listPlans fuel srv [])"
    by (rule adds_mono [OF adds_listPlans]) (auto simp: removal_read_def)
  have "adds ?P (ArchiveUnreferencedMeterFeatures fuel srv slug)"
    unfolding ArchiveUnreferencedMeterFeatures_def ArchiveFeaturesIfUnreferenced_def referencedFeatureIDs_def ListFeatures_def
    by (intro adds_and_then adds_if adds_ret adds_listFeatures plans each) (simp add: removal_read_def)
  then show ?thesis by (rule gives_adds)
qed

lemma DeleteMeter_gives: "gives (DeleteMeter srv slug) (\<lambda>r u. u = [] \<or> sent u = [ReqDeleteMeter slug])"
  by (auto simp: gives_def DeleteMeter_def and_then_def v1_call_def call_def checked_def ret_def fail_def
      split: sum.splits option.splits)

text \<open>
  The removals an exchange list may hold: none, unless it starts with the server returning
  the meter under this slug with this event type; then features are archived and the meter
  itself is deleted at most once, last.
\<close>

definition own_removals :: "go_string \<Rightarrow> go_string \<Rightarrow> exchanges \<Rightarrow> bool" where
  "own_removals slug event_type u \<longleftrightarrow>
    (\<forall>q \<in> set (sent u). \<not> meter_removal q) \<or>
    (\<exists>rp m v w. u = (ReqGetMeter slug, Inr rp) # v @ w \<and> rp_sdk rp = Some (MeterBody m) \<and> mt_event_type m = event_type \<and>
       (\<forall>q \<in> set (sent v). removal_read q \<or> (\<exists>i. q = ReqDeleteFeature i)) \<and> (sent w = [] \<or> sent w = [ReqDeleteMeter slug]))"

lemma own_removalsI:
  "rp_sdk rp = Some (MeterBody m) \<Longrightarrow> mt_event_type m = n \<Longrightarrow>
    (\<forall>q \<in> set (sent v). removal_read q \<or> (\<exists>i. q = ReqDeleteFeature i)) \<Longrightarrow> sent w = [] \<or> sent w = [ReqDeleteMeter slug] \<Longrightarrow>
    own_removals slug n ((ReqGetMeter slug, Inr rp) # v @ w)"
  unfolding own_removals_def by blast

lemma meterLinkFinalize_gives:
  "gives (meterLinkFinalize fuel srv md) (\<lambda>r u. own_removals (MeterSlug (mo_meter_name md)) (mo_meter_name md) u)"
proof -
  let ?s = "MeterSlug (mo_meter_name md)" and ?n = "mo_meter_name md"
  have "gives (and_then (ArchiveUnreferencedMeterFeatures fuel srv ?s) (\<lambda>_. DeleteMeter srv ?s))
      (\<lambda>r v. own_removals ?s ?n ((ReqGetMeter ?s, Inr rp) # v))"
    if m: "rp_sdk rp = Some (MeterBody m)" "mt_event_type m = ?n" for rp m
  proof (rule gives_and_then [OF archive_gives], goal_cases)
    case (1 e v)
    then show ?case using own_removalsI [OF m, of v "[]" ?s] by simp
  next
    case (2 x v)
    then have "own_removals ?s ?n ((ReqGetMeter ?s, Inr rp) # v @ w)" if "w = [] \<or> sent w = [ReqDeleteMeter ?s]" for w
      using 2 that by (intro own_removalsI [OF m]) auto
    then show ?case by (intro gives_mono [OF DeleteMeter_gives]) simp
  qed
  then show ?thesis
    unfolding meterLinkFinalize_def Let_def
    by (intro gives_handle [OF GetMeter_gives] gives_if gives_ret gives_fail)
      (auto simp: own_removals_def meter_removal_def)
qed

lemma meterLinkFinalize_requests:
  "gives (meterLinkFinalize fuel srv md) (\<lambda>r u. \<forall>q \<in> set (sent u). removal_read q \<or> meter_removal q)"
proof -
  have arch: "gives (and_then (ArchiveUnreferencedMeterFeatures fuel srv s) (\<lambda>_. DeleteMeter srv s))
      (\<lambda>r u. \<forall>q \<in> set (sent u). removal_read q \<or> meter_removal q)" for s
    by (intro gives_and_then [OF archive_gives] gives_mono [OF DeleteMeter_gives]) (auto simp: meter_removal_def)
  show ?thesis
    unfolding meterLinkFinalize_def Let_def
    by (intro gives_handle [OF GetMeter_gives] gives_if gives_ret gives_fail gives_mono [OF arch])
      (auto simp: removal_read_def)
qed

lemma removal_not_kube: "removal_read q \<or> meter_removal q \<Longrightarrow> q \<noteq> ReqKube k"
  by (auto simp: removal_read_def meter_removal_def)

text \<open>
  C29. Deleting a MeterDefinition never deletes another definition's meter. Slugs can collide;
  meters and features are only removed after the server returned, in this very call, the
  meter under the slug with the definition's full meter name as its event type. Then
  unreferenced features are archived first, and the meter itself is deleted last, under
  that slug.
\<close>

theorem meterLinkFinalize_own:
  "\<exists>u. snd (meterLinkFinalize fuel srv md t) = t @ u \<and>
    ((\<forall>q \<in> set (sent u). \<not> meter_removal q) \<or>
     (\<exists>rp m v w. u = (ReqGetMeter (MeterSlug (mo_meter_name md)), Inr rp) # v @ w \<and>
        rp_sdk rp = Some (MeterBody m) \<and> mt_event_type m = mo_meter_name md \<and>
        (\<forall>q \<in> set (sent v). removal_read q \<or> (\<exists>i. q = ReqDeleteFeature i)) \<and>
        (sent w = [] \<or> sent w = [ReqDeleteMeter (MeterSlug (mo_meter_name md))])))"
  using meterLinkFinalize_gives [of fuel srv md] unfolding gives_def own_removals_def by blast

section \<open>Reconciling a definition\<close>

definition meter_only :: "request \<Rightarrow> bool" where
  "meter_only q = (case q of ReqGetMeter _ \<Rightarrow> True | ReqCreateMeter _ \<Rightarrow> True | ReqUpdateMeter _ _ \<Rightarrow> True | _ \<Rightarrow> False)"

lemma meter_only_reqs [simp]: "meter_only (ReqGetMeter s)" "meter_only (ReqCreateMeter b)" "meter_only (ReqUpdateMeter s u)"
  by (simp_all add: meter_only_def)

lemma meter_only_simps:
  "meter_only q \<Longrightarrow> \<not> meter_removal q" "\<not> meter_only (ReqKube k)" "\<not> meter_removal (ReqKube k)"
  by (simp_all add: meter_only_def meter_removal_def split: request.splits)

lemma EnsureMeter_gives: "gives (EnsureMeter srv d) (\<lambda>r u. \<forall>q \<in> set (sent u). meter_only q)"
proof -
  have writes: "gives (and_then (and_then (v1_call srv q) (\<lambda>r. and_then (checked r) (\<lambda>r. meter_answer srv opn slug r)))
      (\<lambda>m. ret (m, True))) (\<lambda>r u. \<forall>q \<in> set (sent u). meter_only q)" if "meter_only q" for q opn slug
    unfolding gives_def
  proof
    fix t
    obtain u where "snd (and_then (and_then (v1_call srv q) (\<lambda>r. and_then (checked r) (\<lambda>r. meter_answer srv opn slug r)))
      (\<lambda>m. ret (m, True)) t) = t @ (q, srv t q) # u" "set (sent u) \<subseteq> {ReqGetMeter slug}"
      using write_meter_trace by blast
    then show "\<exists>u. snd (and_then (and_then (v1_call srv q) (\<lambda>r. and_then (checked r) (\<lambda>r. meter_answer srv opn slug r)))
      (\<lambda>m. ret (m, True)) t) = t @ u \<and> (\<forall>q \<in> set (sent u). meter_only q)"
      using that by (intro exI [of _ "(q, srv t q) # u"]) auto
  qed
  have eq: "EnsureMeter srv d =
    (if dm_slug d = [] then fail (permanent ''DesiredMeter.Slug is required'')
     else if dm_event_type d = [] then fail (permanent ''DesiredMeter.EventType is required'')
     else handle (GetMeter srv (dm_slug d))
       (\<lambda>e. if errors_is e ErrMeterNotFound then and_then (createMeter srv d) (\<lambda>m. ret (m, True)) else fail e)
       (\<lambda>m. case checkImmutableFields m d of Some e \<Rightarrow> fail e
        | None \<Rightarrow> if \<not> meterNeedsUpdate m d then ret (m, False) else and_then (updateMeter srv (mt_slug m) d) (\<lambda>m. ret (m, True))))"
    by (auto simp: EnsureMeter_def handle_def fail_def ret_def fun_eq_iff split: prod.splits sum.splits option.splits)
  have pre: "gives m (\<lambda>r v. \<forall>q \<in> set (sent (u @ v)). meter_only q)"
    if "gives m (\<lambda>r v. \<forall>q \<in> set (sent v). meter_only q)" "\<forall>q \<in> set (sent u). q = ReqGetMeter slug"
    for m :: "(om_meter \<times> bool) api" and u slug
    using that(2) by (intro gives_mono [OF that(1)]) auto
  have get: "gives (case checkImmutableFields m d of Some e \<Rightarrow> fail e
        | None \<Rightarrow> if \<not> meterNeedsUpdate m d then ret (m, False) else and_then (updateMeter srv (mt_slug m) d) (\<lambda>m. ret (m, True)))
      (\<lambda>r v. \<forall>q \<in> set (sent v). meter_only q)" for m
    by (cases "checkImmutableFields m d") (simp_all add: updateMeter_def writes gives_ret gives_fail)
  have none: "gives (if errors_is e ErrMeterNotFound then and_then (createMeter srv d) (\<lambda>m. ret (m, True)) else fail e)
      (\<lambda>r v. \<forall>q \<in> set (sent v). meter_only q)" for e
    by (simp add: createMeter_def writes gives_fail)
  show ?thesis
    unfolding eq
  proof (intro gives_if, goal_cases)
    case 3
    show ?case by (rule gives_handle [OF GetMeter_gives]) (blast intro: pre [OF none] pre [OF get])+
  qed (simp_all add: gives_fail)
qed

lemma sync_meter_gives: "gives (sync_meter srv md) (\<lambda>r u. \<forall>q \<in> set (sent u). meter_only q)"
  unfolding sync_meter_def
  by (auto split: sum.splits intro!: gives_fail gives_and_then [OF gives_wrapping [OF EnsureMeter_gives]] gives_ret)

lemma after_finalizers_gives:
  "gives (after_finalizers srv md updated err) (\<lambda>r u. \<forall>q \<in> set (sent u). meter_only q)"
  unfolding after_finalizers_def
  by (auto split: option.splits intro!: gives_if gives_fail gives_ret sync_meter_gives)

lemma persist_gives:
  "gives (persist_finalizers srv md updated m err)
    (\<lambda>r u. \<forall>q \<in> set (sent u). meter_only q \<or>
      (updated \<and> q = ReqKube (PatchFinalizers (object_key_of ''MeterDefinition'' m) (km_finalizers m))))"
  unfolding persist_finalizers_def
  by (intro gives_if gives_mono [OF after_finalizers_gives] gives_handle [OF gives_kube_call] gives_ret gives_fail) auto

lemma persist_resync:
  "fst (persist_finalizers srv md updated m err t') = Inr (ResultRequeueAfter x) \<Longrightarrow>
    \<not> updated \<and> err = None \<and> \<not> km_deleting (mo_meta md) \<and> (\<exists>d r. desiredMeter md = Inr d \<and> fst (EnsureMeter srv d t') = Inr r)"
  by (auto simp: persist_finalizers_def after_finalizers_def sync_meter_def handle_def ret_def fail_def and_then_def wrapping_def
      split: if_splits option.splits prod.splits sum.splits)

lemma meter_Reconcile_removal:
  assumes "documented_finalizers fz"
  shows "\<exists>u. snd (meter_Reconcile fz fuel srv (Inr md) t) = t @ u \<and>
    (\<not> km_deleting (mo_meta md) \<longrightarrow> (\<forall>q \<in> set (sent u). \<not> meter_removal q \<and> \<not> drops MeterFinalizer q)) \<and>
    ((\<exists>q \<in> set (sent u). drops MeterFinalizer q) \<longrightarrow>
       km_deleting (mo_meta md) \<and> (\<exists>t1. meterLinkFinalize fuel srv md t = (Inr (), t1))) \<and>
    (\<forall>x. fst (meter_Reconcile fz fuel srv (Inr md) t) = Inr (ResultRequeueAfter x) \<longrightarrow>
       (\<exists>d r. desiredMeter md = Inr d \<and> fst (EnsureMeter srv d t) = Inr r))"
proof -
  let ?m = "mo_meta md" and ?f = "meterLinkFinalize fuel srv md"
  obtain updated m err t' where fz: "fz MeterFinalizer ?f ?m t = ((updated, m, err), t')" by (metis prod.exhaust)
  then have run: "meter_Reconcile fz fuel srv (Inr md) t = persist_finalizers srv md updated m err t'"
    by (simp add: meter_Reconcile_def)
  obtain v where v: "snd (persist_finalizers srv md updated m err t') = t' @ v"
    "\<forall>q \<in> set (sent v). meter_only q \<or>
      (updated \<and> q = ReqKube (PatchFinalizers (object_key_of ''MeterDefinition'' m) (km_finalizers m)))"
    using persist_gives unfolding gives_def by blast
  note doc = assms [unfolded documented_finalizers_def, rule_format, of ?m MeterFinalizer ?f t]
  have v': "\<not> meter_removal q \<and> (drops MeterFinalizer q \<longrightarrow> updated \<and> MeterFinalizer \<notin> set (km_finalizers m))"
    if "q \<in> set (sent v)" for q
    using bspec [OF v(2) that] drops_kube [of MeterFinalizer q] meter_only_simps by auto
  show ?thesis
  proof (cases "km_deleting ?m \<and> MeterFinalizer \<in> set (km_finalizers ?m)")
    case False
    then have t': "t' = t" and keeps: "updated \<Longrightarrow> MeterFinalizer \<in> set (km_finalizers m)"
      using doc fz by (cases "km_deleting ?m"; cases "MeterFinalizer \<in> set (km_finalizers ?m)"; auto)+
    show ?thesis
      using v(1) v' keeps persist_resync [of srv md updated m err t] by (intro exI [of _ v]) (auto simp: run t')
  next
    case True
    obtain w where w: "snd (?f t) = t @ w" "\<forall>q \<in> set (sent w). removal_read q \<or> meter_removal q"
      using meterLinkFinalize_requests [of fuel srv md] unfolding gives_def by blast
    have t': "t' = t @ w" "updated \<Longrightarrow> \<exists>t1. ?f t = (Inr (), t1)"
      using doc fz True w(1) by (auto split: prod.splits sum.splits)
    have "\<not> drops MeterFinalizer q" if "q \<in> set (sent w)" for q
      using bspec [OF w(2) that] removal_not_kube drops_kube [of MeterFinalizer q] by blast
    with v(1) v' t' True show ?thesis
      using persist_resync [of srv md updated m err t'] by (intro exI [of _ "w @ v"]) (auto simp: run t'(1))
  qed
qed

text \<open>
  C30. Reconciling a MeterDefinition keeps its meter until the definition is deleted, and the
  definition until its meter is dealt with. While the definition is not being deleted no
  meter or feature is removed and no finalizer is dropped; the finalizer is dropped only when
  the definition is being deleted and the removal of its meter succeeded; and a reconcile
  that reports success with a resync has brought OpenMeter's meter to the desired content.
\<close>

theorem meter_Reconcile_guarded:
  assumes "documented_finalizers fz"
  shows "\<exists>u. snd (meter_Reconcile fz fuel srv (Inr md) t) = t @ u \<and>
    (\<not> km_deleting (mo_meta md) \<longrightarrow> (\<forall>q \<in> set (sent u). \<not> meter_removal q \<and> \<not> drops MeterFinalizer q)) \<and>
    ((\<exists>q \<in> set (sent u). drops MeterFinalizer q) \<longrightarrow> (\<exists>t1. meterLinkFinalize fuel srv md t = (Inr (), t1))) \<and>
    (\<forall>x. fst (meter_Reconcile fz fuel srv (Inr md) t) = Inr (ResultRequeueAfter x) \<longrightarrow>
       (\<exists>d r. desiredMeter md = Inr d \<and> fst (EnsureMeter srv d t) = Inr r))"
  using meter_Reconcile_removal [OF assms, of fuel srv md t] by blast

definition example_meter_object :: meter_object where
  "example_meter_object = \<lparr>md_dimensions = [''region''], md_system_dimensions = [],
     mo_meta = \<lparr>km_namespace = [], km_name = ''cpu'', km_uid = ''u1'', km_generation = 1, km_deleting = True,
       km_finalizers = [MeterFinalizer], km_annotations = []\<rparr>,
     mo_meter_name = ''compute.miloapis.com/cpu'', mo_display_name = [], mo_description = [], mo_aggregation = MiloSum\<rparr>"

definition example_removal_reply :: om_reply where
  "example_removal_reply = \<lparr>rp_http = \<lparr>status_code = 200, media_type = None, retry_after = [], retry_date = None, resp_body = Plain []\<rparr>,
     rp_sdk = Some (MeterBody \<lparr>mt_slug = MeterSlug ''compute.miloapis.com/cpu'', mt_event_type = ''other'', mt_aggregation = MeterAggregationSum,
       mt_value_property = None, mt_name = None, mt_description = None, mt_group_by = None\<rparr>), rp_json = None, rp_readable = True\<rparr>"

theorem meterLinkFinalize_own_witness:
  "filter meter_removal (sent (snd (meterLinkFinalize 3 (\<lambda>_ _. Inr example_removal_reply) example_meter_object []))) = []"
proof -
  have "snd (meterLinkFinalize 3 (\<lambda>_ _. Inr example_removal_reply) example_meter_object []) =
      [(ReqGetMeter (MeterSlug (mo_meter_name example_meter_object)), Inr example_removal_reply)]"
    using MeterSlug_syntax [of "''compute.miloapis.com/cpu''"]
    by (auto simp: meterLinkFinalize_def handle_def GetMeter_def and_then_def v1_call_def call_def checked_def ret_def Let_def
        example_removal_reply_def example_meter_object_def slug_syntax_def valid_key_def fail_def permanent_def ok_status_def)
  moreover have "rp_sdk example_removal_reply = Some (MeterBody m) \<Longrightarrow> mt_event_type m \<noteq> mo_meter_name example_meter_object" for m
    by (auto simp: example_removal_reply_def example_meter_object_def)
  ultimately show ?thesis
    using meterLinkFinalize_own [of 3 "\<lambda>_ _. Inr example_removal_reply" example_meter_object "[]"] by (auto simp: filter_empty_conv)
qed

section \<open>The life of a definition\<close>

text \<open>
  What a pass reads: the finalizer library's order of things, the fuel of its listings and the
  object, at any age. A definition is settled when a pass that read it as being deleted
  finished the removal of its meter.
\<close>

type_synonym meter_input = "finalizers_lib \<times> nat \<times> meter_object"

definition meter_ok :: "meter_input \<Rightarrow> bool" where
  "meter_ok x = (case x of (fz, fuel, md) \<Rightarrow> documented_finalizers fz)"

definition meter_held :: "meter_input \<Rightarrow> go_string list" where
  "meter_held x = (case x of (fz, fuel, md) \<Rightarrow> km_finalizers (mo_meta md))"

definition meter_pass :: "server \<Rightarrow> meter_input \<Rightarrow> exchanges \<Rightarrow> exchanges" where
  "meter_pass srv x t = (case x of (fz, fuel, md) \<Rightarrow> snd (meter_Reconcile fz fuel srv (Inr md) t))"

definition meter_settled :: "server \<Rightarrow> meter_input \<Rightarrow> exchanges \<Rightarrow> bool" where
  "meter_settled srv x t =
    (case x of (fz, fuel, md) \<Rightarrow> km_deleting (mo_meta md) \<and> fst (meterLinkFinalize fuel srv md t) = Inr ())"

interpretation meter: finalized_object MeterFinalizer meter_ok meter_held "meter_pass srv" "meter_settled srv"
  for srv
proof
  fix x t
  assume "meter_ok x"
  then show "prefix t (meter_pass srv x t)"
    using meter_Reconcile_removal [of "fst x" "fst (snd x)" srv "snd (snd x)" t]
    by (auto simp: meter_ok_def meter_pass_def split_beta)
next
  fix x t u q
  assume "meter_ok x" "meter_pass srv x t = t @ u" "q \<in> set (sent u)" "drops MeterFinalizer q"
  then show "meter_settled srv x t"
    using meter_Reconcile_removal [of "fst x" "fst (snd x)" srv "snd (snd x)" t]
    by (auto simp: meter_ok_def meter_pass_def meter_settled_def split_beta)
qed


lemma example_meter_finalize:
  "meterLinkFinalize 3 (\<lambda>_ _. Inr example_removal_reply) example_meter_object [] =
    (Inr (), [(ReqGetMeter (MeterSlug (mo_meter_name example_meter_object)), Inr example_removal_reply)])"
  using MeterSlug_syntax [of "''compute.miloapis.com/cpu''"]
  by (auto simp: meterLinkFinalize_def handle_def GetMeter_def and_then_def v1_call_def call_def checked_def ret_def Let_def
      example_removal_reply_def example_meter_object_def slug_syntax_def valid_key_def fail_def permanent_def ok_status_def)

lemma example_meter_pass:
  "meter_pass (\<lambda>_ _. Inr example_removal_reply) (example_finalizers, 3, example_meter_object) [] =
    [(ReqGetMeter (MeterSlug (mo_meter_name example_meter_object)), Inr example_removal_reply),
     (ReqKube (PatchFinalizers (object_key_of ''MeterDefinition'' (mo_meta example_meter_object)) []), Inr example_removal_reply)]"
  by (simp add: meter_pass_def meter_Reconcile_def example_finalizers_def example_meter_finalize)
    (simp add: example_meter_object_def persist_finalizers_def after_finalizers_def handle_def kube_call_def call_def Let_def
      example_removal_reply_def ok_status_def ret_def object_key_of_def)

theorem meter_Reconcile_guarded_witness:
  "filter (drops MeterFinalizer) (sent (snd (meter_Reconcile example_finalizers 3 (\<lambda>_ _. Inr example_removal_reply)
      (Inr example_meter_object) []))) \<noteq> []
    \<and> (\<exists>t1. meterLinkFinalize 3 (\<lambda>_ _. Inr example_removal_reply) example_meter_object [] = (Inr (), t1))"
proof -
  have "ReqKube (PatchFinalizers (object_key_of ''MeterDefinition'' (mo_meta example_meter_object)) [])
      \<in> set (sent (snd (meter_Reconcile example_finalizers 3 (\<lambda>_ _. Inr example_removal_reply) (Inr example_meter_object) [])))"
    using example_meter_pass by (simp add: meter_pass_def)
  then have "filter (drops MeterFinalizer) (sent (snd (meter_Reconcile example_finalizers 3 (\<lambda>_ _. Inr example_removal_reply)
      (Inr example_meter_object) []))) \<noteq> []" unfolding filter_empty_conv by (auto intro: bexI [rotated])
  with meter_Reconcile_guarded [OF example_finalizers_documented, of 3 "\<lambda>_ _. Inr example_removal_reply" example_meter_object "[]"]
  show ?thesis by (auto simp: filter_empty_conv)
qed


section \<open>A failure is reported when it changes\<close>

fun meter_events :: "kube_meta \<Rightarrow> meter_outcome list \<Rightarrow> notices \<Rightarrow> event list" where
  "meter_events m [] n = []"
| "meter_events m (r # rs) n = (case report_meter m r n of (_, n', es) \<Rightarrow> es @ meter_events m rs n')"

text \<open>The message of a failure, and the events of an outcome after another one.\<close>

fun failure_of :: "meter_outcome \<Rightarrow> go_string option" where
  "failure_of (Inl (operation, e)) = Some (syncReason e @ '': '' @ error_text e)"
| "failure_of (Inr r) = None"

fun events_after :: "go_string option \<Rightarrow> meter_outcome \<Rightarrow> event list" where
  "events_after before (Inl (operation, e)) =
    (if before = failure_of (Inl (operation, e)) then []
     else [Event ''Warning'' ''SyncFailed'' (syncReason e @ '': '' @ error_text e)])"
| "events_after before (Inr (meter, updated)) =
    (if updated then [Event ''Normal'' ''Synced'' (''OpenMeter meter '' @ mt_slug meter @ '' synced'')] else [])"

lemma report_meter_step:
  "report_meter m r n = (res, n', es) \<Longrightarrow>
    es = events_after (n (meter_notice_key m)) r \<and> n' (meter_notice_key m) = failure_of r"
  by (cases "(m, r, n)" rule: report_meter.cases)
    (auto simp: handleOpenMeterError_def changed_def forget_def Let_def split: if_splits)

lemma meter_events_from:
  "meter_events m rs n =
    concat (map (\<lambda>(before, r). events_after before r) (zip (n (meter_notice_key m) # map failure_of rs) rs))"
proof (induction rs arbitrary: n)
  case (Cons r rs)
  obtain res n' es where r: "report_meter m r n = (res, n', es)" by (metis prod.exhaust)
  from report_meter_step [OF r] Cons [of n'] r show ?case by simp
qed simp

text \<open>
  A definition's failure is reported when it is new and not on every retry: over any sequence
  of passes, starting with nothing reported, an outcome is a Warning exactly when it failed and the outcome
  just before it did not fail with the same message, whatever operation failed; a success is
  reported exactly when it changed the meter, and lets the next failure be reported again.
\<close>

theorem meter_failures_reported_once:
  "meter_events m rs Map.empty =
    concat (map (\<lambda>(before, r). events_after before r) (zip (None # map failure_of rs) rs))"
  by (simp add: meter_events_from)

end
