(* ===== verification/StripeApi.thy ===== *)
theory StripeApi
  imports ApiLogic GoTime
begin

text \<open>
  Stripe's invoices (\<open>internal/stripe/invoices.go\<close>): the calls, the decoding of an invoice, the
  paging with its bound of twenty pages, and the printing of amounts. A call is a request
  in the same list of exchanges as the calls to OpenMeter. Times are nanoseconds since
  1970; amounts are Go's \<open>int64\<close>.
\<close>

section \<open>Invoices\<close>

record stripe_invoice =
  si_id :: go_string
  si_number :: go_string
  si_status :: go_string
  si_currency :: go_string
  si_total :: int
  si_amount_due :: int
  si_amount_paid :: int
  si_amount_remaining :: int
  si_created :: int
  si_period_start :: int
  si_period_end :: int
  si_due_date :: "int option"
  si_paid_at :: "int option"
  si_hosted_url :: go_string
  si_metadata :: str_map
  si_attempt_count :: int
  si_next_attempt :: "int option"
  si_payment_intent :: go_string

definition StripeInvoiceStatusDraft :: go_string where "StripeInvoiceStatusDraft = ''draft''"
definition StripeInvoiceStatusOpen :: go_string where "StripeInvoiceStatusOpen = ''open''"
definition StripeInvoiceStatusPaid :: go_string where "StripeInvoiceStatusPaid = ''paid''"
definition StripeInvoiceStatusUncollectible :: go_string where "StripeInvoiceStatusUncollectible = ''uncollectible''"
definition StripeInvoiceStatusVoid :: go_string where "StripeInvoiceStatusVoid = ''void''"
definition MetadataOpenMeterInvoiceID :: go_string where "MetadataOpenMeterInvoiceID = ''om_invoice_id''"
definition maxInvoicePages :: nat where "maxInvoicePages = 20"

text \<open>A JSON field that is an id or an expanded object with one; a null or other value has none.\<close>

definition expandableID :: "json_val \<Rightarrow> go_string" where
  "expandableID raw =
    (case raw of
       JStr _ i \<Rightarrow> i
     | JObj _ ms \<Rightarrow> (case map_of (rev ms) ''id'' of Some (JStr _ i) \<Rightarrow> i | _ \<Rightarrow> [])
     | _ \<Rightarrow> [])"

definition deref :: "go_string option \<Rightarrow> go_string" where
  "deref s = (case s of None \<Rightarrow> [] | Some x \<Rightarrow> x)"

definition zero_time :: int where "zero_time = -62135596800 * 1000000000"

definition unix :: "int \<Rightarrow> int" where
  "unix sec = (if sec = 0 then zero_time else sec * 1000000000)"

definition unixPtr :: "int option \<Rightarrow> int option" where
  "unixPtr sec = (case sec of None \<Rightarrow> None | Some s \<Rightarrow> if s = 0 then None else Some (unix s))"

text \<open>\<open>strings.ToUpper\<close> of a currency code, which is ASCII.\<close>

definition to_upper :: "go_string \<Rightarrow> go_string" where
  "to_upper s = map (\<lambda>c. if 97 \<le> byte c \<and> byte c \<le> 122 then char_of (byte c - 32) else c) s"

definition invoice :: "api_invoice \<Rightarrow> stripe_invoice" where
  "invoice a = \<lparr>
     si_id = ai_id a, si_number = deref (ai_number a), si_status = deref (ai_status a), si_currency = to_upper (ai_currency a),
     si_total = ai_total a, si_amount_due = ai_amount_due a, si_amount_paid = ai_amount_paid a,
     si_amount_remaining = ai_amount_remaining a, si_created = unix (ai_created a), si_period_start = unix (ai_period_start a),
     si_period_end = unix (ai_period_end a), si_due_date = unixPtr (ai_due_date a), si_paid_at = unixPtr (ai_paid_at a),
     si_hosted_url = deref (ai_hosted_invoice_url a), si_metadata = ai_metadata a, si_attempt_count = ai_attempt_count a,
     si_next_attempt = unixPtr (ai_next_payment_attempt a), si_payment_intent = expandableID (ai_payment_intent a)\<rparr>"

section \<open>Amounts\<close>

definition zeroDecimalCurrencies :: "go_string list" where
  "zeroDecimalCurrencies = [''BIF'', ''CLP'', ''DJF'', ''GNF'', ''JPY'', ''KMF'', ''KRW'', ''MGA'', ''PYG'', ''RWF'', ''UGX'',
     ''VND'', ''VUV'', ''XAF'', ''XOF'', ''XPF'']"

text \<open>Go's integer division truncates.\<close>

definition go_div :: "int \<Rightarrow> int \<Rightarrow> int" where
  "go_div a b = sgn a * sgn b * (\<bar>a\<bar> div \<bar>b\<bar>)"

definition go_mod :: "int \<Rightarrow> int \<Rightarrow> int" where
  "go_mod a b = a - go_div a b * b"

definition FormatAmount :: "int \<Rightarrow> go_string \<Rightarrow> go_string" where
  "FormatAmount minor currency =
    (if to_upper currency \<in> set zeroDecimalCurrencies then int_text minor
     else (let sign = (if minor < 0 then ''-'' else []);
               minor = (if minor < 0 then int64 (- minor) else minor)
           in sign @ int_text (go_div minor 100) @ ''.'' @ int_text2 (go_mod minor 100)))"

section \<open>Calls\<close>

definition stripe_do :: "server \<Rightarrow> stripe_request \<Rightarrow> bool \<Rightarrow> stripe_body option api" where
  "stripe_do srv q want t =
    (case call srv (ReqStripe q) t of
       (Inl msg, t') \<Rightarrow> (Inl (Leaf msg), t')
     | (Inr r, t') \<Rightarrow>
       if \<not> rp_readable r then (Inl (Wrap ''read response'' [Leaf []]), t')
       else if status_code (rp_http r) \<noteq> 200 then (Inl (Leaf (''HTTP '' @ int_text (status_code (rp_http r)))), t')
       else if \<not> want then (Inr None, t')
       else (case rp_json r of
           Some (StripeBody b) \<Rightarrow> (Inr (Some b), t')
         | _ \<Rightarrow> (Inl (Wrap ''decode response'' [Leaf []]), t')))"

definition undecodable :: "'a api" where
  "undecodable = fail (Wrap ''decode response'' [Leaf []])"

definition HostedInvoiceURL :: "server \<Rightarrow> go_string \<Rightarrow> go_string api" where
  "HostedInvoiceURL srv invoiceID =
    wrapping (''get Stripe invoice '' @ invoiceID) (and_then (stripe_do srv (StripeGetInvoice invoiceID) True) (\<lambda>b.
      case b of Some (StripeInvoiceBody a) \<Rightarrow> ret (deref (ai_hosted_invoice_url a)) | _ \<Rightarrow> undecodable))"

definition invoice_page :: "server \<Rightarrow> go_string \<Rightarrow> go_string option \<Rightarrow> (api_invoice list \<times> bool) api" where
  "invoice_page srv customerID after =
    wrapping (''list Stripe invoices of customer '' @ customerID) (and_then (stripe_do srv (StripeListInvoices customerID after) True) (\<lambda>b.
      case b of Some (StripeInvoicePage items has_more) \<Rightarrow> ret (items, has_more) | _ \<Rightarrow> undecodable))"

fun list_pages :: "server \<Rightarrow> go_string \<Rightarrow> nat \<Rightarrow> go_string option \<Rightarrow> stripe_invoice list \<Rightarrow> stripe_invoice list api" where
  "list_pages srv customerID 0 after out = fail (Leaf (''list Stripe invoices of customer '' @ customerID @ '': too many pages''))"
| "list_pages srv customerID (Suc pages) after out =
    and_then (invoice_page srv customerID after) (\<lambda>(items, has_more).
      if \<not> has_more \<or> items = [] then ret (out @ map invoice items)
      else list_pages srv customerID pages (Some (ai_id (last items))) (out @ map invoice items))"

definition ListCustomerInvoices :: "server \<Rightarrow> go_string \<Rightarrow> stripe_invoice list api" where
  "ListCustomerInvoices srv customerID = list_pages srv customerID maxInvoicePages None []"

section \<open>Payment attempts\<close>

record payment_attempt =
  at_status :: go_string
  at_error_type :: go_string
  at_error_code :: go_string
  at_decline_code :: go_string

definition newest_payment :: "int \<times> go_string \<times> json_val \<Rightarrow> go_string \<times> int \<Rightarrow> go_string \<times> int" where
  "newest_payment p acc =
    (case p of (created, kind, intent) \<Rightarrow>
       if kind \<noteq> ''payment_intent'' then acc
       else let pid = expandableID intent in
         if pid \<noteq> [] \<and> (fst acc = [] \<or> snd acc < created) then (pid, created) else acc)"

definition latestInvoicePaymentIntent :: "server \<Rightarrow> go_string \<Rightarrow> go_string api" where
  "latestInvoicePaymentIntent srv invoiceID =
    wrapping (''list payments of Stripe invoice '' @ invoiceID) (and_then (stripe_do srv (StripeListPayments invoiceID) True) (\<lambda>b.
      case b of Some (PaymentsPage ps) \<Rightarrow> ret (fst (fold newest_payment ps ([], 0))) | _ \<Rightarrow> undecodable))"

definition get_payment_intent :: "server \<Rightarrow> go_string \<Rightarrow> payment_attempt api" where
  "get_payment_intent srv i =
    wrapping (''get Stripe PaymentIntent '' @ i) (and_then (stripe_do srv (StripeGetPaymentIntent i) True) (\<lambda>b.
      case b of
        Some (PaymentIntentBody status last_error) \<Rightarrow>
          ret (case last_error of
              None \<Rightarrow> \<lparr>at_status = status, at_error_type = [], at_error_code = [], at_decline_code = []\<rparr>
            | Some (ty, code, decline) \<Rightarrow> \<lparr>at_status = status, at_error_type = ty, at_error_code = code, at_decline_code = decline\<rparr>)
      | _ \<Rightarrow> undecodable))"

definition LatestPaymentAttempt :: "server \<Rightarrow> stripe_invoice \<Rightarrow> payment_attempt option api" where
  "LatestPaymentAttempt srv iv =
    and_then (if si_payment_intent iv = [] then latestInvoicePaymentIntent srv (si_id iv) else ret (si_payment_intent iv)) (\<lambda>i.
      if i = [] then ret None
      else and_then (get_payment_intent srv i) (\<lambda>attempt. ret (Some attempt)))"

definition SetInvoiceMetadata :: "server \<Rightarrow> go_string \<Rightarrow> str_map \<Rightarrow> unit api" where
  "SetInvoiceMetadata srv invoiceID metadata =
    wrapping (''set metadata on Stripe invoice '' @ invoiceID) (and_then (stripe_do srv (StripeSetMetadata invoiceID metadata) False) (\<lambda>_. ret ()))"

section \<open>Amounts are exact\<close>

lemma round_half_up_int: "round_half_up \<bar>of_int n\<bar> = nat \<bar>n\<bar>"
proof -
  have "\<lfloor>of_int \<bar>n\<bar> + 1 / 2 :: rat\<rfloor> = \<bar>n\<bar>" by (rule floor_unique) simp_all
  then have "\<lfloor>\<bar>of_int n\<bar> + 1 / 2 :: rat\<rfloor> = \<bar>n\<bar>" by (simp only: of_int_abs)
  then show ?thesis by (simp only: round_half_up_def)
qed

lemma FormatAmount_float_string:
  assumes "- (2 ^ 63) < minor" "minor < 2 ^ 63" "to_upper currency \<notin> set zeroDecimalCurrencies"
  shows "FormatAmount minor currency = float_string 2 (of_int minor / 100)"
proof -
  let ?m = "nat \<bar>minor\<bar>"
  have r: "round_half_up (\<bar>of_int minor / 100 :: rat\<bar> * 10 ^ 2) = ?m"
  proof -
    have "\<bar>of_int minor / 100 :: rat\<bar> * 10 ^ 2 = \<bar>of_int minor\<bar>" by simp
    then show ?thesis by (simp only: round_half_up_int)
  qed
  have abs: "(if minor < 0 then int64 (- minor) else minor) = int ?m"
    using assms(1,2) int64_id [of "- minor"] by auto
  have zero: "char_of (48 :: nat) = CHR ''0''" by code_simp
  have two: "int_text2 (int n) = fixed_digits 2 n" if "n < 100" for n
    using that zero by (auto simp: int_text2_def int_text_def nat_digits.simps [of n] nat_digits.simps [of "n div 10"] numeral_2_eq_2)
  have q: "go_div (int ?m) 100 = int (?m div 100)" "go_mod (int ?m) 100 = int (?m mod 100)"
    by (simp_all add: go_div_def go_mod_def sgn_if zdiv_int zmod_int minus_div_mult_eq_mod del: int_nat_eq)
  have "FormatAmount minor currency = (if minor < 0 then ''-'' else []) @ nat_digits (?m div 100) @ ''.'' @ fixed_digits 2 (?m mod 100)"
    using assms(3) two [of "?m mod 100"] unfolding FormatAmount_def abs Let_def q by (simp add: int_text_def)
  also have "\<dots> = float_string 2 (of_int minor / 100)" unfolding float_string_def r Let_def by simp
  finally show ?thesis .
qed

text \<open>
  C26. An amount of Stripe's is printed exactly: for every \<open>int64\<close> but the least one, the printed
  amount reads back as the minor units divided by a hundred, or as the minor units
  themselves for a currency without minor units.
\<close>

theorem FormatAmount_exact:
  assumes "- (2 ^ 63) < minor" "minor < 2 ^ 63"
  shows "rat_SetString (FormatAmount minor currency) =
    Some (of_int minor / (if to_upper currency \<in> set zeroDecimalCurrencies then 1 else 100))"
proof (cases "to_upper currency \<in> set zeroDecimalCurrencies")
  case True
  have "FormatAmount minor currency = float_string 0 (of_int minor)"
    using True by (simp add: FormatAmount_def float_string_def int_text_def round_half_up_int)
  then show ?thesis using True rat_SetString_float_string [of 0 "of_int minor"] by (simp add: round_half_up_int)
next
  case False
  have "rounded 2 (of_int minor / 100) = of_int minor / 100" by (rule rounded_scaled) (simp add: scaled_def)
  then show ?thesis
    using False FormatAmount_float_string [OF assms False] rat_SetString_float_string [of 2 "of_int minor / 100"]
    by (simp add: rounded_def)
qed

theorem FormatAmount_exact_witness:
  "rat_SetString (FormatAmount 123456 ''usd'') = Some (123456 / 100) \<and> FormatAmount 123456 ''usd'' = ''1234.56''"
proof
  have "to_upper ''usd'' \<notin> set zeroDecimalCurrencies" by code_simp
  with FormatAmount_exact [of 123456 "''usd''"] show "rat_SetString (FormatAmount 123456 ''usd'') = Some (123456 / 100)" by simp
qed code_simp

section \<open>The listing is complete or fails\<close>

text \<open>
  The pages of a listing by cursor: each asks for what follows the last invoice of the one
  before; the last one says there is no more, or is empty.
\<close>

inductive cursor_pages :: "server \<Rightarrow> go_string \<Rightarrow> go_string option \<Rightarrow> exchanges \<Rightarrow> api_invoice list list \<Rightarrow> exchanges \<Rightarrow> bool"
  for srv customerID where
  final: "invoice_page srv customerID after t = (Inr (items, has_more), t') \<Longrightarrow> \<not> has_more \<or> items = [] \<Longrightarrow>
    cursor_pages srv customerID after t [items] t'"
| further: "invoice_page srv customerID after t = (Inr (items, True), t1) \<Longrightarrow> items \<noteq> [] \<Longrightarrow>
    cursor_pages srv customerID (Some (ai_id (last items))) t1 ps t' \<Longrightarrow>
    cursor_pages srv customerID after t (items # ps) t'"

lemma list_pages_iff:
  "list_pages srv customerID n after out t = (Inr ivs, t') \<longleftrightarrow>
    (\<exists>ps. cursor_pages srv customerID after t ps t' \<and> length ps \<le> n \<and> ivs = out @ map invoice (concat ps))"
proof (induction n arbitrary: after out t)
  case 0
  have "ps \<noteq> []" if "cursor_pages srv customerID after t ps t'" for ps using that by (cases rule: cursor_pages.cases) auto
  then show ?case by (auto simp: fail_def)
next
  case (Suc n)
  show ?case
  proof
    assume "list_pages srv customerID (Suc n) after out t = (Inr ivs, t')"
    then obtain items has_more t1 where p: "invoice_page srv customerID after t = (Inr (items, has_more), t1)"
      and k: "(if \<not> has_more \<or> items = [] then ret (out @ map invoice items)
        else list_pages srv customerID n (Some (ai_id (last items))) (out @ map invoice items)) t1 = (Inr ivs, t')"
      by (auto simp: and_then_Inr)
    show "\<exists>ps. cursor_pages srv customerID after t ps t' \<and> length ps \<le> Suc n \<and> ivs = out @ map invoice (concat ps)"
    proof (cases "\<not> has_more \<or> items = []")
      case True
      with p k show ?thesis by (intro exI [of _ "[items]"]) (auto simp: ret_def intro: cursor_pages.final)
    next
      case False
      with k Suc [of "Some (ai_id (last items))" "out @ map invoice items" t1] obtain ps where
        ps: "cursor_pages srv customerID (Some (ai_id (last items))) t1 ps t'" "length ps \<le> n"
          "ivs = out @ map invoice items @ map invoice (concat ps)" by auto
      with p False show ?thesis by (intro exI [of _ "items # ps"]) (auto intro: cursor_pages.further)
    qed
  next
    assume "\<exists>ps. cursor_pages srv customerID after t ps t' \<and> length ps \<le> Suc n \<and> ivs = out @ map invoice (concat ps)"
    then obtain ps where ps: "cursor_pages srv customerID after t ps t'" "length ps \<le> Suc n" "ivs = out @ map invoice (concat ps)" by blast
    from ps(1) show "list_pages srv customerID (Suc n) after out t = (Inr ivs, t')"
    proof (cases rule: cursor_pages.cases)
      case (final items has_more)
      with ps(3) show ?thesis by (auto simp: and_then_def ret_def)
    next
      case (further items t1 qs)
      with ps(2,3) have "list_pages srv customerID n (Some (ai_id (last items))) (out @ map invoice items) t1 = (Inr ivs, t')"
        unfolding Suc by (intro exI [of _ qs]) auto
      with further show ?thesis by (simp add: and_then_def)
    qed
  qed
qed

text \<open>
  C25. A listing of a Stripe customer's invoices is all or nothing: it succeeds exactly
  when the pages, each following the last invoice of the one before, end within twenty
  pages, and then returns every invoice of every page, in order. A customer with more
  pages is an error, never a partial list.
\<close>

theorem ListCustomerInvoices_whole:
  "ListCustomerInvoices srv customerID t = (Inr ivs, t') \<longleftrightarrow>
    (\<exists>ps. cursor_pages srv customerID None t ps t' \<and> length ps \<le> 20 \<and> ivs = map invoice (concat ps))"
  unfolding ListCustomerInvoices_def maxInvoicePages_def list_pages_iff by simp

end
