(* ===== verification/Customers.thy ===== *)
theory Customers
  imports Paging
begin

text \<open>
  Customers in OpenMeter (\<open>internal/openmeter/customer.go\<close>), the lookup of a customer's ids
  by its key (\<open>CustomerIDsByKey\<close> of \<open>billingprofile.go\<close>) and the Stripe app data of a
  customer (\<open>stripe.go\<close>).
\<close>

section \<open>Desired customers\<close>

record address =
  ca_country :: go_string
  ca_line1 :: go_string
  ca_line2 :: go_string
  ca_city :: go_string
  ca_region :: go_string
  ca_postal_code :: go_string

record desired_customer =
  dc_key :: go_string
  dc_name :: go_string
  dc_email :: go_string
  dc_currency :: go_string
  dc_address :: "address option"

definition str_or_empty :: "go_string option \<Rightarrow> go_string" where
  "str_or_empty s = (case s of None \<Rightarrow> [] | Some x \<Rightarrow> x)"

definition no_address :: address where
  "no_address = \<lparr>ca_country = [], ca_line1 = [], ca_line2 = [], ca_city = [], ca_region = [], ca_postal_code = []\<rparr>"

definition wireAddress :: "address option \<Rightarrow> om_address option" where
  "wireAddress a =
    (case a of None \<Rightarrow> None
     | Some x \<Rightarrow> Some \<lparr>ad_country = (if ca_country x \<noteq> [] then Some (ca_country x) else None),
         ad_line1 = Some (ca_line1 x), ad_line2 = Some (ca_line2 x), ad_city = Some (ca_city x),
         ad_state = Some (ca_region x), ad_postal_code = Some (ca_postal_code x), ad_phone = None\<rparr>)"

definition addressFromWire :: "om_address option \<Rightarrow> address" where
  "addressFromWire a =
    (case a of None \<Rightarrow> no_address
     | Some w \<Rightarrow> \<lparr>ca_country = str_or_empty (ad_country w), ca_line1 = str_or_empty (ad_line1 w),
         ca_line2 = str_or_empty (ad_line2 w), ca_city = str_or_empty (ad_city w),
         ca_region = str_or_empty (ad_state w), ca_postal_code = str_or_empty (ad_postal_code w)\<rparr>)"

definition normalizeAddress :: "address option \<Rightarrow> address" where
  "normalizeAddress a = (case a of None \<Rightarrow> no_address | Some x \<Rightarrow> x)"

definition customerNeedsUpdate :: "om_customer \<Rightarrow> desired_customer \<Rightarrow> bool" where
  "customerNeedsUpdate existing desired \<longleftrightarrow>
    (if cu_name existing \<noteq> dc_name desired then True
     else if str_or_empty (cu_email existing) \<noteq> dc_email desired then True
     else if dc_currency desired \<noteq> [] \<and> str_or_empty (cu_currency existing) \<noteq> dc_currency desired then True
     else addressFromWire (cu_address existing) \<noteq> normalizeAddress (dc_address desired))"

definition existingSubjectKeys :: "om_customer \<Rightarrow> go_string list" where
  "existingSubjectKeys c = (case cu_subject_keys c of None \<Rightarrow> [] | Some ks \<Rightarrow> ks)"

section \<open>Calls\<close>

definition GetCustomer :: "server \<Rightarrow> go_string \<Rightarrow> om_customer api" where
  "GetCustomer srv key =
    (if key = [] then fail (permanent ''key is required'')
     else and_then (v1_call srv (ReqCustomer (GetCustomerReq key))) (\<lambda>r.
       if status_code (rp_http r) = 404 then fail (Wrap key [Sentinel ErrCustomerNotFound])
       else and_then (checked r) (\<lambda>r.
         case rp_sdk r of
           Some (AccountBody (CustomerBody c)) \<Rightarrow> ret c
         | _ \<Rightarrow> fail (permanent (''get customer '' @ key @ '': empty response body'')))))"

text \<open>The tail create and update share: the SDK's customer, or else a GET whose failure is permanent.\<close>

definition customer_answer :: "server \<Rightarrow> go_string \<Rightarrow> go_string \<Rightarrow> om_reply \<Rightarrow> om_customer api" where
  "customer_answer srv opn key r =
    (case rp_sdk r of
       Some (AccountBody (CustomerBody c)) \<Rightarrow> ret c
     | _ \<Rightarrow> (\<lambda>t. case GetCustomer srv key t of
         (Inl e, t') \<Rightarrow> (Inl (PermanentError (Wrap (opn @ '' customer '' @ key @ '': the follow-up GetCustomer also failed'') [e]) 0 []), t')
       | (Inr c, t') \<Rightarrow> (Inr c, t')))"

definition customer_create_body :: "desired_customer \<Rightarrow> customer_body" where
  "customer_create_body desired =
    \<lparr>cb_name = dc_name desired, cb_key = Some (dc_key desired), cb_description = None, cb_metadata = None,
     cb_email = (if dc_email desired \<noteq> [] then Some (dc_email desired) else None),
     cb_currency = (if dc_currency desired \<noteq> [] then Some (dc_currency desired) else None),
     cb_address = wireAddress (dc_address desired), cb_subject_keys = Some []\<rparr>"

definition createCustomer :: "server \<Rightarrow> desired_customer \<Rightarrow> om_customer api" where
  "createCustomer srv desired =
    and_then (v1_call srv (ReqCustomer (CreateCustomerReq (customer_create_body desired)))) (\<lambda>r.
    and_then (checked r) (\<lambda>r. customer_answer srv ''create'' (dc_key desired) r))"

definition customer_update_body :: "om_customer \<Rightarrow> desired_customer \<Rightarrow> customer_body" where
  "customer_update_body existing desired =
    \<lparr>cb_name = dc_name desired, cb_key = Some (dc_key desired), cb_description = None, cb_metadata = None,
     cb_email = Some (dc_email desired),
     cb_currency = (if dc_currency desired \<noteq> [] then Some (dc_currency desired) else None),
     cb_address = wireAddress (dc_address desired), cb_subject_keys = Some (existingSubjectKeys existing)\<rparr>"

definition updateCustomer :: "server \<Rightarrow> om_customer \<Rightarrow> desired_customer \<Rightarrow> om_customer api" where
  "updateCustomer srv existing desired =
    and_then (v1_call srv (ReqCustomer (UpdateCustomerReq (dc_key desired) (customer_update_body existing desired)))) (\<lambda>r.
    and_then (checked r) (\<lambda>r. customer_answer srv ''update'' (dc_key desired) r))"

definition EnsureCustomer :: "server \<Rightarrow> desired_customer \<Rightarrow> om_customer api" where
  "EnsureCustomer srv desired =
    (if dc_key desired = [] then fail (permanent ''DesiredCustomer.Key is required'')
     else if dc_name desired = [] then fail (permanent ''DesiredCustomer.Name is required'')
     else (\<lambda>t. case GetCustomer srv (dc_key desired) t of
         (Inl e, t') \<Rightarrow> if errors_is e ErrCustomerNotFound then createCustomer srv desired t' else (Inl e, t')
       | (Inr existing, t') \<Rightarrow>
           if \<not> customerNeedsUpdate existing desired then (Inr existing, t')
           else updateCustomer srv existing desired t'))"

definition DeleteCustomer :: "server \<Rightarrow> go_string \<Rightarrow> unit api" where
  "DeleteCustomer srv key =
    (if key = [] then fail (permanent ''key is required'')
     else and_then (v1_call srv (ReqCustomer (DeleteCustomerReq key))) (\<lambda>r.
       if status_code (rp_http r) = 404 then ret () else and_then (checked r) (\<lambda>_. ret ())))"

definition release_body :: "om_customer \<Rightarrow> customer_body" where
  "release_body existing =
    \<lparr>cb_name = cu_name existing, cb_key = cu_key existing, cb_description = cu_description existing,
     cb_metadata = cu_metadata existing, cb_email = cu_email existing, cb_currency = cu_currency existing,
     cb_address = cu_address existing, cb_subject_keys = Some []\<rparr>"

definition ReleaseCustomerSubjects :: "server \<Rightarrow> go_string \<Rightarrow> unit api" where
  "ReleaseCustomerSubjects srv key t =
    (case GetCustomer srv key t of
       (Inl e, t') \<Rightarrow> if errors_is e ErrCustomerNotFound then (Inr (), t') else (Inl e, t')
     | (Inr existing, t') \<Rightarrow>
       if existingSubjectKeys existing = [] then (Inr (), t')
       else and_then (v1_call srv (ReqCustomer (UpdateCustomerReq key (release_body existing)))) (\<lambda>r.
         if status_code (rp_http r) = 404 then ret () else and_then (checked r) (\<lambda>_. ret ())) t')"

definition customers_page :: "server \<Rightarrow> go_string \<Rightarrow> nat \<Rightarrow> om_customer reported_page api" where
  "customers_page srv key n =
    and_then (v1_call srv (ReqCustomer (ListCustomersReq key n))) (\<lambda>r.
    and_then (checked r) (\<lambda>r.
      case rp_sdk r of
        Some (AccountBody (CustomerPage items psize tot)) \<Rightarrow> ret (items, psize, tot)
      | _ \<Rightarrow> fail (permanent (''list customers by key '' @ key @ '': empty response body''))))"

definition ids_with_key :: "go_string \<Rightarrow> om_customer list \<Rightarrow> go_string list" where
  "ids_with_key key items = map cu_id (filter (\<lambda>c. cu_key c = Some key \<and> cu_id c \<noteq> []) items)"

fun customer_ids_from :: "server \<Rightarrow> go_string \<Rightarrow> nat \<Rightarrow> nat \<Rightarrow> go_string list \<Rightarrow> go_string list api" where
  "customer_ids_from srv key 0 n out = fail Unfinished"
| "customer_ids_from srv key (Suc fuel) n out =
    and_then (customers_page srv key n) (\<lambda>p.
      if reported_last n p then ret (out @ ids_with_key key (fst p))
      else customer_ids_from srv key fuel (Suc n) (out @ ids_with_key key (fst p)))"

definition CustomerIDsByKey :: "nat \<Rightarrow> server \<Rightarrow> go_string \<Rightarrow> go_string list api" where
  "CustomerIDsByKey fuel srv key =
    (if key = [] then fail (permanent ''key is required'') else customer_ids_from srv key fuel 1 [])"

section \<open>Stripe app data\<close>

definition stripeAppNotConfiguredMarker :: go_string where
  "stripeAppNotConfiguredMarker = ''no stripe app found in billing profile''"
definition stripeAppDataNotFoundMarker :: go_string where
  "stripeAppDataNotFoundMarker = ''customer has no data for stripe app''"

definition classifyStripeAppData :: "http_response \<Rightarrow> go_error option" where
  "classifyStripeAppData resp =
    (case classify (Some resp) None of
       Some (PermanentError e st b) \<Rightarrow>
         if st \<noteq> 412 then Some (PermanentError e st b)
         else if contains b stripeAppNotConfiguredMarker then
           Some (PermanentError (Wrap b [Sentinel ErrStripeAppNotConfigured]) st b)
         else if contains b stripeAppDataNotFoundMarker then
           Some (PermanentError (Wrap b [Sentinel ErrStripeAppDataNotFound]) st b)
         else Some (PermanentError e st b)
     | other \<Rightarrow> other)"

definition stripe_checked :: "om_reply \<Rightarrow> om_reply api" where
  "stripe_checked r = (case classifyStripeAppData (rp_http r) of Some e \<Rightarrow> fail e | None \<Rightarrow> ret r)"

definition GetCustomerStripeAppData :: "server \<Rightarrow> go_string \<Rightarrow> stripe_app_data api" where
  "GetCustomerStripeAppData srv customerID =
    (if customerID = [] then fail (permanent ''customerID is required'')
     else and_then (v1_call srv (ReqCustomer (GetStripeDataReq customerID))) (\<lambda>r.
       if status_code (rp_http r) = 404 then fail (Wrap (''customer '' @ customerID) [Sentinel ErrStripeAppDataNotFound])
       else and_then (stripe_checked r) (\<lambda>r.
         case rp_sdk r of
           Some (AccountBody (StripeData d)) \<Rightarrow> ret d
         | _ \<Rightarrow> fail (transient ''get customer stripe app data: empty response body''))))"

definition EnsureCustomerStripeAppData :: "server \<Rightarrow> go_string \<Rightarrow> go_string \<Rightarrow> go_string \<Rightarrow> unit api" where
  "EnsureCustomerStripeAppData srv customerID stripeCustomerID methodID =
    (if customerID = [] then fail (permanent ''customerID is required'')
     else if stripeCustomerID = [] then fail (permanent ''stripeCustomerID is required'')
     else (\<lambda>t. case GetCustomerStripeAppData srv customerID t of (current, t') \<Rightarrow>
       if (case current of Inl e \<Rightarrow> False
           | Inr d \<Rightarrow> sa_customer d = stripeCustomerID \<and> str_or_empty (sa_payment_method d) = methodID)
       then (Inr (), t')
       else and_then (v1_call srv (ReqCustomer (UpsertStripeDataReq customerID
           \<lparr>sa_app_id = None, sa_customer = stripeCustomerID,
            sa_payment_method = (if methodID \<noteq> [] then Some methodID else None)\<rparr>))) (\<lambda>r.
         and_then (stripe_checked r) (\<lambda>_. ret ())) t'))"

definition DeleteCustomerStripeAppData :: "server \<Rightarrow> go_string \<Rightarrow> unit api" where
  "DeleteCustomerStripeAppData srv customerKey =
    (if customerKey = [] then fail (permanent ''customerKey is required'')
     else (\<lambda>t. case GetCustomerStripeAppData srv customerKey t of
         (Inl e, t') \<Rightarrow>
           if errors_is e ErrStripeAppDataNotFound \<or> errors_is e ErrStripeAppNotConfigured then (Inr (), t') else (Inl e, t')
       | (Inr d, t') \<Rightarrow>
         (case sa_app_id d of
            None \<Rightarrow> (Inl (transient (''stripe app data of customer '' @ customerKey @ '' names no app'')), t')
          | Some app \<Rightarrow>
            if app = [] then (Inl (transient (''stripe app data of customer '' @ customerKey @ '' names no app'')), t')
            else and_then (v1_call srv (ReqCustomer (DeleteAppDataReq customerKey app))) (\<lambda>r.
              if status_code (rp_http r) = 404 then ret () else and_then (checked r) (\<lambda>_. ret ())) t')))"

section \<open>The address round trip\<close>

text \<open>
  Writing an address and reading it back gives the same address: what the wire form
  leaves out (no address at all, no country) reads as the empty values it was made from, so
  an unchanged address is never seen as a difference.
\<close>

theorem address_roundtrip: "addressFromWire (wireAddress a) = normalizeAddress a"
  by (auto simp: addressFromWire_def wireAddress_def normalizeAddress_def str_or_empty_def split: option.splits)

section \<open>The listing by key\<close>

lemma customers_page_finishes: "fst (customers_page srv key n t) \<noteq> Inl Unfinished"
  unfolding customers_page_def
  by (rule v1_fetch_finishes)
    (auto simp: ret_def fail_def permanent_def split: option.splits body.splits account_body.splits)

interpretation key_customers: reported_listing "customers_page srv key" "ids_with_key key" "customer_ids_from srv key"
  for srv key
  by unfold_locales (simp_all add: customers_page_finishes)

text \<open>
  The ids found for a key are exactly the ids of the customers with that very key on
  the pages the server sent, in order: the server's partial matches are left out and no
  page is skipped.
\<close>

theorem CustomerIDsByKey_exact:
  assumes "CustomerIDsByKey fuel srv key t = (Inr ids, t')"
  shows "\<exists>ps. reported_pages (customers_page srv key) 1 t ps t' \<and>
    ids = map cu_id (filter (\<lambda>c. cu_key c = Some key \<and> cu_id c \<noteq> []) (concat (map fst ps)))"
proof -
  have "customer_ids_from srv key fuel 1 [] t = (Inr ids, t')"
    using assms by (auto simp: CustomerIDsByKey_def fail_def split: if_splits)
  from key_customers.loop_pages [OF this] obtain ps where ps: "reported_pages (customers_page srv key) 1 t ps t'"
    "ids = concat (map (\<lambda>p. ids_with_key key (fst p)) ps)" by auto
  have "concat (map (\<lambda>p. ids_with_key key (fst p)) qs) =
    map cu_id (filter (\<lambda>c. cu_key c = Some key \<and> cu_id c \<noteq> []) (concat (map fst qs)))" for qs
    by (induction qs) (simp_all add: ids_with_key_def)
  with ps show ?thesis by blast
qed

section \<open>Writes\<close>

definition customer_write :: "request \<Rightarrow> bool" where
  "customer_write q = (case q of ReqCustomer (GetCustomerReq _) \<Rightarrow> False | ReqCustomer (ListCustomersReq _ _) \<Rightarrow> False | _ \<Rightarrow> True)"

text \<open>A GET adds its own exchange; a customer comes from the body the server sent, a missing one from its 404.\<close>

lemma GetCustomer_cases:
  assumes "key \<noteq> []"
  shows "snd (GetCustomer srv key t) = t @ [(ReqCustomer (GetCustomerReq key), srv t (ReqCustomer (GetCustomerReq key)))] \<and>
    (case fst (GetCustomer srv key t) of
       Inr c \<Rightarrow> \<exists>r. srv t (ReqCustomer (GetCustomerReq key)) = Inr r \<and> rp_sdk r = Some (AccountBody (CustomerBody c))
     | Inl e \<Rightarrow> errors_is e ErrCustomerNotFound \<longrightarrow>
         (\<exists>r. srv t (ReqCustomer (GetCustomerReq key)) = Inr r \<and> status_code (rp_http r) = 404))"
  using assms classify_no_sentinel [unfolded errors_is_def]
  by (auto simp: GetCustomer_def and_then_def v1_call_def call_def checked_def ret_def fail_def network_error_def
      permanent_def errors_is_def classify_def [of None] split: sum.splits option.splits body.splits account_body.splits)

lemma customer_answer_trace:
  "\<exists>u. snd (customer_answer srv opn key r t) = t @ u \<and> filter customer_write (sent u) = []"
proof (cases "key = []")
  case True
  then show ?thesis
    by (auto simp: customer_answer_def GetCustomer_def ret_def fail_def
        split: option.splits body.splits account_body.splits prod.splits sum.splits)
next
  case False
  show ?thesis using GetCustomer_cases [OF False, of srv t]
    by (auto simp: customer_answer_def ret_def customer_write_def
        split: option.splits body.splits account_body.splits prod.splits sum.splits)
qed

lemma customer_call_trace:
  assumes "customer_write q"
  shows "\<exists>u. snd (and_then (v1_call srv q) (\<lambda>r. and_then (checked r) (customer_answer srv opn key)) t) =
      t @ (q, srv t q) # u \<and> filter customer_write (sent u) = []"
proof (cases "srv t q")
  case (Inl e)
  then show ?thesis by (simp add: and_then_def v1_call_def call_def)
next
  case (Inr r)
  obtain u where "snd (customer_answer srv opn key r (t @ [(q, Inr r)])) = t @ (q, Inr r) # u" "filter customer_write (sent u) = []"
    using customer_answer_trace [of srv opn key r "t @ [(q, Inr r)]"] by auto
  with Inr show ?thesis
    by (auto simp: and_then_def v1_call_def call_def checked_def fail_def ret_def split: option.splits)
qed

text \<open>
  EnsureCustomer reads the customer first and writes at most once. It creates only when
  the server answered the read with 404, and then a customer without subject keys; it
  replaces only a customer that differs from the desired one, and sends back exactly the
  subject keys the read returned, so usage attribution never changes by an update.
\<close>

theorem EnsureCustomer_writes:
  "\<exists>u. snd (EnsureCustomer srv desired t) = t @ u \<and>
    (filter customer_write (sent u) = [] \<or>
     (\<exists>q reply u'. u = (ReqCustomer (GetCustomerReq (dc_key desired)), reply) # u' \<and> filter customer_write (sent u) = [q] \<and>
       ((\<exists>r. reply = Inr r \<and> status_code (rp_http r) = 404 \<and>
           q = ReqCustomer (CreateCustomerReq (customer_create_body desired))) \<or>
        (\<exists>r existing. reply = Inr r \<and> rp_sdk r = Some (AccountBody (CustomerBody existing)) \<and>
           customerNeedsUpdate existing desired \<and>
           q = ReqCustomer (UpdateCustomerReq (dc_key desired) (customer_update_body existing desired)) \<and>
           cb_subject_keys (customer_update_body existing desired) = Some (existingSubjectKeys existing)))))"
proof (cases "dc_key desired = [] \<or> dc_name desired = []")
  case True
  then show ?thesis by (auto simp: EnsureCustomer_def fail_def)
next
  case False
  let ?g = "ReqCustomer (GetCustomerReq (dc_key desired))"
  let ?t = "t @ [(?g, srv t ?g)]"
  obtain x where x: "GetCustomer srv (dc_key desired) t = (x, ?t)"
    using GetCustomer_cases [of "dc_key desired" srv t] False by (metis prod.collapse)
  note g = GetCustomer_cases [of "dc_key desired" srv t, unfolded x]
  show ?thesis
  proof (cases x)
    case (Inl e)
    show ?thesis
    proof (cases "errors_is e ErrCustomerNotFound")
      case True
      then obtain r where r: "srv t ?g = Inr r" "status_code (rp_http r) = 404" using g False Inl by auto
      let ?q = "ReqCustomer (CreateCustomerReq (customer_create_body desired))"
      obtain u where u: "snd (createCustomer srv desired ?t) = ?t @ (?q, srv ?t ?q) # u" "filter customer_write (sent u) = []"
        using customer_call_trace [of ?q srv "''create''" "dc_key desired" ?t]
        by (auto simp: createCustomer_def customer_write_def)
      show ?thesis
        by (rule exI [of _ "(?g, srv t ?g) # (?q, srv ?t ?q) # u"])
          (use False Inl True x r u in \<open>auto simp: EnsureCustomer_def customer_write_def\<close>)
    qed (use False Inl x in \<open>auto simp: EnsureCustomer_def customer_write_def\<close>)
  next
    case (Inr c)
    then obtain r where r: "srv t ?g = Inr r" "rp_sdk r = Some (AccountBody (CustomerBody c))" using g False by auto
    show ?thesis
    proof (cases "customerNeedsUpdate c desired")
      case True
      let ?q = "ReqCustomer (UpdateCustomerReq (dc_key desired) (customer_update_body c desired))"
      obtain u where u: "snd (updateCustomer srv c desired ?t) = ?t @ (?q, srv ?t ?q) # u" "filter customer_write (sent u) = []"
        using customer_call_trace [of ?q srv "''update''" "dc_key desired" ?t]
        by (auto simp: updateCustomer_def customer_write_def)
      show ?thesis
        by (rule exI [of _ "(?g, srv t ?g) # (?q, srv ?t ?q) # u"])
          (use False Inr True x r u in \<open>auto simp: EnsureCustomer_def customer_write_def customer_update_body_def [of c desired]\<close>)
    qed (use False Inr x in \<open>auto simp: EnsureCustomer_def customer_write_def\<close>)
  qed
qed

section \<open>Convergence\<close>

text \<open>
  What OpenMeter documents of a replace (quoted at \<open>wireAddress\<close> and \<open>updateCustomer\<close>): the
  name is stored; an email or a currency that is sent is stored, and one that is left out
  is kept; without an address every address field is cleared; of an address, a field that
  is sent is stored. Of a create: a field that is left out is absent.
\<close>

definition stores_address :: "om_address \<Rightarrow> om_address option \<Rightarrow> bool" where
  "stores_address new stored \<longleftrightarrow>
    (\<exists>a. stored = Some a \<and>
      (\<forall>x. ad_country new = Some x \<longrightarrow> ad_country a = Some x) \<and> (\<forall>x. ad_line1 new = Some x \<longrightarrow> ad_line1 a = Some x) \<and>
      (\<forall>x. ad_line2 new = Some x \<longrightarrow> ad_line2 a = Some x) \<and> (\<forall>x. ad_city new = Some x \<longrightarrow> ad_city a = Some x) \<and>
      (\<forall>x. ad_state new = Some x \<longrightarrow> ad_state a = Some x) \<and> (\<forall>x. ad_postal_code new = Some x \<longrightarrow> ad_postal_code a = Some x))"

definition documented_replace :: "(om_customer \<Rightarrow> customer_body \<Rightarrow> om_customer) \<Rightarrow> bool" where
  "documented_replace put \<longleftrightarrow> (\<forall>c b.
    cu_name (put c b) = cb_name b \<and>
    (\<forall>e. cb_email b = Some e \<longrightarrow> str_or_empty (cu_email (put c b)) = e) \<and>
    (\<forall>k. cb_currency b = Some k \<longrightarrow> cu_currency (put c b) = Some k) \<and>
    (case cb_address b of None \<Rightarrow> addressFromWire (cu_address (put c b)) = no_address
     | Some a \<Rightarrow> stores_address a (cu_address (put c b))))"

definition documented_create :: "(customer_body \<Rightarrow> om_customer) \<Rightarrow> bool" where
  "documented_create post \<longleftrightarrow> (\<forall>b.
    cu_name (post b) = cb_name b \<and> str_or_empty (cu_email (post b)) = str_or_empty (cb_email b) \<and>
    (\<forall>k. cb_currency b = Some k \<longrightarrow> cu_currency (post b) = Some k) \<and>
    (case cb_address b of None \<Rightarrow> addressFromWire (cu_address (post b)) = no_address
     | Some a \<Rightarrow> stores_address a (cu_address (post b))))"

lemma stored_wireAddress:
  assumes "case wireAddress a of None \<Rightarrow> addressFromWire s = no_address | Some w \<Rightarrow> stores_address w s"
    and "\<And>x. a = Some x \<Longrightarrow> ca_country x \<noteq> []"
  shows "addressFromWire s = normalizeAddress a"
  using assms by (cases a) (auto simp: wireAddress_def normalizeAddress_def stores_address_def addressFromWire_def str_or_empty_def)

lemma update_converges:
  assumes "documented_replace put" and "\<And>x. dc_address desired = Some x \<Longrightarrow> ca_country x \<noteq> []"
  shows "\<not> customerNeedsUpdate (put c (customer_update_body c desired)) desired"
proof -
  let ?b = "customer_update_body c desired"
  have b: "cb_address ?b = wireAddress (dc_address desired)" "cb_email ?b = Some (dc_email desired)"
    "cb_name ?b = dc_name desired" "dc_currency desired \<noteq> [] \<Longrightarrow> cb_currency ?b = Some (dc_currency desired)"
    by (simp_all add: customer_update_body_def)
  note p = assms(1) [unfolded documented_replace_def, rule_format, of c ?b]
  have "addressFromWire (cu_address (put c ?b)) = normalizeAddress (dc_address desired)"
    using p b(1) by (intro stored_wireAddress assms(2)) auto
  moreover have "str_or_empty (cu_currency (put c ?b)) = dc_currency desired" if "dc_currency desired \<noteq> []"
    using p b(4) [OF that] by (simp add: str_or_empty_def)
  ultimately show ?thesis using p b(2,3) by (auto simp: customerNeedsUpdate_def)
qed

lemma create_converges:
  assumes "documented_create post" and "\<And>x. dc_address desired = Some x \<Longrightarrow> ca_country x \<noteq> []"
  shows "\<not> customerNeedsUpdate (post (customer_create_body desired)) desired"
proof -
  let ?b = "customer_create_body desired"
  have b: "cb_address ?b = wireAddress (dc_address desired)" "str_or_empty (cb_email ?b) = dc_email desired"
    "cb_name ?b = dc_name desired" "dc_currency desired \<noteq> [] \<Longrightarrow> cb_currency ?b = Some (dc_currency desired)"
    by (simp_all add: customer_create_body_def str_or_empty_def)
  note p = assms(1) [unfolded documented_create_def, rule_format, of ?b]
  have "addressFromWire (cu_address (post ?b)) = normalizeAddress (dc_address desired)"
    using p b(1) by (intro stored_wireAddress assms(2)) auto
  moreover have "str_or_empty (cu_currency (post ?b)) = dc_currency desired" if "dc_currency desired \<noteq> []"
    using p b(4) [OF that] by (simp add: str_or_empty_def)
  ultimately show ?thesis using p b(2,3) by (auto simp: customerNeedsUpdate_def)
qed

text \<open>
  Reconciling a customer converges. Against an OpenMeter that stores customers as it
  documents, once EnsureCustomer's create or update has been stored, the next EnsureCustomer
  sends the read alone and returns the stored customer: no field it compares (cleared
  emails and address fields included) is left different for ever. An address needs its
  country, which the account's schema requires.
\<close>

theorem EnsureCustomer_converges:
  assumes "documented_replace put" and "documented_create post"
    and "\<And>x. dc_address desired = Some x \<Longrightarrow> ca_country x \<noteq> []"
    and "dc_key desired \<noteq> []" and "dc_name desired \<noteq> []"
    and "stored = put c (customer_update_body c desired) \<or> stored = post (customer_create_body desired)"
    and "srv t (ReqCustomer (GetCustomerReq (dc_key desired))) = Inr r" and "ok_status (status_code (rp_http r))"
    and "rp_sdk r = Some (AccountBody (CustomerBody stored))"
  shows "EnsureCustomer srv desired t = (Inr stored, t @ [(ReqCustomer (GetCustomerReq (dc_key desired)), Inr r)])"
proof -
  have "\<not> customerNeedsUpdate stored desired"
    using assms(6) update_converges [OF assms(1) assms(3)] create_converges [OF assms(2) assms(3)] by auto
  moreover have "GetCustomer srv (dc_key desired) t = (Inr stored, t @ [(ReqCustomer (GetCustomerReq (dc_key desired)), Inr r)])"
    using assms(4,7-9) by (auto simp: GetCustomer_def and_then_def v1_call_def call_def checked_def ret_def ok_status_def)
  ultimately show ?thesis using assms(4,5) by (simp add: EnsureCustomer_def)
qed

definition keep_field :: "'a option \<Rightarrow> 'a option \<Rightarrow> 'a option" where
  "keep_field old new = (case new of None \<Rightarrow> old | Some x \<Rightarrow> Some x)"

definition example_put :: "om_customer \<Rightarrow> customer_body \<Rightarrow> om_customer" where
  "example_put c b = c\<lparr>cu_name := cb_name b, cu_email := keep_field (cu_email c) (cb_email b),
     cu_currency := keep_field (cu_currency c) (cb_currency b), cu_address := cb_address b, cu_subject_keys := cb_subject_keys b\<rparr>"

definition example_customer :: om_customer where
  "example_customer = \<lparr>cu_id = ''01H'', cu_key = Some ''acct'', cu_name = ''Old'', cu_description = None, cu_metadata = None,
     cu_email = Some ''a@b.c'', cu_currency = Some ''USD'', cu_address = None, cu_subject_keys = Some [''projects/p'']\<rparr>"

definition example_desired :: desired_customer where
  "example_desired = \<lparr>dc_key = ''acct'', dc_name = ''New'', dc_email = [], dc_currency = [],
     dc_address = Some \<lparr>ca_country = ''DE'', ca_line1 = ''L'', ca_line2 = [], ca_city = ''B'', ca_region = [], ca_postal_code = ''1''\<rparr>\<rparr>"

definition example_post :: "customer_body \<Rightarrow> om_customer" where
  "example_post b = \<lparr>cu_id = ''01J'', cu_key = cb_key b, cu_name = cb_name b, cu_description = None, cu_metadata = None,
     cu_email = cb_email b, cu_currency = cb_currency b, cu_address = cb_address b, cu_subject_keys = cb_subject_keys b\<rparr>"

definition ok_answer :: "body option \<Rightarrow> om_reply" where
  "ok_answer b = \<lparr>rp_http = \<lparr>status_code = 200, media_type = None, retry_after = [], retry_date = None, resp_body = Plain []\<rparr>,
     rp_sdk = b, rp_json = b, rp_readable = True\<rparr>"

theorem EnsureCustomer_converges_witness:
  "let stored = example_put example_customer (customer_update_body example_customer example_desired);
       r = ok_answer (Some (AccountBody (CustomerBody stored)));
       srv = (\<lambda>_ _. Inr r)
   in EnsureCustomer srv example_desired [] = (Inr stored, [(ReqCustomer (GetCustomerReq ''acct''), Inr r)])"
proof -
  have "documented_replace example_put"
    by (auto simp: documented_replace_def example_put_def keep_field_def str_or_empty_def stores_address_def
        addressFromWire_def split: option.splits)
  moreover have "documented_create example_post"
    by (auto simp: documented_create_def example_post_def stores_address_def addressFromWire_def split: option.splits)
  ultimately show ?thesis
    using EnsureCustomer_converges [of example_put example_post example_desired
        "example_put example_customer (customer_update_body example_customer example_desired)" example_customer]
    by (simp add: Let_def ok_answer_def ok_status_def example_desired_def)
qed

text \<open>
  Releasing a customer's subjects changes nothing but the subject keys: the only write
  is one replace, of a customer the read returned with subject keys, that carries every
  other field back as it was read and an explicit empty list of subject keys.
\<close>

theorem ReleaseCustomerSubjects_only_subjects:
  "\<exists>u. snd (ReleaseCustomerSubjects srv key t) = t @ u \<and>
    (filter customer_write (sent u) = [] \<or>
     (\<exists>r c b w. u = [(ReqCustomer (GetCustomerReq key), Inr r), (ReqCustomer (UpdateCustomerReq key b), w)] \<and>
       rp_sdk r = Some (AccountBody (CustomerBody c)) \<and> existingSubjectKeys c \<noteq> [] \<and>
       \<lparr>cu_id = cu_id c, cu_key = cb_key b, cu_name = cb_name b, cu_description = cb_description b,
        cu_metadata = cb_metadata b, cu_email = cb_email b, cu_currency = cb_currency b,
        cu_address = cb_address b, cu_subject_keys = cb_subject_keys b\<rparr> = c\<lparr>cu_subject_keys := Some []\<rparr>))"
proof (cases "key = []")
  case True
  then show ?thesis by (auto simp: ReleaseCustomerSubjects_def GetCustomer_def fail_def permanent_def)
next
  case False
  let ?g = "ReqCustomer (GetCustomerReq key)"
  let ?t = "t @ [(?g, srv t ?g)]"
  obtain x where x: "GetCustomer srv key t = (x, ?t)"
    using GetCustomer_cases [of key srv t] False by (metis prod.collapse)
  note g = GetCustomer_cases [of key srv t, unfolded x]
  show ?thesis
  proof (cases x)
    case (Inl e)
    then show ?thesis using x by (auto simp: ReleaseCustomerSubjects_def customer_write_def)
  next
    case (Inr c)
    then obtain r where r: "srv t ?g = Inr r" "rp_sdk r = Some (AccountBody (CustomerBody c))" using g False by auto
    let ?q = "ReqCustomer (UpdateCustomerReq key (release_body c))"
    have "snd (ReleaseCustomerSubjects srv key t) =
      (if existingSubjectKeys c = [] then ?t else ?t @ [(?q, srv ?t ?q)])"
      using x Inr by (auto simp: ReleaseCustomerSubjects_def and_then_def v1_call_def call_def checked_def ret_def fail_def
          split: sum.splits option.splits)
    with r show ?thesis by (auto simp: customer_write_def release_body_def)
  qed
qed

section \<open>Writing Stripe app data\<close>

text \<open>
  The Stripe ids of a customer are written at most once per reconcile and not at all when
  the server already holds them; the write carries exactly the wanted ids.
\<close>

theorem EnsureCustomerStripeAppData_writes:
  "\<exists>u. snd (EnsureCustomerStripeAppData srv cid sid pm t) = t @ u \<and>
    (sent u = [] \<or> sent u = [ReqCustomer (GetStripeDataReq cid)] \<or>
     sent u = [ReqCustomer (GetStripeDataReq cid),
       ReqCustomer (UpsertStripeDataReq cid
         \<lparr>sa_app_id = None, sa_customer = sid, sa_payment_method = (if pm \<noteq> [] then Some pm else None)\<rparr>)]) \<and>
    (\<forall>d. fst (GetCustomerStripeAppData srv cid t) = Inr d \<and> sa_customer d = sid \<and> str_or_empty (sa_payment_method d) = pm \<longrightarrow>
       length u \<le> 1)"
proof (cases "cid = [] \<or> sid = []")
  case True
  then show ?thesis by (auto simp: EnsureCustomerStripeAppData_def fail_def)
next
  case False
  let ?g = "ReqCustomer (GetStripeDataReq cid)"
  have "snd (GetCustomerStripeAppData srv cid t) = t @ [(?g, srv t ?g)]"
    using False by (auto simp: GetCustomerStripeAppData_def and_then_def v1_call_def call_def stripe_checked_def ret_def fail_def
        split: sum.splits option.splits body.splits account_body.splits)
  then obtain x where x: "GetCustomerStripeAppData srv cid t = (x, t @ [(?g, srv t ?g)])" by (metis prod.collapse)
  then show ?thesis
    using False by (cases x)
      (auto simp: EnsureCustomerStripeAppData_def and_then_def v1_call_def call_def stripe_checked_def ret_def fail_def
        split: sum.splits option.splits)
qed

end
