(* ===== verification/Invoices.thy ===== *)
theory Invoices
  imports Customers ApiLogic
begin

text \<open>
  Invoices in OpenMeter (\<open>internal/openmeter/invoice.go\<close>) and the reading of an account's
  fixed charges from them (\<open>fixedcharges.go\<close>). The invoice statuses are the SDK's strings.
\<close>

section \<open>Statuses\<close>

definition InvoiceStatusGathering :: go_string where "InvoiceStatusGathering = ''gathering''"
definition InvoiceStatusDraft :: go_string where "InvoiceStatusDraft = ''draft''"
definition InvoiceStatusPaid :: go_string where "InvoiceStatusPaid = ''paid''"
definition InvoiceStatusVoided :: go_string where "InvoiceStatusVoided = ''voided''"
definition InvoiceStatusUncollectible :: go_string where "InvoiceStatusUncollectible = ''uncollectible''"
definition InvoiceStatusDeleting :: go_string where "InvoiceStatusDeleting = ''delete''"
definition InvoiceStatusDeleted :: go_string where "InvoiceStatusDeleted = ''deleted''"
definition invoiceExtendedStatusDeleteFailed :: go_string where "invoiceExtendedStatusDeleteFailed = ''delete.failed''"
definition invoiceCreateNoLinesCode :: go_string where "invoiceCreateNoLinesCode = ''invoice_create_no_lines''"
definition invoiceCreateNoLinesMessage :: go_string where "invoiceCreateNoLinesMessage = ''the new invoice would have no lines''"

lemmas invoice_statuses = InvoiceStatusGathering_def InvoiceStatusDraft_def InvoiceStatusPaid_def InvoiceStatusVoided_def
  InvoiceStatusUncollectible_def InvoiceStatusDeleting_def InvoiceStatusDeleted_def

definition finalInvoiceStatuses :: "go_string list" where
  "finalInvoiceStatuses = [InvoiceStatusPaid, InvoiceStatusVoided, InvoiceStatusUncollectible, InvoiceStatusDeleted]"

definition IsInvoiceDeleted :: "om_invoice \<Rightarrow> bool" where
  "IsInvoiceDeleted iv \<longleftrightarrow> in_status iv = InvoiceStatusDeleted \<or> in_deleted_at iv \<noteq> None"

section \<open>Listing\<close>

definition invoiceBelongsToCustomer :: "go_string \<Rightarrow> om_invoice \<Rightarrow> bool" where
  "invoiceBelongsToCustomer customerID iv \<longleftrightarrow>
    (let i = str_or_empty (in_customer iv) in
     if i = [] then in_status iv = InvoiceStatusGathering else i = customerID)"

definition decode_invoices :: "go_string \<Rightarrow> om_reply \<Rightarrow> om_invoice reported_page api" where
  "decode_invoices what r =
    (case rp_sdk r of
       Some (AccountBody (InvoicePage items psize tot)) \<Rightarrow> ret (items, psize, tot)
     | _ \<Rightarrow> fail (permanent (what @ '': empty response body'')))"

definition invoices_page :: "server \<Rightarrow> go_string \<Rightarrow> bool \<Rightarrow> nat \<Rightarrow> om_invoice reported_page api" where
  "invoices_page srv customerID includeDeleted n =
    and_then (v1_call srv (ReqInvoice (ListInvoicesReq customerID includeDeleted n))) (\<lambda>r.
    and_then (checked r) (decode_invoices (''list invoices for '' @ customerID)))"

fun listInvoices_from :: "server \<Rightarrow> go_string \<Rightarrow> bool \<Rightarrow> nat \<Rightarrow> nat \<Rightarrow> om_invoice list \<Rightarrow> om_invoice list api" where
  "listInvoices_from srv cid del 0 n out = fail Unfinished"
| "listInvoices_from srv cid del (Suc fuel) n out =
    and_then (invoices_page srv cid del n) (\<lambda>p.
      if reported_last n p then ret (out @ filter (invoiceBelongsToCustomer cid) (fst p))
      else listInvoices_from srv cid del fuel (Suc n) (out @ filter (invoiceBelongsToCustomer cid) (fst p)))"

definition listInvoices :: "nat \<Rightarrow> server \<Rightarrow> go_string \<Rightarrow> bool \<Rightarrow> om_invoice list api" where
  "listInvoices fuel srv customerID includeDeleted =
    (if customerID = [] then fail (permanent ''customerID is required'')
     else listInvoices_from srv customerID includeDeleted fuel 1 [])"

definition ListInvoices :: "nat \<Rightarrow> server \<Rightarrow> go_string \<Rightarrow> om_invoice list api" where
  "ListInvoices fuel srv customerID = listInvoices fuel srv customerID False"

definition ListInvoicesIncludingDeleted :: "nat \<Rightarrow> server \<Rightarrow> go_string \<Rightarrow> om_invoice list api" where
  "ListInvoicesIncludingDeleted fuel srv customerID = listInvoices fuel srv customerID True"

section \<open>Preparing a customer's deletion\<close>

text \<open>
  \<open>json.Unmarshal\<close> into the struct of \<open>isNoLinesToInvoice\<close>: the extensions merge, null empties
  them, another type is an error; of a repeated code the last counts.
\<close>

fun problem_extensions :: "(go_string \<times> json_val) list \<Rightarrow> (go_string \<times> json_val) list \<Rightarrow> (go_string \<times> json_val) list option" where
  "problem_extensions [] ext = Some ext"
| "problem_extensions ((k, v) # ms) ext =
    (if to_lower k = ''extensions'' then
       (case v of JObj _ kvs \<Rightarrow> problem_extensions ms (ext @ kvs) | JNull \<Rightarrow> problem_extensions ms [] | _ \<Rightarrow> None)
     else problem_extensions ms ext)"

definition isNoLinesToInvoice :: "payload \<Rightarrow> bool" where
  "isNoLinesToInvoice b \<longleftrightarrow>
    (case b of
       Plain _ \<Rightarrow> False
     | Object _ ms \<Rightarrow>
       (case (problem_detail ms [], problem_extensions ms []) of
          (Some d, Some ext) \<Rightarrow>
            (case map_of (rev ext) ''code'' of
               Some (JStr _ code) \<Rightarrow> code = invoiceCreateNoLinesCode
             | _ \<Rightarrow> contains d invoiceCreateNoLinesMessage)
        | _ \<Rightarrow> False))"

definition invoicePendingLines :: "server \<Rightarrow> go_string \<Rightarrow> unit api" where
  "invoicePendingLines srv customerID =
    and_then (v1_call srv (ReqInvoice (InvoicePendingLinesReq customerID))) (\<lambda>r.
      if status_code (rp_http r) = 400 \<and> isNoLinesToInvoice (resp_body (rp_http r)) then fail (Sentinel errNothingToInvoice)
      else and_then (checked r) (\<lambda>_. ret ()))"

definition deleteInvoice :: "server \<Rightarrow> go_string \<Rightarrow> unit api" where
  "deleteInvoice srv i =
    and_then (v1_call srv (ReqInvoice (DeleteInvoiceReq i))) (\<lambda>r.
      if status_code (rp_http r) = 404 then ret () else and_then (checked r) (\<lambda>_. ret ()))"

definition isZeroAmount :: "go_string \<Rightarrow> bool" where
  "isZeroAmount amount \<longleftrightarrow> rat_SetString (trim_space amount) = Some 0"

definition zero_draft :: "om_invoice \<Rightarrow> bool" where
  "zero_draft iv \<longleftrightarrow> in_status iv = InvoiceStatusDraft \<and> isZeroAmount (in_total iv)"

fun delete_zero_drafts :: "server \<Rightarrow> om_invoice list \<Rightarrow> bool \<Rightarrow> bool api" where
  "delete_zero_drafts srv [] deleted = ret deleted"
| "delete_zero_drafts srv (iv # ivs) deleted =
    (if zero_draft iv then
       and_then (wrapping (''delete zero-total draft invoice '' @ in_id iv) (deleteInvoice srv (in_id iv)))
         (\<lambda>_. delete_zero_drafts srv ivs True)
     else delete_zero_drafts srv ivs deleted)"

definition invoiceBlocksCustomerDeletion :: "om_invoice \<Rightarrow> go_string" where
  "invoiceBlocksCustomerDeletion iv =
    (if in_status iv \<in> set finalInvoiceStatuses \<or> in_deleted_at iv \<noteq> None then []
     else if in_status iv = InvoiceStatusGathering then ''gathering, holds pending lines that are not billable yet''
     else if in_status iv = InvoiceStatusDeleting then
       (if in_extended_status iv = invoiceExtendedStatusDeleteFailed \<or> in_failed iv
        then ''deletion failed ('' @ in_extended_status iv @ ''); it must be deleted again in OpenMeter''
        else ''deletion in progress'')
     else in_status iv @ '', total '' @ in_total iv @ '' '' @ in_currency iv)"

definition outstanding :: "om_invoice list \<Rightarrow> go_string list" where
  "outstanding ivs =
    map (\<lambda>iv. in_id iv @ '' ('' @ invoiceBlocksCustomerDeletion iv @ '')'')
      (filter (\<lambda>iv. invoiceBlocksCustomerDeletion iv \<noteq> []) ivs)"

fun join_comma :: "go_string list \<Rightarrow> go_string" where
  "join_comma [] = []"
| "join_comma [s] = s"
| "join_comma (s # ss) = s @ '', '' @ join_comma ss"

text \<open>Pending lines are invoiced when a gathering invoice holds them, and the invoices are then read again.\<close>

definition invoice_gathering :: "nat \<Rightarrow> server \<Rightarrow> go_string \<Rightarrow> om_invoice list \<Rightarrow> om_invoice list api" where
  "invoice_gathering fuel srv customerID invoices =
    (if \<exists>iv \<in> set invoices. in_status iv = InvoiceStatusGathering then
       handle (invoicePendingLines srv customerID)
         (\<lambda>e. if \<not> errors_is e errNothingToInvoice then fail (Wrap ''invoice pending lines'' [e])
              else ListInvoices fuel srv customerID)
         (\<lambda>_. ListInvoices fuel srv customerID)
     else ret invoices)"

definition clear_zero_drafts :: "nat \<Rightarrow> server \<Rightarrow> go_string \<Rightarrow> om_invoice list \<Rightarrow> om_invoice list api" where
  "clear_zero_drafts fuel srv customerID invoices =
    and_then (delete_zero_drafts srv invoices False) (\<lambda>deleted.
      if deleted then ListInvoices fuel srv customerID else ret invoices)"

definition PrepareInvoicesForCustomerDeletion :: "nat \<Rightarrow> server \<Rightarrow> go_string \<Rightarrow> unit api" where
  "PrepareInvoicesForCustomerDeletion fuel srv customerID =
    and_then (ListInvoices fuel srv customerID) (\<lambda>invoices.
    and_then (invoice_gathering fuel srv customerID invoices) (\<lambda>invoices.
    and_then (clear_zero_drafts fuel srv customerID invoices) (\<lambda>invoices.
      if outstanding invoices \<noteq> [] then fail (Wrap (join_comma (outstanding invoices)) [Sentinel ErrInvoicesOutstanding])
      else ret ())))"

section \<open>Fixed charges\<close>

definition listInvoicesWithLines :: "server \<Rightarrow> go_string \<Rightarrow> go_string \<Rightarrow> om_invoice list api" where
  "listInvoicesWithLines srv customerID status =
    (if customerID = [] then fail (permanent ''customerID is required'')
     else and_then (v1_call srv (ReqInvoice (ListInvoiceLinesReq customerID status))) (\<lambda>r.
       and_then (checked r) (\<lambda>r. and_then (decode_invoices (''list '' @ status @ '' invoices for '' @ customerID) r) (\<lambda>p.
         ret (filter (\<lambda>iv. in_status iv = status \<and> invoiceBelongsToCustomer customerID iv) (fst p))))))"

definition LineItems :: "om_invoice \<Rightarrow> invoice_line list" where
  "LineItems iv = (case in_lines iv of None \<Rightarrow> [] | Some ls \<Rightarrow> filter (\<lambda>l. il_deleted_at l = None) ls)"

text \<open>The price type of a line's rate card, when it has a price, else of the line.\<close>

definition isFlatFee :: "invoice_line \<Rightarrow> bool" where
  "isFlatFee line \<longleftrightarrow>
    (case (case il_card_price_type line of Some k \<Rightarrow> Some k | None \<Rightarrow> il_price_type line) of
       None \<Rightarrow> False | Some kind \<Rightarrow> kind = ''flat'')"

definition UpcomingFixedCharges :: "server \<Rightarrow> go_string \<Rightarrow> invoice_line list api" where
  "UpcomingFixedCharges srv customerID =
    and_then (listInvoicesWithLines srv customerID InvoiceStatusGathering) (\<lambda>invoices.
      ret (concat (map (\<lambda>iv. filter isFlatFee (LineItems iv)) invoices)))"

definition newer_draft :: "om_invoice option \<Rightarrow> om_invoice \<Rightarrow> om_invoice option" where
  "newer_draft newest iv =
    (if in_status iv \<noteq> InvoiceStatusDraft \<or> IsInvoiceDeleted iv then newest
     else case newest of None \<Rightarrow> Some iv | Some n \<Rightarrow> if in_created_at n < in_created_at iv then Some iv else Some n)"

definition DraftInvoice :: "server \<Rightarrow> go_string \<Rightarrow> om_invoice option api" where
  "DraftInvoice srv customerID =
    and_then (listInvoicesWithLines srv customerID InvoiceStatusDraft) (\<lambda>invoices. ret (foldl newer_draft None invoices))"

section \<open>The listing is exact\<close>

lemma invoices_page_finishes: "fst (invoices_page srv cid del n t) \<noteq> Inl Unfinished"
  unfolding invoices_page_def
  by (rule v1_fetch_finishes)
    (auto simp: decode_invoices_def ret_def fail_def permanent_def split: option.splits body.splits account_body.splits)

interpretation invoices: reported_listing "invoices_page srv cid del" "filter (invoiceBelongsToCustomer cid)"
  "listInvoices_from srv cid del" for srv cid del
  by unfold_locales (simp_all add: invoices_page_finishes)

lemma ListInvoices_pages:
  assumes "ListInvoices fuel srv cid t = (Inr ivs, t')"
  shows "\<exists>ps. reported_pages (invoices_page srv cid False) 1 t ps t' \<and>
    ivs = filter (invoiceBelongsToCustomer cid) (concat (map fst ps))"
proof -
  have "listInvoices_from srv cid False fuel 1 [] t = (Inr ivs, t')"
    using assms by (auto simp: ListInvoices_def listInvoices_def fail_def split: if_splits)
  from invoices.loop_pages [OF this] show ?thesis by (auto simp: filter_concat o_def)
qed

section \<open>What a preparation sends\<close>

definition listed_in :: "reply \<Rightarrow> om_invoice set" where
  "listed_in reply = (case reply of Inl _ \<Rightarrow> {} | Inr r \<Rightarrow>
     (case rp_sdk r of Some (AccountBody (InvoicePage items _ _)) \<Rightarrow> set items | _ \<Rightarrow> {}))"

definition listed_invoices :: "exchanges \<Rightarrow> om_invoice set" where
  "listed_invoices t = (\<Union>x \<in> set t. listed_in (snd x))"

lemma listed_invoices_simps [simp]:
  "listed_invoices [] = {}" "listed_invoices (t @ u) = listed_invoices t \<union> listed_invoices u"
  "listed_invoices ((q, r) # u) = listed_in r \<union> listed_invoices u"
  by (auto simp: listed_invoices_def)

definition allowed_invoice_request :: "go_string \<Rightarrow> om_invoice set \<Rightarrow> request \<Rightarrow> bool" where
  "allowed_invoice_request cid known q \<longleftrightarrow>
    (\<exists>n. q = ReqInvoice (ListInvoicesReq cid False n)) \<or> q = ReqInvoice (InvoicePendingLinesReq cid) \<or>
    (\<exists>iv \<in> known. q = ReqInvoice (DeleteInvoiceReq (in_id iv)) \<and> invoiceBelongsToCustomer cid iv \<and>
       in_status iv = InvoiceStatusDraft \<and> isZeroAmount (in_total iv))"

text \<open>Every request is allowed by what the replies before it have listed.\<close>

fun all_allowed :: "go_string \<Rightarrow> om_invoice set \<Rightarrow> exchanges \<Rightarrow> bool" where
  "all_allowed cid known [] \<longleftrightarrow> True"
| "all_allowed cid known ((q, r) # u) \<longleftrightarrow> allowed_invoice_request cid known q \<and> all_allowed cid (known \<union> listed_in r) u"

lemma all_allowed_append [simp]:
  "all_allowed cid known (u @ v) \<longleftrightarrow> all_allowed cid known u \<and> all_allowed cid (known \<union> listed_invoices u) v"
  by (induction cid known u rule: all_allowed.induct) (simp_all add: Un_assoc)

lemma all_allowed_before:
  "all_allowed cid known (a @ (q, r) # b) \<Longrightarrow> allowed_invoice_request cid (known \<union> listed_invoices a) q"
  by simp

lemma invoices_page_gives:
  "gives (invoices_page srv cid False n) (\<lambda>r u. (\<forall>K. all_allowed cid K u) \<and>
    (\<forall>items ps tot. r = Inr (items, ps, tot) \<longrightarrow> set items \<subseteq> listed_invoices u))"
  unfolding invoices_page_def
  by (intro gives_v1_checked)
    (auto simp: allowed_invoice_request_def decode_invoices_def listed_in_def
      split: option.splits body.splits account_body.splits intro!: gives_ret gives_fail)

lemma ListInvoices_gives:
  "gives (ListInvoices fuel srv cid) (\<lambda>r u. (\<forall>K. all_allowed cid K u) \<and>
    (\<forall>ivs. r = Inr ivs \<longrightarrow> set ivs \<subseteq> {iv \<in> listed_invoices u. invoiceBelongsToCustomer cid iv}))"
proof -
  have "gives (listInvoices_from srv cid False fuel n out) (\<lambda>r u. (\<forall>K. all_allowed cid K u) \<and>
    (\<forall>ivs. r = Inr ivs \<longrightarrow> set ivs \<subseteq> set out \<union> {iv \<in> listed_invoices u. invoiceBelongsToCustomer cid iv}))" for n out
  proof (induction fuel arbitrary: n out)
    case (Suc fuel)
    show ?case
    proof (simp only: listInvoices_from.simps, rule gives_and_then [OF invoices_page_gives], goal_cases)
      case (2 p u)
      obtain items psize tot where p: "p = (items, psize, tot)" by (metis prod.exhaust)
      with 2 have u: "\<forall>K. all_allowed cid K u" "set items \<subseteq> listed_invoices u" by auto
      show ?case
        using u by (intro gives_if gives_ret gives_mono [OF Suc]) (auto simp: p, blast)
    qed simp
  qed (auto intro: gives_fail)
  from this [of 1 "[]"] show ?thesis
    unfolding ListInvoices_def listInvoices_def by (intro gives_if gives_fail) (auto intro: gives_mono)
qed

lemma delete_zero_drafts_gives:
  assumes "set ivs \<subseteq> {iv \<in> K. invoiceBelongsToCustomer cid iv}"
  shows "gives (delete_zero_drafts srv ivs d) (\<lambda>r u. all_allowed cid K u)"
  using assms
proof (induction ivs arbitrary: d K)
  case Nil
  show ?case by (auto intro: gives_ret)
next
  case (Cons iv ivs)
  have "gives (deleteInvoice srv (in_id iv)) (\<lambda>r u. sent u = [ReqInvoice (DeleteInvoiceReq (in_id iv))])"
    by (auto simp: gives_def deleteInvoice_def and_then_def v1_call_def call_def checked_def ret_def fail_def
        split: sum.splits option.splits)
  then have del: "gives (wrapping msg (deleteInvoice srv (in_id iv))) (\<lambda>r u. sent u = [ReqInvoice (DeleteInvoiceReq (in_id iv))])" for msg
    by (rule gives_wrapping)
  have rest: "gives (delete_zero_drafts srv ivs d) (\<lambda>r v. all_allowed cid (K \<union> L) v)" for d L
    by (rule Cons.IH) (use Cons.prems in auto)
  show ?case
  proof (cases "zero_draft iv")
    case True
    have ok: "all_allowed cid K u" if "sent u = [ReqInvoice (DeleteInvoiceReq (in_id iv))]" for u
      using that True Cons.prems by (cases u) (auto simp: allowed_invoice_request_def zero_draft_def sent_def)
    show ?thesis
      unfolding delete_zero_drafts.simps if_P [OF True]
      by (rule gives_and_then [OF del]) (auto simp: ok intro!: gives_mono [OF rest])
  next
    case False
    then show ?thesis using rest [of d "{}"] by simp
  qed
qed

lemma clear_zero_drafts_gives:
  assumes "set ivs \<subseteq> {iv \<in> K. invoiceBelongsToCustomer cid iv}"
  shows "gives (clear_zero_drafts fuel srv cid ivs) (\<lambda>r u. all_allowed cid K u)"
  unfolding clear_zero_drafts_def using assms
  by (intro gives_and_then [OF delete_zero_drafts_gives] gives_if gives_ret gives_mono [OF ListInvoices_gives]) auto

lemma invoice_gathering_gives:
  assumes "set ivs \<subseteq> {iv \<in> K. invoiceBelongsToCustomer cid iv}"
  shows "gives (invoice_gathering fuel srv cid ivs) (\<lambda>r u. all_allowed cid K u \<and>
    (\<forall>jvs. r = Inr jvs \<longrightarrow> set jvs \<subseteq> {iv \<in> K \<union> listed_invoices u. invoiceBelongsToCustomer cid iv}))"
proof -
  have "gives (invoicePendingLines srv cid) (\<lambda>r u. \<forall>K. all_allowed cid K u)"
    by (auto simp: gives_def invoicePendingLines_def and_then_def v1_call_def call_def checked_def ret_def fail_def
        allowed_invoice_request_def split: sum.splits option.splits)
  then show ?thesis
    unfolding invoice_gathering_def using assms
    by (intro gives_if gives_ret gives_handle [where ?Q1.0 = "\<lambda>r u. \<forall>K. all_allowed cid K u"] gives_fail
        gives_mono [OF ListInvoices_gives]) auto
qed

lemma Prepare_gives:
  "gives (PrepareInvoicesForCustomerDeletion fuel srv cid) (\<lambda>r u. all_allowed cid {} u)"
  unfolding PrepareInvoicesForCustomerDeletion_def
proof (rule gives_and_then [OF ListInvoices_gives], goal_cases)
  case (2 ivs u)
  then have ivs: "set ivs \<subseteq> {iv \<in> listed_invoices u. invoiceBelongsToCustomer cid iv}" and u: "all_allowed cid {} u" by auto
  show ?case
  proof (rule gives_and_then [OF invoice_gathering_gives [OF ivs]], goal_cases)
    case (2 jvs v)
    then have jvs: "set jvs \<subseteq> {iv \<in> listed_invoices u \<union> listed_invoices v. invoiceBelongsToCustomer cid iv}" by auto
    show ?case
      by (rule gives_and_then [OF clear_zero_drafts_gives [OF jvs]]) (use 2 u in \<open>auto intro!: gives_if gives_ret gives_fail\<close>)
  qed (use u in simp)
qed simp

text \<open>
  Preparing a customer's deletion gives up no revenue. Of the requests it sends, every
  delete is of an invoice that an earlier listing of this very call returned, that belongs
  to the customer, and that is a draft with a total of zero; the only other write asks to
  invoice this customer's pending lines. Everything else is a read.
\<close>

theorem PrepareInvoicesForCustomerDeletion_safe:
  "\<exists>u. snd (PrepareInvoicesForCustomerDeletion fuel srv cid t) = t @ u \<and>
    (\<forall>a q r b. u = a @ (q, r) # b \<longrightarrow> allowed_invoice_request cid (listed_invoices a) q)"
proof -
  obtain u where "snd (PrepareInvoicesForCustomerDeletion fuel srv cid t) = t @ u" "all_allowed cid {} u"
    using Prepare_gives [of fuel srv cid] unfolding gives_def by blast
  then show ?thesis using all_allowed_before [of cid "{}"] by auto
qed

section \<open>When the customer may go\<close>

lemma delete_zero_drafts_unchanged: "delete_zero_drafts srv ivs d t = (Inr False, t') \<Longrightarrow> t' = t \<and> \<not> d"
proof (induction ivs arbitrary: d t)
  case (Cons iv ivs)
  show ?case
  proof (cases "zero_draft iv")
    case True
    with Cons.prems obtain t1 where "delete_zero_drafts srv ivs True t1 = (Inr False, t')" by (auto simp: and_then_Inr)
    from Cons.IH [OF this] show ?thesis by simp
  next
    case False
    with Cons.prems have "delete_zero_drafts srv ivs d t = (Inr False, t')" by simp
    from Cons.IH [OF this] show ?thesis .
  qed
qed (simp add: ret_def)

definition listing_ends :: "nat \<Rightarrow> server \<Rightarrow> go_string \<Rightarrow> om_invoice list \<Rightarrow> exchanges \<Rightarrow> bool" where
  "listing_ends fuel srv cid ivs t' \<longleftrightarrow> (\<exists>t0. ListInvoices fuel srv cid t0 = (Inr ivs, t'))"

lemma invoice_gathering_ends:
  "invoice_gathering fuel srv cid ivs t = (Inr jvs, t') \<Longrightarrow> listing_ends fuel srv cid ivs t \<Longrightarrow> listing_ends fuel srv cid jvs t'"
  by (auto simp: invoice_gathering_def handle_def ret_def fail_def listing_ends_def split: if_splits prod.splits sum.splits)

lemma clear_zero_drafts_ends:
  assumes "clear_zero_drafts fuel srv cid ivs t = (Inr jvs, t')" "listing_ends fuel srv cid ivs t"
  shows "listing_ends fuel srv cid jvs t'"
proof -
  obtain d t1 where d: "delete_zero_drafts srv ivs False t = (Inr d, t1)"
    "(if d then ListInvoices fuel srv cid else ret ivs) t1 = (Inr jvs, t')"
    using assms(1) by (auto simp: clear_zero_drafts_def and_then_Inr)
  show ?thesis
  proof (cases d)
    case True
    with d show ?thesis by (auto simp: listing_ends_def)
  next
    case False
    with d delete_zero_drafts_unchanged [of srv ivs False t t1] assms(2) show ?thesis by (simp add: ret_def)
  qed
qed

lemma outstanding_empty:
  "outstanding ivs = [] \<longleftrightarrow> (\<forall>iv \<in> set ivs. in_status iv \<in> set finalInvoiceStatuses \<or> in_deleted_at iv \<noteq> None)"
  by (auto simp: outstanding_def filter_empty_conv invoiceBlocksCustomerDeletion_def split: if_splits)

text \<open>
  When the preparation reports no error, the last thing it did was a complete listing of
  the customer's invoices, and every one of them is paid, voided, uncollectible or deleted:
  nothing that blocks deleting the customer is passed over.
\<close>

theorem PrepareInvoicesForCustomerDeletion_clear:
  assumes "PrepareInvoicesForCustomerDeletion fuel srv cid t = (Inr (), t')"
  shows "\<exists>t0 ps. reported_pages (invoices_page srv cid False) 1 t0 ps t' \<and>
    (\<forall>iv \<in> set (concat (map fst ps)). invoiceBelongsToCustomer cid iv \<longrightarrow>
      in_status iv \<in> {InvoiceStatusPaid, InvoiceStatusVoided, InvoiceStatusUncollectible, InvoiceStatusDeleted} \<or>
      in_deleted_at iv \<noteq> None)"
proof -
  obtain ivs jvs kvs t1 t2 where run: "ListInvoices fuel srv cid t = (Inr ivs, t1)"
    "invoice_gathering fuel srv cid ivs t1 = (Inr jvs, t2)" "clear_zero_drafts fuel srv cid jvs t2 = (Inr kvs, t')"
    and out: "outstanding kvs = []"
    using assms by (auto simp: PrepareInvoicesForCustomerDeletion_def and_then_Inr ret_def fail_def split: if_splits)
  have "listing_ends fuel srv cid kvs t'"
    using run(1) by (intro clear_zero_drafts_ends [OF run(3)] invoice_gathering_ends [OF run(2)]) (auto simp: listing_ends_def)
  then obtain t0 ps where "reported_pages (invoices_page srv cid False) 1 t0 ps t'"
    "kvs = filter (invoiceBelongsToCustomer cid) (concat (map fst ps))"
    unfolding listing_ends_def using ListInvoices_pages by blast
  with out show ?thesis
    by (intro exI [of _ t0] exI [of _ ps]) (auto simp: outstanding_empty finalInvoiceStatuses_def)
qed

definition example_invoice :: om_invoice where
  "example_invoice = \<lparr>in_id = ''01I'', in_status = ''paid'', in_extended_status = ''paid'', in_failed = False, in_deleted_at = None,
     in_created_at = 5, in_customer = Some ''01C'', in_total = ''12.00'', in_currency = ''USD'', in_lines = None,
     in_period = None, in_updated_at = 5, in_due_at = None, in_stripe_id = None\<rparr>"

theorem PrepareInvoicesForCustomerDeletion_clear_witness:
  "let r = ok_answer (Some (AccountBody (InvoicePage [example_invoice] 100 1)));
       t' = [(ReqInvoice (ListInvoicesReq ''01C'' False 1), Inr r)]
   in PrepareInvoicesForCustomerDeletion 3 (\<lambda>_ _. Inr r) ''01C'' [] = (Inr (), t') \<and>
      (\<exists>t0 ps. reported_pages (invoices_page (\<lambda>_ _. Inr r) ''01C'' False) 1 t0 ps t' \<and>
        (\<forall>iv \<in> set (concat (map fst ps)). invoiceBelongsToCustomer ''01C'' iv \<longrightarrow>
          in_status iv \<in> {InvoiceStatusPaid, InvoiceStatusVoided, InvoiceStatusUncollectible, InvoiceStatusDeleted} \<or>
          in_deleted_at iv \<noteq> None))"
proof -
  let ?r = "ok_answer (Some (AccountBody (InvoicePage [example_invoice] 100 1)))"
  have page: "invoices_page (\<lambda>_ _. Inr ?r) ''01C'' False 1 [] =
      (Inr ([example_invoice], 100, 1), [(ReqInvoice (ListInvoicesReq ''01C'' False 1), Inr ?r)])"
    by (simp add: invoices_page_def decode_invoices_def and_then_def v1_call_def call_def checked_def ret_def ok_answer_def ok_status_def)
  have mine: "invoiceBelongsToCustomer ''01C'' example_invoice" and calm: "\<not> zero_draft example_invoice"
    "in_status example_invoice \<noteq> InvoiceStatusGathering" "invoiceBlocksCustomerDeletion example_invoice = []"
    by (simp_all add: invoiceBelongsToCustomer_def str_or_empty_def example_invoice_def zero_draft_def invoice_statuses
        invoiceBlocksCustomerDeletion_def finalInvoiceStatuses_def)
  have list: "ListInvoices 3 (\<lambda>_ _. Inr ?r) ''01C'' [] =
      (Inr [example_invoice], [(ReqInvoice (ListInvoicesReq ''01C'' False 1), Inr ?r)])"
    using page mine
    by (simp add: ListInvoices_def listInvoices_def numeral_3_eq_3 and_then_def reported_last_def ret_def)
  have run: "PrepareInvoicesForCustomerDeletion 3 (\<lambda>_ _. Inr ?r) ''01C'' [] =
      (Inr (), [(ReqInvoice (ListInvoicesReq ''01C'' False 1), Inr ?r)])"
    using list calm
    by (simp add: PrepareInvoicesForCustomerDeletion_def and_then_def invoice_gathering_def clear_zero_drafts_def outstanding_def ret_def)
  from run PrepareInvoicesForCustomerDeletion_clear [OF run] show ?thesis by (simp only: Let_def)
qed

section \<open>Fixed charges of the open invoices\<close>

lemma newest_draft:
  "foldl newer_draft acc ivs = Some d \<Longrightarrow>
    (acc = Some d \<or> d \<in> set ivs \<and> in_status d = InvoiceStatusDraft \<and> \<not> IsInvoiceDeleted d) \<and>
    (\<forall>a. acc = Some a \<longrightarrow> in_created_at a \<le> in_created_at d) \<and>
    (\<forall>iv \<in> set ivs. in_status iv = InvoiceStatusDraft \<and> \<not> IsInvoiceDeleted iv \<longrightarrow> in_created_at iv \<le> in_created_at d)"
proof (induction ivs arbitrary: acc)
  case (Cons iv ivs)
  from Cons.prems have "foldl newer_draft (newer_draft acc iv) ivs = Some d" by simp
  from Cons.IH [OF this] show ?case
    by (cases acc) (auto simp: newer_draft_def split: if_splits)
qed simp

text \<open>
  The draft shown for a customer is its newest: it is a live draft of that customer that
  the server returned, and no other live draft it returned for the customer is younger.
\<close>

theorem DraftInvoice_newest:
  assumes "DraftInvoice srv cid t = (Inr (Some d), t')"
  shows "\<exists>r items psize tot. t' = t @ [(ReqInvoice (ListInvoiceLinesReq cid InvoiceStatusDraft), Inr r)] \<and>
    rp_sdk r = Some (AccountBody (InvoicePage items psize tot)) \<and>
    d \<in> set items \<and> invoiceBelongsToCustomer cid d \<and> in_status d = InvoiceStatusDraft \<and> \<not> IsInvoiceDeleted d \<and>
    (\<forall>iv \<in> set items. in_status iv = InvoiceStatusDraft \<and> invoiceBelongsToCustomer cid iv \<and> \<not> IsInvoiceDeleted iv \<longrightarrow>
      in_created_at iv \<le> in_created_at d)"
proof -
  obtain ivs where ivs: "listInvoicesWithLines srv cid InvoiceStatusDraft t = (Inr ivs, t')" "foldl newer_draft None ivs = Some d"
    using assms by (auto simp: DraftInvoice_def and_then_Inr ret_def)
  then obtain r items psize tot where "t' = t @ [(ReqInvoice (ListInvoiceLinesReq cid InvoiceStatusDraft), Inr r)]"
    "rp_sdk r = Some (AccountBody (InvoicePage items psize tot))"
    "ivs = filter (\<lambda>iv. in_status iv = InvoiceStatusDraft \<and> invoiceBelongsToCustomer cid iv) items"
    by (auto simp: listInvoicesWithLines_def fail_def ret_def and_then_Inr v1_call_def call_def checked_def decode_invoices_def
        split: if_splits sum.splits option.splits body.splits account_body.splits)
  with newest_draft [OF ivs(2)] show ?thesis by auto
qed

theorem DraftInvoice_newest_witness:
  "let iv = example_invoice\<lparr>in_status := ''draft''\<rparr>;
       r = ok_answer (Some (AccountBody (InvoicePage [iv\<lparr>in_created_at := 3\<rparr>, iv] 100 2)))
   in \<exists>r' items psize tot. ([(ReqInvoice (ListInvoiceLinesReq ''01C'' InvoiceStatusDraft), Inr r)] :: exchanges) =
        [] @ [(ReqInvoice (ListInvoiceLinesReq ''01C'' InvoiceStatusDraft), Inr r')] \<and>
      rp_sdk r' = Some (AccountBody (InvoicePage items psize tot)) \<and>
      iv \<in> set items \<and> invoiceBelongsToCustomer ''01C'' iv \<and> in_status iv = InvoiceStatusDraft \<and> \<not> IsInvoiceDeleted iv \<and>
      (\<forall>x \<in> set items. in_status x = InvoiceStatusDraft \<and> invoiceBelongsToCustomer ''01C'' x \<and> \<not> IsInvoiceDeleted x \<longrightarrow>
        in_created_at x \<le> in_created_at iv)"
proof -
  let ?iv = "example_invoice\<lparr>in_status := ''draft''\<rparr>"
  let ?r = "ok_answer (Some (AccountBody (InvoicePage [?iv\<lparr>in_created_at := 3\<rparr>, ?iv] 100 2)))"
  have "DraftInvoice (\<lambda>_ _. Inr ?r) ''01C'' [] =
      (Inr (Some ?iv), [(ReqInvoice (ListInvoiceLinesReq ''01C'' InvoiceStatusDraft), Inr ?r)])"
    by (simp add: DraftInvoice_def listInvoicesWithLines_def and_then_def v1_call_def call_def checked_def ret_def ok_answer_def
        ok_status_def decode_invoices_def invoice_statuses invoiceBelongsToCustomer_def str_or_empty_def example_invoice_def
        newer_draft_def IsInvoiceDeleted_def)
  from DraftInvoice_newest [OF this] show ?thesis by (simp only: Let_def)
qed

end
