(* ===== verification/BillingProfiles.thy ===== *)
theory BillingProfiles
  imports Customers ApiLogic
begin

text \<open>
  Billing profiles (\<open>internal/openmeter/billingprofile.go\<close>): one profile per billing account,
  recognised by a metadata tag with the account's key, with the platform's default profile
  as the source of everything the account does not decide.

  Encoding a workflow as JSON and decoding it again is the identity on the fields modelled,
  and two JSON encodings of the same record type are equal exactly when the records are.
\<close>

section \<open>Desired profiles\<close>

text \<open>The \<open>int32\<close> fields hold any value of that type.\<close>

record desired_billing_profile =
  dbp_account_key :: go_string
  dbp_name :: go_string
  dbp_net_days :: int
  dbp_collection_method :: go_string
  dbp_frequency :: go_string
  dbp_day :: int

record ensure_profile_result =
  er_profile :: billing_profile
  er_ignored_id :: go_string
  er_ignored_reason :: go_string
  er_apps_drift :: go_string

definition billingProfileAccountKeyMetadataKey :: go_string where
  "billingProfileAccountKeyMetadataKey = ''billingAccountKey''"

definition meta_value :: "str_map option \<Rightarrow> go_string \<Rightarrow> go_string" where
  "meta_value m k = (case m of None \<Rightarrow> [] | Some kvs \<Rightarrow> str_or_empty (map_of kvs k))"

definition BillingProfileOwnershipMismatch :: "billing_profile \<Rightarrow> go_string \<Rightarrow> go_string" where
  "BillingProfileOwnershipMismatch p accountKey =
    (if pf_default p then ''billing profile '' @ pf_id p @ '' is the org default profile''
     else let tagged = meta_value (pf_metadata p) billingProfileAccountKeyMetadataKey in
       if tagged = [] then
         ''billing profile '' @ pf_id p @ '' carries no '' @ billingProfileAccountKeyMetadataKey @ '' metadata tag''
       else if tagged \<noteq> accountKey then ''billing profile '' @ pf_id p @ '' belongs to billing account '' @ tagged
       else [])"

definition netDaysToISODuration :: "int \<Rightarrow> go_string" where
  "netDaysToISODuration n = ''P'' @ nat_digits (nat (if n \<le> 0 then 30 else n)) @ ''D''"

definition invoiceFrequencyToISODuration :: "go_string \<Rightarrow> go_string" where
  "invoiceFrequencyToISODuration freq =
    (if freq = ''Quarterly'' then ''P3M'' else if freq = ''Annual'' then ''P1Y'' else ''P1M'')"

text \<open>\<open>time.Time.Day\<close> of the day that many days after 2024-01-01, in the Gregorian calendar.\<close>

definition day_of_month :: "int \<Rightarrow> int" where
  "day_of_month d =
    (let doe = (d + 739191) mod 146097;
         yoe = (doe - doe div 1460 + doe div 36524 - doe div 146096) div 365;
         doy = doe - (365 * yoe + yoe div 4 - yoe div 100);
         mp = (5 * doy + 2) div 153
     in doy - (153 * mp + 2) div 5 + 1)"

definition desiredCollectionAlignment :: "desired_billing_profile \<Rightarrow> collection_alignment" where
  "desiredCollectionAlignment desired =
    AlignAnchored (Some (max (dbp_day desired) 1 - 1, Some (invoiceFrequencyToISODuration (dbp_frequency desired))))"

definition no_invoicing :: invoicing_settings where
  "no_invoicing = \<lparr>iv_due_after = None, iv_auto_advance = None, iv_draft_period = None, iv_progressive = None,
     iv_tax_config = None, iv_end_proration = None\<rparr>"

definition no_collection :: collection_settings where
  "no_collection = \<lparr>co_interval = None, co_alignment = None\<rparr>"

definition no_payment :: payment_settings where
  "no_payment = \<lparr>py_collection_method = None\<rparr>"

definition or_zero :: "'a \<Rightarrow> 'a option \<Rightarrow> 'a" where
  "or_zero z x = (case x of None \<Rightarrow> z | Some y \<Rightarrow> y)"

definition desiredWorkflow :: "billing_profile \<Rightarrow> desired_billing_profile \<Rightarrow> billing_workflow" where
  "desiredWorkflow def_profile desired =
    (let wf = pf_workflow def_profile;
         wf = wf\<lparr>wf_invoicing := Some ((or_zero no_invoicing (wf_invoicing wf))
                \<lparr>iv_due_after := Some (netDaysToISODuration (dbp_net_days desired))\<rparr>)\<rparr>;
         wf = (if dbp_collection_method desired \<noteq> [] then
                 wf\<lparr>wf_payment := Some ((or_zero no_payment (wf_payment wf))
                   \<lparr>py_collection_method := Some (dbp_collection_method desired)\<rparr>)\<rparr> else wf)
     in wf\<lparr>wf_collection := Some ((or_zero no_collection (wf_collection wf))
          \<lparr>co_alignment := Some (desiredCollectionAlignment desired)\<rparr>)\<rparr>)"

definition without_alignment :: "billing_workflow \<Rightarrow> billing_workflow" where
  "without_alignment w = w\<lparr>wf_collection := map_option (\<lambda>c. c\<lparr>co_alignment := None\<rparr>) (wf_collection w)\<rparr>"

definition workflowsEqualIgnoringAlignment :: "billing_workflow \<Rightarrow> billing_workflow \<Rightarrow> bool" where
  "workflowsEqualIgnoringAlignment a b \<longleftrightarrow> without_alignment a = without_alignment b"

definition supplierFingerprint :: "billing_party \<Rightarrow> go_string option \<times> go_string option \<times> om_address option" where
  "supplierFingerprint p =
    (case bp_addresses p of
       Some (a # _) \<Rightarrow> (bp_name p, bp_tax_code p, Some a)
     | _ \<Rightarrow> (bp_name p, None, None))"

definition billingProfileNeedsUpdate :: "billing_profile \<Rightarrow> billing_profile \<Rightarrow> desired_billing_profile \<Rightarrow> bool" where
  "billingProfileNeedsUpdate existing def_profile desired \<longleftrightarrow>
    (if pf_metadata existing = None \<or>
        meta_value (pf_metadata existing) billingProfileAccountKeyMetadataKey \<noteq> dbp_account_key desired then True
     else if supplierFingerprint (pf_supplier existing) \<noteq> supplierFingerprint (pf_supplier def_profile) then True
     else if \<not> workflowsEqualIgnoringAlignment (pf_workflow existing) (desiredWorkflow def_profile desired) then True
     else case Option.bind (wf_collection (pf_workflow existing)) co_alignment of
         None \<Rightarrow> True
       | Some (AlignAnchored None) \<Rightarrow> True
       | Some (AlignAnchored (Some (anchor, interval))) \<Rightarrow>
           interval \<noteq> Some (invoiceFrequencyToISODuration (dbp_frequency desired)) \<or>
           day_of_month anchor \<noteq> max (dbp_day desired) 1
       | Some _ \<Rightarrow> False)"

definition billingProfileAppsDrift :: "billing_profile \<Rightarrow> billing_profile \<Rightarrow> go_string" where
  "billingProfileAppsDrift p def_profile =
    (case pf_apps p of None \<Rightarrow> []
     | Some (i, y, x) \<Rightarrow>
       (case pf_apps def_profile of None \<Rightarrow> []
        | Some (i', y', x') \<Rightarrow>
          if i = i' \<and> y = y' \<and> x = x' then []
          else ''billing profile '' @ pf_id p @ '' uses apps invoicing='' @ i @ '' payment='' @ y @ '' tax='' @ x
            @ '' but the default profile '' @ pf_id def_profile @ '' uses invoicing='' @ i' @ '' payment='' @ y'
            @ '' tax='' @ x' @ ''; OpenMeter cannot change apps on an existing profile''))"

section \<open>Reading profiles\<close>

definition profiles_page :: "server \<Rightarrow> profile_request \<Rightarrow> billing_profile reported_page api" where
  "profiles_page srv q =
    and_then (v1_call srv (ReqProfile q)) (\<lambda>r. and_then (checked r) (\<lambda>r.
      case rp_sdk r of
        Some (AccountBody (ProfilePage items psize tot)) \<Rightarrow> ret (items, psize, tot)
      | _ \<Rightarrow> fail (permanent ''list billing profiles: empty response body'')))"

text \<open>
  One walk over the pages, oldest first: the profiles found and whether the walk was
  stable, that is whether no page reported a smaller total than the one before. The total
  starts at -1.
\<close>

fun walk_from ::
  "server \<Rightarrow> bool \<Rightarrow> (billing_profile \<Rightarrow> bool) \<Rightarrow> nat \<Rightarrow> nat \<Rightarrow> int \<Rightarrow> billing_profile list \<Rightarrow> (billing_profile list \<times> bool) api" where
  "walk_from srv firstOnly matches 0 n prev found = fail Unfinished"
| "walk_from srv firstOnly matches (Suc fuel) n prev found =
    and_then (profiles_page srv (ListProfilesReq n)) (\<lambda>p.
      case p of (items, psize, tot) \<Rightarrow>
        if 0 \<le> prev \<and> tot < prev then ret ([], False)
        else if firstOnly \<and> filter matches items \<noteq> [] then ret (found @ [hd (filter matches items)], True)
        else if reported_last n p then ret (found @ filter matches items, True)
        else walk_from srv firstOnly matches fuel (Suc n) tot (found @ filter matches items))"

definition walkBillingProfiles :: "nat \<Rightarrow> server \<Rightarrow> bool \<Rightarrow> (billing_profile \<Rightarrow> bool) \<Rightarrow> (billing_profile list \<times> bool) api" where
  "walkBillingProfiles fuel srv firstOnly matches = walk_from srv firstOnly matches fuel 1 (-1) []"

definition billingProfileListAttempts :: nat where "billingProfileListAttempts = 3"

fun list_attempts :: "nat \<Rightarrow> server \<Rightarrow> bool \<Rightarrow> (billing_profile \<Rightarrow> bool) \<Rightarrow> nat \<Rightarrow> billing_profile list api" where
  "list_attempts fuel srv firstOnly matches 0 =
    fail (transient ''list billing profiles: profiles kept being deleted during the walk'')"
| "list_attempts fuel srv firstOnly matches (Suc k) =
    and_then (walkBillingProfiles fuel srv firstOnly matches) (\<lambda>fs.
      if snd fs then ret (fst fs) else list_attempts fuel srv firstOnly matches k)"

definition listBillingProfiles :: "nat \<Rightarrow> server \<Rightarrow> bool \<Rightarrow> (billing_profile \<Rightarrow> bool) \<Rightarrow> billing_profile list api" where
  "listBillingProfiles fuel srv firstOnly matches = list_attempts fuel srv firstOnly matches billingProfileListAttempts"

definition isAccountProfile :: "go_string \<Rightarrow> billing_profile \<Rightarrow> bool" where
  "isAccountProfile accountKey p \<longleftrightarrow> BillingProfileOwnershipMismatch p accountKey = []"

definition findBillingProfileByAccountKey :: "nat \<Rightarrow> server \<Rightarrow> go_string \<Rightarrow> billing_profile option api" where
  "findBillingProfileByAccountKey fuel srv accountKey =
    and_then (listBillingProfiles fuel srv True (isAccountProfile accountKey)) (\<lambda>found.
      ret (case found of [] \<Rightarrow> None | p # _ \<Rightarrow> Some p))"

definition FindBillingProfilesByAccountKey :: "nat \<Rightarrow> server \<Rightarrow> go_string \<Rightarrow> billing_profile list api" where
  "FindBillingProfilesByAccountKey fuel srv accountKey =
    (if accountKey = [] then fail (permanent ''accountKey is required'')
     else listBillingProfiles fuel srv False (isAccountProfile accountKey))"

definition GetBillingProfile :: "server \<Rightarrow> go_string \<Rightarrow> billing_profile api" where
  "GetBillingProfile srv i =
    (if i = [] then fail (permanent ''id is required'')
     else and_then (v1_call srv (ReqProfile (GetProfileReq i))) (\<lambda>r.
       if status_code (rp_http r) = 404 then fail (Wrap i [Sentinel ErrBillingProfileNotFound])
       else and_then (checked r) (\<lambda>r.
         case rp_sdk r of
           Some (AccountBody (ProfileBody p)) \<Rightarrow>
             if pf_deleted_at p \<noteq> None then fail (Wrap i [Sentinel ErrBillingProfileNotFound]) else ret p
         | _ \<Rightarrow> fail (permanent (''get billing profile '' @ i @ '': empty response body'')))))"

definition GetDefaultBillingProfile :: "nat \<Rightarrow> server \<Rightarrow> billing_profile api" where
  "GetDefaultBillingProfile fuel srv =
    and_then (profiles_page srv FirstProfileReq) (\<lambda>(items, psize, tot).
      if items \<noteq> [] \<and> pf_default (hd items) then ret (hd items)
      else if tot \<le> int (length items) then fail (Sentinel ErrBillingProfileNotFound)
      else and_then (listBillingProfiles fuel srv True pf_default) (\<lambda>found.
        case found of [] \<Rightarrow> fail (Sentinel ErrBillingProfileNotFound) | p # _ \<Rightarrow> ret p))"

section \<open>Writing profiles\<close>

definition DeleteBillingProfile :: "server \<Rightarrow> go_string \<Rightarrow> unit api" where
  "DeleteBillingProfile srv i =
    (if i = [] then fail (permanent ''id is required'')
     else and_then (v1_call srv (ReqProfile (DeleteProfileReq i))) (\<lambda>r.
       if status_code (rp_http r) = 404 then ret () else and_then (checked r) (\<lambda>_. ret ())))"

definition UpsertBillingProfileCustomerOverride :: "server \<Rightarrow> go_string \<Rightarrow> go_string \<Rightarrow> unit api" where
  "UpsertBillingProfileCustomerOverride srv customerID billingProfileID =
    (if customerID = [] then fail (permanent ''customerID is required'')
     else if billingProfileID = [] then fail (permanent ''billingProfileID is required'')
     else and_then (v1_call srv (ReqProfile (UpsertOverrideReq customerID billingProfileID))) (\<lambda>r.
       and_then (checked r) (\<lambda>_. ret ())))"

definition DeleteBillingProfileCustomerOverride :: "server \<Rightarrow> go_string \<Rightarrow> unit api" where
  "DeleteBillingProfileCustomerOverride srv customerID =
    (if customerID = [] then fail (permanent ''customerID is required'')
     else and_then (v1_call srv (ReqProfile (DeleteOverrideReq customerID))) (\<lambda>r.
       if status_code (rp_http r) = 404 then ret () else and_then (checked r) (\<lambda>_. ret ())))"

definition profile_create_body ::
  "billing_profile \<Rightarrow> desired_billing_profile \<Rightarrow> go_string \<times> go_string \<times> go_string \<Rightarrow> profile_create" where
  "profile_create_body def_profile desired apps =
    \<lparr>pn_name = dbp_name desired, pn_default = False, pn_supplier = pf_supplier def_profile,
     pn_metadata = Some [(billingProfileAccountKeyMetadataKey, dbp_account_key desired)],
     pn_workflow = desiredWorkflow def_profile desired, pn_apps = apps\<rparr>"

definition written_profile :: "server \<Rightarrow> profile_request \<Rightarrow> billing_profile api" where
  "written_profile srv q =
    and_then (v1_call srv (ReqProfile q)) (\<lambda>r. and_then (checked r) (\<lambda>r.
      case rp_sdk r of
        Some (AccountBody (ProfileBody p)) \<Rightarrow> ret p
      | _ \<Rightarrow> fail (permanent ''billing profile: empty response body'')))"

definition createBillingProfile :: "server \<Rightarrow> billing_profile \<Rightarrow> desired_billing_profile \<Rightarrow> billing_profile api" where
  "createBillingProfile srv def_profile desired =
    (case pf_apps def_profile of
       None \<Rightarrow> fail (permanent (''default billing profile '' @ pf_id def_profile @ '': apps not expanded to references''))
     | Some apps \<Rightarrow> written_profile srv (CreateProfileReq (profile_create_body def_profile desired apps)))"

definition profile_update_body ::
  "billing_profile \<Rightarrow> billing_profile \<Rightarrow> desired_billing_profile \<Rightarrow> profile_update" where
  "profile_update_body existing def_profile desired =
    \<lparr>px_name = pf_name existing, px_description = pf_description existing, px_default = pf_default existing,
     px_supplier = pf_supplier def_profile,
     px_metadata = Some (AList.update billingProfileAccountKeyMetadataKey (dbp_account_key desired) (or_zero [] (pf_metadata existing))),
     px_workflow = desiredWorkflow def_profile desired\<rparr>"

definition updateBillingProfile ::
  "server \<Rightarrow> billing_profile \<Rightarrow> billing_profile \<Rightarrow> desired_billing_profile \<Rightarrow> billing_profile api" where
  "updateBillingProfile srv existing def_profile desired =
    written_profile srv (UpdateProfileReq (pf_id existing) (profile_update_body existing def_profile desired))"

text \<open>The profile of the caller's recorded id, when it is the account's own, with what was refused and why.\<close>

definition adopt_existing ::
  "server \<Rightarrow> go_string \<Rightarrow> go_string \<Rightarrow> (billing_profile option \<times> go_string \<times> go_string) api" where
  "adopt_existing srv existingID accountKey =
    (if existingID = [] then ret (None, [], [])
     else handle (GetBillingProfile srv existingID)
       (\<lambda>e. if errors_is e ErrBillingProfileNotFound then ret (None, [], []) else fail e)
       (\<lambda>existing.
          let reason = BillingProfileOwnershipMismatch existing accountKey in
          if reason \<noteq> [] then ret (None, existingID, reason) else ret (Some existing, [], [])))"

definition find_current :: "nat \<Rightarrow> server \<Rightarrow> go_string \<Rightarrow> billing_profile option \<Rightarrow> billing_profile option api" where
  "find_current fuel srv accountKey adopted =
    (case adopted of Some p \<Rightarrow> ret (Some p) | None \<Rightarrow> findBillingProfileByAccountKey fuel srv accountKey)"

definition default_profile_or_error :: "nat \<Rightarrow> server \<Rightarrow> go_string \<Rightarrow> billing_profile api" where
  "default_profile_or_error fuel srv name =
    handle (GetDefaultBillingProfile fuel srv)
      (\<lambda>e. if errors_is e ErrBillingProfileNotFound
        then fail (PermanentError (Wrap (''billing profile '' @ name @ '': no default billing profile provisioned on this OpenMeter instance'') [e]) 0 [])
        else fail (Wrap ''get default billing profile'' [e]))
      ret"

definition EnsureBillingProfile :: "nat \<Rightarrow> server \<Rightarrow> go_string \<Rightarrow> desired_billing_profile \<Rightarrow> ensure_profile_result api" where
  "EnsureBillingProfile fuel srv existingID desired =
    (if dbp_account_key desired = [] then fail (permanent ''desired.AccountKey is required'')
     else and_then (default_profile_or_error fuel srv (dbp_name desired)) (\<lambda>def_profile.
       and_then (adopt_existing srv existingID (dbp_account_key desired)) (\<lambda>(adopted, ignored, reason).
       and_then (find_current fuel srv (dbp_account_key desired) adopted) (\<lambda>current.
         case current of
           None \<Rightarrow> and_then (createBillingProfile srv def_profile desired) (\<lambda>created.
             ret \<lparr>er_profile = created, er_ignored_id = ignored, er_ignored_reason = reason, er_apps_drift = []\<rparr>)
         | Some p \<Rightarrow>
             and_then (if \<not> billingProfileNeedsUpdate p def_profile desired then ret p
                       else updateBillingProfile srv p def_profile desired) (\<lambda>q.
             ret \<lparr>er_profile = q, er_ignored_id = ignored, er_ignored_reason = reason,
                  er_apps_drift = billingProfileAppsDrift p def_profile\<rparr>)))))"

section \<open>What the listings return\<close>

text \<open>The profiles the replies of some exchanges show.\<close>

definition shown_by :: "om_reply \<Rightarrow> billing_profile set" where
  "shown_by r = (case rp_sdk r of
     Some (AccountBody (ProfileBody p)) \<Rightarrow> {p}
   | Some (AccountBody (ProfilePage items _ _)) \<Rightarrow> set items
   | _ \<Rightarrow> {})"

definition shown :: "exchanges \<Rightarrow> billing_profile set" where
  "shown t = (\<Union>x \<in> set t. case snd x of Inl _ \<Rightarrow> {} | Inr r \<Rightarrow> shown_by r)"

definition profile_read :: "request \<Rightarrow> bool" where
  "profile_read q = (case q of ReqProfile FirstProfileReq \<Rightarrow> True | ReqProfile (ListProfilesReq _) \<Rightarrow> True
     | ReqProfile (GetProfileReq _) \<Rightarrow> True | _ \<Rightarrow> False)"

definition profile_reads :: "exchanges \<Rightarrow> bool" where
  "profile_reads u \<longleftrightarrow> (\<forall>q \<in> set (sent u). profile_read q)"

lemma shown_simps [simp]:
  "shown [] = {}" "shown (t @ u) = shown t \<union> shown u"
  "shown ((q, Inl m) # u) = shown u" "shown ((q, Inr r) # u) = shown_by r \<union> shown u"
  by (auto simp: shown_def)

lemma profile_reads_simps [simp]:
  "profile_reads []" "profile_reads (t @ u) \<longleftrightarrow> profile_reads t \<and> profile_reads u"
  "profile_reads ((q, r) # u) \<longleftrightarrow> profile_read q \<and> profile_reads u"
  by (auto simp: profile_reads_def)

lemma profiles_page_gives:
  assumes "profile_read (ReqProfile q)"
  shows "gives (profiles_page srv q) (\<lambda>r u. profile_reads u \<and> (\<forall>items ps n. r = Inr (items, ps, n) \<longrightarrow> set items \<subseteq> shown u))"
  unfolding profiles_page_def using assms
  by (intro gives_v1_checked) (auto split: option.splits body.splits account_body.splits intro!: gives_ret gives_fail simp: shown_by_def)

lemma walk_from_gives:
  assumes "set found \<subseteq> {p. matches p}"
  shows "gives (walk_from srv firstOnly matches fuel n prev found)
    (\<lambda>r u. profile_reads u \<and> (\<forall>fs st. r = Inr (fs, st) \<longrightarrow> set fs \<subseteq> set found \<union> {p \<in> shown u. matches p}))"
  using assms
proof (induction fuel arbitrary: n prev found)
  case 0
  show ?case by (auto intro: gives_fail)
next
  case (Suc fuel)
  have step: "gives (walk_from srv firstOnly matches fuel (Suc n) tot (found @ filter matches items))
      (\<lambda>r v. profile_reads (u @ v) \<and>
        (\<forall>fs st. r = Inr (fs, st) \<longrightarrow> set fs \<subseteq> set found \<union> {p \<in> shown (u @ v). matches p}))"
    if "profile_reads u" "set items \<subseteq> shown u" for items u tot
    using that by (intro gives_mono [OF Suc.IH]) (use Suc.prems in auto)
  have hd: "hd (filter matches items) \<in> shown u \<and> matches (hd (filter matches items))"
    if "set items \<subseteq> shown u" "filter matches items \<noteq> []" for items u
    using that hd_in_set [OF that(2)] by auto
  show ?case
  proof (simp only: walk_from.simps, rule gives_and_then [OF profiles_page_gives], goal_cases)
    case (3 p u)
    obtain items psize tot where p: "p = (items, psize, tot)" by (metis prod.exhaust)
    with 3 have u: "profile_reads u" "set items \<subseteq> shown u" by auto
    show ?case
      unfolding p prod.case by (intro gives_if gives_ret step) (use u hd [OF u(2)] in \<open>auto simp del: filter_empty_conv\<close>)
  qed (simp_all add: profile_read_def)
qed

lemma listBillingProfiles_gives:
  "gives (listBillingProfiles fuel srv firstOnly matches)
    (\<lambda>r u. profile_reads u \<and> (\<forall>fs. r = Inr fs \<longrightarrow> set fs \<subseteq> {p \<in> shown u. matches p}))"
proof -
  have "gives (list_attempts fuel srv firstOnly matches k)
    (\<lambda>r u. profile_reads u \<and> (\<forall>fs. r = Inr fs \<longrightarrow> set fs \<subseteq> {p \<in> shown u. matches p}))" for k
  proof (induction k)
    case 0
    show ?case by (auto intro: gives_fail)
  next
    case (Suc k)
    show ?case
      unfolding list_attempts.simps walkBillingProfiles_def
      by (rule gives_and_then [OF walk_from_gives]) (auto intro!: gives_ret gives_if gives_mono [OF Suc])
  qed
  then show ?thesis by (simp add: listBillingProfiles_def)
qed

section \<open>Only the account's own profile is written\<close>

lemma isAccountProfile_iff:
  "k \<noteq> [] \<Longrightarrow> isAccountProfile k p \<longleftrightarrow>
    \<not> pf_default p \<and> meta_value (pf_metadata p) billingProfileAccountKeyMetadataKey = k"
  by (auto simp: isAccountProfile_def BillingProfileOwnershipMismatch_def Let_def)

lemma GetBillingProfile_gives:
  "gives (GetBillingProfile srv i) (\<lambda>r u. profile_reads u \<and> (\<forall>p. r = Inr p \<longrightarrow> p \<in> shown u \<and> pf_deleted_at p = None))"
  by (auto simp: gives_def GetBillingProfile_def and_then_def v1_call_def call_def checked_def fail_def ret_def shown_by_def
      profile_read_def split: sum.splits option.splits body.splits account_body.splits)

lemma adopt_existing_gives:
  "gives (adopt_existing srv i k) (\<lambda>r u. profile_reads u \<and>
    (\<forall>p x y. r = Inr (Some p, x, y) \<longrightarrow> p \<in> shown u \<and> isAccountProfile k p))"
  unfolding adopt_existing_def
  by (intro gives_if gives_ret gives_handle [OF GetBillingProfile_gives])
    (auto simp: Let_def isAccountProfile_def intro!: gives_if gives_ret gives_fail)

lemma GetDefaultBillingProfile_gives:
  "gives (GetDefaultBillingProfile fuel srv) (\<lambda>r u. profile_reads u)"
  unfolding GetDefaultBillingProfile_def
  by (rule gives_and_then [OF profiles_page_gives])
    (auto simp: profile_read_def intro!: gives_if gives_ret gives_fail gives_and_then [OF listBillingProfiles_gives] split: list.splits)

lemma find_current_gives:
  "gives (find_current fuel srv k adopted) (\<lambda>r u. profile_reads u \<and>
    (\<forall>p. r = Inr (Some p) \<longrightarrow> adopted = Some p \<or> p \<in> shown u \<and> isAccountProfile k p))"
  unfolding find_current_def findBillingProfileByAccountKey_def
  by (auto split: option.splits list.splits intro!: gives_ret gives_and_then [OF listBillingProfiles_gives])

lemma written_profile_gives: "gives (written_profile srv q) (\<lambda>r u. sent u = [ReqProfile q])"
  unfolding written_profile_def
  by (intro gives_v1_checked) (auto intro!: gives_ret gives_fail split: option.splits body.splits account_body.splits)

definition own_write :: "go_string \<Rightarrow> billing_profile set \<Rightarrow> request \<Rightarrow> bool" where
  "own_write k known q \<longleftrightarrow>
    (\<exists>b. q = ReqProfile (CreateProfileReq b) \<and> \<not> pn_default b \<and>
       meta_value (pn_metadata b) billingProfileAccountKeyMetadataKey = k) \<or>
    (\<exists>p b. q = ReqProfile (UpdateProfileReq (pf_id p) b) \<and> p \<in> known \<and>
       \<not> pf_default p \<and> meta_value (pf_metadata p) billingProfileAccountKeyMetadataKey = k \<and>
       \<not> px_default b \<and> meta_value (px_metadata b) billingProfileAccountKeyMetadataKey = k)"

lemma create_body_own: "own_write (dbp_account_key d) S (ReqProfile (CreateProfileReq (profile_create_body def_p d apps)))"
  by (simp add: own_write_def profile_create_body_def meta_value_def str_or_empty_def)

lemma update_body_own:
  "dbp_account_key d \<noteq> [] \<Longrightarrow> p \<in> S \<Longrightarrow> isAccountProfile (dbp_account_key d) p \<Longrightarrow>
    own_write (dbp_account_key d) S (ReqProfile (UpdateProfileReq (pf_id p) (profile_update_body p def_p d)))"
  by (auto simp: own_write_def isAccountProfile_iff profile_update_body_def meta_value_def [of "Some x" for x]
      str_or_empty_def update_conv' intro!: exI [of _ p])

lemma profile_reads_filter [simp]: "profile_reads u \<Longrightarrow> filter (\<lambda>q. \<not> profile_read q) (sent u) = []"
  by (auto simp: profile_reads_def filter_empty_conv)

definition own_writes :: "go_string \<Rightarrow> exchanges \<Rightarrow> bool" where
  "own_writes k u \<longleftrightarrow>
    (let ws = filter (\<lambda>q. \<not> profile_read q) (sent u) in ws = [] \<or> (\<exists>q. ws = [q] \<and> own_write k (shown u) q))"

lemma own_writes_reads: "profile_reads u \<Longrightarrow> own_writes k u"
  by (simp add: own_writes_def)

lemma own_writes_write:
  "profile_reads u \<Longrightarrow> own_write k (shown u) q \<Longrightarrow> sent v = [q] \<Longrightarrow> own_writes k (u @ v)"
  by (auto simp: own_writes_def Let_def own_write_def)

lemma written_own:
  assumes "profile_reads u" "own_write k (shown u) (ReqProfile q)"
  shows "gives (and_then (written_profile srv q) (\<lambda>p. ret (f p))) (\<lambda>r v. own_writes k (u @ v))"
  by (rule gives_and_then [OF written_profile_gives]) (auto intro!: gives_ret own_writes_write [OF assms])

lemma ensure_current_own:
  assumes "dbp_account_key d \<noteq> []" "profile_reads u" "\<And>p. c = Some p \<Longrightarrow> p \<in> shown u \<and> isAccountProfile (dbp_account_key d) p"
  shows "gives (case c of
           None \<Rightarrow> and_then (createBillingProfile srv def_p d) (\<lambda>p. ret (f p))
         | Some p \<Rightarrow> and_then (if \<not> billingProfileNeedsUpdate p def_p d then ret p
                       else updateBillingProfile srv p def_p d) (\<lambda>q. ret (g p q)))
    (\<lambda>r v. own_writes (dbp_account_key d) (u @ v))"
proof (cases c)
  case None
  have "own_writes (dbp_account_key d) u" using assms(2) by (rule own_writes_reads)
  then show ?thesis
    using None assms
    by (auto simp: createBillingProfile_def split: option.splits
        intro!: written_own create_body_own gives_and_then [OF gives_fail, of "\<lambda>r v. v = [] \<and> isl r"])
next
  case (Some p)
  then have p: "p \<in> shown u" "isAccountProfile (dbp_account_key d) p" using assms(3) by auto
  have "own_writes (dbp_account_key d) u" using assms(2) by (rule own_writes_reads)
  then show ?thesis
    using Some update_body_own [OF assms(1) p] assms(2)
    by (auto simp: updateBillingProfile_def intro!: written_own gives_ret gives_and_then [OF gives_ret, of "\<lambda>r v. v = []"])
qed

lemma ensure_found_own:
  assumes "dbp_account_key d \<noteq> []" "profile_reads u" "\<And>p. adopted = Some p \<Longrightarrow> p \<in> shown u \<and> isAccountProfile (dbp_account_key d) p"
  shows "gives (and_then (find_current fuel srv (dbp_account_key d) adopted) (\<lambda>current. case current of
           None \<Rightarrow> and_then (createBillingProfile srv def_p d) (\<lambda>p. ret (f p))
         | Some p \<Rightarrow> and_then (if \<not> billingProfileNeedsUpdate p def_p d then ret p
                       else updateBillingProfile srv p def_p d) (\<lambda>q. ret (g p q))))
    (\<lambda>r v. own_writes (dbp_account_key d) (u @ v))"
  by (rule gives_and_then [OF find_current_gives])
    (use assms in \<open>auto intro!: own_writes_reads ensure_current_own [where u = "u @ v" for v, simplified]\<close>)

text \<open>
  C33. EnsureBillingProfile writes at most once, and only the account's own profile: either it
  creates a profile that is not the default and carries the account's tag, or it replaces a
  profile the server returned in this very call, which is not the default and whose tag
  names the account, and keeps both so. A recorded id proves nothing: no id alone ever
  leads to a write.
\<close>

theorem EnsureBillingProfile_owned:
  "\<exists>u. snd (EnsureBillingProfile fuel srv existingID desired t) = t @ u \<and>
    (let ws = filter (\<lambda>q. \<not> profile_read q) (sent u) in
     ws = [] \<or> (\<exists>q. ws = [q] \<and> own_write (dbp_account_key desired) (shown u) q))"
proof -
  let ?k = "dbp_account_key desired"
  have "gives (EnsureBillingProfile fuel srv existingID desired) (\<lambda>r u. own_writes ?k u)"
    unfolding EnsureBillingProfile_def default_profile_or_error_def
    by (intro gives_if gives_fail gives_and_then [OF gives_handle [OF GetDefaultBillingProfile_gives, where Q = "\<lambda>r u. profile_reads u"]]
        gives_and_then [OF adopt_existing_gives])
      (auto intro!: gives_if gives_fail gives_ret own_writes_reads ensure_found_own [where u = "u @ v" for u v, simplified])
  then show ?thesis unfolding gives_def own_writes_def by blast
qed

section \<open>Completeness of the listing\<close>

abbreviation profile_fetch :: "server \<Rightarrow> nat \<Rightarrow> billing_profile reported_page api" where
  "profile_fetch srv n \<equiv> profiles_page srv (ListProfilesReq n)"

text \<open>No page of a walk reports a smaller total than the page before.\<close>

definition never_shrinks :: "int list \<Rightarrow> bool" where
  "never_shrinks totals \<longleftrightarrow> successively (\<lambda>a b. 0 \<le> a \<longrightarrow> a \<le> b) totals"

lemma walk_from_pages:
  assumes "walk_from srv False matches fuel n prev found t = (Inr (fs, True), t')"
  shows "\<exists>ps. reported_pages (profile_fetch srv) n t ps t' \<and> fs = found @ filter matches (concat (map fst ps)) \<and>
    never_shrinks (prev # map (\<lambda>p. snd (snd p)) ps)"
  using assms
proof (induction fuel arbitrary: n prev found t)
  case 0
  then show ?case by (simp add: fail_def)
next
  case (Suc fuel)
  then obtain items psize tot t1 where p: "profile_fetch srv n t = (Inr (items, psize, tot), t1)"
    by (auto simp: and_then_Inr)
  with Suc.prems have st: "0 \<le> prev \<longrightarrow> prev \<le> tot"
    by (auto simp: and_then_def ret_def split: if_splits)
  show ?case
  proof (cases "reported_last n (items, psize, tot)")
    case True
    with p st Suc.prems show ?thesis
      by (intro exI [of _ "[(items, psize, tot)]"])
        (auto simp: and_then_def ret_def never_shrinks_def intro: reported_pages.last_one split: if_splits)
  next
    case False
    with p st Suc.prems have "walk_from srv False matches fuel (Suc n) tot (found @ filter matches items) t1 = (Inr (fs, True), t')"
      by (auto simp: and_then_def ret_def split: if_splits)
    from Suc.IH [OF this] obtain ps where "reported_pages (profile_fetch srv) (Suc n) t1 ps t'"
      "fs = (found @ filter matches items) @ filter matches (concat (map fst ps))"
      "never_shrinks (tot # map (\<lambda>p. snd (snd p)) ps)" by blast
    with p st False show ?thesis
      by (intro exI [of _ "(items, psize, tot) # ps"]) (auto simp: never_shrinks_def intro: reported_pages.more_to_come)
  qed
qed

lemma profile_fetch_finishes: "fst (profile_fetch srv n t) \<noteq> Inl Unfinished"
  unfolding profiles_page_def
  by (rule v1_fetch_finishes) (auto simp: ret_def fail_def permanent_def split: option.splits body.splits account_body.splits)

lemma walk_from_finishes:
  assumes "\<And>n t items psize tot. fst (profile_fetch srv n t) = Inr (items, psize, tot) \<Longrightarrow> tot \<le> int N" and "N \<le> n + fuel"
  shows "fst (walk_from srv first matches (Suc fuel) n prev found t) \<noteq> Inl Unfinished"
  using assms(2)
proof (induction fuel arbitrary: n prev found t)
  case (0 n prev found t)
  have "reported_last n p" if "profile_fetch srv n t = (Inr p, t1)" for p t1
    using that 0 assms(1) [of n t "fst p" "fst (snd p)" "snd (snd p)"]
      reported_last_bound [of "snd (snd p)" N n "fst p" "fst (snd p)"] by simp
  then show ?case
    using profile_fetch_finishes [of srv n t]
    by (auto simp: and_then_def ret_def split: prod.splits sum.splits)
next
  case (Suc fuel n prev found t)
  show ?case
    using profile_fetch_finishes [of srv n t] Suc.IH [of "Suc n"] Suc.prems unfolding walk_from.simps(2) [of _ _ _ "Suc fuel"]
    by (auto simp: and_then_def ret_def simp del: walk_from.simps split: prod.splits sum.splits)
qed

lemma list_attempts_stable:
  "list_attempts fuel srv first matches k t = (Inr fs, t') \<Longrightarrow>
    \<exists>t0 u. t0 = t @ u \<and> walkBillingProfiles fuel srv first matches t0 = (Inr (fs, True), t')"
proof (induction k arbitrary: t)
  case (Suc k)
  then obtain gs st t1 where w: "walkBillingProfiles fuel srv first matches t = (Inr (gs, st), t1)" by (auto simp: and_then_Inr)
  show ?case
  proof (cases st)
    case True
    with w Suc.prems show ?thesis by (auto simp: and_then_def ret_def)
  next
    case False
    with w Suc.prems have "list_attempts fuel srv first matches k t1 = (Inr fs, t')" by (auto simp: and_then_def)
    from Suc.IH [OF this] obtain u where "walkBillingProfiles fuel srv first matches (t1 @ u) = (Inr (fs, True), t')" by auto
    moreover have "set [] \<subseteq> {p. matches p}" by simp
    from gives_result [OF walk_from_gives [OF this] w [unfolded walkBillingProfiles_def]] obtain v where "t1 = t @ v" by auto
    ultimately show ?thesis by auto
  qed
qed (simp add: fail_def)

text \<open>
  The profiles found for an account are complete: the list comes from one whole walk over
  the pages, in order, in which no page reported a smaller total than the one before (so no
  deletion moved an unseen profile onto a page already read), and it holds exactly the
  account's own profiles of those pages. If profiles keep being deleted the call fails
  instead of answering with a partial list.
\<close>

theorem FindBillingProfilesByAccountKey_complete:
  assumes "FindBillingProfilesByAccountKey fuel srv accountKey t = (Inr found, t')"
  shows "\<exists>t0 ps. prefix t t0 \<and> reported_pages (profile_fetch srv) 1 t0 ps t' \<and>
    never_shrinks (map (\<lambda>p. snd (snd p)) ps) \<and>
    found = filter (\<lambda>p. \<not> pf_default p \<and> meta_value (pf_metadata p) billingProfileAccountKeyMetadataKey = accountKey)
      (concat (map fst ps))"
proof -
  have k: "accountKey \<noteq> []" and "list_attempts fuel srv False (isAccountProfile accountKey) billingProfileListAttempts t = (Inr found, t')"
    using assms by (auto simp: FindBillingProfilesByAccountKey_def fail_def listBillingProfiles_def split: if_splits)
  from list_attempts_stable [OF this(2)] obtain u where
    "walk_from srv False (isAccountProfile accountKey) fuel 1 (-1) [] (t @ u) = (Inr (found, True), t')"
    by (auto simp: walkBillingProfiles_def)
  from walk_from_pages [OF this] obtain ps where ps: "reported_pages (profile_fetch srv) 1 (t @ u) ps t'"
    "found = filter (isAccountProfile accountKey) (concat (map fst ps))" "never_shrinks (-1 # map (\<lambda>p. snd (snd p)) ps)" by auto
  then have "never_shrinks (map (\<lambda>p. snd (snd p)) ps)" by (auto simp: never_shrinks_def successively_Cons)
  with ps k show ?thesis by (intro exI [of _ "t @ u"] exI [of _ ps]) (simp add: isAccountProfile_iff cong: filter_cong)
qed

definition example_profile :: billing_profile where
  "example_profile = \<lparr>pf_id = ''01P'', pf_name = ''acme'', pf_description = None, pf_default = False, pf_deleted_at = None,
     pf_metadata = Some [(''billingAccountKey'', ''acct'')], pf_supplier = \<lparr>bp_name = None, bp_tax_code = None, bp_addresses = None\<rparr>,
     pf_workflow = \<lparr>wf_collection = None, wf_invoicing = None, wf_payment = None, wf_tax = None\<rparr>, pf_apps = None\<rparr>"

definition example_default :: billing_profile where
  "example_default = \<lparr>pf_id = ''01D'', pf_name = ''default'', pf_description = None, pf_default = True, pf_deleted_at = None,
     pf_metadata = None, pf_supplier = \<lparr>bp_name = Some ''Milo'', bp_tax_code = None, bp_addresses = None\<rparr>,
     pf_workflow = \<lparr>wf_collection = Some \<lparr>co_interval = Some ''PT1H'', co_alignment = Some AlignSubscription\<rparr>,
       wf_invoicing = Some \<lparr>iv_due_after = Some ''P30D'', iv_auto_advance = Some True, iv_draft_period = Some ''P0D'',
         iv_progressive = Some True, iv_tax_config = None, iv_end_proration = Some ''bill_full_period''\<rparr>,
       wf_payment = Some \<lparr>py_collection_method = Some ''charge_automatically''\<rparr>, wf_tax = Some ''{}''\<rparr>,
     pf_apps = Some (''inv'', ''pay'', ''tax'')\<rparr>"

theorem FindBillingProfilesByAccountKey_complete_witness:
  "let r = ok_answer (Some (AccountBody (ProfilePage [example_default, example_profile] 200 2)));
       q = ReqProfile (ListProfilesReq 1)
   in FindBillingProfilesByAccountKey 2 (\<lambda>_ _. Inr r) ''acct'' [] = (Inr [example_profile], [(q, Inr r)]) \<and>
      (\<exists>t0 ps. prefix [] t0 \<and> reported_pages (profile_fetch (\<lambda>_ _. Inr r)) 1 t0 ps [(q, Inr r)] \<and>
        never_shrinks (map (\<lambda>p. snd (snd p)) ps) \<and>
        [example_profile] = filter (\<lambda>p. \<not> pf_default p \<and> meta_value (pf_metadata p) billingProfileAccountKeyMetadataKey = ''acct'')
          (concat (map fst ps)))"
proof -
  let ?r = "ok_answer (Some (AccountBody (ProfilePage [example_default, example_profile] 200 2)))"
  have page: "profile_fetch (\<lambda>_ _. Inr ?r) 1 [] = (Inr ([example_default, example_profile], 200, 2), [(ReqProfile (ListProfilesReq 1), Inr ?r)])"
    by (simp add: profiles_page_def and_then_def v1_call_def call_def checked_def ret_def ok_answer_def ok_status_def)
  have m: "filter (isAccountProfile ''acct'') [example_default, example_profile] = [example_profile]"
    by (simp add: isAccountProfile_iff example_default_def example_profile_def meta_value_def str_or_empty_def
        billingProfileAccountKeyMetadataKey_def)
  have run: "FindBillingProfilesByAccountKey 2 (\<lambda>_ _. Inr ?r) ''acct'' [] =
      (Inr [example_profile], [(ReqProfile (ListProfilesReq 1), Inr ?r)])"
    using page m
    by (simp add: FindBillingProfilesByAccountKey_def listBillingProfiles_def billingProfileListAttempts_def numeral_2_eq_2 numeral_3_eq_3
        walkBillingProfiles_def and_then_def ret_def reported_last_def)
  from run FindBillingProfilesByAccountKey_complete [OF run] show ?thesis by (simp only: Let_def)
qed

text \<open>
  The walk ends: against a server whose reported totals stay below a bound, a fuel of one
  more page than the bound is enough, so the call returns a list or an error of its own.
\<close>

theorem listBillingProfiles_finishes:
  assumes "\<And>n t items psize tot. fst (profile_fetch srv n t) = Inr (items, psize, tot) \<Longrightarrow> tot \<le> int N"
  shows "fst (listBillingProfiles (Suc N) srv first matches t) \<noteq> Inl Unfinished"
proof -
  have "fst (walkBillingProfiles (Suc N) srv first matches t) \<noteq> Inl Unfinished" for t
    unfolding walkBillingProfiles_def by (rule walk_from_finishes [OF assms]) simp_all
  then have "walkBillingProfiles (Suc N) srv first matches t \<noteq> (Inl Unfinished, t1)" for t t1
    by (metis fst_conv)
  then have "fst (list_attempts (Suc N) srv first matches k t) \<noteq> Inl Unfinished" for k t
    by (induction k arbitrary: t) (auto simp: fail_def transient_def and_then_def ret_def split: prod.splits sum.splits)
  then show ?thesis by (simp add: listBillingProfiles_def)
qed

theorem listBillingProfiles_finishes_witness:
  "fst (listBillingProfiles (Suc 2) (\<lambda>_ _. Inr (ok_answer (Some (AccountBody (ProfilePage [example_profile] 200 2))))) True pf_default [])
    \<noteq> Inl Unfinished"
  by (rule listBillingProfiles_finishes)
    (simp add: profiles_page_def and_then_def v1_call_def call_def checked_def ret_def ok_answer_def ok_status_def)

section \<open>Convergence\<close>

text \<open>
  What OpenMeter documents of a profile update: metadata, supplier (as far as the fingerprint
  goes) and a workflow without gaps are stored as sent; the alignment is stored as sent, or
  replaced by the subscription alignment; identity and the default flag stay.
\<close>

definition complete_workflow :: "billing_workflow \<Rightarrow> bool" where
  "complete_workflow w \<longleftrightarrow>
    (\<exists>c i p. wf_collection w = Some c \<and> co_interval c \<noteq> None \<and> co_alignment c \<noteq> None \<and>
      wf_invoicing w = Some i \<and> iv_due_after i \<noteq> None \<and> iv_auto_advance i \<noteq> None \<and> iv_draft_period i \<noteq> None \<and>
      iv_progressive i \<noteq> None \<and> iv_end_proration i \<noteq> None \<and>
      wf_payment w = Some p \<and> py_collection_method p \<noteq> None \<and> wf_tax w \<noteq> None)"

definition documented_profile_replace :: "(billing_profile \<Rightarrow> profile_update \<Rightarrow> billing_profile) \<Rightarrow> bool" where
  "documented_profile_replace put \<longleftrightarrow> (\<forall>p b.
    pf_id (put p b) = pf_id p \<and> pf_default (put p b) = px_default b \<and> pf_deleted_at (put p b) = pf_deleted_at p \<and>
    pf_metadata (put p b) = px_metadata b \<and>
    supplierFingerprint (pf_supplier (put p b)) = supplierFingerprint (px_supplier b) \<and>
    (complete_workflow (px_workflow b) \<longrightarrow>
       workflowsEqualIgnoringAlignment (pf_workflow (put p b)) (px_workflow b) \<and>
       (\<exists>c a. wf_collection (pf_workflow (put p b)) = Some c \<and> co_alignment c = Some a \<and>
          (a = AlignSubscription \<or> Some a = Option.bind (wf_collection (px_workflow b)) co_alignment))))"

lemma desiredWorkflow_complete: "complete_workflow (pf_workflow d) \<Longrightarrow> complete_workflow (desiredWorkflow d desired)"
  by (auto simp: complete_workflow_def desiredWorkflow_def Let_def or_zero_def)

lemma desiredWorkflow_alignment:
  "Option.bind (wf_collection (desiredWorkflow d desired)) co_alignment = Some (desiredCollectionAlignment desired)"
  by (simp add: desiredWorkflow_def Let_def)

lemma day_of_month_january: "0 \<le> d \<Longrightarrow> d \<le> 30 \<Longrightarrow> day_of_month d = d + 1"
proof -
  assume "0 \<le> d" "d \<le> 30"
  then have "d \<in> set [0..30]" by simp
  moreover have "list_all (\<lambda>d. day_of_month d = d + 1) [0..30]" by code_simp
  ultimately show ?thesis by (simp only: list_all_iff)
qed

lemma profile_update_settles:
  assumes "documented_profile_replace put" "complete_workflow (pf_workflow def_p)" "dbp_day d \<le> 31"
  shows "\<not> billingProfileNeedsUpdate (put p (profile_update_body p def_p d)) def_p d"
proof -
  let ?b = "profile_update_body p def_p d" and ?s = "put p (profile_update_body p def_p d)"
  have b: "px_workflow ?b = desiredWorkflow def_p d" "px_supplier ?b = pf_supplier def_p"
    "px_metadata ?b \<noteq> None" "meta_value (px_metadata ?b) billingProfileAccountKeyMetadataKey = dbp_account_key d"
    by (simp_all add: profile_update_body_def meta_value_def str_or_empty_def update_conv')
  note doc = assms(1) [unfolded documented_profile_replace_def, rule_format, of p ?b, unfolded b]
  from doc desiredWorkflow_complete [OF assms(2)] obtain c a where wf:
    "workflowsEqualIgnoringAlignment (pf_workflow ?s) (desiredWorkflow def_p d)"
    "wf_collection (pf_workflow ?s) = Some c" "co_alignment c = Some a"
    "a = AlignSubscription \<or> a = desiredCollectionAlignment d"
    by (auto simp: desiredWorkflow_alignment)
  have "day_of_month (max (dbp_day d) 1 - 1) = max (dbp_day d) 1"
    using day_of_month_january [of "max (dbp_day d) 1 - 1"] assms(3) by simp
  with wf doc b(3,4) show ?thesis
    by (auto simp: billingProfileNeedsUpdate_def desiredCollectionAlignment_def)
qed

text \<open>
  Reconciling a profile converges. Once OpenMeter has stored the update as it documents
  (the alignment either as sent or as the subscription alignment it falls back to), the next
  EnsureBillingProfile with the recorded id sends the two reads and nothing else. The
  default profile's workflow has no gaps and the invoice day is a day of January, as the
  account's schema requires.
\<close>

theorem EnsureBillingProfile_converges:
  assumes "documented_profile_replace put" and "complete_workflow (pf_workflow def_p)" and "dbp_day desired \<le> 31"
    and "dbp_account_key desired \<noteq> []" and "i \<noteq> []" and "\<not> pf_default p" and "pf_deleted_at p = None"
    and "pf_default def_p"
    and "srv t (ReqProfile FirstProfileReq) = Inr r0" and "ok_status (status_code (rp_http r0))"
    and "rp_sdk r0 = Some (AccountBody (ProfilePage (def_p # others) psize tot))"
    and "srv (t @ [(ReqProfile FirstProfileReq, Inr r0)]) (ReqProfile (GetProfileReq i)) = Inr r1"
    and "ok_status (status_code (rp_http r1))"
    and "rp_sdk r1 = Some (AccountBody (ProfileBody (put p (profile_update_body p def_p desired))))"
  shows "\<exists>res. EnsureBillingProfile fuel srv i desired t =
      (Inr res, t @ [(ReqProfile FirstProfileReq, Inr r0), (ReqProfile (GetProfileReq i), Inr r1)]) \<and>
    er_profile res = put p (profile_update_body p def_p desired) \<and> er_ignored_id res = []"
proof -
  let ?s = "put p (profile_update_body p def_p desired)" and ?t = "t @ [(ReqProfile FirstProfileReq, Inr r0)]"
  let ?u = "t @ [(ReqProfile FirstProfileReq, Inr r0), (ReqProfile (GetProfileReq i), Inr r1)]"
  have own: "BillingProfileOwnershipMismatch ?s (dbp_account_key desired) = []" "pf_deleted_at ?s = None"
    using assms(1,4,6,7)
    by (simp_all add: documented_profile_replace_def BillingProfileOwnershipMismatch_def Let_def profile_update_body_def
        meta_value_def str_or_empty_def update_conv')
  have "default_profile_or_error fuel srv (dbp_name desired) t = (Inr def_p, ?t)"
    using assms(8-11)
    by (simp add: default_profile_or_error_def handle_def GetDefaultBillingProfile_def profiles_page_def and_then_def
        v1_call_def call_def checked_def ret_def)
  moreover have "adopt_existing srv i (dbp_account_key desired) ?t = (Inr (Some ?s, [], []), ?u)"
    using own assms(5,12-14)
    by (auto simp: adopt_existing_def handle_def GetBillingProfile_def and_then_def v1_call_def call_def checked_def ret_def
        ok_status_def Let_def)
  ultimately show ?thesis
    using profile_update_settles [OF assms(1-3)] assms(4)
    by (simp add: EnsureBillingProfile_def and_then_def find_current_def ret_def)
qed

definition example_profile_put :: "billing_profile \<Rightarrow> profile_update \<Rightarrow> billing_profile" where
  "example_profile_put p b = p\<lparr>pf_name := px_name b, pf_default := px_default b, pf_metadata := px_metadata b,
     pf_supplier := px_supplier b,
     pf_workflow := (px_workflow b)\<lparr>wf_collection := map_option (\<lambda>c. c\<lparr>co_alignment := Some AlignSubscription\<rparr>) (wf_collection (px_workflow b))\<rparr>\<rparr>"

definition example_terms :: desired_billing_profile where
  "example_terms = \<lparr>dbp_account_key = ''acct'', dbp_name = ''acme'', dbp_net_days = 45, dbp_collection_method = ''send_invoice'',
     dbp_frequency = ''Monthly'', dbp_day = 1\<rparr>"

theorem EnsureBillingProfile_converges_witness:
  "let stored = example_profile_put example_profile (profile_update_body example_profile example_default example_terms);
       r0 = ok_answer (Some (AccountBody (ProfilePage [example_default] 1 2)));
       r1 = ok_answer (Some (AccountBody (ProfileBody stored)));
       srv = (\<lambda>_ q. if q = ReqProfile FirstProfileReq then Inr r0 else Inr r1)
   in \<exists>res. EnsureBillingProfile 5 srv ''01P'' example_terms [] =
        (Inr res, [(ReqProfile FirstProfileReq, Inr r0), (ReqProfile (GetProfileReq ''01P''), Inr r1)]) \<and>
      er_profile res = stored \<and> er_ignored_id res = []"
proof -
  have put: "documented_profile_replace example_profile_put"
    by (auto simp: documented_profile_replace_def example_profile_put_def complete_workflow_def
        workflowsEqualIgnoringAlignment_def without_alignment_def)
  have defp: "complete_workflow (pf_workflow example_default)" "pf_default example_default"
    "dbp_day example_terms \<le> 31" "dbp_account_key example_terms \<noteq> []" "\<not> pf_default example_profile" "pf_deleted_at example_profile = None"
    by (auto simp: complete_workflow_def example_default_def example_terms_def example_profile_def)
  show ?thesis
    unfolding Let_def
    using EnsureBillingProfile_converges [OF put defp(1,3,4) _ defp(5,6,2), of "''01P''"
        "\<lambda>_ q. if q = ReqProfile FirstProfileReq then Inr (ok_answer (Some (AccountBody (ProfilePage [example_default] 1 2))))
          else Inr (ok_answer (Some (AccountBody (ProfileBody (example_profile_put example_profile
            (profile_update_body example_profile example_default example_terms))))))" "[]" _ "[]" 1 2 _ 5]
    by (simp add: ok_answer_def ok_status_def)
qed

end
