(* ===== verification/Accounts.thy ===== *)
theory Accounts
  imports Kube Customers Subscriptions Invoices BillingProfiles
begin

text \<open>
  Billing accounts, as \<open>internal/controller/billingaccount_controller.go\<close> and
  \<open>billingprofile_sync.go\<close> see them: the customer an account should have, the teardown of
  that customer and of its billing profile when the account goes, and the errors that only
  mean waiting. The reconciler itself is in \<open>AccountController\<close>.

  Events, logs and the de-duplication of events (\<open>notices\<close>) are left out.
\<close>

section \<open>State\<close>

record contact_info =
  ci_email :: go_string
  ci_name :: go_string
  ci_business_name :: go_string
  ci_address :: "address option"

text \<open>
  An arrangement's \<open>invoice\<close> part is its net days. \<open>ba_payment_ready\<close> is the status of the
  DefaultPaymentMethodReady condition, if \<open>apimeta.FindStatusCondition\<close> finds it.
\<close>

record payment_arrangement =
  pa_name :: go_string
  pa_type :: go_string
  pa_invoice :: "int option"

record billing_account =
  ba_meta :: kube_meta
  ba_currency :: go_string
  ba_contact :: "contact_info option"
  ba_payment_method :: "go_string option"
  ba_invoice_day :: "int option"
  ba_arrangement :: "payment_arrangement option"
  ba_payment_ready :: "go_string option"

definition account_key_of :: "billing_account \<Rightarrow> object_key" where
  "account_key_of account = object_key_of ''BillingAccount'' (ba_meta account)"

text \<open>Reading a Go map: a missing key reads as the empty string.\<close>

definition annotation :: "kube_meta \<Rightarrow> go_string \<Rightarrow> go_string" where
  "annotation m k = (case map_of (km_annotations m) k of None \<Rightarrow> [] | Some v \<Rightarrow> v)"

definition CustomerLinkFinalizer :: go_string where "CustomerLinkFinalizer = ''openmeter.miloapis.com/customer-link''"
definition BillingProfileFinalizer :: go_string where "BillingProfileFinalizer = ''openmeter.miloapis.com/billing-profile''"
definition ForceDeleteAnnotation :: go_string where "ForceDeleteAnnotation = ''openmeter.miloapis.com/force-delete''"
definition BillingProfileIDAnnotation :: go_string where "BillingProfileIDAnnotation = ''openmeter.miloapis.com/billing-profile-id''"
definition OpenMeterCustomerIDAnnotation :: go_string where "OpenMeterCustomerIDAnnotation = ''openmeter.miloapis.com/customer-id''"
definition customerNameMaxLength :: nat where "customerNameMaxLength = 256"

section \<open>Waiting\<close>

text \<open>
  \<open>FinalizerWaitingError\<close>s of an error: each with its reason and requeue time. A node that is
  none is walked through \<open>Unwrap\<close> or an aggregate's members; one without either, or without
  members, ends the walk with no answer.
\<close>

fun collectFinalizerWaits :: "go_error \<Rightarrow> (go_string \<times> int) list \<Rightarrow> (go_string \<times> int) list option"
  and collect_members :: "go_error list \<Rightarrow> (go_string \<times> int) list \<Rightarrow> (go_string \<times> int) list option" where
  "collectFinalizerWaits (FinalizerWaiting reason after e) acc = Some (acc @ [(reason, after)])"
| "collectFinalizerWaits (Aggregate es) acc = (if es = [] then None else collect_members es acc)"
| "collectFinalizerWaits (Wrap m es) acc = (if es = [] then None else collect_members es acc)"
| "collectFinalizerWaits (TransientError e st ra) acc = collectFinalizerWaits e acc"
| "collectFinalizerWaits (PermanentError e st b) acc = collectFinalizerWaits e acc"
| "collectFinalizerWaits e acc = None"
| "collect_members [] acc = Some acc"
| "collect_members (e # es) acc =
    (case collectFinalizerWaits e acc of None \<Rightarrow> None | Some acc' \<Rightarrow> collect_members es acc')"

definition shorter_wait :: "int \<Rightarrow> int \<Rightarrow> int" where
  "shorter_wait w after = (if w > 0 \<and> (after = 0 \<or> w < after) then w else after)"

definition finalizerWaitRequeue :: "go_error \<Rightarrow> int option" where
  "finalizerWaitRequeue e =
    (case collectFinalizerWaits e [] of
       None \<Rightarrow> None
     | Some waits \<Rightarrow>
       if waits = [] then None
       else (let after = fold shorter_wait (map snd waits) 0
             in Some (if after = 0 then transientRequeueAfter else after)))"

section \<open>The customer of an account\<close>

text \<open>A rune of \<open>[]rune(s)\<close> written back by \<open>string\<close>: an ill-formed byte became U+FFFD.\<close>

definition written_rune :: "go_string \<Rightarrow> go_string" where
  "written_rune r = (if length r = 1 \<and> 128 \<le> byte (hd r) then [CHR 0xEF, CHR 0xBF, CHR 0xBD] else r)"

definition truncateCustomerName :: "go_string \<Rightarrow> go_string" where
  "truncateCustomerName name =
    (let rs = runes name in
     if length rs \<le> customerNameMaxLength then name
     else (let suffix = ''~'' @ take 8 (sha256_hex name)
           in concat (map written_rune (take (customerNameMaxLength - length (runes suffix)) rs)) @ suffix))"

definition desiredCustomerFromAccount :: "billing_account \<Rightarrow> go_string \<Rightarrow> desired_customer" where
  "desiredCustomerFromAccount account customerKey =
    (let m = ba_meta account;
         fallback = km_namespace m @ ''/'' @ km_name m;
         name = (case ba_contact account of
             None \<Rightarrow> fallback
           | Some ci \<Rightarrow> if ci_business_name ci \<noteq> [] then ci_business_name ci
                       else if ci_name ci \<noteq> [] then ci_name ci else fallback)
     in \<lparr>dc_key = customerKey, dc_name = truncateCustomerName name,
         dc_email = (case ba_contact account of None \<Rightarrow> [] | Some ci \<Rightarrow> ci_email ci),
         dc_currency = ba_currency account,
         dc_address = (case ba_contact account of None \<Rightarrow> None | Some ci \<Rightarrow> ci_address ci)\<rparr>)"

section \<open>Removing the customer\<close>

definition liveSubscriptionIDs :: "om_subscription list \<Rightarrow> go_string list" where
  "liveSubscriptionIDs subs = map sub_id (filter (\<lambda>s. sub_status s \<in>
    {SubscriptionStatusActive, SubscriptionStatusCanceled, SubscriptionStatusScheduled}) subs)"

definition force_release :: "nat \<Rightarrow> server \<Rightarrow> go_string \<Rightarrow> unit api" where
  "force_release fuel srv customerKey =
    (let unlink = handle (DeleteCustomerStripeAppData srv customerKey) (\<lambda>_. ret ()) (\<lambda>_. ret ())
     in handle (CancelSubscriptions fuel srv customerKey) (\<lambda>_. unlink) (\<lambda>_. unlink))"

definition release_and_delete :: "server \<Rightarrow> go_string \<Rightarrow> go_error option \<Rightarrow> unit api" where
  "release_and_delete srv customerKey prepareErr =
    and_then (wrapping ''release subject keys'' (ReleaseCustomerSubjects srv customerKey)) (\<lambda>_.
      case prepareErr of
        Some e \<Rightarrow> fail (FinalizerWaiting ''WaitingForInvoices'' permanentRequeueAfter e)
      | None \<Rightarrow> wrapping ''delete customer'' (DeleteCustomer srv customerKey))"

definition invoice_and_delete :: "nat \<Rightarrow> server \<Rightarrow> go_string \<Rightarrow> go_string \<Rightarrow> unit api" where
  "invoice_and_delete fuel srv customerKey customerID =
    handle (PrepareInvoicesForCustomerDeletion fuel srv customerID)
      (\<lambda>e. if errors_is e ErrInvoicesOutstanding then release_and_delete srv customerKey (Some e)
           else fail (Wrap ''prepare invoices for customer deletion'' [e]))
      (\<lambda>_. release_and_delete srv customerKey None)"

definition await_subscriptions :: "nat \<Rightarrow> server \<Rightarrow> go_string \<Rightarrow> go_string \<Rightarrow> unit api" where
  "await_subscriptions fuel srv customerKey customerID =
    handle (ListSubscriptions fuel srv customerKey)
      (\<lambda>e. if errors_is e ErrCustomerNotFound then ret () else fail (Wrap ''list subscriptions'' [e]))
      (\<lambda>subs.
         let live = liveSubscriptionIDs subs in
         if live \<noteq> [] then
           fail (FinalizerWaiting ''WaitingForSubscriptions'' transientRequeueAfter
             (Leaf (''subscriptions still live: '' @ join '', '' live)))
         else invoice_and_delete fuel srv customerKey customerID)"

definition customerLinkFinalize :: "nat \<Rightarrow> server \<Rightarrow> billing_account \<Rightarrow> unit api" where
  "customerLinkFinalize fuel srv account =
    (let customerKey = km_uid (ba_meta account) in
     if annotation (ba_meta account) ForceDeleteAnnotation = ''true'' then force_release fuel srv customerKey
     else handle (GetCustomer srv customerKey)
       (\<lambda>e. if errors_is e ErrCustomerNotFound then ret () else fail (Wrap ''get customer'' [e]))
       (\<lambda>customer.
          and_then (wrapping ''cancel subscriptions'' (CancelSubscriptions fuel srv customerKey))
            (\<lambda>_. await_subscriptions fuel srv customerKey (cu_id customer))))"

section \<open>Removing the billing profile\<close>

text \<open>Billing's standard terms are constants of its API module, a parameter here.\<close>

record standard_terms =
  tm_net_days :: int
  tm_frequency :: go_string
  tm_day :: int

definition desiredBillingProfileFromAccount :: "standard_terms \<Rightarrow> billing_account \<Rightarrow> go_string \<Rightarrow> desired_billing_profile" where
  "desiredBillingProfileFromAccount std account customerKey =
    (let m = ba_meta account;
         desired = \<lparr>dbp_account_key = customerKey, dbp_name = km_namespace m @ ''/'' @ km_name m @ '' payment terms'',
           dbp_net_days = tm_net_days std, dbp_collection_method = [], dbp_frequency = tm_frequency std, dbp_day = tm_day std\<rparr>
     in case ba_arrangement account of
          Some ar \<Rightarrow>
            (case pa_invoice ar of
               Some days \<Rightarrow>
                 if pa_type ar = ''Invoice'' then
                   desired\<lparr>dbp_net_days := (if days > 0 then days else tm_net_days std), dbp_collection_method := ''send_invoice''\<rparr>
                 else desired
             | None \<Rightarrow> desired)
        | None \<Rightarrow> desired)"

fun delete_overrides :: "server \<Rightarrow> go_string list \<Rightarrow> unit api" where
  "delete_overrides srv [] = ret ()"
| "delete_overrides srv (i # ids) =
    and_then (wrapping (''delete billing profile customer override of '' @ i) (DeleteBillingProfileCustomerOverride srv i))
      (\<lambda>_. delete_overrides srv ids)"

fun delete_profiles :: "server \<Rightarrow> go_string list \<Rightarrow> unit api" where
  "delete_profiles srv [] = ret ()"
| "delete_profiles srv (i # ids) =
    and_then (wrapping (''delete billing profile '' @ i) (DeleteBillingProfile srv i)) (\<lambda>_. delete_profiles srv ids)"

definition annotated_profile_id :: "server \<Rightarrow> billing_account \<Rightarrow> go_string \<Rightarrow> go_string list api" where
  "annotated_profile_id srv account accountKey =
    (let annotated = annotation (ba_meta account) BillingProfileIDAnnotation in
     if annotated = [] then ret []
     else handle (GetBillingProfile srv annotated)
       (\<lambda>e. if errors_is e ErrBillingProfileNotFound then ret [] else fail (Wrap (''get billing profile '' @ annotated) [e]))
       (\<lambda>profile. ret (if BillingProfileOwnershipMismatch profile accountKey \<noteq> [] then [] else [pf_id profile])))"

definition add_profile_id :: "billing_profile \<Rightarrow> go_string list \<Rightarrow> go_string list" where
  "add_profile_id profile ids = (if pf_id profile \<in> set ids then ids else ids @ [pf_id profile])"

definition accountBillingProfileIDs :: "nat \<Rightarrow> server \<Rightarrow> billing_account \<Rightarrow> go_string \<Rightarrow> go_string list api" where
  "accountBillingProfileIDs fuel srv account accountKey =
    and_then (annotated_profile_id srv account accountKey) (\<lambda>ids.
    and_then (wrapping ''find billing profiles of billing account'' (FindBillingProfilesByAccountKey fuel srv accountKey)) (\<lambda>found.
      ret (fold add_profile_id found ids)))"

text \<open>The finalizers the object carries when the helper calls back are those of \<open>m\<close>.\<close>

definition billingProfileFinalize :: "nat \<Rightarrow> server \<Rightarrow> billing_account \<Rightarrow> kube_meta \<Rightarrow> unit api" where
  "billingProfileFinalize fuel srv account m =
    (if CustomerLinkFinalizer \<in> set (km_finalizers m) then
       fail (FinalizerWaiting ''WaitingForCustomerLink'' permanentRequeueAfter (Sentinel errWaitingForCustomerLink))
     else (let accountKey = km_uid (ba_meta account) in
       and_then (wrapping ''resolve customers of billing account'' (CustomerIDsByKey fuel srv accountKey)) (\<lambda>customerIDs.
       and_then (delete_overrides srv customerIDs) (\<lambda>_.
       and_then (accountBillingProfileIDs fuel srv account accountKey) (\<lambda>profileIDs.
         delete_profiles srv profileIDs)))))"

section \<open>Waiting is never claimed for a failure\<close>

lemma collect_members_acc:
  assumes "\<And>e acc. e \<in> set es \<Longrightarrow> collectFinalizerWaits e acc = map_option ((@) acc) (collectFinalizerWaits e [])"
  shows "collect_members es acc = map_option ((@) acc) (collect_members es [])"
  using assms
proof (induction es arbitrary: acc)
  case (Cons e es)
  have e: "collectFinalizerWaits e acc = map_option ((@) acc) (collectFinalizerWaits e [])" by (rule Cons.prems) simp
  have es: "collect_members es a = map_option ((@) a) (collect_members es [])" for a
    by (rule Cons.IH) (rule Cons.prems, simp)
  show ?case
  proof (cases "collectFinalizerWaits e []")
    case (Some ws)
    have "collect_members (e # es) acc = map_option ((@) (acc @ ws)) (collect_members es [])" by (simp only: collect_members.simps e Some es [of "acc @ ws"] option.map option.case)
    moreover have "collect_members (e # es) [] = map_option ((@) ws) (collect_members es [])" by (simp only: collect_members.simps Some es [of ws] option.case)
    ultimately show ?thesis by (cases "collect_members es []") simp_all
  qed (use e in simp)
qed simp

lemma collect_acc: "collectFinalizerWaits e acc = map_option ((@) acc) (collectFinalizerWaits e [])"
proof (induction e arbitrary: acc rule: go_error.induct)
  case (Wrap m es)
  show ?case by (cases "es = []") (simp, simp only: collectFinalizerWaits.simps if_False, rule collect_members_acc [OF Wrap])
next
  case (Aggregate es)
  show ?case by (cases "es = []") (simp, simp only: collectFinalizerWaits.simps if_False, rule collect_members_acc [OF Aggregate])
next
  case (TransientError e st ra)
  show ?case by (simp only: collectFinalizerWaits.simps) (rule TransientError)
next
  case (PermanentError e st b)
  show ?case by (simp only: collectFinalizerWaits.simps) (rule PermanentError)
qed simp_all

lemma collect_members_all:
  "collect_members es [] =
    (if \<forall>e \<in> set es. collectFinalizerWaits e [] \<noteq> None then Some (concat (map (\<lambda>e. the (collectFinalizerWaits e [])) es)) else None)"
proof (induction es)
  case (Cons e es)
  show ?case
  proof (cases "collectFinalizerWaits e []")
    case (Some ws)
    have "collect_members es ws = map_option ((@) ws) (collect_members es [])"
      by (rule collect_members_acc) (rule collect_acc)
    with Some Cons show ?thesis by simp
  qed simp
qed simp

lemma collect_nonempty: "collectFinalizerWaits e [] = Some ws \<Longrightarrow> ws \<noteq> []"
proof (induction e arbitrary: ws rule: go_error.induct)
  case (Wrap m es)
  then show ?case by (cases es) (auto simp: collect_members_all split: if_splits)
next
  case (Aggregate es)
  then show ?case by (cases es) (auto simp: collect_members_all split: if_splits)
qed auto

lemma shorter_waits:
  "0 \<le> a \<Longrightarrow> 0 \<le> fold shorter_wait ws a \<and> (\<forall>w \<in> set ws. 0 < w \<longrightarrow> 0 < fold shorter_wait ws a \<and> fold shorter_wait ws a \<le> w) \<and>
    (0 < a \<longrightarrow> 0 < fold shorter_wait ws a \<and> fold shorter_wait ws a \<le> a)"
proof (induction ws arbitrary: a)
  case (Cons w ws)
  have "0 \<le> shorter_wait w a" using Cons.prems by (simp add: shorter_wait_def)
  from Cons.IH [OF this] show ?case using Cons.prems by (auto simp: shorter_wait_def split: if_splits)
qed simp



section \<open>The order of a customer's removal\<close>

definition subscription_request :: "request \<Rightarrow> bool" where
  "subscription_request q = (case q of ReqListSubscriptions _ _ \<Rightarrow> True | ReqDeleteSubscription _ \<Rightarrow> True
     | ReqCancelSubscription _ _ \<Rightarrow> True | ReqUnscheduleCancelation _ \<Rightarrow> True | _ \<Rightarrow> False)"

lemma Cancel_sends: "gives (CancelSubscriptions fuel srv key) (\<lambda>r u. \<forall>q \<in> set (sent u). subscription_request q)"
  by (intro gives_adds adds_CancelSubscriptions) (simp_all add: subscription_request_def)

lemma List_sends: "gives (ListSubscriptions fuel srv key) (\<lambda>r u. \<forall>q \<in> set (sent u). subscription_request q)"
  by (intro gives_adds adds_ListSubscriptions) (simp add: subscription_request_def)

lemma Prepare_sends: "gives (PrepareInvoicesForCustomerDeletion fuel srv cid) (\<lambda>r u. \<forall>q \<in> set (sent u). \<exists>iq. q = ReqInvoice iq)"
proof (rule gives_mono [OF Prepare_gives])
  have "\<forall>q \<in> set (sent u). \<exists>iq. q = ReqInvoice iq" if "all_allowed cid K u" for K u
    using that by (induction cid K u rule: all_allowed.induct) (auto simp: allowed_invoice_request_def)
  then show "\<forall>q \<in> set (sent u). \<exists>iq. q = ReqInvoice iq" if "all_allowed cid {} u" for r :: "unit res" and u
    using that .
qed

lemma GetCustomer_sends: "gives (GetCustomer srv key) (\<lambda>r u. \<forall>q \<in> set (sent u). q = ReqCustomer (GetCustomerReq key))"
  unfolding GetCustomer_def
  by (intro gives_adds adds_if adds_and_then adds_v1_call) (auto split: option.splits body.splits account_body.splits)

lemma Release_sends: "gives (ReleaseCustomerSubjects srv key) (\<lambda>r u. \<forall>q \<in> set (sent u).
    q = ReqCustomer (GetCustomerReq key) \<or> (\<exists>b. q = ReqCustomer (UpdateCustomerReq key b)))"
proof -
  have "ReleaseCustomerSubjects srv key = handle (GetCustomer srv key)
    (\<lambda>e. if errors_is e ErrCustomerNotFound then ret () else fail e)
    (\<lambda>existing. if existingSubjectKeys existing = [] then ret ()
       else and_then (v1_call srv (ReqCustomer (UpdateCustomerReq key (release_body existing)))) (\<lambda>r.
         if status_code (rp_http r) = 404 then ret () else and_then (checked r) (\<lambda>_. ret ())))"
    by (auto simp: ReleaseCustomerSubjects_def handle_def ret_def fail_def split: prod.splits sum.splits)
  then show ?thesis
    by (simp only:) (intro gives_adds adds_handle adds_if adds_ret adds_fail adds_and_then adds_v1_call adds_checked
        adds_mono [OF GetCustomer_sends [folded adds_gives]], auto)
qed

lemma DeleteCustomer_sends: "gives (DeleteCustomer srv key) (\<lambda>r u. sent u = [] \<or> sent u = [ReqCustomer (DeleteCustomerReq key)])"
  by (auto simp: gives_def DeleteCustomer_def and_then_def v1_call_def call_def checked_def ret_def fail_def
      split: sum.splits option.splits)

definition customer_request :: "go_string \<Rightarrow> request \<Rightarrow> bool" where
  "customer_request key q \<longleftrightarrow> q = ReqCustomer (GetCustomerReq key) \<or> (\<exists>b. q = ReqCustomer (UpdateCustomerReq key b))"

text \<open>
  What a removal sends: reads and cancelations, then invoices, then the customer itself, its
  deletion last.
\<close>

definition before_invoicing :: "go_string \<Rightarrow> request \<Rightarrow> bool" where
  "before_invoicing key q \<longleftrightarrow> q = ReqCustomer (GetCustomerReq key) \<or> subscription_request q"

definition customer_phase :: "go_string \<Rightarrow> request list \<Rightarrow> bool" where
  "customer_phase key qs \<longleftrightarrow> (\<forall>q \<in> set qs. customer_request key q) \<or>
    (\<exists>v. (\<forall>q \<in> set v. customer_request key q) \<and> qs = v @ [ReqCustomer (DeleteCustomerReq key)])"

definition removal_phases :: "go_string \<Rightarrow> request list \<Rightarrow> bool" where
  "removal_phases key qs \<longleftrightarrow> (\<exists>a b c. qs = a @ b @ c \<and> (\<forall>q \<in> set a. before_invoicing key q) \<and>
    (\<forall>q \<in> set b. \<exists>iq. q = ReqInvoice iq) \<and> customer_phase key c)"

lemma phases_invoices: "\<forall>q \<in> set b. \<exists>iq. q = ReqInvoice iq \<Longrightarrow> customer_phase key c \<Longrightarrow> removal_phases key (b @ c)"
  unfolding removal_phases_def by (intro exI [of _ "[]"] exI [of _ b] exI [of _ c]) simp

lemma phases_Nil: "removal_phases key []"
  by (simp add: removal_phases_def customer_phase_def)

lemma phases_before: "\<forall>q \<in> set qs. before_invoicing key q \<Longrightarrow> removal_phases key rs \<Longrightarrow> removal_phases key (qs @ rs)"
  unfolding removal_phases_def by (elim exE conjE, rule_tac x = "qs @ a" in exI, auto)

lemma phases_only_before: "\<forall>q \<in> set qs. before_invoicing key q \<Longrightarrow> removal_phases key qs"
  using phases_before [OF _ phases_Nil] by simp

lemma release_and_delete_sends:
  "gives (release_and_delete srv key pe) (\<lambda>r u. customer_phase key (sent u) \<and>
    (pe \<noteq> None \<longrightarrow> (\<forall>q \<in> set (sent u). customer_request key q)))"
  unfolding release_and_delete_def
proof (rule gives_and_then [OF gives_wrapping [OF Release_sends]], goal_cases)
  case (2 x u)
  then have u: "\<forall>q \<in> set (sent u). customer_request key q" by (auto simp: customer_request_def)
  show ?case
  proof (cases pe)
    case None
    have "gives (wrapping ''delete customer'' (DeleteCustomer srv key)) (\<lambda>r v. sent v = [] \<or> sent v = [ReqCustomer (DeleteCustomerReq key)])"
      by (rule gives_wrapping) (rule DeleteCustomer_sends)
    then show ?thesis unfolding None option.case by (rule gives_mono) (use u in \<open>auto simp: customer_phase_def\<close>)
  next
    case (Some e)
    then show ?thesis using u by (auto simp: customer_phase_def intro: gives_fail)
  qed
qed (auto simp: customer_request_def customer_phase_def)

lemma invoice_and_delete_sends:
  "gives (invoice_and_delete fuel srv key cid) (\<lambda>r u. removal_phases key (sent u))"
  unfolding invoice_and_delete_def
proof (rule gives_handle [OF Prepare_sends], goal_cases)
  case (1 e u)
  then have "removal_phases key (sent u)" using phases_invoices [of "sent u" key "[]"] by (simp add: customer_phase_def)
  moreover have "gives (release_and_delete srv key (Some e)) (\<lambda>r v. removal_phases key (sent (u @ v)))"
    by (rule gives_mono [OF release_and_delete_sends]) (use 1 in \<open>simp add: phases_invoices\<close>)
  ultimately show ?case by (intro gives_if gives_fail) simp_all
next
  case (2 x u)
  then show ?case by (intro gives_mono [OF release_and_delete_sends]) (simp add: phases_invoices)
qed

lemma customerLink_phases:
  assumes "annotation (ba_meta account) ForceDeleteAnnotation \<noteq> ''true''"
  shows "gives (customerLinkFinalize fuel srv account) (\<lambda>r u. removal_phases (km_uid (ba_meta account)) (sent u))"
proof -
  let ?k = "km_uid (ba_meta account)"
  have await: "gives (await_subscriptions fuel srv ?k cid) (\<lambda>r u. removal_phases ?k (sent u))" for cid
    unfolding await_subscriptions_def Let_def
  proof (rule gives_handle [OF List_sends], goal_cases)
    case (2 subs u)
    then have "\<forall>q \<in> set (sent u). before_invoicing ?k q" by (simp add: before_invoicing_def)
    then show ?case
      by (intro gives_if gives_fail gives_mono [OF invoice_and_delete_sends]) (simp_all add: phases_only_before phases_before)
  qed (auto simp: before_invoicing_def intro!: gives_ret gives_fail phases_only_before)
  have cancel: "gives (and_then (wrapping ''cancel subscriptions'' (CancelSubscriptions fuel srv ?k))
      (\<lambda>_. await_subscriptions fuel srv ?k cid)) (\<lambda>r u. removal_phases ?k (sent u))" for cid
  proof (rule gives_and_then [OF gives_wrapping [OF Cancel_sends]], goal_cases)
    case (2 x u)
    then have "\<forall>q \<in> set (sent u). before_invoicing ?k q" by (simp add: before_invoicing_def)
    then show ?case by (intro gives_mono [OF await]) (simp add: phases_before)
  qed (simp add: before_invoicing_def phases_only_before)
  have "gives (handle (GetCustomer srv ?k)
      (\<lambda>e. if errors_is e ErrCustomerNotFound then ret () else fail (Wrap ''get customer'' [e]))
      (\<lambda>customer. and_then (wrapping ''cancel subscriptions'' (CancelSubscriptions fuel srv ?k))
         (\<lambda>_. await_subscriptions fuel srv ?k (cu_id customer)))) (\<lambda>r u. removal_phases ?k (sent u))"
  proof (rule gives_handle [OF GetCustomer_sends], goal_cases)
    case (1 e u)
    then have "\<forall>q \<in> set (sent u). before_invoicing ?k q" by (simp add: before_invoicing_def)
    then show ?case by (intro gives_if gives_ret gives_fail) (simp_all add: phases_only_before)
  next
    case (2 c u)
    then have "\<forall>q \<in> set (sent u). before_invoicing ?k q" by (simp add: before_invoicing_def)
    then show ?case by (intro gives_mono [OF cancel]) (simp add: phases_before)
  qed
  with assms show ?thesis by (simp add: customerLinkFinalize_def Let_def)
qed

definition stripe_unlink :: "go_string \<Rightarrow> request \<Rightarrow> bool" where
  "stripe_unlink key q \<longleftrightarrow> q = ReqCustomer (GetStripeDataReq key) \<or> (\<exists>app. q = ReqCustomer (DeleteAppDataReq key app))"

lemma GetStripe_sends: "gives (GetCustomerStripeAppData srv key) (\<lambda>r u. \<forall>q \<in> set (sent u). q = ReqCustomer (GetStripeDataReq key))"
  unfolding GetCustomerStripeAppData_def stripe_checked_def
  by (intro gives_adds adds_if adds_and_then adds_v1_call) (auto split: option.splits body.splits account_body.splits)

lemma DeleteStripe_sends: "gives (DeleteCustomerStripeAppData srv key) (\<lambda>r u. \<forall>q \<in> set (sent u). stripe_unlink key q)"
proof -
  have "DeleteCustomerStripeAppData srv key = (if key = [] then fail (permanent ''customerKey is required'')
    else handle (GetCustomerStripeAppData srv key)
      (\<lambda>e. if errors_is e ErrStripeAppDataNotFound \<or> errors_is e ErrStripeAppNotConfigured then ret () else fail e)
      (\<lambda>d. case sa_app_id d of
          None \<Rightarrow> fail (transient (''stripe app data of customer '' @ key @ '' names no app''))
        | Some app \<Rightarrow>
          if app = [] then fail (transient (''stripe app data of customer '' @ key @ '' names no app''))
          else and_then (v1_call srv (ReqCustomer (DeleteAppDataReq key app))) (\<lambda>r.
            if status_code (rp_http r) = 404 then ret () else and_then (checked r) (\<lambda>_. ret ()))))"
    by (auto simp: DeleteCustomerStripeAppData_def handle_def ret_def fail_def fun_eq_iff split: prod.splits sum.splits option.splits)
  moreover have unlink: "stripe_unlink key (ReqCustomer (DeleteAppDataReq key app))" for app by (simp add: stripe_unlink_def)
  moreover have "adds (stripe_unlink key) (GetCustomerStripeAppData srv key)"
    by (rule adds_mono [OF GetStripe_sends [folded adds_gives]]) (simp add: stripe_unlink_def)
  ultimately show ?thesis
    by (auto intro!: gives_adds adds_if adds_handle adds_and_then adds_v1_call unlink split: option.splits)
qed

lemma force_release_sends:
  "gives (force_release fuel srv key) (\<lambda>r u. \<forall>q \<in> set (sent u). subscription_request q \<or> stripe_unlink key q)"
proof -
  let ?P = "\<lambda>q. subscription_request q \<or> stripe_unlink key q"
  have "adds ?P (CancelSubscriptions fuel srv key)" "adds ?P (DeleteCustomerStripeAppData srv key)"
    by (auto intro: adds_mono [OF Cancel_sends [folded adds_gives]] adds_mono [OF DeleteStripe_sends [folded adds_gives]])
  then show ?thesis unfolding force_release_def Let_def by (intro gives_adds adds_handle adds_ret)
qed

text \<open>
  The order in which an account's customer is torn down: whatever OpenMeter answers, the
  subscriptions are dealt with before any invoice is, all invoicing happens before the
  customer's subject keys are released (so the last invoice still sees its usage), and the
  deletion comes last. A forced deletion only cancels subscriptions and unlinks Stripe: it
  neither changes nor deletes the customer or an invoice.
\<close>

theorem customerLinkFinalize_ordered:
  "\<exists>u. snd (customerLinkFinalize fuel srv account t) = t @ u \<and>
    (if annotation (ba_meta account) ForceDeleteAnnotation = ''true''
     then \<forall>q \<in> set (sent u). subscription_request q \<or> stripe_unlink (km_uid (ba_meta account)) q
     else removal_phases (km_uid (ba_meta account)) (sent u))"
proof (cases "annotation (ba_meta account) ForceDeleteAnnotation = ''true''")
  case True
  then have "customerLinkFinalize fuel srv account = force_release fuel srv (km_uid (ba_meta account))"
    by (simp add: customerLinkFinalize_def Let_def)
  with True force_release_sends [of fuel srv "km_uid (ba_meta account)"] show ?thesis by (simp add: gives_def)
next
  case False
  with customerLink_phases [OF False, of fuel srv] show ?thesis by (simp add: gives_def)
qed

section \<open>When a customer is deleted\<close>

lemma no_delete_simps:
  "before_invoicing key (ReqCustomer (DeleteCustomerReq k)) = False" "subscription_request (ReqCustomer cq) = False"
  "customer_request key (ReqCustomer (DeleteCustomerReq k)) = False" "stripe_unlink key (ReqCustomer (DeleteCustomerReq k)) = False"
  by (simp_all add: before_invoicing_def subscription_request_def customer_request_def stripe_unlink_def)

lemma phases_delete:
  assumes "removal_phases key qs" "ReqCustomer (DeleteCustomerReq k) \<in> set qs"
  shows "k = key \<and> last qs = ReqCustomer (DeleteCustomerReq k)"
proof -
  from assms(1) obtain a b c where qs: "qs = a @ b @ c" "\<forall>q \<in> set a. before_invoicing key q"
    "\<forall>q \<in> set b. \<exists>iq. q = ReqInvoice iq" "customer_phase key c" unfolding removal_phases_def by blast
  have "ReqCustomer (DeleteCustomerReq k) \<notin> set a" using qs(2) no_delete_simps(1) [of key k] by metis
  moreover have "ReqCustomer (DeleteCustomerReq k) \<notin> set b" using qs(3) by auto
  ultimately have "ReqCustomer (DeleteCustomerReq k) \<notin> set a" "ReqCustomer (DeleteCustomerReq k) \<notin> set b" by simp_all
  with assms(2) qs(1) have "ReqCustomer (DeleteCustomerReq k) \<in> set c" by simp
  moreover obtain v where "(\<forall>q \<in> set v. customer_request key q)" "c = v \<or> c = v @ [ReqCustomer (DeleteCustomerReq key)]"
    using qs(4) unfolding customer_phase_def by blast
  moreover have "ReqCustomer (DeleteCustomerReq k) \<notin> set v" using calculation(2) no_delete_simps(3) [of key k] by metis
  ultimately show ?thesis using qs(1) by auto
qed

lemma invoice_and_delete_clear:
  assumes "invoice_and_delete fuel srv key cid t = (r, t @ u)" and "ReqCustomer (DeleteCustomerReq k) \<in> set (sent u)"
  shows "\<exists>t'. PrepareInvoicesForCustomerDeletion fuel srv cid t = (Inr (), t') \<and> prefix t' (t @ u)"
proof -
  obtain w t' e where p: "PrepareInvoicesForCustomerDeletion fuel srv cid t = (w, t')" "t' = t @ e"
    "\<forall>q \<in> set (sent e). \<exists>iq. q = ReqInvoice iq"
    using givesD [OF Prepare_sends, of fuel srv cid t] by (auto intro: that)
  show ?thesis
  proof (cases w)
    case (Inl err)
    have "ReqCustomer (DeleteCustomerReq k) \<notin> set (sent f)" if "release_and_delete srv key (Some err) t' = (r, t' @ f)" for f
      using gives_result [OF release_and_delete_sends that] by (auto simp: no_delete_simps)
    moreover have "u = e \<or> (\<exists>f. u = e @ f \<and> release_and_delete srv key (Some err) t' = (r, t' @ f))"
      using assms(1) p(1,2) Inl gives_result [OF release_and_delete_sends, of srv key "Some err" t' r]
      by (auto simp: invoice_and_delete_def handle_def fail_def split: if_splits)
    ultimately show ?thesis using assms(2) p(3) by auto
  next
    case (Inr x)
    then have "release_and_delete srv key None t' = (r, t @ u)" using assms(1) p(1) by (simp add: invoice_and_delete_def handle_def)
    from gives_result [OF release_and_delete_sends this] p(1) Inr show ?thesis by auto
  qed
qed

text \<open>
  C8. A customer is deleted only when nothing of it is left to settle. If the removal
  of an account deletes a customer, it is the account's own, nobody forced it, the request is
  the last one, and before it, in this order, the subscriptions were canceled, a listing
  showed none that is active, canceled or scheduled, and a complete listing of the
  customer's invoices showed only invoices that are paid, voided, uncollectible or deleted.
\<close>

theorem customerLinkFinalize_deletes_settled:
  assumes "customerLinkFinalize fuel srv account t = (r, t @ u)" and "ReqCustomer (DeleteCustomerReq k) \<in> set (sent u)"
  shows "k = km_uid (ba_meta account) \<and> annotation (ba_meta account) ForceDeleteAnnotation \<noteq> ''true'' \<and>
    last (sent u) = ReqCustomer (DeleteCustomerReq k) \<and>
    (\<exists>customer subs t1 t2 t3 t4 ps t0.
       GetCustomer srv k t = (Inr customer, t1) \<and>
       CancelSubscriptions fuel srv k t1 = (Inr (), t2) \<and>
       ListSubscriptions fuel srv k t2 = (Inr subs, t3) \<and>
       (\<forall>s \<in> set subs. sub_status s \<notin> {SubscriptionStatusActive, SubscriptionStatusCanceled, SubscriptionStatusScheduled}) \<and>
       PrepareInvoicesForCustomerDeletion fuel srv (cu_id customer) t3 = (Inr (), t4) \<and>
       reported_pages (invoices_page srv (cu_id customer) False) 1 t0 ps t4 \<and>
       (\<forall>iv \<in> set (concat (map fst ps)). invoiceBelongsToCustomer (cu_id customer) iv \<longrightarrow>
          in_status iv \<in> {InvoiceStatusPaid, InvoiceStatusVoided, InvoiceStatusUncollectible, InvoiceStatusDeleted} \<or>
          in_deleted_at iv \<noteq> None) \<and>
       prefix t4 (t @ u))"
proof -
  let ?k = "km_uid (ba_meta account)"

  have unforced: "annotation (ba_meta account) ForceDeleteAnnotation \<noteq> ''true''"
  proof
    assume "annotation (ba_meta account) ForceDeleteAnnotation = ''true''"
    then have "force_release fuel srv ?k t = (r, t @ u)" using assms(1) by (simp add: customerLinkFinalize_def Let_def)
    from gives_result [OF force_release_sends this] assms(2) show False by (auto simp: no_delete_simps)
  qed
  from gives_result [OF customerLink_phases [OF unforced] assms(1)] have "removal_phases ?k (sent u)" by simp
  from phases_delete [OF this assms(2)] have k: "k = ?k" "last (sent u) = ReqCustomer (DeleteCustomerReq k)" by simp_all
  obtain x t1 a where g: "GetCustomer srv ?k t = (x, t1)" "t1 = t @ a" "\<forall>q \<in> set (sent a). q = ReqCustomer (GetCustomerReq ?k)"
    using givesD [OF GetCustomer_sends] by blast
  have na: "ReqCustomer (DeleteCustomerReq k) \<notin> set (sent a)" using g(3) by auto
  obtain customer where c: "x = Inr customer"
    using assms unforced g(1,2) na by (cases x) (simp_all add: customerLinkFinalize_def Let_def handle_def ret_def fail_def split: if_splits)
  obtain y t2 b where cs: "CancelSubscriptions fuel srv ?k t1 = (y, t2)" "t2 = t1 @ b" "\<forall>q \<in> set (sent b). subscription_request q"
    using givesD [OF Cancel_sends] by blast
  have nb: "ReqCustomer (DeleteCustomerReq k) \<notin> set (sent b)" using cs(3) no_delete_simps(2) by metis
  have y: "y = Inr ()"
    using assms unforced g(1,2) c cs(1,2) na nb by (cases y) (auto simp: customerLinkFinalize_def Let_def handle_def and_then_def wrapping_def)
  with assms(1) unforced g c cs have await: "await_subscriptions fuel srv ?k (cu_id customer) t2 = (r, t @ u)"
    by (simp add: customerLinkFinalize_def Let_def handle_def and_then_def wrapping_def)
  obtain z t3 d where l: "ListSubscriptions fuel srv ?k t2 = (z, t3)" "t3 = t2 @ d" "\<forall>q \<in> set (sent d). subscription_request q"
    using givesD [OF List_sends] by blast
  have "ReqCustomer (DeleteCustomerReq k) \<notin> set (sent d)" using l(3) no_delete_simps(2) by metis
  with na nb have before: "ReqCustomer (DeleteCustomerReq k) \<notin> set (sent (a @ b @ d))" by simp
  have t3: "t3 = t @ a @ b @ d" using g(2) cs(2) l(2) by simp
  obtain subs where s: "z = Inr subs" "liveSubscriptionIDs subs = []"
  proof (cases z)
    case (Inl e)
    with await l t3 have "u = a @ b @ d" by (auto simp: await_subscriptions_def handle_def ret_def fail_def split: if_splits)
    with before assms(2) show ?thesis by simp
  next
    case (Inr subs)
    with await l t3 have "liveSubscriptionIDs subs = [] \<or> u = a @ b @ d"
      by (auto simp: await_subscriptions_def handle_def Let_def fail_def split: if_splits)
    with before assms(2) Inr that show ?thesis by auto
  qed
  then have inv: "invoice_and_delete fuel srv ?k (cu_id customer) t3 = (r, t @ u)"
    using await l by (simp add: await_subscriptions_def handle_def Let_def)
  with gives_result [OF invoice_and_delete_sends inv] t3 obtain f where f: "u = a @ b @ d @ f" by auto
  have "ReqCustomer (DeleteCustomerReq k) \<in> set (sent f)" using assms(2) before f by auto
  with inv f t3 obtain t4 where p: "PrepareInvoicesForCustomerDeletion fuel srv (cu_id customer) t3 = (Inr (), t4)" "prefix t4 (t @ u)"
    using invoice_and_delete_clear [of fuel srv ?k "cu_id customer" t3 r f k] by auto
  have "\<forall>s \<in> set subs. sub_status s \<notin> {SubscriptionStatusActive, SubscriptionStatusCanceled, SubscriptionStatusScheduled}"
    using s(2) by (auto simp: liveSubscriptionIDs_def filter_empty_conv)
  then show ?thesis
    using k unforced g(1) c cs(1) y l(1) s(1) p PrepareInvoicesForCustomerDeletion_clear [OF p(1)] by blast
qed

definition example_account :: billing_account where
  "example_account = \<lparr>ba_meta = \<lparr>km_namespace = ''org-1'', km_name = ''acme'', km_uid = ''u-1'', km_generation = 1,
       km_deleting = True, km_finalizers = [CustomerLinkFinalizer, BillingProfileFinalizer], km_annotations = []\<rparr>,
     ba_currency = ''USD'', ba_contact = None, ba_payment_method = None, ba_invoice_day = None, ba_arrangement = None,
     ba_payment_ready = None\<rparr>"

definition example_removal_server :: server where
  "example_removal_server t q = Inr (case q of
       ReqCustomer (GetCustomerReq _) \<Rightarrow> ok_answer (Some (AccountBody (CustomerBody example_customer)))
     | ReqListSubscriptions _ _ \<Rightarrow> ok_answer (Some (SubscriptionPage [] 0))
     | ReqInvoice _ \<Rightarrow> ok_answer (Some (AccountBody (InvoicePage [] 100 0)))
     | _ \<Rightarrow> ok_answer None)"

theorem customerLinkFinalize_deletes_settled_witness:
  "let u = snd (customerLinkFinalize 3 example_removal_server example_account []) in
   last (sent u) = ReqCustomer (DeleteCustomerReq ''u-1'') \<and>
   annotation (ba_meta example_account) ForceDeleteAnnotation \<noteq> ''true'' \<and>
   (\<exists>customer t1. GetCustomer example_removal_server ''u-1'' [] = (Inr customer, t1))"
proof -
  let ?u = "snd (customerLinkFinalize 3 example_removal_server example_account [])"
  have "fst (customerLinkFinalize 3 example_removal_server example_account []) = Inr ()"
    "ReqCustomer (DeleteCustomerReq ''u-1'') \<in> set (sent ?u)" by code_simp+
  then show ?thesis
    using customerLinkFinalize_deletes_settled [of 3 example_removal_server example_account "[]" "Inr ()" ?u "''u-1''"]
    unfolding Let_def by (metis append_Nil prod.collapse)
qed

section \<open>The billing profile goes after the customer, and only the account's own\<close>

definition customers_in :: "reply \<Rightarrow> om_customer set" where
  "customers_in r = (case r of Inr rp \<Rightarrow>
     (case rp_sdk rp of Some (AccountBody (CustomerPage items _ _)) \<Rightarrow> set items | _ \<Rightarrow> {}) | Inl _ \<Rightarrow> {})"

definition listed_customers :: "exchanges \<Rightarrow> om_customer set" where
  "listed_customers t = (\<Union>x \<in> set t. customers_in (snd x))"

lemma listed_customers_append [simp]: "listed_customers (t @ u) = listed_customers t \<union> listed_customers u"
  by (auto simp: listed_customers_def)

definition key_ids :: "go_string \<Rightarrow> exchanges \<Rightarrow> go_string set" where
  "key_ids key u = cu_id ` {c \<in> listed_customers u. cu_key c = Some key}"

lemma customers_page_gives:
  "gives (customers_page srv key n) (\<lambda>r u. sent u = [ReqCustomer (ListCustomersReq key n)] \<and>
    (\<forall>p. r = Inr p \<longrightarrow> set (fst p) \<subseteq> listed_customers u))"
  unfolding customers_page_def
  by (intro gives_v1_checked)
    (auto simp: listed_customers_def customers_in_def split: option.splits body.splits account_body.splits intro!: gives_ret gives_fail)

lemma CustomerIDsByKey_gives:
  "gives (CustomerIDsByKey fuel srv key) (\<lambda>r u. (\<forall>q \<in> set (sent u). \<exists>n. q = ReqCustomer (ListCustomersReq key n)) \<and>
    (\<forall>ids. r = Inr ids \<longrightarrow> set ids \<subseteq> key_ids key u))"
proof -
  have "gives (customer_ids_from srv key fuel n out) (\<lambda>r u. (\<forall>q \<in> set (sent u). \<exists>n. q = ReqCustomer (ListCustomersReq key n)) \<and>
    (\<forall>ids. r = Inr ids \<longrightarrow> set ids \<subseteq> set out \<union> key_ids key u))" for n out
  proof (induction fuel arbitrary: n out)
    case (Suc fuel)
    show ?case
      unfolding customer_ids_from.simps
    proof (rule gives_and_then [OF customers_page_gives], goal_cases)
      case (2 p u)
      then have ids: "set (ids_with_key key (fst p)) \<subseteq> key_ids key u" by (auto simp: ids_with_key_def key_ids_def)
      then show ?case
        using 2 by (intro gives_if gives_ret gives_mono [OF Suc]) (auto simp: key_ids_def, blast+)
    qed simp
  qed (auto intro: gives_fail)
  from this [of 1 "[]"] show ?thesis
    unfolding CustomerIDsByKey_def by (intro gives_if gives_fail) (auto intro: gives_mono)
qed

definition override_removal :: "go_string set \<Rightarrow> request \<Rightarrow> bool" where
  "override_removal ids q \<longleftrightarrow> (\<exists>i \<in> ids. q = ReqProfile (DeleteOverrideReq i))"

definition profile_removal :: "go_string set \<Rightarrow> request \<Rightarrow> bool" where
  "profile_removal ids q \<longleftrightarrow> (\<exists>i \<in> ids. q = ReqProfile (DeleteProfileReq i))"

lemma delete_overrides_sends: "adds (override_removal (set ids)) (delete_overrides srv ids)"
proof -
  have "adds (override_removal S) (delete_overrides srv ids)" if "set ids \<subseteq> S" for S
    using that by (induction ids)
      (auto simp: DeleteBillingProfileCustomerOverride_def override_removal_def intro!: adds_and_then adds_wrapping adds_if adds_v1_call)
  then show ?thesis by blast
qed

lemma delete_profiles_sends: "adds (profile_removal (set ids)) (delete_profiles srv ids)"
proof -
  have "adds (profile_removal S) (delete_profiles srv ids)" if "set ids \<subseteq> S" for S
    using that by (induction ids)
      (auto simp: DeleteBillingProfile_def profile_removal_def intro!: adds_and_then adds_wrapping adds_if adds_v1_call)
  then show ?thesis by blast
qed

definition own_profile_ids :: "go_string \<Rightarrow> exchanges \<Rightarrow> go_string set" where
  "own_profile_ids key u = pf_id ` {p \<in> shown u. isAccountProfile key p}"

lemma own_profile_ids_append [simp]:
  "own_profile_ids key [] = {}" "own_profile_ids key (t @ u) = own_profile_ids key t \<union> own_profile_ids key u"
  by (auto simp: own_profile_ids_def)

lemma set_fold_add_profile_id: "set (fold add_profile_id ps ids) = set ids \<union> pf_id ` set ps"
  by (induction ps arbitrary: ids) (auto simp: add_profile_id_def)

lemma accountBillingProfileIDs_gives:
  "gives (accountBillingProfileIDs fuel srv account key) (\<lambda>r u. profile_reads u \<and> (\<forall>ids. r = Inr ids \<longrightarrow> set ids \<subseteq> own_profile_ids key u))"
proof -
  have annotated: "gives (annotated_profile_id srv account key) (\<lambda>r u. profile_reads u \<and> (\<forall>ids. r = Inr ids \<longrightarrow> set ids \<subseteq> own_profile_ids key u))"
    unfolding annotated_profile_id_def Let_def
    by (intro gives_if gives_ret gives_handle [OF GetBillingProfile_gives])
      (auto simp: own_profile_ids_def isAccountProfile_def intro!: gives_if gives_ret gives_fail)
  have found: "gives (FindBillingProfilesByAccountKey fuel srv key) (\<lambda>r u. profile_reads u \<and>
      (\<forall>ps. r = Inr ps \<longrightarrow> pf_id ` set ps \<subseteq> own_profile_ids key u))"
    unfolding FindBillingProfilesByAccountKey_def
    by (intro gives_if gives_fail gives_mono [OF listBillingProfiles_gives]) (auto simp: own_profile_ids_def)
  have wrapped: "gives (wrapping msg (FindBillingProfilesByAccountKey fuel srv key)) (\<lambda>r u. profile_reads u \<and>
      (\<forall>ps. r = Inr ps \<longrightarrow> pf_id ` set ps \<subseteq> own_profile_ids key u))" for msg
    by (rule gives_wrapping, rule gives_mono [OF found]) (auto split: sum.splits)
  show ?thesis
    unfolding accountBillingProfileIDs_def
  proof (rule gives_and_then [OF annotated], goal_cases)
    case (2 ids u)
    then have ids: "set ids \<subseteq> own_profile_ids key u" "profile_reads u" by simp_all
    show ?case
    proof (rule gives_and_then [OF wrapped], goal_cases)
      case (2 ps v)
      then have "set ids \<union> pf_id ` set ps \<subseteq> own_profile_ids key u \<union> own_profile_ids key v" using ids(1) by blast
      with 2 ids(2) show ?case by (intro gives_ret) (simp add: set_fold_add_profile_id)
    qed (use ids in simp)
  qed simp
qed

definition own_profile_removal :: "go_string \<Rightarrow> exchanges \<Rightarrow> bool" where
  "own_profile_removal key u \<longleftrightarrow> (\<exists>a b. u = a @ b \<and>
    (\<forall>q \<in> set (sent a). (\<exists>n. q = ReqCustomer (ListCustomersReq key n)) \<or> override_removal (key_ids key a) q) \<and>
    (\<forall>q \<in> set (sent b). profile_read q \<or> profile_removal (own_profile_ids key b) q))"

lemma own_profile_removalI:
  assumes "u = a @ b" "\<forall>q \<in> set (sent a). (\<exists>n. q = ReqCustomer (ListCustomersReq key n)) \<or> override_removal (key_ids key a) q"
    "\<forall>q \<in> set (sent b). profile_read q \<or> profile_removal (own_profile_ids key b) q"
  shows "own_profile_removal key u"
  using assms unfolding own_profile_removal_def by blast

lemma profiles_phase:
  "gives (and_then (accountBillingProfileIDs fuel srv account key) (\<lambda>ids. delete_profiles srv ids))
    (\<lambda>r u. \<forall>q \<in> set (sent u). profile_read q \<or> profile_removal (own_profile_ids key u) q)"
proof (rule gives_and_then [OF accountBillingProfileIDs_gives], goal_cases)
  case (2 ids u)
  then show ?case
    by (intro gives_mono [OF gives_adds [OF delete_profiles_sends]]) (auto simp: profile_reads_def profile_removal_def)
qed (simp add: profile_reads_def)

lemma key_ids_append: "key_ids key (t @ u) = key_ids key t \<union> key_ids key u"
  by (auto simp: key_ids_def)

lemma override_removal_mono: "override_removal A q \<Longrightarrow> A \<subseteq> B \<Longrightarrow> override_removal B q"
  unfolding override_removal_def by blast

lemma more_removals:
  assumes "\<forall>q \<in> set (sent u). (\<exists>n. q = ReqCustomer (ListCustomersReq key n)) \<or> override_removal (key_ids key u) q"
    "set ids \<subseteq> key_ids key u" "\<forall>q \<in> set (sent v). override_removal (set ids) q"
  shows "\<forall>q \<in> set (sent (u @ v)). (\<exists>n. q = ReqCustomer (ListCustomersReq key n)) \<or> override_removal (key_ids key (u @ v)) q"
proof
  fix q assume "q \<in> set (sent (u @ v))"
  then consider "q \<in> set (sent u)" | "q \<in> set (sent v)" by auto
  then show "(\<exists>n. q = ReqCustomer (ListCustomersReq key n)) \<or> override_removal (key_ids key (u @ v)) q"
    unfolding key_ids_append
  proof cases
    case 1
    with assms(1) override_removal_mono [of "key_ids key u" q "key_ids key u \<union> key_ids key v"]
    show "(\<exists>n. q = ReqCustomer (ListCustomersReq key n)) \<or> override_removal (key_ids key u \<union> key_ids key v) q" by blast
  next
    case 2
    with assms(2,3) override_removal_mono [of "set ids" q "key_ids key u \<union> key_ids key v"]
    show "(\<exists>n. q = ReqCustomer (ListCustomersReq key n)) \<or> override_removal (key_ids key u \<union> key_ids key v) q" by blast
  qed
qed

lemma billingProfileFinalize_gives:
  "gives (billingProfileFinalize fuel srv account m) (\<lambda>r u. (CustomerLinkFinalizer \<in> set (km_finalizers m) \<longrightarrow> u = []) \<and>
    own_profile_removal (km_uid (ba_meta account)) u)"
proof (cases "CustomerLinkFinalizer \<in> set (km_finalizers m)")
  case True
  then show ?thesis by (auto simp: billingProfileFinalize_def own_profile_removal_def intro!: gives_fail)
next
  case False
  let ?k = "km_uid (ba_meta account)"
  let ?P = "\<lambda>u q. (\<exists>n. q = ReqCustomer (ListCustomersReq ?k n)) \<or> override_removal (key_ids ?k u) q"
  have only: "own_profile_removal ?k u" if "\<forall>q \<in> set (sent u). ?P u q" for u
    by (rule own_profile_removalI [of u u "[]"]) (use that in auto)
  have overrides: "gives (and_then (delete_overrides srv ids) (\<lambda>_.
      and_then (accountBillingProfileIDs fuel srv account ?k) (\<lambda>ids. delete_profiles srv ids)))
    (\<lambda>r v. own_profile_removal ?k (u @ v))" if u: "\<forall>q \<in> set (sent u). ?P u q" "set ids \<subseteq> key_ids ?k u" for u ids
  proof (rule gives_and_then [OF gives_adds [OF delete_overrides_sends]], goal_cases)
    case (1 e v)
    show ?case by (rule only) (rule more_removals [OF u 1])
  next
    case (2 x v)
    from more_removals [OF u 2] show ?case by (intro gives_mono [OF profiles_phase]) (rule own_profile_removalI [of _ "u @ v"], simp_all)
  qed
  have "gives (and_then (wrapping ''resolve customers of billing account'' (CustomerIDsByKey fuel srv ?k)) (\<lambda>ids.
      and_then (delete_overrides srv ids) (\<lambda>_.
      and_then (accountBillingProfileIDs fuel srv account ?k) (\<lambda>ids. delete_profiles srv ids))))
    (\<lambda>r v. own_profile_removal ?k v)"
  proof (rule gives_and_then [OF gives_wrapping [where Q = "\<lambda>r u. (\<forall>q \<in> set (sent u). \<exists>n. q = ReqCustomer (ListCustomersReq ?k n)) \<and>
        (\<forall>ids. r = Inr ids \<longrightarrow> set ids \<subseteq> key_ids ?k u)"]], goal_cases)
    case 1
    show ?case by (rule gives_mono [OF CustomerIDsByKey_gives]) (auto split: sum.splits)
  next
    case (2 e u)
    then show ?case by (intro only) simp
  next
    case (3 ids u)
    then show ?case by (intro overrides) simp_all
  qed
  with False show ?thesis by (simp add: billingProfileFinalize_def Let_def)
qed


text \<open>
  C24. Removing an account's billing profile touches only what belongs to the account, whatever
  its annotations say. All customers under the account's key are listed first, and every
  override removed is one of a customer in that listing; then profiles are read, and every
  profile removed is one the server showed with the account's own key in its metadata.
\<close>

theorem billingProfileFinalize_own:
  "\<exists>u. snd (billingProfileFinalize fuel srv account m t) = t @ u \<and> own_profile_removal (km_uid (ba_meta account)) u"
  using billingProfileFinalize_gives [of fuel srv account m] unfolding gives_def by blast

end
