(* ===== verification/StripeCustomers.thy ===== *)
theory StripeCustomers
  imports Accounts
begin

text \<open>
  The Stripe identity of a billing account and its copy in OpenMeter
  (\<open>internal/controller/stripe_customer.go\<close>). What the informer cache returned for the
  PaymentMethod, the StripePaymentMethod and the StripeCustomer is an argument.
\<close>

section \<open>Resolving\<close>

record stripe_customer =
  sc_customer :: go_string
  sc_method :: go_string
  sc_no_method :: bool

text \<open>
  A PaymentMethod is its phase, a StripePaymentMethod its Stripe customer and payment method
  ids, a StripeCustomer the UID of its controller (\<open>metav1.GetControllerOf\<close>) and its id.
\<close>

record stripe_reads =
  sr_payment_method :: "go_string res"
  sr_stripe_payment_method :: "(go_string \<times> go_string) res"
  sr_stripe_customer :: "(go_string option \<times> go_string) res"

definition no_payment_method :: stripe_customer where
  "no_payment_method = \<lparr>sc_customer = [], sc_method = [], sc_no_method = True\<rparr>"

definition not_known_yet :: stripe_customer where
  "not_known_yet = \<lparr>sc_customer = [], sc_method = [], sc_no_method = False\<rparr>"

definition stripe_payment_method :: "stripe_reads \<Rightarrow> stripe_customer res" where
  "stripe_payment_method reads =
    (case sr_stripe_payment_method reads of
       Inl e \<Rightarrow> if errors_is e KubeNotFound then Inr no_payment_method else Inl (Wrap ''get StripePaymentMethod'' [e])
     | Inr (customer, pm) \<Rightarrow>
         Inr (if customer = [] then not_known_yet else \<lparr>sc_customer = customer, sc_method = pm, sc_no_method = False\<rparr>))"

definition resolveDefaultPaymentMethod :: "stripe_reads \<Rightarrow> billing_account \<Rightarrow> stripe_customer res" where
  "resolveDefaultPaymentMethod reads account =
    (if ba_payment_method account = None \<or> ba_payment_method account = Some [] then Inr no_payment_method
     else case ba_payment_ready account of
       None \<Rightarrow> Inr not_known_yet
     | Some status \<Rightarrow>
       if status = ''Unknown'' then Inr not_known_yet
       else if status = ''False'' then Inr no_payment_method
       else case sr_payment_method reads of
         Inl e \<Rightarrow> if errors_is e KubeNotFound then Inr no_payment_method else Inl (Wrap ''get PaymentMethod'' [e])
       | Inr phase \<Rightarrow> if phase \<noteq> ''Active'' then Inr no_payment_method else stripe_payment_method reads)"

definition publishedStripeCustomerID :: "stripe_reads \<Rightarrow> billing_account \<Rightarrow> go_string res" where
  "publishedStripeCustomerID reads account =
    (case sr_stripe_customer reads of
       Inl e \<Rightarrow> if errors_is e KubeNotFound then Inr [] else Inl (Wrap ''get StripeCustomer'' [e])
     | Inr (owner, i) \<Rightarrow> Inr (if owner = Some (km_uid (ba_meta account)) then i else []))"

definition resolveStripeCustomer :: "stripe_reads \<Rightarrow> billing_account \<Rightarrow> stripe_customer res" where
  "resolveStripeCustomer reads account =
    (case resolveDefaultPaymentMethod reads account of
       Inl e \<Rightarrow> Inl e
     | Inr held \<Rightarrow>
       if sc_customer held \<noteq> [] \<or> \<not> sc_no_method held then Inr held
       else case publishedStripeCustomerID reads account of
         Inl e \<Rightarrow> Inl e
       | Inr published \<Rightarrow> Inr (held\<lparr>sc_customer := published\<rparr>))"

definition hasInvoiceArrangement :: "billing_account \<Rightarrow> bool" where
  "hasInvoiceArrangement account = (case ba_arrangement account of None \<Rightarrow> False | Some ar \<Rightarrow> pa_type ar = ''Invoice'')"

section \<open>Synchronising\<close>

definition stripe_state :: "go_string \<Rightarrow> go_string \<Rightarrow> go_string" where
  "stripe_state customer pm = ''stripe:'' @ customer @ ''/'' @ pm"

definition upsert_resolved :: "server \<Rightarrow> go_string \<Rightarrow> stripe_customer \<Rightarrow> go_string api" where
  "upsert_resolved srv customerID stripe =
    handle (EnsureCustomerStripeAppData srv customerID (sc_customer stripe) (sc_method stripe))
      (\<lambda>e. if errors_is e ErrStripeAppNotConfigured then ret ''stripe-app-not-configured''
           else fail (Wrap ''ensure customer stripe app data'' [e]))
      (\<lambda>_. ret (stripe_state (sc_customer stripe) (sc_method stripe)))"

definition clear_stale_method :: "server \<Rightarrow> go_string \<Rightarrow> stripe_app_data \<Rightarrow> go_string api" where
  "clear_stale_method srv customerID current =
    handle (EnsureCustomerStripeAppData srv customerID (sa_customer current) [])
      (\<lambda>e. if errors_is e ErrStripeAppNotConfigured then ret ''stripe-app-not-configured''
           else fail (Wrap ''clear stale stripe default payment method'' [e]))
      (\<lambda>_. ret (stripe_state (sa_customer current) []))"

definition reconcileStripeAppData :: "server \<Rightarrow> stripe_reads \<Rightarrow> billing_account \<Rightarrow> go_string \<Rightarrow> go_string api" where
  "reconcileStripeAppData srv reads account customerID =
    (case resolveStripeCustomer reads account of
       Inl e \<Rightarrow> fail (Wrap ''resolve stripe customer'' [e])
     | Inr stripe \<Rightarrow>
       if sc_customer stripe \<noteq> [] then upsert_resolved srv customerID stripe
       else if \<not> sc_no_method stripe \<and> \<not> hasInvoiceArrangement account then ret ''pending''
       else handle (GetCustomerStripeAppData srv customerID)
         (\<lambda>e. if errors_is e ErrStripeAppNotConfigured then ret ''stripe-app-not-configured''
              else if errors_is e ErrStripeAppDataNotFound then
                ret (if hasInvoiceArrangement account then ''stripe-customer-missing'' else ''none'')
              else fail (Wrap ''get customer stripe app data'' [e]))
         (\<lambda>current.
            if sc_no_method stripe \<and> sa_payment_method current \<noteq> None \<and> sa_payment_method current \<noteq> Some [] then
              clear_stale_method srv customerID current
            else ret (stripe_state (sa_customer current) (str_or_empty (sa_payment_method current)))))"

section \<open>Watches\<close>

record payment_method_object =
  pm_namespace :: go_string
  pm_account :: go_string

definition mapPaymentMethodToAccount :: "payment_method_object \<Rightarrow> (go_string \<times> go_string) list" where
  "mapPaymentMethodToAccount pm = (if pm_account pm = [] then [] else [(pm_namespace pm, pm_account pm)])"

text \<open>\<open>got\<close> is the read of the payment method the StripePaymentMethod names.\<close>

definition mapStripePaymentMethodToAccount :: "go_string \<Rightarrow> payment_method_object res \<Rightarrow> (go_string \<times> go_string) list" where
  "mapStripePaymentMethodToAccount pmName got =
    (if pmName = [] then [] else case got of Inl _ \<Rightarrow> [] | Inr pm \<Rightarrow> mapPaymentMethodToAccount pm)"

section \<open>A card is cleared only when there is none\<close>

definition held_stripe_data :: "exchanges \<Rightarrow> stripe_app_data set" where
  "held_stripe_data t = (\<Union>x \<in> set t. case snd x of Inl _ \<Rightarrow> {} | Inr r \<Rightarrow>
     (case rp_sdk r of Some (AccountBody (StripeData d)) \<Rightarrow> {d} | _ \<Rightarrow> {}))"

lemma GetStripe_gives:
  "gives (GetCustomerStripeAppData srv cid) (\<lambda>r u. (\<forall>q \<in> set (sent u). q = ReqCustomer (GetStripeDataReq cid)) \<and>
    (\<forall>d. r = Inr d \<longrightarrow> d \<in> held_stripe_data u))"
  by (auto simp: gives_def GetCustomerStripeAppData_def stripe_checked_def and_then_def v1_call_def call_def fail_def ret_def held_stripe_data_def
      split: sum.splits option.splits body.splits account_body.splits)

definition stripe_requests :: "go_string \<Rightarrow> stripe_app_data \<Rightarrow> request \<Rightarrow> bool" where
  "stripe_requests cid d q \<longleftrightarrow> q = ReqCustomer (GetStripeDataReq cid) \<or> q = ReqCustomer (UpsertStripeDataReq cid d)"

definition wanted_data :: "go_string \<Rightarrow> go_string \<Rightarrow> stripe_app_data" where
  "wanted_data customer pm = \<lparr>sa_app_id = None, sa_customer = customer, sa_payment_method = (if pm = [] then None else Some pm)\<rparr>"

lemma EnsureStripe_gives:
  "gives (EnsureCustomerStripeAppData srv cid customer pm) (\<lambda>r u. \<forall>q \<in> set (sent u). stripe_requests cid (wanted_data customer pm) q)"
proof -
  let ?w = "and_then (v1_call srv (ReqCustomer (UpsertStripeDataReq cid (wanted_data customer pm))))
    (\<lambda>r. and_then (stripe_checked r) (\<lambda>_. ret ()))"
  have "EnsureCustomerStripeAppData srv cid customer pm =
    (if cid = [] then fail (permanent ''customerID is required'')
     else if customer = [] then fail (permanent ''stripeCustomerID is required'')
     else handle (GetCustomerStripeAppData srv cid) (\<lambda>_. ?w)
       (\<lambda>d. if sa_customer d = customer \<and> str_or_empty (sa_payment_method d) = pm then ret () else ?w))"
    by (auto simp: EnsureCustomerStripeAppData_def handle_def ret_def wanted_data_def fun_eq_iff split: prod.splits sum.splits)
  moreover have "adds (stripe_requests cid (wanted_data customer pm)) (GetCustomerStripeAppData srv cid)"
    by (rule adds_mono [OF GetStripe_sends [folded adds_gives]]) (simp add: stripe_requests_def)
  moreover have "adds (stripe_requests cid (wanted_data customer pm)) ?w"
    by (auto simp: stripe_requests_def stripe_checked_def intro!: adds_and_then adds_v1_call split: option.splits)
  ultimately show ?thesis by (auto intro!: gives_adds adds_if adds_handle)
qed

text \<open>
  What a pass may write, given what it resolved: the resolved Stripe customer and payment
  method; or, when there is definitely no payment method, the customer OpenMeter holds,
  without its payment method; and nothing while the payment method is not known.
\<close>

definition stripe_writes_ok :: "stripe_customer \<Rightarrow> bool \<Rightarrow> go_string \<Rightarrow> exchanges \<Rightarrow> bool" where
  "stripe_writes_ok sc invoiced cid u \<longleftrightarrow>
    (if sc_customer sc \<noteq> [] then \<forall>q \<in> set (sent u). stripe_requests cid (wanted_data (sc_customer sc) (sc_method sc)) q
     else if sc_no_method sc then \<forall>q \<in> set (sent u). q = ReqCustomer (GetStripeDataReq cid) \<or>
       (\<exists>d \<in> held_stripe_data u. q = ReqCustomer (UpsertStripeDataReq cid (wanted_data (sa_customer d) [])))
     else (\<forall>q \<in> set (sent u). q = ReqCustomer (GetStripeDataReq cid)) \<and> (\<not> invoiced \<longrightarrow> u = []))"

text \<open>
  C22. The Stripe data kept in OpenMeter follows the account's payment method, and an
  unknown payment method changes nothing: with a resolved Stripe customer only that customer
  and payment method are written; with no payment method only the removal of the
  stored one, for the Stripe customer OpenMeter holds; while it is not known nothing is
  written, and nothing even read unless the account is billed by invoice.
\<close>

theorem reconcileStripeAppData_writes:
  assumes "resolveStripeCustomer reads account = Inr sc"
  shows "\<exists>u. snd (reconcileStripeAppData srv reads account cid t) = t @ u \<and> stripe_writes_ok sc (hasInvoiceArrangement account) cid u"
proof -
  have upsert: "gives (upsert_resolved srv cid sc) (\<lambda>r u. \<forall>q \<in> set (sent u). stripe_requests cid (wanted_data (sc_customer sc) (sc_method sc)) q)"
    unfolding upsert_resolved_def
    by (rule gives_handle [OF EnsureStripe_gives]) (auto intro!: gives_if gives_ret gives_fail)
  have clear: "gives (clear_stale_method srv cid d) (\<lambda>r u. \<forall>q \<in> set (sent u). stripe_requests cid (wanted_data (sa_customer d) []) q)" for d
    unfolding clear_stale_method_def
    by (rule gives_handle [OF EnsureStripe_gives]) (auto intro!: gives_if gives_ret gives_fail)
  have quiet: "stripe_writes_ok sc (hasInvoiceArrangement account) cid u"
    if "\<forall>q \<in> set (sent u). q = ReqCustomer (GetStripeDataReq cid)" "\<not> (sc_customer sc \<noteq> [] \<or> (\<not> sc_no_method sc \<and> \<not> hasInvoiceArrangement account))" for u
    unfolding stripe_writes_ok_def using that by (simp only: if_splits) blast
  have "gives (reconcileStripeAppData srv reads account cid) (\<lambda>r u. stripe_writes_ok sc (hasInvoiceArrangement account) cid u)"
  proof (cases "sc_customer sc \<noteq> [] \<or> (\<not> sc_no_method sc \<and> \<not> hasInvoiceArrangement account)")
    case True
    with assms upsert show ?thesis by (auto simp: reconcileStripeAppData_def stripe_writes_ok_def intro!: gives_ret)
  next
    case False
    have "gives (handle (GetCustomerStripeAppData srv cid)
         (\<lambda>e. if errors_is e ErrStripeAppNotConfigured then ret ''stripe-app-not-configured''
              else if errors_is e ErrStripeAppDataNotFound then
                ret (if hasInvoiceArrangement account then ''stripe-customer-missing'' else ''none'')
              else fail (Wrap ''get customer stripe app data'' [e]))
         (\<lambda>current.
            if sc_no_method sc \<and> sa_payment_method current \<noteq> None \<and> sa_payment_method current \<noteq> Some [] then
              clear_stale_method srv cid current
            else ret (stripe_state (sa_customer current) (str_or_empty (sa_payment_method current)))))
      (\<lambda>r u. stripe_writes_ok sc (hasInvoiceArrangement account) cid u)"
    proof (rule gives_handle [OF GetStripe_gives], goal_cases)
      case (1 e u)
      then have "stripe_writes_ok sc (hasInvoiceArrangement account) cid u" using quiet False by blast
      then show ?case by (intro gives_if gives_ret gives_fail) simp_all
    next
      case (2 d u)
      then have u: "\<forall>q \<in> set (sent u). q = ReqCustomer (GetStripeDataReq cid)" "d \<in> held_stripe_data u" by auto
      have "stripe_writes_ok sc (hasInvoiceArrangement account) cid (u @ v)"
        if v: "\<forall>q \<in> set (sent v). stripe_requests cid (wanted_data (sa_customer d) []) q" and no: "sc_no_method sc" for v
      proof -
        have "q = ReqCustomer (GetStripeDataReq cid) \<or> q = ReqCustomer (UpsertStripeDataReq cid (wanted_data (sa_customer d) []))"
          if "q \<in> set (sent (u @ v))" for q using that u(1) v unfolding stripe_requests_def by auto
        moreover have "d \<in> held_stripe_data (u @ v)" using u(2) by (auto simp: held_stripe_data_def)
        ultimately show ?thesis using no False unfolding stripe_writes_ok_def by auto
      qed
      moreover have "stripe_writes_ok sc (hasInvoiceArrangement account) cid (u @ [])" using quiet [OF u(1)] False by simp
      ultimately show ?case by (intro gives_if gives_ret gives_mono [OF clear]) blast+
    qed
    with assms False show ?thesis by (auto simp: reconcileStripeAppData_def)
  qed
  then show ?thesis by (simp add: gives_def)
qed

definition example_stripe_reads :: stripe_reads where
  "example_stripe_reads = \<lparr>sr_payment_method = Inl (Sentinel KubeNotFound), sr_stripe_payment_method = Inl (Sentinel KubeNotFound),
     sr_stripe_customer = Inr (Some ''other'', ''cus_0'')\<rparr>"

definition example_stripe_server :: server where
  "example_stripe_server t q = Inr (ok_answer (Some (AccountBody (StripeData
     \<lparr>sa_app_id = Some ''app'', sa_customer = ''cus_1'', sa_payment_method = Some ''pm_1''\<rparr>))))"

theorem reconcileStripeAppData_writes_witness:
  "(\<exists>u. snd (reconcileStripeAppData example_stripe_server example_stripe_reads example_account ''01C'' []) = [] @ u \<and>
     stripe_writes_ok no_payment_method (hasInvoiceArrangement example_account) ''01C'' u) \<and>
   last (sent (snd (reconcileStripeAppData example_stripe_server example_stripe_reads example_account ''01C'' []))) =
     ReqCustomer (UpsertStripeDataReq ''01C'' (wanted_data ''cus_1'' []))"
proof
  have "resolveStripeCustomer example_stripe_reads example_account = Inr no_payment_method" by code_simp
  then show "\<exists>u. snd (reconcileStripeAppData example_stripe_server example_stripe_reads example_account ''01C'' []) = [] @ u \<and>
     stripe_writes_ok no_payment_method (hasInvoiceArrangement example_account) ''01C'' u"
    by (rule reconcileStripeAppData_writes)
qed code_simp

end
