(* ===== verification/InvoiceProjection.thy ===== *)
theory InvoiceProjection
  imports StripeApi StripeCustomers
begin

text \<open>
  The projection of an OpenMeter invoice onto a Milo Invoice
  (\<open>internal/controller/invoice_sync.go\<close>) and the payment attempts it looks at
  (\<open>invoice_events.go\<close>): status, name, period, amounts, link, annotations, and the writes.
\<close>

section \<open>State\<close>

record milo_invoice =
  mv_meta :: kube_meta
  mv_account :: go_string
  mv_period :: invoice_period
  mv_status :: milo_status

text \<open>
  What the operations are run with: fuel of the listings, the server, the clock (the time at
  a point of a run), \<open>apimeta.SetStatusCondition\<close>, \<open>time.Parse\<close> for RFC 3339, the metadata the
  API server gives a created Invoice, and what a read of an Invoice by name returns at a
  point of a run.
\<close>

record sync_env =
  sy_fuel :: nat
  sy_srv :: server
  sy_clock :: "exchanges \<Rightarrow> int"
  sy_set_condition :: "condition \<Rightarrow> condition list \<Rightarrow> condition list"
  sy_parse_time :: "go_string \<Rightarrow> int option"
  sy_created_generation :: int
  sy_get_invoice :: "go_string \<Rightarrow> exchanges \<Rightarrow> milo_invoice res"

definition milo_key :: "milo_invoice \<Rightarrow> object_key" where
  "milo_key obj = object_key_of ''Invoice'' (mv_meta obj)"

definition InvoiceKeyAnnotation :: go_string where "InvoiceKeyAnnotation = ''openmeter.miloapis.com/invoiceId''"
definition InvoiceDocumentFetchedAtAnnotation :: go_string where
  "InvoiceDocumentFetchedAtAnnotation = ''openmeter.miloapis.com/documentUriFetchedAt''"
definition StripeInvoiceKeyAnnotation :: go_string where "StripeInvoiceKeyAnnotation = ''openmeter.miloapis.com/stripeInvoiceId''"
definition StripeInvoiceNumberAnnotation :: go_string where "StripeInvoiceNumberAnnotation = ''openmeter.miloapis.com/stripeInvoiceNumber''"
definition PaymentAttemptsReportedAnnotation :: go_string where
  "PaymentAttemptsReportedAnnotation = ''openmeter.miloapis.com/paymentAttemptsReported''"
definition documentURIRefreshAfter :: int where "documentURIRefreshAfter = 7 * day_ns"
definition maxInvoiceNameLength :: nat where "maxInvoiceNameLength = 253"
definition invoiceNameHashLength :: nat where "invoiceNameHashLength = 10"

section \<open>Status, period, name\<close>

definition mapInvoiceStatus :: "go_string \<Rightarrow> go_string option" where
  "mapInvoiceStatus status =
    (if status = ''issued'' \<or> status = ''payment_processing'' then Some ''Open''
     else if status = ''overdue'' then Some ''PastDue''
     else if status = ''paid'' then Some ''Paid''
     else if status = ''voided'' \<or> status = ''uncollectible'' then Some ''Void''
     else None)"

definition invoicePeriodStart :: "om_invoice \<Rightarrow> int" where
  "invoicePeriodStart iv = (case in_period iv of Some (from, _) \<Rightarrow> from | None \<Rightarrow> in_created_at iv)"

definition invoicePeriod :: "om_invoice \<Rightarrow> invoice_period" where
  "invoicePeriod iv =
    (let start = truncate_second (invoicePeriodStart iv);
         stop = (case in_period iv of
             Some (_, to) \<Rightarrow> (let final = truncate_second (to - 1) in if start < final then final else start)
           | None \<Rightarrow> start)
     in \<lparr>ip_start = start, ip_end = stop\<rparr>)"

text \<open>\<open>strings.TrimRight(s, "-.")\<close>.\<close>

definition trim_dashes :: "go_string \<Rightarrow> go_string" where
  "trim_dashes s = rev (dropWhile (\<lambda>c. c = CHR ''-'' \<or> c = CHR ''.'') (rev s))"

definition invoiceObjectName :: "go_string \<Rightarrow> int \<Rightarrow> go_string \<Rightarrow> go_string" where
  "invoiceObjectName accountName start i =
    (case year_month start of (y, m) \<Rightarrow>
       let suffix = ''-'' @ int_text4 y @ ''-'' @ int_text2 m @ ''-'' @ take invoiceNameHashLength (sha256_hex i)
       in (if length accountName + length suffix > maxInvoiceNameLength
           then trim_dashes (take (maxInvoiceNameLength - length suffix) accountName) else accountName) @ suffix)"

definition invoiceName :: "go_string \<Rightarrow> om_invoice \<Rightarrow> go_string" where
  "invoiceName accountName iv = invoiceObjectName accountName (invoicePeriodStart iv) (in_id iv)"

definition openMeterStripeInvoiceID :: "om_invoice \<Rightarrow> go_string" where
  "openMeterStripeInvoiceID iv = deref (in_stripe_id iv)"

section \<open>Amounts\<close>

definition invoiceAmounts :: "om_invoice \<Rightarrow> go_string \<Rightarrow> go_string \<times> go_string" where
  "invoiceAmounts iv phase =
    (if phase = ''Paid'' then (in_total iv, ''0'')
     else if phase = ''Void'' \<and> in_status iv \<noteq> ''uncollectible'' then (''0'', ''0'')
     else (''0'', in_total iv))"

definition stripeInvoiceAmounts :: "om_invoice \<Rightarrow> stripe_invoice option \<Rightarrow> (go_string \<times> go_string) option" where
  "stripeInvoiceAmounts iv inStripe =
    (case inStripe of
       None \<Rightarrow> None
     | Some s \<Rightarrow>
       if to_upper (si_currency s) \<noteq> to_upper (in_currency iv) then None
       else (let paid = FormatAmount (si_amount_paid s) (si_currency s);
                 remaining = FormatAmount (si_amount_remaining s) (si_currency s);
                 phase = deref (mapInvoiceStatus (in_status iv))
             in if si_status s = StripeInvoiceStatusOpen \<and> (phase = ''Open'' \<or> phase = ''PastDue'') then Some (paid, remaining)
                else if si_status s = StripeInvoiceStatusUncollectible \<and> in_status iv = ''uncollectible'' then Some (paid, remaining)
                else if si_status s = StripeInvoiceStatusPaid \<and> phase = ''Paid'' then Some (paid, ''0'')
                else None))"

definition ready_condition :: "bool \<Rightarrow> go_string \<Rightarrow> go_string \<Rightarrow> int \<Rightarrow> condition" where
  "ready_condition ok reason message generation =
    \<lparr>cd_type = ''Ready'', cd_status = (if ok then ''True'' else ''False''), cd_reason = reason, cd_message = message,
     cd_generation = generation\<rparr>"

definition mismatch_text :: "go_string \<Rightarrow> go_string \<Rightarrow> go_string" where
  "mismatch_text a b = ''invoice currency '' @ json_quote a @ '' does not match BillingAccount currency '' @ json_quote b"

definition projectInvoiceStatus :: "sync_env \<Rightarrow> milo_invoice \<Rightarrow> billing_account \<Rightarrow> om_invoice \<Rightarrow> int \<Rightarrow> milo_status" where
  "projectInvoiceStatus env obj account iv now =
    (let deleted = IsInvoiceDeleted iv; before = mv_status obj; gen = km_generation (mv_meta obj) in
     case (if deleted then Some ''Void'' else mapInvoiceStatus (in_status iv)) of
       None \<Rightarrow> before
     | Some phase \<Rightarrow>
       (let amounts = invoiceAmounts iv phase;
            paid_at = (if phase \<noteq> ''Paid'' then None
              else case ms_paid_at before of
                Some p \<Rightarrow> Some p
              | None \<Rightarrow> Some (if in_updated_at iv = zero_time then now else in_updated_at iv));
            mismatch = in_currency iv \<noteq> [] \<and> ba_currency account \<noteq> [] \<and> in_currency iv \<noteq> ba_currency account;
            message = (if deleted then ''Invoice was deleted in OpenMeter before it was issued''
              else if in_status iv = ''uncollectible'' then ''Invoice marked uncollectible in OpenMeter (written off); amountDue is the unpaid balance''
              else ''Invoice projected from OpenMeter with status '' @ in_status iv);
            ready = (if mismatch then ready_condition False ''CurrencyMismatch'' (mismatch_text (in_currency iv) (ba_currency account)) gen
              else ready_condition True phase message gen)
        in before\<lparr>ms_phase := phase, ms_currency := in_currency iv, ms_total := in_total iv, ms_amount_paid := fst amounts,
             ms_amount_due := snd amounts, ms_generation := gen,
             ms_due_date := (if deleted then None else in_due_at iv), ms_paid_at := paid_at,
             ms_conditions := sy_set_condition env ready (ms_conditions before)\<rparr>))"

section \<open>Payment attempts\<close>

text \<open>\<open>strconv.ParseInt(s, 10, 64)\<close> with its error ignored: 0 for no number, the nearest bound for one out of range.\<close>

definition parse_int64 :: "go_string \<Rightarrow> int" where
  "parse_int64 s =
    (let neg = (s \<noteq> [] \<and> hd s = CHR ''-'');
         ds = (if s \<noteq> [] \<and> (hd s = CHR ''-'' \<or> hd s = CHR ''+'') then tl s else s)
     in if ds = [] then 0
        else case digits_value 0 ds of None \<Rightarrow> 0 | Some v \<Rightarrow> max (- (2 ^ 63)) (min (2 ^ 63 - 1) (if neg then - v else v)))"

datatype decline_reason = Declined | InsufficientFunds | ExpiredCard | AuthenticationRequired | ProcessingError

definition declineReason :: "payment_attempt option \<Rightarrow> decline_reason" where
  "declineReason attempt =
    (case attempt of
       None \<Rightarrow> Declined
     | Some a \<Rightarrow>
       (let is = (\<lambda>codes. at_error_code a \<in> set codes \<or> at_decline_code a \<in> set codes) in
        if is [''insufficient_funds''] then InsufficientFunds
        else if is [''expired_card''] then ExpiredCard
        else if is [''authentication_required'', ''payment_intent_authentication_failure''] then AuthenticationRequired
        else if is [''processing_error'', ''issuer_not_available'', ''try_again_later'', ''reenter_transaction'']
          \<or> at_error_type a \<in> {''api_error'', ''api_connection_error'', ''rate_limit_error''} then ProcessingError
        else Declined))"

text \<open>The timeline event of an attempt: its amount and currency, the reason and the next attempt.\<close>

datatype attempt_event =
    PaymentActionRequired go_string go_string
  | PaymentFailed go_string go_string decline_reason "int option"

definition attempt_outcome :: "stripe_invoice \<Rightarrow> payment_attempt option \<Rightarrow> go_string \<Rightarrow> go_string \<Rightarrow> attempt_event option \<times> go_string" where
  "attempt_outcome s attempt current lookAgain =
    (let status = (case attempt of None \<Rightarrow> [] | Some a \<Rightarrow> at_status a);
         amount = FormatAmount (si_amount_remaining s) (si_currency s)
     in if status = ''processing'' then (None, lookAgain)
        else if status = ''succeeded'' then (None, current)
        else if status = ''requires_action'' then (Some (PaymentActionRequired amount (si_currency s)), current)
        else (Some (PaymentFailed amount (si_currency s) (declineReason attempt) (si_next_attempt s)), current))"

definition paymentAttemptEvent :: "sync_env \<Rightarrow> milo_invoice \<Rightarrow> stripe_invoice option \<Rightarrow> (attempt_event option \<times> go_string) api" where
  "paymentAttemptEvent env obj inStripe =
    (case inStripe of
       None \<Rightarrow> ret (None, [])
     | Some s \<Rightarrow>
       (let current = int_text (si_attempt_count s);
            stored = map_of (km_annotations (mv_meta obj)) PaymentAttemptsReportedAnnotation;
            reported = parse_int64 (deref stored);
            lookAgain = (if stored = None then int_text reported else [])
        in if stored = None \<and> ms_phase (mv_status obj) \<noteq> [] then ret (None, current)
           else if si_attempt_count s \<le> reported then ret (None, lookAgain)
           else if si_status s \<noteq> StripeInvoiceStatusOpen then ret (None, current)
           else handle (LatestPaymentAttempt (sy_srv env) s)
             (\<lambda>_. ret (None, lookAgain))
             (\<lambda>attempt. ret (attempt_outcome s attempt current lookAgain))))"

section \<open>Link and annotations\<close>

definition documentURIDue :: "sync_env \<Rightarrow> milo_invoice \<Rightarrow> int \<Rightarrow> bool" where
  "documentURIDue env obj now \<longleftrightarrow>
    ms_document_uri (mv_status obj) = [] \<or>
    (case sy_parse_time env (annotation (mv_meta obj) InvoiceDocumentFetchedAtAnnotation) of
       None \<Rightarrow> True
     | Some fetchedAt \<Rightarrow> now - fetchedAt \<ge> documentURIRefreshAfter)"

definition invoiceDocumentURI :: "sync_env \<Rightarrow> milo_invoice \<Rightarrow> om_invoice \<Rightarrow> stripe_invoice option \<Rightarrow> int \<Rightarrow> go_string option api" where
  "invoiceDocumentURI env obj iv inStripe now =
    (let stripeInvoiceID = openMeterStripeInvoiceID iv in
     if IsInvoiceDeleted iv \<or> stripeInvoiceID = [] \<or> \<not> documentURIDue env obj now then ret None
     else case inStripe of
       Some s \<Rightarrow> ret (if si_hosted_url s = [] then None else Some (si_hosted_url s))
     | None \<Rightarrow> handle (HostedInvoiceURL (sy_srv env) stripeInvoiceID) (\<lambda>_. ret None)
         (\<lambda>uri. ret (if uri = [] then None else Some uri)))"

definition stripe_annotations :: "stripe_invoice option \<Rightarrow> str_map" where
  "stripe_annotations inStripe =
    (case inStripe of
       None \<Rightarrow> []
     | Some s \<Rightarrow> (StripeInvoiceKeyAnnotation, si_id s) # (if si_number s = [] then [] else [(StripeInvoiceNumberAnnotation, si_number s)]))"

definition needsAnnotations :: "milo_invoice \<Rightarrow> str_map \<Rightarrow> bool" where
  "needsAnnotations obj want = list_ex (\<lambda>(k, v). annotation (mv_meta obj) k \<noteq> v) want"

definition with_annotations :: "str_map \<Rightarrow> kube_meta \<Rightarrow> kube_meta" where
  "with_annotations want m = m\<lparr>km_annotations := fold (\<lambda>(k, v). AList.update k v) want (km_annotations m)\<rparr>"

text \<open>The patched object, as the API server returns it.\<close>

definition patchInvoiceAnnotations :: "sync_env \<Rightarrow> milo_invoice \<Rightarrow> str_map \<Rightarrow> milo_invoice api" where
  "patchInvoiceAnnotations env obj want =
    (if needsAnnotations obj want then
       (let m = with_annotations want (mv_meta obj) in
        and_then (wrapping ''patch Invoice metadata'' (kube_call (sy_srv env) (PatchAnnotations (milo_key obj) (km_annotations m))))
          (\<lambda>_. ret (obj\<lparr>mv_meta := m\<rparr>)))
     else ret obj)"

section \<open>Writing a projection\<close>

definition projected_status :: "sync_env \<Rightarrow> milo_invoice \<Rightarrow> billing_account \<Rightarrow> om_invoice \<Rightarrow> stripe_invoice option \<Rightarrow>
    go_string option \<Rightarrow> int \<Rightarrow> milo_status" where
  "projected_status env obj account iv inStripe uri now =
    (let st = projectInvoiceStatus env obj account iv now; before = mv_status obj;
         st = (case stripeInvoiceAmounts iv inStripe of
             Some (paid, due) \<Rightarrow> st\<lparr>ms_amount_paid := paid, ms_amount_due := due\<rparr>
           | None \<Rightarrow>
               if inStripe = None \<and> annotation (mv_meta obj) StripeInvoiceKeyAnnotation \<noteq> [] \<and> ms_phase st = ms_phase before
               then st\<lparr>ms_amount_paid := ms_amount_paid before, ms_amount_due := ms_amount_due before\<rparr>
               else st)
     in case uri of None \<Rightarrow> st | Some u \<Rightarrow> st\<lparr>ms_document_uri := u\<rparr>)"

definition patch_status :: "sync_env \<Rightarrow> milo_invoice \<Rightarrow> milo_status \<Rightarrow> unit api" where
  "patch_status env obj st = wrapping ''patch Invoice status'' (kube_call (sy_srv env) (PatchInvoiceStatus (milo_key obj) st))"

definition patchInvoiceStatus :: "sync_env \<Rightarrow> milo_invoice \<Rightarrow> billing_account \<Rightarrow> om_invoice \<Rightarrow> stripe_invoice option \<Rightarrow> unit api" where
  "patchInvoiceStatus env obj account iv inStripe t =
    (let now = sy_clock env t in
     and_then (invoiceDocumentURI env obj iv inStripe now) (\<lambda>uri.
     and_then (paymentAttemptEvent env obj inStripe) (\<lambda>(_, attempts).
       let want = [(InvoiceKeyAnnotation, in_id iv)]
             @ (if uri = None then [] else [(InvoiceDocumentFetchedAtAnnotation, format_rfc3339 now)])
             @ stripe_annotations inStripe
             @ (if attempts = [] then [] else [(PaymentAttemptsReportedAnnotation, attempts)])
       in and_then (patchInvoiceAnnotations env obj want) (\<lambda>obj.
            patch_status env obj (projected_status env obj account iv inStripe uri now)))) t)"

text \<open>A new Invoice: owned by its account, with its period, and an empty status.\<close>

definition invoice_body :: "billing_account \<Rightarrow> go_string \<Rightarrow> str_map \<Rightarrow> invoice_period \<Rightarrow> invoice_create" where
  "invoice_body account name annotations period =
    \<lparr>ic_key = \<lparr>ok_kind = ''Invoice'', ok_namespace = km_namespace (ba_meta account), ok_name = name\<rparr>,
     ic_annotations = annotations, ic_owner_name = km_name (ba_meta account), ic_owner_uid = km_uid (ba_meta account),
     ic_account_ref = km_name (ba_meta account), ic_period = period\<rparr>"

definition empty_status :: milo_status where
  "empty_status = \<lparr>ms_phase = [], ms_currency = [], ms_total = [], ms_amount_paid = [], ms_amount_due = [], ms_generation = 0,
     ms_due_date = None, ms_paid_at = None, ms_document_uri = [], ms_conditions = []\<rparr>"

definition created_invoice :: "sync_env \<Rightarrow> invoice_create \<Rightarrow> milo_invoice" where
  "created_invoice env b =
    \<lparr>mv_meta = \<lparr>km_namespace = ok_namespace (ic_key b), km_name = ok_name (ic_key b), km_uid = [],
       km_generation = sy_created_generation env, km_deleting = False, km_finalizers = [], km_annotations = ic_annotations b\<rparr>,
     mv_account = ic_account_ref b, mv_period = ic_period b, mv_status = empty_status\<rparr>"

text \<open>Creating an Invoice, or finding the one of that name if it is the projection wanted.\<close>

definition create_or_get :: "sync_env \<Rightarrow> invoice_create \<Rightarrow> (milo_invoice \<Rightarrow> bool) \<Rightarrow> milo_invoice api" where
  "create_or_get env b wanted =
    handle (kube_create (sy_srv env) (CreateInvoice b))
      (\<lambda>e. if \<not> errors_is e KubeAlreadyExists then fail (Wrap ''create Invoice'' [e])
           else (\<lambda>t. case sy_get_invoice env (ok_name (ic_key b)) t of
               Inl ge \<Rightarrow> fail (Wrap ''create race re-get Invoice'' [ge]) t
             | Inr existing \<Rightarrow>
               if wanted existing then ret existing t
               else fail (Leaf (''invoice maps to Invoice '' @ ok_name (ic_key b) @ '', which projects another invoice'')) t))
      (\<lambda>_. ret (created_invoice env b))"

definition createInvoice :: "sync_env \<Rightarrow> billing_account \<Rightarrow> om_invoice \<Rightarrow> go_string \<Rightarrow> stripe_invoice option \<Rightarrow> unit api" where
  "createInvoice env account iv name inStripe =
    and_then (create_or_get env (invoice_body account name [(InvoiceKeyAnnotation, in_id iv)] (invoicePeriod iv))
        (\<lambda>obj. annotation (mv_meta obj) InvoiceKeyAnnotation = in_id iv))
      (\<lambda>obj. patchInvoiceStatus env obj account iv inStripe)"

definition mark_not_found :: "sync_env \<Rightarrow> milo_invoice \<Rightarrow> go_string \<Rightarrow> go_string \<Rightarrow> unit api" where
  "mark_not_found env obj reason message =
    patch_status env obj ((mv_status obj)\<lparr>ms_conditions :=
      sy_set_condition env (ready_condition False reason message (km_generation (mv_meta obj))) (ms_conditions (mv_status obj))\<rparr>)"

definition markInvoiceNotFound :: "sync_env \<Rightarrow> milo_invoice \<Rightarrow> go_string \<Rightarrow> unit api" where
  "markInvoiceNotFound env obj invoiceID =
    mark_not_found env obj ''NotFoundInOpenMeter''
      (''OpenMeter invoice '' @ invoiceID @ '' is no longer listed for this billing account's customer'')"

end
