(* ===== verification/InvoiceSync.thy ===== *)
theory InvoiceSync
  imports InvoiceProjection "HOL-Library.Product_Lexorder"
begin

text \<open>
  The invoices of an account, synchronised (\<open>reconcileInvoices\<close> of
  \<open>internal/controller/invoice_sync.go\<close>, \<open>stripe_invoice_sync.go\<close>): every issued OpenMeter
  invoice and every finalized invoice staff created in Stripe gets one Milo Invoice, kept
  up to date; a failure on one does not stop the others.

  The lists of Invoices the informer cache returned are arguments. The order in which Go
  ranges over a map is a parameter too.
\<close>

section \<open>Invoices created in Stripe\<close>

definition StripeMetadataMiloInvoice :: go_string where "StripeMetadataMiloInvoice = ''milo_invoice''"
definition StripeMetadataMiloBillingAccount :: go_string where "StripeMetadataMiloBillingAccount = ''milo_billing_account''"

definition listStripeInvoices :: "sync_env \<Rightarrow> stripe_reads \<Rightarrow> billing_account \<Rightarrow> (stripe_invoice list \<times> bool) api" where
  "listStripeInvoices env reads account =
    (case resolveStripeCustomer reads account of
       Inl e \<Rightarrow> fail (Wrap ''resolve stripe customer for invoices'' [e])
     | Inr customer \<Rightarrow>
       if sc_customer customer = [] then ret ([], False)
       else and_then (ListCustomerInvoices (sy_srv env) (sc_customer customer)) (\<lambda>invoices. ret (invoices, True)))"

definition metadata_value :: "stripe_invoice \<Rightarrow> go_string \<Rightarrow> go_string" where
  "metadata_value s k = deref (map_of (si_metadata s) k)"

definition openMeterCreated :: "om_invoice list \<Rightarrow> stripe_invoice \<Rightarrow> bool" where
  "openMeterCreated invoices s \<longleftrightarrow>
    list_ex (\<lambda>iv. openMeterStripeInvoiceID iv \<noteq> [] \<and> openMeterStripeInvoiceID iv = si_id s) invoices \<or>
    list_ex (\<lambda>iv. openMeterStripeInvoiceID iv = [] \<and> in_id iv = metadata_value s MetadataOpenMeterInvoiceID) invoices"

definition stripeInvoicePhase :: "stripe_invoice \<Rightarrow> int \<Rightarrow> go_string option" where
  "stripeInvoicePhase s now =
    (if si_status s = StripeInvoiceStatusOpen then
       Some (case si_due_date s of None \<Rightarrow> ''Open'' | Some due \<Rightarrow> if due < now then ''PastDue'' else ''Open'')
     else if si_status s = StripeInvoiceStatusPaid then Some ''Paid''
     else if si_status s = StripeInvoiceStatusVoid \<or> si_status s = StripeInvoiceStatusUncollectible then Some ''Void''
     else None)"

definition stripeInvoicePeriod :: "stripe_invoice \<Rightarrow> invoice_period" where
  "stripeInvoicePeriod s =
    (let start = truncate_second (if si_period_start s = zero_time then si_created s else si_period_start s);
         final = truncate_second (si_period_end s - 1)
     in \<lparr>ip_start = start, ip_end = (if start < final then final else start)\<rparr>)"

definition stripeInvoiceLabel :: "stripe_invoice \<Rightarrow> go_string" where
  "stripeInvoiceLabel s = (if si_number s = [] then si_id s else si_number s @ '', '' @ si_id s)"

definition projectStripeInvoiceStatus :: "sync_env \<Rightarrow> milo_invoice \<Rightarrow> billing_account \<Rightarrow> stripe_invoice \<Rightarrow> int \<Rightarrow> milo_status" where
  "projectStripeInvoiceStatus env obj account s now =
    (let before = mv_status obj; gen = km_generation (mv_meta obj); cur = si_currency s in
     case stripeInvoicePhase s now of
       None \<Rightarrow> before
     | Some phase \<Rightarrow>
       (let due = (if si_status s = StripeInvoiceStatusVoid \<or> si_status s = StripeInvoiceStatusPaid then ''0''
              else FormatAmount (si_amount_remaining s) cur);
            message = (if si_status s = StripeInvoiceStatusUncollectible
              then ''Invoice created in Stripe ('' @ stripeInvoiceLabel s @ '') and marked uncollectible (written off); amountDue is the unpaid balance''
              else ''Invoice created in Stripe ('' @ stripeInvoiceLabel s @ ''), projected with status '' @ si_status s);
            mismatch = cur \<noteq> [] \<and> ba_currency account \<noteq> [] \<and> cur \<noteq> ba_currency account;
            ready = (if mismatch then ready_condition False ''CurrencyMismatch'' (mismatch_text cur (ba_currency account)) gen
              else ready_condition True phase message gen)
        in before\<lparr>ms_phase := phase, ms_currency := cur, ms_total := FormatAmount (si_total s) cur,
             ms_amount_paid := FormatAmount (si_amount_paid s) cur, ms_amount_due := due, ms_generation := gen,
             ms_due_date := si_due_date s,
             ms_paid_at := (if phase = ''Paid'' then Some (case si_paid_at s of None \<Rightarrow> now | Some p \<Rightarrow> p) else None),
             ms_conditions := sy_set_condition env ready (ms_conditions before)\<rparr>))"

definition patchStripeInvoiceStatus :: "sync_env \<Rightarrow> milo_invoice \<Rightarrow> billing_account \<Rightarrow> stripe_invoice \<Rightarrow> unit api" where
  "patchStripeInvoiceStatus env obj account s t =
    (let now = sy_clock env t; refreshLink = (si_hosted_url s \<noteq> [] \<and> documentURIDue env obj now) in
     and_then (paymentAttemptEvent env obj (Some s)) (\<lambda>(_, attempts).
       let want = stripe_annotations (Some s)
             @ (if refreshLink then [(InvoiceDocumentFetchedAtAnnotation, format_rfc3339 now)] else [])
             @ (if attempts = [] then [] else [(PaymentAttemptsReportedAnnotation, attempts)])
       in and_then (patchInvoiceAnnotations env obj want) (\<lambda>obj.
            let st = projectStripeInvoiceStatus env obj account s now
            in patch_status env obj (if refreshLink then st\<lparr>ms_document_uri := si_hosted_url s\<rparr> else st))) t)"

definition createStripeInvoice :: "sync_env \<Rightarrow> billing_account \<Rightarrow> stripe_invoice \<Rightarrow> unit api" where
  "createStripeInvoice env account s =
    (let period = stripeInvoicePeriod s in
     and_then (create_or_get env
         (invoice_body account (invoiceObjectName (km_name (ba_meta account)) (ip_start period) (si_id s))
            [(StripeInvoiceKeyAnnotation, si_id s)] period)
         (\<lambda>obj. annotation (mv_meta obj) InvoiceKeyAnnotation = [] \<and> annotation (mv_meta obj) StripeInvoiceKeyAnnotation = si_id s))
       (\<lambda>obj. patchStripeInvoiceStatus env obj account s))"

definition markStripeInvoiceNotFound :: "sync_env \<Rightarrow> milo_invoice \<Rightarrow> go_string \<Rightarrow> unit api" where
  "markStripeInvoiceNotFound env obj stripeInvoiceID =
    mark_not_found env obj ''NotFoundInStripe''
      (''Stripe invoice '' @ stripeInvoiceID @ '' is no longer listed for this billing account's Stripe customer'')"

section \<open>One after the other\<close>

text \<open>Each element is attempted; the errors are collected.\<close>

fun attempt_each :: "('a \<Rightarrow> unit api) \<Rightarrow> 'a list \<Rightarrow> exchanges \<Rightarrow> go_error list \<times> exchanges" where
  "attempt_each f [] t = ([], t)"
| "attempt_each f (x # xs) t =
    (case f x t of (r, t') \<Rightarrow> case attempt_each f xs t' of (es, t'') \<Rightarrow>
       ((case r of Inl e \<Rightarrow> e # es | Inr _ \<Rightarrow> es), t''))"

text \<open>The existing projections: by OpenMeter's invoice id, or by Stripe's; of two with one id the smaller name wins.\<close>

definition keep_projection :: "milo_invoice \<Rightarrow> go_string \<Rightarrow> (go_string \<times> milo_invoice) list \<Rightarrow> (go_string \<times> milo_invoice) list" where
  "keep_projection obj i out =
    (case map_of out i of
       Some current \<Rightarrow> if km_name (mv_meta current) < km_name (mv_meta obj) then out else AList.update i obj out
     | None \<Rightarrow> AList.update i obj out)"

definition add_projection :: "billing_account \<Rightarrow> milo_invoice \<Rightarrow>
    (go_string \<times> milo_invoice) list \<times> (go_string \<times> milo_invoice) list \<Rightarrow> (go_string \<times> milo_invoice) list \<times> (go_string \<times> milo_invoice) list" where
  "add_projection account obj acc =
    (if mv_account obj \<noteq> km_name (ba_meta account) then acc
     else (let i = annotation (mv_meta obj) InvoiceKeyAnnotation; j = annotation (mv_meta obj) StripeInvoiceKeyAnnotation in
       if i \<noteq> [] then (keep_projection obj i (fst acc), snd acc)
       else if j \<noteq> [] then (fst acc, keep_projection obj j (snd acc))
       else acc))"

definition projectedInvoices :: "billing_account \<Rightarrow> milo_invoice list \<Rightarrow>
    (go_string \<times> milo_invoice) list \<times> (go_string \<times> milo_invoice) list" where
  "projectedInvoices account objs = fold (add_projection account) objs ([], [])"

section \<open>Naming Stripe's invoices\<close>

definition add_name :: "billing_account \<Rightarrow> milo_invoice \<Rightarrow> str_map \<Rightarrow> str_map" where
  "add_name account obj names =
    (let i = annotation (mv_meta obj) StripeInvoiceKeyAnnotation; name = km_name (mv_meta obj) in
     if i = [] \<or> mv_account obj \<noteq> km_name (ba_meta account) then names
     else case map_of names i of
       Some current \<Rightarrow> if name < current then AList.update i name names else names
     | None \<Rightarrow> AList.update i name names)"

definition milo_metadata :: "billing_account \<Rightarrow> go_string \<Rightarrow> str_map" where
  "milo_metadata account name = [(StripeMetadataMiloInvoice, name), (StripeMetadataMiloBillingAccount, km_name (ba_meta account))]"

definition write_name :: "sync_env \<Rightarrow> billing_account \<Rightarrow> str_map \<Rightarrow> stripe_invoice \<Rightarrow> unit api" where
  "write_name env account names s =
    (let name = deref (map_of names (si_id s)) in
     if name = [] \<or> si_status s = StripeInvoiceStatusDraft
        \<or> (metadata_value s StripeMetadataMiloInvoice = name \<and> metadata_value s StripeMetadataMiloBillingAccount = km_name (ba_meta account))
     then ret ()
     else SetInvoiceMetadata (sy_srv env) (si_id s) (milo_metadata account name))"

text \<open>A failed listing, or a failed write of a name, is only logged.\<close>

definition writeMiloInvoiceNames :: "sync_env \<Rightarrow> billing_account \<Rightarrow> milo_invoice list res \<Rightarrow> stripe_invoice list \<Rightarrow> exchanges \<Rightarrow> exchanges" where
  "writeMiloInvoiceNames env account listed stripeInvoices t =
    (case listed of
       Inl _ \<Rightarrow> t
     | Inr objs \<Rightarrow> snd (attempt_each (write_name env account (fold (add_name account) objs [])) stripeInvoices t))"

section \<open>Synchronising\<close>

definition sync_stripe_invoice :: "sync_env \<Rightarrow> billing_account \<Rightarrow> om_invoice list \<Rightarrow> (go_string \<times> milo_invoice) list \<Rightarrow> stripe_invoice \<Rightarrow> unit api" where
  "sync_stripe_invoice env account invoices stripeOnly s t =
    (if openMeterCreated invoices s then ret () t
     else if stripeInvoicePhase s (sy_clock env t) = None then ret () t
     else wrapping (''upsert Stripe invoice '' @ si_id s)
       (case map_of stripeOnly (si_id s) of
          Some existing \<Rightarrow> patchStripeInvoiceStatus env existing account s
        | None \<Rightarrow> createStripeInvoice env account s) t)"

text \<open>What a pass reads from the cache and how Go ranges over its maps.\<close>

record sync_reads =
  rd_stripe :: stripe_reads
  rd_invoices :: "milo_invoice list res"
  rd_invoices_again :: "milo_invoice list res"
  rd_range :: "(go_string \<times> milo_invoice) list \<Rightarrow> (go_string \<times> milo_invoice) list"

definition unlisted :: "sync_reads \<Rightarrow> go_string list \<Rightarrow> (go_string \<times> milo_invoice) list \<Rightarrow> (go_string \<times> milo_invoice) list" where
  "unlisted reads ids projected = filter (\<lambda>(i, obj). i \<notin> set ids) (rd_range reads projected)"

definition reconcileStripeInvoices :: "sync_env \<Rightarrow> sync_reads \<Rightarrow> billing_account \<Rightarrow> om_invoice list \<Rightarrow> stripe_invoice list \<Rightarrow>
    (go_string \<times> milo_invoice) list \<Rightarrow> exchanges \<Rightarrow> go_error list \<times> exchanges" where
  "reconcileStripeInvoices env reads account invoices stripeInvoices stripeOnly t =
    (let ordered = sort_key (\<lambda>s. (si_created s, si_id s)) stripeInvoices in
     case attempt_each (sync_stripe_invoice env account invoices stripeOnly) ordered t of (errs, t1) \<Rightarrow>
     case attempt_each (\<lambda>(i, obj). markStripeInvoiceNotFound env obj i) (unlisted reads (map si_id ordered) stripeOnly) t1 of (errs', t2) \<Rightarrow>
       (errs @ errs', writeMiloInvoiceNames env account (rd_invoices_again reads) ordered t2))"

definition find_stripe :: "stripe_invoice list \<Rightarrow> go_string \<Rightarrow> stripe_invoice option" where
  "find_stripe stripeInvoices i = List.find (\<lambda>s. si_id s = i) (rev stripeInvoices)"

definition sync_invoice :: "sync_env \<Rightarrow> billing_account \<Rightarrow> (go_string \<times> milo_invoice) list \<Rightarrow> stripe_invoice list \<Rightarrow> om_invoice \<Rightarrow> unit api" where
  "sync_invoice env account projected stripeInvoices iv =
    (let existing = map_of projected (in_id iv); inStripe = find_stripe stripeInvoices (openMeterStripeInvoiceID iv) in
     if IsInvoiceDeleted iv then
       (case existing of
          None \<Rightarrow> ret ()
        | Some obj \<Rightarrow> wrapping (''close out Invoice for deleted invoice '' @ in_id iv) (patchInvoiceStatus env obj account iv None))
     else if mapInvoiceStatus (in_status iv) = None then ret ()
     else wrapping (''upsert invoice '' @ in_id iv)
       (case existing of
          Some obj \<Rightarrow> patchInvoiceStatus env obj account iv inStripe
        | None \<Rightarrow> createInvoice env account iv (invoiceName (km_name (ba_meta account)) iv) inStripe))"

definition joined :: "go_error list \<Rightarrow> unit res" where
  "joined errs = (if errs = [] then Inr () else Inl (Wrap [] errs))"

definition sync_listed :: "sync_env \<Rightarrow> sync_reads \<Rightarrow> billing_account \<Rightarrow> om_invoice list \<Rightarrow> milo_invoice list \<Rightarrow> unit api" where
  "sync_listed env reads account invoices objs t =
    (let (projected, stripeOnly) = projectedInvoices account objs in
     case listStripeInvoices env (rd_stripe reads) account t of (listing, t1) \<Rightarrow>
     let (errs0, stripeInvoices, listedInStripe) = (case listing of Inl e \<Rightarrow> ([e], [], False) | Inr (ss, ok) \<Rightarrow> ([], ss, ok));
         ordered = sort_key (\<lambda>iv. (in_created_at iv, in_id iv)) invoices in
     case attempt_each (sync_invoice env account projected stripeInvoices) ordered t1 of (errs1, t2) \<Rightarrow>
     case attempt_each (\<lambda>(i, obj). markInvoiceNotFound env obj i) (unlisted reads (map in_id ordered) projected) t2 of (errs2, t3) \<Rightarrow>
     if listedInStripe then
       (case reconcileStripeInvoices env reads account ordered stripeInvoices stripeOnly t3 of (errs3, t4) \<Rightarrow>
          (joined (errs0 @ errs1 @ errs2 @ errs3), t4))
     else (joined (errs0 @ errs1 @ errs2), t3))"

definition reconcileInvoices :: "sync_env \<Rightarrow> sync_reads \<Rightarrow> billing_account \<Rightarrow> go_string \<Rightarrow> unit api" where
  "reconcileInvoices env reads account customerID =
    and_then (wrapping ''list invoices'' (ListInvoicesIncludingDeleted (sy_fuel env) (sy_srv env) customerID)) (\<lambda>invoices.
      case rd_invoices reads of
        Inl e \<Rightarrow> fail (Wrap ''list Invoices'' [e])
      | Inr objs \<Rightarrow> sync_listed env reads account invoices objs)"

section \<open>Names and periods\<close>

lemma length_nat_digits_4: "n < 10000 \<Longrightarrow> length (nat_digits n) \<le> 4"
  by (simp add: nat_digits.simps [of n] nat_digits.simps [of "n div 10"] nat_digits.simps [of "n div 10 div 10"]
      nat_digits.simps [of "n div 10 div 10 div 10"])

lemma length_trim_dashes: "length (trim_dashes s) \<le> length s"
  unfolding trim_dashes_def using length_dropWhile_le [of _ "rev s"] by simp



text \<open>
  The periods of consecutive invoices meet without a gap or an overlap. OpenMeter's
  periods exclude their end; the projected period includes it, and for a period that ends on
  a whole second it ends exactly one second before, which is one second before the period
  that starts there.
\<close>

theorem invoicePeriod_adjacent:
  assumes "in_period iv = Some (a, b)" "a < b" "b mod second = 0" "in_period next = Some (b, c)"
  shows "ip_start (invoicePeriod iv) \<le> ip_end (invoicePeriod iv) \<and> ip_end (invoicePeriod iv) + second = b \<and>
    ip_start (invoicePeriod next) = b \<and> ip_start (invoicePeriod iv) = a - a mod second"
proof -
  have s: "second = 1000000000" by (simp add: second_def)
  have "truncate_second (b - 1) = b - second"
  proof -
    obtain k where "b = 1000000000 * k" using assms(3) s by (auto simp: mod_eq_0_iff_dvd dvd_def)
    moreover have "(- 1 + k * 1000000000) mod 1000000000 = (- 1) mod (1000000000 :: int)" by (rule mod_mult_self1)
    ultimately show ?thesis by (simp add: truncate_second_def s algebra_simps)
  qed
  moreover have "truncate_second a \<le> truncate_second (b - 1)" using assms(2) by (intro truncate_second_mono) simp
  ultimately show ?thesis
    using assms by (simp add: invoicePeriod_def invoicePeriodStart_def Let_def truncate_second_def)
qed

theorem invoicePeriod_adjacent_witness:
  "let iv = example_invoice\<lparr>in_period := Some (0, 86400 * second)\<rparr>; next = example_invoice\<lparr>in_period := Some (86400 * second, 172800 * second)\<rparr> in
   ip_start (invoicePeriod iv) \<le> ip_end (invoicePeriod iv) \<and> ip_end (invoicePeriod iv) + second = 86400 * second \<and>
   ip_start (invoicePeriod next) = 86400 * second \<and> ip_start (invoicePeriod iv) = 0 - 0 mod second"
  unfolding Let_def
  by (rule invoicePeriod_adjacent [of _ 0 "86400 * second" _ "172800 * second"]) (simp_all add: second_def)

section \<open>What a pass may write\<close>

lemma adds_stripe_do: "P (ReqStripe q) \<Longrightarrow> adds P (stripe_do srv q want)"
  by (auto simp: adds_def stripe_do_def call_def split: sum.splits option.splits body.splits)

lemma adds_undecodable: "adds P undecodable"
  by (simp add: undecodable_def)

lemma adds_at_time: "(\<And>now. adds P (m now)) \<Longrightarrow> adds P (\<lambda>t. m (clock t) t)"
  unfolding adds_def by blast

lemmas adds_rules = adds_ret adds_fail adds_and_then adds_wrapping adds_if adds_handle adds_stripe_do adds_kube_call adds_undecodable

lemma adds_attempt_each:
  "(\<And>x. x \<in> set xs \<Longrightarrow> adds P (f x)) \<Longrightarrow> \<exists>u. snd (attempt_each f xs t) = t @ u \<and> (\<forall>q \<in> set (sent u). P q)"
proof (induction xs arbitrary: t)
  case (Cons x xs)
  obtain r t' u where x: "f x t = (r, t')" "t' = t @ u" "\<forall>q \<in> set (sent u). P q"
    using Cons.prems [of x] unfolding adds_def by (metis list.set_intros(1) prod.collapse)
  obtain es t'' v where xs: "attempt_each f xs t' = (es, t'')" "t'' = t' @ v" "\<forall>q \<in> set (sent v). P q"
    using Cons.IH [of t'] Cons.prems by (metis list.set_intros(2) prod.collapse)
  then show ?case using x by (auto intro!: exI [of _ "u @ v"])
qed simp

lemma adds_LatestPaymentAttempt:
  assumes stripe: "\<And>q. P (ReqStripe q)"
  shows "adds P (LatestPaymentAttempt srv s)"
  unfolding LatestPaymentAttempt_def latestInvoicePaymentIntent_def get_payment_intent_def
  using stripe by (auto intro!: adds_rules split: option.splits stripe_body.splits)

lemma adds_paymentAttemptEvent:
  assumes stripe: "\<And>q. P (ReqStripe q)"
  shows "adds P (paymentAttemptEvent env obj inStripe)"
  unfolding paymentAttemptEvent_def Let_def
  by (auto intro!: adds_rules adds_LatestPaymentAttempt stripe split: option.splits)

lemma adds_invoiceDocumentURI:
  assumes stripe: "\<And>q. P (ReqStripe q)"
  shows "adds P (invoiceDocumentURI env obj iv inStripe now)"
  unfolding invoiceDocumentURI_def HostedInvoiceURL_def Let_def
  using stripe by (auto intro!: adds_rules split: option.splits stripe_body.splits)

lemma adds_ListCustomerInvoices:
  assumes stripe: "\<And>q. P (ReqStripe q)"
  shows "adds P (ListCustomerInvoices srv c)"
proof -
  have "adds P (invoice_page srv c after)" for after
    unfolding invoice_page_def using stripe by (auto intro!: adds_rules split: option.splits stripe_body.splits)
  then have "adds P (list_pages srv c n after out)" for n after out
    by (induction n arbitrary: after out) (auto intro!: adds_rules split: prod.splits)
  then show ?thesis by (simp add: ListCustomerInvoices_def)
qed

lemma adds_listStripeInvoices:
  assumes stripe: "\<And>q. P (ReqStripe q)"
  shows "adds P (listStripeInvoices env reads account)"
  unfolding listStripeInvoices_def by (auto intro!: adds_rules adds_ListCustomerInvoices stripe split: sum.splits)

lemma adds_write_name:
  assumes stripe: "\<And>q. P (ReqStripe q)"
  shows "adds P (write_name env account names s)"
  unfolding write_name_def SetInvoiceMetadata_def Let_def using stripe by (auto intro!: adds_rules)

lemma adds_patch_annotations_status:
  assumes "\<And>a. P (ReqKube (PatchAnnotations (milo_key obj) a))" "\<And>st. P (ReqKube (PatchInvoiceStatus (milo_key obj) st))"
  shows "adds P (and_then (patchInvoiceAnnotations env obj want) (\<lambda>obj. patch_status env obj (g obj)))"
proof -
  have key: "milo_key (obj\<lparr>mv_meta := with_annotations want (mv_meta obj)\<rparr>) = milo_key obj"
    by (simp add: milo_key_def object_key_of_def with_annotations_def)
  let ?k = "wrapping ''patch Invoice metadata'' (kube_call (sy_srv env)
    (PatchAnnotations (milo_key obj) (km_annotations (with_annotations want (mv_meta obj)))))"
  have call: "gives ?k (\<lambda>r u. \<forall>q \<in> set (sent u). P q)" by (intro gives_adds adds_rules assms(1))
  have patched: "gives (patchInvoiceAnnotations env obj want) (\<lambda>r u. (\<forall>q \<in> set (sent u). P q) \<and> (\<forall>x. r = Inr x \<longrightarrow> milo_key x = milo_key obj))"
    unfolding patchInvoiceAnnotations_def Let_def
    by (intro gives_if gives_ret gives_and_then [OF call]) (auto simp: key)
  have status: "adds P (patch_status env x st)" if "milo_key x = milo_key obj" for x st
    unfolding patch_status_def that by (intro adds_rules assms(2))
  show ?thesis
    unfolding adds_gives
  proof (rule gives_and_then [OF patched], goal_cases)
    case (2 x u)
    then show ?case by (intro gives_mono [OF gives_adds [OF status]]) auto
  qed simp
qed

lemma adds_patchInvoiceStatus:
  assumes stripe: "\<And>q. P (ReqStripe q)"
    and "\<And>a. P (ReqKube (PatchAnnotations (milo_key obj) a))" "\<And>st. P (ReqKube (PatchInvoiceStatus (milo_key obj) st))"
  shows "adds P (patchInvoiceStatus env obj account iv inStripe)"
  unfolding patchInvoiceStatus_def [abs_def] Let_def
  by (rule adds_at_time [of P _ "sy_clock env"])
    (auto intro!: adds_and_then adds_invoiceDocumentURI adds_paymentAttemptEvent adds_patch_annotations_status assms split: prod.splits)

lemma adds_patchStripeInvoiceStatus:
  assumes stripe: "\<And>q. P (ReqStripe q)"
    and "\<And>a. P (ReqKube (PatchAnnotations (milo_key obj) a))" "\<And>st. P (ReqKube (PatchInvoiceStatus (milo_key obj) st))"
  shows "adds P (patchStripeInvoiceStatus env obj account s)"
proof -
  have "adds P (and_then (patchInvoiceAnnotations env obj want) (\<lambda>obj.
      let st = projectStripeInvoiceStatus env obj account s now in patch_status env obj (if b then st\<lparr>ms_document_uri := uri\<rparr> else st)))" for want now b uri
    using adds_patch_annotations_status [OF assms(2,3), of env want
      "\<lambda>obj. let st = projectStripeInvoiceStatus env obj account s now in if b then st\<lparr>ms_document_uri := uri\<rparr> else st"]
    by (simp add: Let_def)
  then show ?thesis
    unfolding patchStripeInvoiceStatus_def [abs_def] Let_def
    by (rule_tac adds_at_time [of P _ "sy_clock env"], rule_tac adds_and_then, rule_tac adds_paymentAttemptEvent, rule_tac stripe,
      simp only: Let_def split: prod.split, blast)
qed

text \<open>The API server's read by name returns the object of that name in the account's namespace.\<close>

definition reads_by_name :: "sync_env \<Rightarrow> billing_account \<Rightarrow> bool" where
  "reads_by_name env account \<longleftrightarrow> (\<forall>n t obj. sy_get_invoice env n t = Inr obj \<longrightarrow>
     km_name (mv_meta obj) = n \<and> km_namespace (mv_meta obj) = km_namespace (ba_meta account))"

definition om_body :: "billing_account \<Rightarrow> om_invoice \<Rightarrow> invoice_create" where
  "om_body account iv = invoice_body account (invoiceName (km_name (ba_meta account)) iv) [(InvoiceKeyAnnotation, in_id iv)] (invoicePeriod iv)"

definition staff_body :: "billing_account \<Rightarrow> stripe_invoice \<Rightarrow> invoice_create" where
  "staff_body account s =
    invoice_body account (invoiceObjectName (km_name (ba_meta account)) (ip_start (stripeInvoicePeriod s)) (si_id s))
      [(StripeInvoiceKeyAnnotation, si_id s)] (stripeInvoicePeriod s)"

definition projectable :: "om_invoice \<Rightarrow> bool" where
  "projectable iv \<longleftrightarrow> \<not> IsInvoiceDeleted iv \<and> mapInvoiceStatus (in_status iv) \<noteq> None"

definition staff_invoice :: "om_invoice list \<Rightarrow> stripe_invoice \<Rightarrow> bool" where
  "staff_invoice invoices s \<longleftrightarrow> \<not> openMeterCreated invoices s \<and>
    si_status s \<in> {StripeInvoiceStatusOpen, StripeInvoiceStatusPaid, StripeInvoiceStatusVoid, StripeInvoiceStatusUncollectible}"

text \<open>The Invoices a pass may touch, and its requests.\<close>

definition own_key :: "billing_account \<Rightarrow> milo_invoice list \<Rightarrow> om_invoice list \<Rightarrow> stripe_invoice list \<Rightarrow> object_key \<Rightarrow> bool" where
  "own_key account objs invoices ss k \<longleftrightarrow>
    (\<exists>obj \<in> set objs. mv_account obj = km_name (ba_meta account) \<and> k = milo_key obj) \<or>
    (\<exists>iv \<in> set invoices. projectable iv \<and> k = ic_key (om_body account iv)) \<or>
    (\<exists>s \<in> set ss. staff_invoice invoices s \<and> k = ic_key (staff_body account s))"

fun own_sync :: "billing_account \<Rightarrow> milo_invoice list \<Rightarrow> om_invoice list \<Rightarrow> stripe_invoice list \<Rightarrow> request \<Rightarrow> bool" where
  "own_sync account objs invoices ss (ReqStripe _) \<longleftrightarrow> True"
| "own_sync account objs invoices ss (ReqKube (CreateInvoice b)) \<longleftrightarrow>
    (\<exists>iv \<in> set invoices. projectable iv \<and> b = om_body account iv) \<or>
    (\<exists>s \<in> set ss. staff_invoice invoices s \<and> b = staff_body account s)"
| "own_sync account objs invoices ss (ReqKube (PatchAnnotations k a)) \<longleftrightarrow> own_key account objs invoices ss k"
| "own_sync account objs invoices ss (ReqKube (PatchInvoiceStatus k st)) \<longleftrightarrow> own_key account objs invoices ss k"
| "own_sync account objs invoices ss q \<longleftrightarrow> False"

lemma create_or_get_gives:
  assumes "reads_by_name env account" "ok_namespace (ic_key b) = km_namespace (ba_meta account)" "ok_kind (ic_key b) = ''Invoice''"
  shows "gives (create_or_get env b wanted) (\<lambda>r u. sent u = [ReqKube (CreateInvoice b)] \<and> (\<forall>obj. r = Inr obj \<longrightarrow> milo_key obj = ic_key b))"
proof -
  have new: "milo_key (created_invoice env b) = ic_key b"
    using assms(3) by (cases "ic_key b") (simp add: milo_key_def object_key_of_def created_invoice_def)
  have old: "milo_key obj = ic_key b" if "sy_get_invoice env (ok_name (ic_key b)) t = Inr obj" for obj t
    using assms that unfolding reads_by_name_def by (cases "ic_key b") (auto simp: milo_key_def object_key_of_def)
  show ?thesis
    unfolding create_or_get_def
  proof (rule gives_handle [OF gives_kube_create], goal_cases)
    case (1 e u)
    show ?case
    proof (rule gives_if)
      show "gives (fail (Wrap ''create Invoice'' [e]))
        (\<lambda>r v. sent (u @ v) = [ReqKube (CreateInvoice b)] \<and> (\<forall>obj. r = Inr obj \<longrightarrow> milo_key obj = ic_key b))"
        using 1 by (intro gives_fail) simp
      show "gives (\<lambda>t. case sy_get_invoice env (ok_name (ic_key b)) t of
               Inl ge \<Rightarrow> fail (Wrap ''create race re-get Invoice'' [ge]) t
             | Inr existing \<Rightarrow>
               if wanted existing then ret existing t
               else fail (Leaf (''invoice maps to Invoice '' @ ok_name (ic_key b) @ '', which projects another invoice'')) t)
        (\<lambda>r v. sent (u @ v) = [ReqKube (CreateInvoice b)] \<and> (\<forall>obj. r = Inr obj \<longrightarrow> milo_key obj = ic_key b))"
        using 1 old unfolding gives_def by (auto simp: ret_def fail_def split: sum.splits)
    qed
  next
    case (2 x u)
    then show ?case using new by (intro gives_ret) simp
  qed
qed

lemma body_simps [simp]:
  "ok_namespace (ic_key (om_body account iv)) = km_namespace (ba_meta account)" "ok_kind (ic_key (om_body account iv)) = ''Invoice''"
  "ok_namespace (ic_key (staff_body account s)) = km_namespace (ba_meta account)" "ok_kind (ic_key (staff_body account s)) = ''Invoice''"
  by (simp_all add: om_body_def staff_body_def invoice_body_def)

lemma adds_createInvoice:
  assumes "reads_by_name env account" "P (ReqKube (CreateInvoice (om_body account iv)))" "\<And>q. P (ReqStripe q)"
    "\<And>a. P (ReqKube (PatchAnnotations (ic_key (om_body account iv)) a))" "\<And>st. P (ReqKube (PatchInvoiceStatus (ic_key (om_body account iv)) st))"
  shows "adds P (createInvoice env account iv (invoiceName (km_name (ba_meta account)) iv) inStripe)"
  unfolding createInvoice_def adds_gives om_body_def [symmetric]
proof (rule gives_and_then [OF create_or_get_gives [OF assms(1)]], goal_cases)
  case (4 obj u)
  then have "adds P (patchInvoiceStatus env obj account iv inStripe)" by (intro adds_patchInvoiceStatus) (simp_all add: assms)
  from gives_mono [OF gives_adds [OF this]] 4 show ?case by (simp add: assms)
qed (simp_all add: assms)

lemma adds_createStripeInvoice:
  assumes "reads_by_name env account" "P (ReqKube (CreateInvoice (staff_body account s)))" "\<And>q. P (ReqStripe q)"
    "\<And>a. P (ReqKube (PatchAnnotations (ic_key (staff_body account s)) a))" "\<And>st. P (ReqKube (PatchInvoiceStatus (ic_key (staff_body account s)) st))"
  shows "adds P (createStripeInvoice env account s)"
  unfolding createStripeInvoice_def Let_def adds_gives staff_body_def [symmetric]
proof (rule gives_and_then [OF create_or_get_gives [OF assms(1)]], goal_cases)
  case (4 obj u)
  then have "adds P (patchStripeInvoiceStatus env obj account s)" by (intro adds_patchStripeInvoiceStatus) (simp_all add: assms)
  from gives_mono [OF gives_adds [OF this]] 4 show ?case by (simp add: assms)
qed (simp_all add: assms)

lemma set_update: "x \<in> set (AList.update k v al) \<Longrightarrow> x = (k, v) \<or> x \<in> set al"
  by (induction al) (auto split: if_splits)

lemma projectedInvoices_sound:
  "(i, obj) \<in> set (fst (projectedInvoices account objs)) \<union> set (snd (projectedInvoices account objs)) \<Longrightarrow>
    obj \<in> set objs \<and> mv_account obj = km_name (ba_meta account)"
proof -
  have keep: "x \<in> set (keep_projection obj i out) \<Longrightarrow> x = (i, obj) \<or> x \<in> set out" for x obj i out
    using set_update [of x i obj out] by (auto simp: keep_projection_def split: option.splits if_splits)
  have "\<forall>(i, obj) \<in> set (fst (fold (add_projection account) os acc)) \<union> set (snd (fold (add_projection account) os acc)).
      obj \<in> set os \<and> mv_account obj = km_name (ba_meta account) \<or> (i, obj) \<in> set (fst acc) \<union> set (snd acc)" for os acc
  proof (induction os arbitrary: acc)
    case (Cons ob os)
    from Cons.IH [of "add_projection account ob acc"] show ?case
      by (fastforce simp: add_projection_def Let_def dest: keep split: if_splits)
  qed auto
  from this [of objs "([], [])"]
  show "(i, obj) \<in> set (fst (projectedInvoices account objs)) \<union> set (snd (projectedInvoices account objs)) \<Longrightarrow> ?thesis"
    unfolding projectedInvoices_def by fastforce
qed

definition stripe_listed :: "sync_env \<Rightarrow> sync_reads \<Rightarrow> billing_account \<Rightarrow> exchanges \<Rightarrow> stripe_invoice list" where
  "stripe_listed env reads account t = (case fst (listStripeInvoices env (rd_stripe reads) account t) of Inl _ \<Rightarrow> [] | Inr (ss, _) \<Rightarrow> ss)"

lemma openMeterCreated_set: "set xs = set ys \<Longrightarrow> openMeterCreated xs s = openMeterCreated ys s"
  by (simp add: openMeterCreated_def list_ex_iff)


lemma adds_sync_invoice:
  assumes "reads_by_name env account" "iv \<in> set invoices"
    and "\<And>i obj. (i, obj) \<in> set projected \<Longrightarrow> obj \<in> set objs \<and> mv_account obj = km_name (ba_meta account)"
  shows "adds (own_sync account objs invoices ss) (sync_invoice env account projected stripeInvoices iv)"
proof -
  let ?P = "own_sync account objs invoices ss"
  have patch: "adds ?P (patchInvoiceStatus env obj account iv s)" if "map_of projected (in_id iv) = Some obj" for obj s
    using assms(3) [OF map_of_SomeD [OF that]] by (intro adds_patchInvoiceStatus) (auto simp: own_key_def)
  have create: "adds ?P (createInvoice env account iv (invoiceName (km_name (ba_meta account)) iv) s)" if "projectable iv" for s
    using that assms(2) by (intro adds_createInvoice [OF assms(1)]) (auto simp: own_key_def)
  show ?thesis
    unfolding sync_invoice_def Let_def
    by (auto simp: projectable_def intro!: adds_wrapping adds_ret patch create split: option.splits)
qed

lemma adds_sync_stripe_invoice:
  assumes "reads_by_name env account" "s \<in> set ss" "set ordered = set invoices"
    and "\<And>i obj. (i, obj) \<in> set stripeOnly \<Longrightarrow> obj \<in> set objs \<and> mv_account obj = km_name (ba_meta account)"
  shows "adds (own_sync account objs invoices ss) (sync_stripe_invoice env account ordered stripeOnly s)"
proof -
  let ?P = "own_sync account objs invoices ss"
  have patch: "adds ?P (patchStripeInvoiceStatus env obj account s)" if "map_of stripeOnly (si_id s) = Some obj" for obj
    using assms(4) [OF map_of_SomeD [OF that]] by (intro adds_patchStripeInvoiceStatus) (auto simp: own_key_def)
  have create: "adds ?P (createStripeInvoice env account s)" if "staff_invoice invoices s"
    using that assms(2) by (intro adds_createStripeInvoice [OF assms(1)]) (auto simp: own_key_def)
  have staff: "staff_invoice invoices s" if "\<not> openMeterCreated ordered s" "stripeInvoicePhase s now \<noteq> None" for now
    using that openMeterCreated_set [OF assms(3)] by (auto simp: staff_invoice_def stripeInvoicePhase_def split: if_splits)
  have "adds ?P (if openMeterCreated ordered s then ret () else if stripeInvoicePhase s now = None then ret ()
     else wrapping (''upsert Stripe invoice '' @ si_id s)
       (case map_of stripeOnly (si_id s) of
          Some existing \<Rightarrow> patchStripeInvoiceStatus env existing account s
        | None \<Rightarrow> createStripeInvoice env account s))" for now
    using staff by (auto intro!: adds_wrapping adds_ret patch create split: option.splits)
  from adds_at_time [of ?P _ "sy_clock env", OF this] show ?thesis
    by (simp add: sync_stripe_invoice_def [abs_def] if_distrib [of "\<lambda>m. m _"] cong: if_cong)
qed

lemma adds_mark:
  assumes "obj \<in> set objs" "mv_account obj = km_name (ba_meta account)"
  shows "adds (own_sync account objs invoices ss) (mark_not_found env obj reason message)"
  unfolding mark_not_found_def patch_status_def
  using assms by (intro adds_wrapping adds_kube_call) (auto simp: own_key_def)

text \<open>From one point of a run to a later one, only requests allowed by \<open>P\<close>.\<close>

definition allowed_until :: "(request \<Rightarrow> bool) \<Rightarrow> exchanges \<Rightarrow> exchanges \<Rightarrow> bool" where
  "allowed_until P t t' \<longleftrightarrow> (\<exists>u. t' = t @ u \<and> (\<forall>q \<in> set (sent u). P q))"

lemma allowed_until_refl: "allowed_until P t t"
  by (simp add: allowed_until_def)

lemma allowed_until_trans [trans]: "allowed_until P t t1 \<Longrightarrow> allowed_until P t1 t2 \<Longrightarrow> allowed_until P t t2"
  unfolding allowed_until_def by (elim exE conjE, rule_tac x = "u @ ua" in exI) auto

lemma allowed_until_adds: "adds P m \<Longrightarrow> m t = (r, t') \<Longrightarrow> allowed_until P t t'"
  unfolding adds_def allowed_until_def by (metis snd_conv)

lemma allowed_until_prefix: "allowed_until P t t' \<Longrightarrow> prefix t t'"
  unfolding allowed_until_def by auto

lemma allowed_until_each: "attempt_each f xs t = (es, t') \<Longrightarrow> (\<And>x. x \<in> set xs \<Longrightarrow> adds P (f x)) \<Longrightarrow> allowed_until P t t'"
  using adds_attempt_each [of xs P f t] unfolding allowed_until_def by simp

lemma allowed_until_marks:
  assumes "attempt_each (\<lambda>(i, obj). mark_not_found env obj r (m i)) (unlisted reads ids l) t = (es, t')"
    and "\<And>i obj. (i, obj) \<in> set l \<Longrightarrow> obj \<in> set objs \<and> mv_account obj = km_name (ba_meta account)" "\<And>l. set (rd_range reads l) = set l"
  shows "allowed_until (own_sync account objs invoices ss) t t'"
  by (rule allowed_until_each [OF assms(1)]) (use assms(2,3) in \<open>auto simp: unlisted_def intro!: adds_mark\<close>)

lemma reconcileStripeInvoices_own:
  assumes "reads_by_name env account" "\<And>l. set (rd_range reads l) = set l" "set ordered = set invoices"
    and own: "\<And>i obj. (i, obj) \<in> set stripeOnly \<Longrightarrow> obj \<in> set objs \<and> mv_account obj = km_name (ba_meta account)"
    and run: "reconcileStripeInvoices env reads account ordered ss stripeOnly t = (errs, t')"
  shows "allowed_until (own_sync account objs invoices ss) t t'"
proof -
  let ?P = "own_sync account objs invoices ss" and ?so = "sort_key (\<lambda>s. (si_created s, si_id s)) ss"
  obtain e1 t1 where a1: "attempt_each (sync_stripe_invoice env account ordered stripeOnly) ?so t = (e1, t1)" by force
  obtain e2 t2 where a2: "attempt_each (\<lambda>(i, obj). markStripeInvoiceNotFound env obj i) (unlisted reads (map si_id ?so) stripeOnly) t1 = (e2, t2)" by force
  have "allowed_until ?P t t1"
    by (rule allowed_until_each [OF a1]) (auto intro!: adds_sync_stripe_invoice [OF assms(1) _ assms(3) own])
  also have "allowed_until ?P t1 t2"
    by (rule allowed_until_marks [OF a2 [unfolded markStripeInvoiceNotFound_def] own assms(2)])
  also have "allowed_until ?P t2 (writeMiloInvoiceNames env account (rd_invoices_again reads) ?so t2)"
  proof (cases "rd_invoices_again reads")
    case (Inr xs)
    obtain e3 t3 where a3: "attempt_each (write_name env account (fold (add_name account) xs [])) ?so t2 = (e3, t3)" by force
    then have "allowed_until ?P t2 t3" by (rule allowed_until_each) (auto intro!: adds_write_name)
    with a3 Inr show ?thesis by (simp add: writeMiloInvoiceNames_def)
  qed (simp add: writeMiloInvoiceNames_def allowed_until_refl)
  finally show ?thesis using run a1 a2 by (simp add: reconcileStripeInvoices_def Let_def)
qed

lemma sync_listed_own:
  assumes "reads_by_name env account" "\<And>l. set (rd_range reads l) = set l"
    and run: "sync_listed env reads account invoices objs t = (r, t')"
  shows "allowed_until (own_sync account objs invoices (stripe_listed env reads account t)) t t'"
proof -
  let ?ss = "stripe_listed env reads account t" and ?ordered = "sort_key (\<lambda>iv. (in_created_at iv, in_id iv)) invoices"
  let ?P = "own_sync account objs invoices ?ss"
  obtain projected stripeOnly where p: "projectedInvoices account objs = (projected, stripeOnly)" by force
  have own: "\<And>i obj. (i, obj) \<in> set projected \<Longrightarrow> obj \<in> set objs \<and> mv_account obj = km_name (ba_meta account)"
    "\<And>i obj. (i, obj) \<in> set stripeOnly \<Longrightarrow> obj \<in> set objs \<and> mv_account obj = km_name (ba_meta account)"
    using projectedInvoices_sound [of _ _ account objs] p by auto
  obtain x t1 where l: "listStripeInvoices env (rd_stripe reads) account t = (x, t1)" by force
  define errs0 ss ok where "errs0 = (case x of Inl e \<Rightarrow> [e] | Inr _ \<Rightarrow> [])" and "ss = ?ss"
    and "ok = (case x of Inl e \<Rightarrow> False | Inr (_, ok) \<Rightarrow> ok)"
  have x: "(case x of Inl e \<Rightarrow> ([e], [], False) | Inr (s, ok) \<Rightarrow> ([], s, ok)) = (errs0, ss, ok)"
    using l by (auto simp: errs0_def ss_def ok_def stripe_listed_def split: sum.splits)
  obtain e1 t2 where a1: "attempt_each (sync_invoice env account projected ss) ?ordered t1 = (e1, t2)" by force
  obtain e2 t3 where a2: "attempt_each (\<lambda>(i, obj). markInvoiceNotFound env obj i) (unlisted reads (map in_id ?ordered) projected) t2 = (e2, t3)" by force
  obtain e3 t4 where a3: "reconcileStripeInvoices env reads account ?ordered ss stripeOnly t3 = (e3, t4)" by force
  have "allowed_until ?P t t1" by (rule allowed_until_adds [OF adds_listStripeInvoices l]) simp
  also have "allowed_until ?P t1 t2"
    by (rule allowed_until_each [OF a1]) (auto intro!: adds_sync_invoice [OF assms(1) _ own(1)])
  also have "allowed_until ?P t2 t3"
    by (rule allowed_until_marks [OF a2 [unfolded markInvoiceNotFound_def] own(1) assms(2)])
  finally have "allowed_until ?P t t3" .
  moreover have "allowed_until ?P t3 t4" by (rule reconcileStripeInvoices_own [OF assms(1,2) _ own(2) a3 [unfolded ss_def]]) simp
  moreover have "t' = (if ok then t4 else t3)"
    using run by (simp add: sync_listed_def p l x a1 a2 a3 split: if_splits)
  ultimately show ?thesis using allowed_until_trans by auto
qed


definition example_sync_env :: sync_env where
  "example_sync_env = \<lparr>sy_fuel = 3,
     sy_srv = (\<lambda>t q. Inr (case q of
         ReqInvoice _ \<Rightarrow> ok_answer (Some (AccountBody (InvoicePage [example_invoice] 100 1)))
       | _ \<Rightarrow> ok_answer None)),
     sy_clock = (\<lambda>_. 5), sy_set_condition = (\<lambda>c cs. [c]), sy_parse_time = (\<lambda>_. None), sy_created_generation = 1,
     sy_get_invoice = (\<lambda>_ _. Inl (Sentinel KubeNotFound))\<rparr>"

definition example_sync_reads :: sync_reads where
  "example_sync_reads = \<lparr>rd_stripe = example_stripe_reads,
     rd_invoices = Inr [], rd_invoices_again = Inr [], rd_range = id\<rparr>"

lemma example_sync_reads_by_name: "reads_by_name example_sync_env example_account"
  by (simp add: reads_by_name_def example_sync_env_def)

lemma example_sync_listing:
  "ListInvoicesIncludingDeleted (sy_fuel example_sync_env) (sy_srv example_sync_env) ''01C'' [] =
    (Inr [example_invoice], snd (ListInvoicesIncludingDeleted (sy_fuel example_sync_env) (sy_srv example_sync_env) ''01C'' []))"
  by code_simp


section \<open>Every issued invoice is projected\<close>

lemma attempt_each_attempts:
  assumes "x \<in> set xs" "\<And>y. y \<in> set xs \<Longrightarrow> adds (\<lambda>_. True) (f y)" "attempt_each f xs t = (es, t')"
  shows "\<exists>t1 r t2. f x t1 = (r, t2) \<and> prefix t t1 \<and> prefix t2 t'"
  using assms
proof (induction xs arbitrary: t es)
  case (Cons y xs)
  obtain r t1 where y: "f y t = (r, t1)" by force
  obtain es' where xs: "attempt_each f xs t1 = (es', t')" using Cons.prems(3) y by (auto split: prod.splits)
  have "adds (\<lambda>_. True) (f y)" using Cons.prems(2) by simp
  from allowed_until_adds [OF this y] have tt1: "prefix t t1" by (rule allowed_until_prefix)
  have "allowed_until (\<lambda>_. True) t1 t'" by (rule allowed_until_each [OF xs]) (use Cons.prems(2) in simp)
  then have tt': "prefix t1 t'" by (rule allowed_until_prefix)
  show ?case
  proof (cases "x = y")
    case True
    with y tt' show ?thesis by blast
  next
    case False
    then obtain u r v where "f x u = (r, v)" "prefix t1 u" "prefix v t'"
      using Cons.IH [OF _ _ xs] Cons.prems(1,2) by auto
    with tt1 show ?thesis using prefix_order.trans by blast
  qed
qed simp

lemma projected_key: "(i, obj) \<in> set (fst (projectedInvoices account objs)) \<Longrightarrow>
  obj \<in> set objs \<and> mv_account obj = km_name (ba_meta account) \<and> annotation (mv_meta obj) InvoiceKeyAnnotation = i"
proof -
  have keep: "x \<in> set (keep_projection obj i out) \<Longrightarrow> x = (i, obj) \<or> x \<in> set out" for x obj i out
    using set_update [of x i obj out] by (auto simp: keep_projection_def split: option.splits if_splits)
  have "\<forall>(i, obj) \<in> set (fst (fold (add_projection account) os acc)).
      annotation (mv_meta obj) InvoiceKeyAnnotation = i \<or> (i, obj) \<in> set (fst acc)" for os acc
  proof (induction os arbitrary: acc)
    case (Cons ob os)
    from Cons.IH [of "add_projection account ob acc"] show ?case
      by (fastforce simp: add_projection_def Let_def dest: keep split: if_splits)
  qed auto
  from this [of objs "([], [])"] show "(i, obj) \<in> set (fst (projectedInvoices account objs)) \<Longrightarrow> ?thesis"
    using projectedInvoices_sound [of i obj account objs] unfolding projectedInvoices_def by fastforce
qed

lemma createInvoice_creates:
  assumes "reads_by_name env account"
  shows "gives (createInvoice env account iv (invoiceName (km_name (ba_meta account)) iv) inStripe)
    (\<lambda>r u. ReqKube (CreateInvoice (om_body account iv)) \<in> set (sent u))"
  unfolding createInvoice_def om_body_def [symmetric]
proof (rule gives_and_then [OF create_or_get_gives [OF assms]], goal_cases)
  case (4 obj u)
  have "adds (\<lambda>_. True) (patchInvoiceStatus env obj account iv inStripe)" by (rule adds_patchInvoiceStatus) simp_all
  from gives_mono [OF gives_adds [OF this]] 4 show ?case by simp
qed simp_all

text \<open>
  C17. Every issued invoice gets its Invoice, whatever happens to the others: when the
  listing of the customer's invoices succeeds, a pass tries to create the Invoice of
  every listed invoice that is issued, not deleted and not projected yet, also when Stripe
  cannot be read and when the writes of other invoices fail.
\<close>

theorem reconcileInvoices_projects_all:
  assumes "reads_by_name env account" "\<And>l. set (rd_range reads l) = set l"
    and "ListInvoicesIncludingDeleted (sy_fuel env) (sy_srv env) customerID t = (Inr invoices, t1)" "rd_invoices reads = Inr objs"
    and "iv \<in> set invoices" "projectable iv"
    and "\<forall>obj \<in> set objs. mv_account obj = km_name (ba_meta account) \<longrightarrow> annotation (mv_meta obj) InvoiceKeyAnnotation \<noteq> in_id iv"
  shows "ReqKube (CreateInvoice (om_body account iv)) \<in> set (sent (snd (reconcileInvoices env reads account customerID t)))"
proof -
  let ?ordered = "sort_key (\<lambda>iv. (in_created_at iv, in_id iv)) invoices"
  obtain projected stripeOnly where p: "projectedInvoices account objs = (projected, stripeOnly)" by force
  obtain x t2 where l: "listStripeInvoices env (rd_stripe reads) account t1 = (x, t2)" by force
  obtain errs0 ss ok where x: "(case x of Inl e \<Rightarrow> ([e], [], False) | Inr (s, ok) \<Rightarrow> ([], s, ok)) = (errs0, ss, ok)"
    by (metis prod_cases3)
  obtain e1 t3 where a1: "attempt_each (sync_invoice env account projected ss) ?ordered t2 = (e1, t3)" by force
  obtain e2 t4 where a2: "attempt_each (\<lambda>(i, obj). markInvoiceNotFound env obj i) (unlisted reads (map in_id ?ordered) projected) t3 = (e2, t4)" by force
  obtain e3 t5 where a3: "reconcileStripeInvoices env reads account ?ordered ss stripeOnly t4 = (e3, t5)" by force
  have own: "\<And>i obj. (i, obj) \<in> set projected \<union> set stripeOnly \<Longrightarrow> obj \<in> set objs \<and> mv_account obj = km_name (ba_meta account)"
    using projectedInvoices_sound [of _ _ account objs] p by auto
  have ends: "snd (reconcileInvoices env reads account customerID t) = (if ok then t5 else t4)"
    using assms(3,4) by (simp add: reconcileInvoices_def and_then_def wrapping_def sync_listed_def p l x a1 a2 a3)
  have none: "map_of projected (in_id iv) = None"
    using projected_key [of "in_id iv" _ account objs] assms(7) p by (cases "map_of projected (in_id iv)") (auto dest: map_of_SomeD)
  have "adds (\<lambda>_. True) (sync_invoice env account projected ss jv)" if "jv \<in> set ?ordered" for jv
    by (rule adds_mono [OF adds_sync_invoice [OF assms(1), of jv invoices projected objs _ ss]]) (use that own in auto)
  then obtain u r v where iv: "sync_invoice env account projected ss iv u = (r, v)" "prefix v t3"
    using attempt_each_attempts [OF _ _ a1, of iv] assms(5) by auto
  have "ReqKube (CreateInvoice (om_body account iv)) \<in> set (sent v)"
    using iv(1) none assms(6) gives_result [OF gives_wrapping [OF createInvoice_creates [OF assms(1)]]]
    by (fastforce simp: sync_invoice_def projectable_def Let_def)
  moreover have "prefix t3 t4"
    by (rule allowed_until_prefix, rule allowed_until_marks [OF a2 [unfolded markInvoiceNotFound_def] _ assms(2)]) (use own in auto)
  moreover have "prefix t4 t5"
    by (rule allowed_until_prefix, rule reconcileStripeInvoices_own [OF assms(1,2) _ _ a3]) (use own in auto)
  ultimately show ?thesis unfolding ends using iv(2) by (auto simp: prefix_def)
qed

theorem reconcileInvoices_projects_all_witness:
  "projectable example_invoice \<and> ReqKube (CreateInvoice (om_body example_account example_invoice)) \<in>
     set (sent (snd (reconcileInvoices example_sync_env example_sync_reads example_account ''01C'' [])))"
proof -
  have p: "projectable example_invoice" by code_simp
  with reconcileInvoices_projects_all [OF example_sync_reads_by_name _ example_sync_listing, of example_sync_reads "[]" example_invoice]
  show ?thesis by (auto simp: example_sync_reads_def)
qed

end
