(* ===== verification/AccountController.thy ===== *)
theory AccountController
  imports InvoiceSync BillingProfiles Notices
begin

text \<open>
  The BillingAccount controller (\<open>Reconcile\<close> of
  \<open>internal/controller/billingaccount_controller.go\<close> and \<open>reconcileBillingProfile\<close> of
  \<open>billingprofile_sync.go\<close>): two finalizers that run in any order, the customer, and the three
  independent synchronisations of the billing profile, the Stripe app data and the invoices;
  the notices that keep a persisting state from being reported on every pass.
\<close>

section \<open>A registry of finalizers\<close>

text \<open>
  \<open>finalizer.Finalizers\<close> of controller-runtime with several finalizers. What it documents: it
  runs every registered finalizer, in any order; a finalizer may see what an earlier one
  removed from the object; those that fail are collected and keep their place. \<open>run_finalizers\<close>
  is that behaviour for one order.
\<close>

type_synonym finalizer_entry = "go_string \<times> (kube_meta \<Rightarrow> unit api)"
type_synonym registry_lib =
  "finalizer_entry list \<Rightarrow> kube_meta \<Rightarrow> exchanges \<Rightarrow> (bool \<times> kube_meta \<times> go_error option) \<times> exchanges"

fun run_finalizers :: "finalizer_entry list \<Rightarrow> kube_meta \<Rightarrow> exchanges \<Rightarrow> (bool \<times> kube_meta \<times> go_error list) \<times> exchanges" where
  "run_finalizers [] m t = ((False, m, []), t)"
| "run_finalizers ((key, cb) # fs) m t =
    (if \<not> km_deleting m \<and> key \<notin> set (km_finalizers m) then
       (case run_finalizers fs (m\<lparr>km_finalizers := km_finalizers m @ [key]\<rparr>) t of ((_, m', es), t') \<Rightarrow> ((True, m', es), t'))
     else if km_deleting m \<and> key \<in> set (km_finalizers m) then
       (case cb m t of
          (Inl e, t1) \<Rightarrow>
            (case run_finalizers fs m t1 of ((upd, m', es), t') \<Rightarrow>
               ((upd, m', Wrap (''finalizer '' @ [CHR 0x22] @ key @ [CHR 0x22] @ '' failed'') [e] # es), t'))
        | (Inr _, t1) \<Rightarrow>
            (case run_finalizers fs (m\<lparr>km_finalizers := removeAll key (km_finalizers m)\<rparr>) t1 of ((_, m', es), t') \<Rightarrow>
               ((True, m', es), t')))
     else run_finalizers fs m t)"

definition collected :: "(bool \<times> kube_meta \<times> go_error list) \<times> exchanges \<Rightarrow> (bool \<times> kube_meta \<times> go_error option) \<times> exchanges" where
  "collected r = (case r of ((upd, m, es), t) \<Rightarrow> ((upd, m, if es = [] then None else Some (Aggregate es)), t))"

definition documented_registry :: "registry_lib \<Rightarrow> bool" where
  "documented_registry fz \<longleftrightarrow> (\<forall>fs m t. \<exists>order. mset order = mset fs \<and> fz fs m t = collected (run_finalizers order m t))"

section \<open>Notices of an account\<close>

definition noticePrefix :: "kube_meta \<Rightarrow> go_string" where
  "noticePrefix m = km_namespace m @ ''/'' @ km_name m @ ''/''"

section \<open>The billing profile\<close>

text \<open>
  \<open>reconcileBillingProfile\<close> returns the account with the annotations it set. After a failure
  nothing reads them: the Synced report is skipped, and neither of the other two
  synchronisations looks at the account's annotations.
\<close>

definition link_annotations :: "billing_account \<Rightarrow> go_string \<Rightarrow> go_string \<Rightarrow> str_map" where
  "link_annotations account profileID customerID =
    AList.update OpenMeterCustomerIDAnnotation customerID
      (AList.update BillingProfileIDAnnotation profileID (km_annotations (ba_meta account)))"

definition link_profile :: "server \<Rightarrow> billing_account \<Rightarrow> go_string \<Rightarrow> go_string \<Rightarrow> billing_account api" where
  "link_profile srv account profileID customerID =
    (if profileID \<noteq> annotation (ba_meta account) BillingProfileIDAnnotation
        \<or> annotation (ba_meta account) OpenMeterCustomerIDAnnotation \<noteq> customerID then
       (let anns = link_annotations account profileID customerID in
        and_then (wrapping ''annotate billing profile id''
            (kube_call srv (PatchAnnotations (object_key_of ''BillingAccount'' (ba_meta account)) anns)))
          (\<lambda>_. ret (account\<lparr>ba_meta := (ba_meta account)\<lparr>km_annotations := anns\<rparr>\<rparr>)))
     else ret account)"

definition reconcileBillingProfile :: "nat \<Rightarrow> server \<Rightarrow> standard_terms \<Rightarrow> billing_account \<Rightarrow> go_string \<Rightarrow> go_string \<Rightarrow> billing_account api" where
  "reconcileBillingProfile fuel srv std account customerKey customerID =
    and_then (wrapping ''ensure billing profile''
        (EnsureBillingProfile fuel srv (annotation (ba_meta account) BillingProfileIDAnnotation)
          (desiredBillingProfileFromAccount std account customerKey))) (\<lambda>result.
    (let profileID = pf_id (er_profile result) in
     and_then (link_profile srv account profileID customerID) (\<lambda>account'.
     and_then (wrapping ''upsert billing profile customer override''
        (UpsertBillingProfileCustomerOverride srv customerID profileID)) (\<lambda>_. ret account'))))"

section \<open>Reconciling an account\<close>

definition syncedRequeueAfter :: int where "syncedRequeueAfter = 600 * second_ns"

text \<open>
  What a pass ends with, beside an error returned as it is: the account is gone; the pass
  stopped early; an OpenMeter operation failed; the account is synced, with the account, the
  customer and the Stripe state the Synced report is made from.
\<close>

datatype account_outcome =
    AccountGone
  | AccountEarly ctrl_result
  | AccountFailed go_string go_error
  | AccountSynced billing_account om_customer go_string

definition account_registry :: "nat \<Rightarrow> server \<Rightarrow> billing_account \<Rightarrow> finalizer_entry list" where
  "account_registry fuel srv account =
    [(CustomerLinkFinalizer, \<lambda>_. customerLinkFinalize fuel srv account),
     (BillingProfileFinalizer, billingProfileFinalize fuel srv account)]"

definition errors_of :: "'a res \<Rightarrow> go_error list" where
  "errors_of r = (case r of Inl e \<Rightarrow> [e] | Inr _ \<Rightarrow> [])"

definition account_syncs :: "sync_env \<Rightarrow> sync_reads \<Rightarrow> standard_terms \<Rightarrow> billing_account \<Rightarrow> om_customer \<Rightarrow> account_outcome api" where
  "account_syncs env reads std account customer t =
    (let fuel = sy_fuel env; srv = sy_srv env; customerID = cu_id customer in
     case wrapping ''reconcile billing profile''
         (reconcileBillingProfile fuel srv std account (km_uid (ba_meta account)) customerID) t of (profile, t1) \<Rightarrow>
     let account' = (case profile of Inl _ \<Rightarrow> account | Inr a \<Rightarrow> a) in
     case reconcileStripeAppData srv (rd_stripe reads) account' customerID t1 of (stripe, t2) \<Rightarrow>
     case wrapping ''reconcile invoices'' (reconcileInvoices env reads account' customerID) t2 of (invoices, t3) \<Rightarrow>
     let syncErrs = errors_of profile @ errors_of stripe @ errors_of invoices in
     (Inr (if syncErrs \<noteq> [] then AccountFailed ''sync'' (Wrap [] syncErrs)
           else AccountSynced account' customer (case stripe of Inl _ \<Rightarrow> [] | Inr s \<Rightarrow> s)), t3))"

definition account_sync :: "sync_env \<Rightarrow> sync_reads \<Rightarrow> standard_terms \<Rightarrow> billing_account \<Rightarrow> account_outcome api" where
  "account_sync env reads std account =
    handle (EnsureCustomer (sy_srv env) (desiredCustomerFromAccount account (km_uid (ba_meta account))))
      (\<lambda>e. ret (AccountFailed ''EnsureCustomer'' e))
      (\<lambda>customer. account_syncs env reads std account customer)"

definition account_finalized :: "sync_env \<Rightarrow> sync_reads \<Rightarrow> standard_terms \<Rightarrow> billing_account \<Rightarrow> bool \<Rightarrow> go_error option \<Rightarrow> account_outcome api" where
  "account_finalized env reads std account updated finalizeErr =
    (case finalizeErr of
       Some e \<Rightarrow>
         (case finalizerWaitRequeue e of
            Some after \<Rightarrow> ret (AccountEarly (ResultRequeueAfter after))
          | None \<Rightarrow> fail (Wrap ''running finalizers'' [e]))
     | None \<Rightarrow>
         if updated then ret (AccountEarly ResultNone)
         else if km_deleting (ba_meta account) then ret (AccountEarly ResultNone)
         else account_sync env reads std account)"

definition account_persist :: "sync_env \<Rightarrow> sync_reads \<Rightarrow> standard_terms \<Rightarrow> billing_account \<Rightarrow> bool \<Rightarrow> go_error option \<Rightarrow> account_outcome api" where
  "account_persist env reads std account updated finalizeErr =
    (if updated then
       handle (kube_call (sy_srv env) (UpdateFinalizers (object_key_of ''BillingAccount'' (ba_meta account)) (km_finalizers (ba_meta account))))
         (\<lambda>e. if errors_is e KubeConflict then ret (AccountEarly ResultRequeue)
              else if errors_is e KubeNotFound then ret (AccountEarly ResultNone)
              else fail (Wrap ''persisting finalizer change'' [e]))
         (\<lambda>_. account_finalized env reads std account updated finalizeErr)
     else account_finalized env reads std account updated finalizeErr)"

definition account_Reconcile :: "registry_lib \<Rightarrow> sync_env \<Rightarrow> sync_reads \<Rightarrow> standard_terms \<Rightarrow> billing_account res \<Rightarrow> account_outcome api" where
  "account_Reconcile fz env reads std got =
    (case got of
       Inl e \<Rightarrow> if errors_is e KubeNotFound then ret AccountGone else fail e
     | Inr account \<Rightarrow> (\<lambda>t.
         case fz (account_registry (sy_fuel env) (sy_srv env) account) (ba_meta account) t of ((updated, m, err), t1) \<Rightarrow>
           account_persist env reads std (account\<lparr>ba_meta := m\<rparr>) updated err t1))"

section \<open>Reporting\<close>

definition syncFingerprint :: "(om_customer \<Rightarrow> go_string) \<Rightarrow> milo_invoice list res \<Rightarrow> billing_account \<Rightarrow> om_customer \<Rightarrow> go_string \<Rightarrow> go_string" where
  "syncFingerprint updated_at listed account customer stripeState =
    join ''|'' ([cu_id customer, updated_at customer, annotation (ba_meta account) BillingProfileIDAnnotation,
        annotation (ba_meta account) OpenMeterCustomerIDAnnotation, stripeState] @
      (case listed of
         Inl _ \<Rightarrow> []
       | Inr items \<Rightarrow> sort [km_name (mv_meta i) @ ''='' @ ms_phase (mv_status i) @ ''/'' @ ms_total (mv_status i).
           i \<leftarrow> items, mv_account i = km_name (ba_meta account)]))"

definition handleOpenMeterCustomerError :: "kube_meta \<Rightarrow> go_string \<Rightarrow> go_error \<Rightarrow> notices \<Rightarrow> ctrl_result res \<times> notices \<times> event list" where
  "handleOpenMeterCustomerError m operation e n =
    (let msg = syncReason e @ '': '' @ error_text e;
         (new, n') = changed (noticePrefix m @ ''SyncFailed'') msg (forget (noticePrefix m @ ''Synced'') n)
     in (Inl (Wrap (''OpenMeter '' @ operation) [e]), n', if new then [Event ''Warning'' ''SyncFailed'' msg] else []))"

definition report_synced :: "kube_meta \<Rightarrow> go_string \<Rightarrow> notices \<Rightarrow> ctrl_result res \<times> notices \<times> event list" where
  "report_synced m fingerprint n =
    (let (new, n') = changed (noticePrefix m @ ''Synced'') fingerprint (forget (noticePrefix m @ ''SyncFailed'') n)
     in (Inr (ResultRequeueAfter syncedRequeueAfter), n',
         if new then [Event ''Normal'' ''Synced'' (''OpenMeter customer '' @ km_uid m @ '' synced'')] else []))"

definition account_report :: "(om_customer \<Rightarrow> go_string) \<Rightarrow> milo_invoice list res \<Rightarrow> kube_meta \<Rightarrow> account_outcome res \<Rightarrow> notices \<Rightarrow>
    ctrl_result res \<times> notices \<times> event list" where
  "account_report updated_at listed m outcome n =
    (case outcome of
       Inl e \<Rightarrow> (Inl e, n, [])
     | Inr AccountGone \<Rightarrow> (Inr ResultNone, forgetPrefix (noticePrefix m) n, [])
     | Inr (AccountEarly r) \<Rightarrow> (Inr r, n, [])
     | Inr (AccountFailed operation e) \<Rightarrow> handleOpenMeterCustomerError m operation e n
     | Inr (AccountSynced account customer stripeState) \<Rightarrow>
         report_synced m (syncFingerprint updated_at listed account customer stripeState) n)"


section \<open>The billing profile outlives the customer\<close>

definition drops_profile :: "request \<Rightarrow> bool" where
  "drops_profile q = (case q of ReqProfile (DeleteOverrideReq _) \<Rightarrow> True | ReqProfile (DeleteProfileReq _) \<Rightarrow> True | _ \<Rightarrow> False)"

definition cluster_request :: "request \<Rightarrow> bool" where
  "cluster_request q \<longleftrightarrow> (\<exists>k. q = ReqKube k)"

abbreviation keeps_profile :: "request \<Rightarrow> bool" where
  "keeps_profile q \<equiv> \<not> drops_profile q \<and> \<not> cluster_request q"

lemma phases_keep_profile:
  "subscription_request q \<Longrightarrow> keeps_profile q" "stripe_unlink key q \<Longrightarrow> keeps_profile q"
  "customer_request key q \<Longrightarrow> keeps_profile q"
  by (auto simp: drops_profile_def cluster_request_def subscription_request_def stripe_unlink_def customer_request_def split: request.splits)

lemma removal_phases_keep_profile: "removal_phases key qs \<Longrightarrow> q \<in> set qs \<Longrightarrow> keeps_profile q"
  unfolding removal_phases_def customer_phase_def before_invoicing_def
  using phases_keep_profile by (fastforce simp: drops_profile_def cluster_request_def)

lemma profile_removal_stays_out: "gives (billingProfileFinalize fuel srv account m) (\<lambda>r u. \<forall>q \<in> set (sent u). \<not> cluster_request q)"
  by (rule gives_mono [OF billingProfileFinalize_gives])
    (auto simp: own_profile_removal_def override_removal_def profile_removal_def profile_read_def cluster_request_def split: request.splits)

lemma customerLink_keeps_profile: "gives (customerLinkFinalize fuel srv account) (\<lambda>r u. \<forall>q \<in> set (sent u). keeps_profile q)"
proof (cases "annotation (ba_meta account) ForceDeleteAnnotation = ''true''")
  case True
  then have "customerLinkFinalize fuel srv account = force_release fuel srv (km_uid (ba_meta account))"
    by (simp add: customerLinkFinalize_def Let_def)
  with gives_mono [OF force_release_sends [of fuel srv "km_uid (ba_meta account)"], of "\<lambda>r u. \<forall>q \<in> set (sent u). keeps_profile q"]
  show ?thesis by (auto dest: phases_keep_profile)
next
  case False
  show ?thesis by (rule gives_mono [OF customerLink_phases [OF False]]) (auto dest: removal_phases_keep_profile)
qed

text \<open>
  What the finalizers do to a deleted account with metadata \<open>m\<close>, from \<open>t\<close> on, when they leave
  the finalizers \<open>fs\<close>: no override and no profile is removed before the customer is dealt with,
  and each finalizer that is gone has succeeded.
\<close>

definition customer_first :: "nat \<Rightarrow> server \<Rightarrow> billing_account \<Rightarrow> exchanges \<Rightarrow> exchanges \<Rightarrow> bool" where
  "customer_first fuel srv account t u \<longleftrightarrow> (\<forall>a x b. u = a @ x # b \<and> drops_profile (fst x) \<longrightarrow>
    CustomerLinkFinalizer \<notin> set (km_finalizers (ba_meta account)) \<or>
    (\<exists>t1. customerLinkFinalize fuel srv account t = (Inr (), t1) \<and> prefix t1 (t @ a)))"

definition released :: "nat \<Rightarrow> server \<Rightarrow> billing_account \<Rightarrow> go_string list \<Rightarrow> exchanges \<Rightarrow> bool" where
  "released fuel srv account fs t \<longleftrightarrow>
    (CustomerLinkFinalizer \<in> set (km_finalizers (ba_meta account)) - set fs \<longrightarrow>
       fst (customerLinkFinalize fuel srv account t) = Inr ()) \<and>
    (BillingProfileFinalizer \<in> set (km_finalizers (ba_meta account)) - set fs \<longrightarrow>
       (\<exists>m t1. CustomerLinkFinalizer \<notin> set (km_finalizers m) \<and> fst (billingProfileFinalize fuel srv account m t1) = Inr ()))"

lemma customer_first_quiet: "\<forall>q \<in> set (sent u). \<not> drops_profile q \<Longrightarrow> customer_first fuel srv account t u"
  unfolding customer_first_def by auto

lemma customer_first_append:
  assumes "customer_first fuel srv account t u" "\<forall>q \<in> set (sent v). \<not> drops_profile q"
  shows "customer_first fuel srv account t (u @ v)"
  unfolding customer_first_def
proof (intro allI impI, elim conjE)
  fix a x b
  assume eq: "u @ v = a @ x # b" and x: "drops_profile (fst x)"
  then have "x \<notin> set v" using assms(2) by (auto simp: sent_def)
  with eq obtain c where "u = a @ x # c" by (auto simp: append_eq_append_conv2 append_eq_Cons_conv Cons_eq_append_conv)
  with assms(1) x show "CustomerLinkFinalizer \<notin> set (km_finalizers (ba_meta account)) \<or>
      (\<exists>t1. customerLinkFinalize fuel srv account t = (Inr (), t1) \<and> prefix t1 (t @ a))"
    unfolding customer_first_def by blast
qed

lemma customer_first_after:
  assumes "customerLinkFinalize fuel srv account t = (Inr (), t @ v)" "\<forall>q \<in> set (sent v). \<not> drops_profile q"
  shows "customer_first fuel srv account t (v @ w)"
  unfolding customer_first_def
proof (intro allI impI, elim conjE)
  fix a x b
  assume eq: "v @ w = a @ x # b" and x: "drops_profile (fst x)"
  then have "x \<notin> set v" using assms(2) by (auto simp: sent_def)
  with eq obtain c where "a = v @ c" by (auto simp: append_eq_append_conv2 append_eq_Cons_conv Cons_eq_append_conv)
  with assms(1) show "CustomerLinkFinalizer \<notin> set (km_finalizers (ba_meta account)) \<or>
      (\<exists>t1. customerLinkFinalize fuel srv account t = (Inr (), t1) \<and> prefix t1 (t @ a))" by simp
qed

lemma distinct_finalizers [simp]: "CustomerLinkFinalizer \<noteq> BillingProfileFinalizer" "BillingProfileFinalizer \<noteq> CustomerLinkFinalizer"
  by (simp_all add: CustomerLinkFinalizer_def BillingProfileFinalizer_def)

lemma profile_waits: "CustomerLinkFinalizer \<in> set (km_finalizers m) \<Longrightarrow>
  \<exists>e. billingProfileFinalize fuel srv account m t = (Inl e, t)"
  by (simp add: billingProfileFinalize_def fail_def)

lemma two_orders: "mset xs = mset [a, b] \<Longrightarrow> xs = [a, b] \<or> xs = [b, a]"
  by (cases xs; cases "tl xs"; cases "tl (tl xs)") (auto simp: add_eq_conv_diff split: if_splits)


definition finalizers_done :: "nat \<Rightarrow> server \<Rightarrow> billing_account \<Rightarrow> exchanges \<Rightarrow> kube_meta \<Rightarrow> exchanges \<Rightarrow> bool" where
  "finalizers_done fuel srv account t m' t' \<longleftrightarrow> (\<exists>u. t' = t @ u \<and> customer_first fuel srv account t u \<and>
    (\<forall>q \<in> set (sent u). \<not> cluster_request q)) \<and> released fuel srv account (km_finalizers m') t \<and> km_deleting m'"

lemma finalizers_doneI:
  "t' = t @ u \<Longrightarrow> customer_first fuel srv account t u \<Longrightarrow> \<forall>q \<in> set (sent u). \<not> cluster_request q \<Longrightarrow>
    released fuel srv account (km_finalizers m') t \<Longrightarrow> km_deleting m' \<Longrightarrow> finalizers_done fuel srv account t m' t'"
  unfolding finalizers_done_def by blast

abbreviation link_entry :: "nat \<Rightarrow> server \<Rightarrow> billing_account \<Rightarrow> finalizer_entry" where
  "link_entry fuel srv account \<equiv> (CustomerLinkFinalizer, \<lambda>_. customerLinkFinalize fuel srv account)"

abbreviation profile_entry :: "nat \<Rightarrow> server \<Rightarrow> billing_account \<Rightarrow> finalizer_entry" where
  "profile_entry fuel srv account \<equiv> (BillingProfileFinalizer, billingProfileFinalize fuel srv account)"

lemma finalizers_without_link:
  assumes "km_deleting (ba_meta account)" "CustomerLinkFinalizer \<notin> set (km_finalizers (ba_meta account))"
    and "order = [link_entry fuel srv account, profile_entry fuel srv account] \<or> order = [profile_entry fuel srv account, link_entry fuel srv account]"
    and run: "run_finalizers order (ba_meta account) t = ((upd, m', es), t')"
  shows "finalizers_done fuel srv account t m' t'"
proof -
  let ?m = "ba_meta account"
  obtain r u where p: "billingProfileFinalize fuel srv account ?m t = (r, t @ u)" "\<forall>q \<in> set (sent u). \<not> cluster_request q"
    using givesD [OF profile_removal_stays_out, of fuel srv account ?m t] by blast
  show ?thesis
    by (rule finalizers_doneI [of _ _ "if BillingProfileFinalizer \<in> set (km_finalizers ?m) then u else []"])
      (use assms p in \<open>auto simp: customer_first_def released_def split: sum.splits if_splits prod.splits
         intro!: exI [of _ ?m] exI [of _ t]\<close>)
qed

lemma finalizers_with_link:
  assumes "km_deleting (ba_meta account)" and link: "CustomerLinkFinalizer \<in> set (km_finalizers (ba_meta account))"
    and order: "order = [link_entry fuel srv account, profile_entry fuel srv account] \<or> order = [profile_entry fuel srv account, link_entry fuel srv account]"
    and run: "run_finalizers order (ba_meta account) t = ((upd, m', es), t')"
  shows "finalizers_done fuel srv account t m' t'"
proof -
  let ?m = "ba_meta account"
  let ?m1 = "?m\<lparr>km_finalizers := removeAll CustomerLinkFinalizer (km_finalizers ?m)\<rparr>"
  obtain r v where l: "customerLinkFinalize fuel srv account t = (r, t @ v)" "\<forall>q \<in> set (sent v). keeps_profile q"
    using givesD [OF customerLink_keeps_profile, of fuel srv account t] by blast
  have waits: "\<exists>e. billingProfileFinalize fuel srv account ?m t1 = (Inl e, t1)" for t1 by (rule profile_waits [OF link])
  obtain r' w where p: "billingProfileFinalize fuel srv account ?m1 (t @ v) = (r', t @ v @ w)" "\<forall>q \<in> set (sent w). \<not> cluster_request q"
    using givesD [OF profile_removal_stays_out, of fuel srv account ?m1 "t @ v"] by auto
  have quiet: "customer_first fuel srv account t v" by (rule customer_first_quiet) (use l(2) in auto)
  consider (profile) "order = [profile_entry fuel srv account, link_entry fuel srv account]"
    | (failed) e where "order = [link_entry fuel srv account, profile_entry fuel srv account]" "r = Inl e"
    | (settled) "order = [link_entry fuel srv account, profile_entry fuel srv account]" "r = Inr ()"
    using order by (cases r) auto
  then show ?thesis
  proof cases
    case profile
    obtain e' where "billingProfileFinalize fuel srv account ?m t = (Inl e', t)" using waits by blast
    with profile link l run assms(1) quiet show ?thesis
      by (intro finalizers_doneI [of _ _ v]) (auto simp: released_def split: if_splits sum.splits)
  next
    case failed
    obtain e' where "billingProfileFinalize fuel srv account ?m (t @ v) = (Inl e', t @ v)" using waits by blast
    with failed link l run assms(1) quiet show ?thesis
      by (intro finalizers_doneI [of _ _ v]) (auto simp: released_def split: if_splits)
  next
    case settled
    have "customer_first fuel srv account t (v @ w)" by (rule customer_first_after) (use l settled(2) in auto)
    with settled link l run p assms(1) quiet show ?thesis
      by (intro finalizers_doneI [of _ _ "if BillingProfileFinalizer \<in> set (km_finalizers ?m) then v @ w else v"])
        (auto simp: released_def split: sum.splits if_splits prod.splits intro!: exI [of _ ?m1] exI [of _ "t @ v"])
  qed
qed

lemma deleted_account_only_persists:
  assumes "km_deleting (ba_meta account)"
  shows "gives (account_persist env reads std account updated err) (\<lambda>r u. \<forall>q \<in> set (sent u).
    q = ReqKube (UpdateFinalizers (object_key_of ''BillingAccount'' (ba_meta account)) (km_finalizers (ba_meta account))))"
proof -
  have "gives (account_finalized env reads std account updated err) (\<lambda>r u. u = [])"
    using assms unfolding account_finalized_def by (auto split: option.splits intro!: gives_if gives_ret gives_fail)
  then show ?thesis
    unfolding account_persist_def
    by (intro gives_if gives_handle [OF gives_kube_call] gives_ret gives_fail) (auto elim!: gives_mono)
qed

lemma account_deletion:
  assumes "documented_registry fz" "km_deleting (ba_meta account)"
  shows "\<exists>u. snd (account_Reconcile fz env reads std (Inr account) t) = t @ u \<and>
    customer_first (sy_fuel env) (sy_srv env) account t u \<and>
    (\<forall>q \<in> set (sent u). cluster_request q \<longrightarrow>
      (\<exists>k fs. q = ReqKube (UpdateFinalizers k fs) \<and> released (sy_fuel env) (sy_srv env) account fs t))"
proof -
  let ?fuel = "sy_fuel env" and ?srv = "sy_srv env" and ?m = "ba_meta account"
  obtain order where order: "mset order = mset (account_registry ?fuel ?srv account)"
    "fz (account_registry ?fuel ?srv account) ?m t = collected (run_finalizers order ?m t)"
    using assms(1) unfolding documented_registry_def by blast
  obtain upd m' es t' where run: "run_finalizers order ?m t = ((upd, m', es), t')" by (metis prod.exhaust)
  from two_orders [OF order(1) [unfolded account_registry_def]] have "finalizers_done ?fuel ?srv account t m' t'"
    using finalizers_without_link [OF assms(2) _ _ run] finalizers_with_link [OF assms(2) _ _ run] by blast
  then obtain u where u: "t' = t @ u" "customer_first ?fuel ?srv account t u" "\<forall>q \<in> set (sent u). \<not> cluster_request q"
    and m': "released ?fuel ?srv account (km_finalizers m') t" "km_deleting m'"
    unfolding finalizers_done_def by blast
  let ?err = "if es = [] then None else Some (Aggregate es)"
  have "account_Reconcile fz env reads std (Inr account) t = account_persist env reads std (account\<lparr>ba_meta := m'\<rparr>) upd ?err t'"
    by (simp add: account_Reconcile_def order(2) run collected_def)
  moreover have "gives (account_persist env reads std (account\<lparr>ba_meta := m'\<rparr>) upd ?err) (\<lambda>r u. \<forall>q \<in> set (sent u).
      q = ReqKube (UpdateFinalizers (object_key_of ''BillingAccount'' m') (km_finalizers m')))"
    using deleted_account_only_persists [of "account\<lparr>ba_meta := m'\<rparr>" env reads std upd ?err] m'(2) by simp
  ultimately obtain w where w: "snd (account_Reconcile fz env reads std (Inr account) t) = t' @ w"
    "\<forall>q \<in> set (sent w). q = ReqKube (UpdateFinalizers (object_key_of ''BillingAccount'' m') (km_finalizers m'))"
    unfolding gives_def by metis
  have "\<not> drops_profile q" if "q \<in> set (sent w)" for q
    using bspec [OF w(2) that] by (simp add: drops_profile_def)
  then have "\<forall>q \<in> set (sent w). \<not> drops_profile q" by blast
  from customer_first_append [OF u(2) this] have first: "customer_first ?fuel ?srv account t (u @ w)" .
  have "\<exists>k fs. q = ReqKube (UpdateFinalizers k fs) \<and> released ?fuel ?srv account fs t"
    if "q \<in> set (sent (u @ w))" "cluster_request q" for q
  proof -
    from that u(3) have "q \<in> set (sent w)" by auto
    with w(2) m'(1) show ?thesis by blast
  qed
  with first u(1) w(1) show ?thesis by (intro exI [of _ "u @ w"]) simp
qed


text \<open>
  C3. Deleting a billing account, in whatever order the finalizers run: no override and no
  billing profile of the account is removed unless the customer was dealt with before, by a
  customer-link finalization that succeeded earlier in this pass or one whose finalizer is
  already gone, so that the last invoices are issued under the account's own terms; and a
  finalizer is dropped from the account only when its finalization succeeded.
\<close>

theorem account_Reconcile_deletion:
  assumes "documented_registry fz" "km_deleting (ba_meta account)"
  shows "\<exists>u. snd (account_Reconcile fz env reads std (Inr account) t) = t @ u \<and>
    customer_first (sy_fuel env) (sy_srv env) account t u \<and>
    (\<forall>k fs. ReqKube (UpdateFinalizers k fs) \<in> set (sent u) \<longrightarrow> released (sy_fuel env) (sy_srv env) account fs t)"
proof -
  obtain u where "snd (account_Reconcile fz env reads std (Inr account) t) = t @ u"
    "customer_first (sy_fuel env) (sy_srv env) account t u"
    "\<forall>q \<in> set (sent u). cluster_request q \<longrightarrow>
      (\<exists>k fs. q = ReqKube (UpdateFinalizers k fs) \<and> released (sy_fuel env) (sy_srv env) account fs t)"
    using account_deletion [OF assms] by blast
  then show ?thesis by (intro exI [of _ u]) (fastforce simp: cluster_request_def)
qed

definition example_registry :: registry_lib where
  "example_registry fs m t = collected (run_finalizers fs m t)"

lemma example_registry_documented: "documented_registry example_registry"
  unfolding documented_registry_def example_registry_def by blast

definition example_terms :: standard_terms where
  "example_terms = \<lparr>tm_net_days = 30, tm_frequency = ''monthly'', tm_day = 1\<rparr>"

theorem account_Reconcile_deletion_witness:
  "let env = example_sync_env\<lparr>sy_srv := example_removal_server\<rparr> in
   km_deleting (ba_meta example_account) \<and>
   (\<exists>u. snd (account_Reconcile example_registry env example_sync_reads example_terms (Inr example_account) []) = [] @ u \<and>
    customer_first 3 example_removal_server example_account [] u \<and>
    (\<forall>k fs. ReqKube (UpdateFinalizers k fs) \<in> set (sent u) \<longrightarrow> released 3 example_removal_server example_account fs []))"
proof -
  let ?env = "example_sync_env\<lparr>sy_srv := example_removal_server\<rparr>"
  have d: "km_deleting (ba_meta example_account)" by (simp add: example_account_def)
  from account_Reconcile_deletion [OF example_registry_documented d, of ?env example_sync_reads example_terms "[]"] d
  show ?thesis by (simp add: Let_def example_sync_env_def)
qed

section \<open>A state is reported when it changes\<close>

text \<open>
  The outcomes that are reported, one after the other: a failure by its message, a success by
  its fingerprint. The reports of a sequence of outcomes of one account:
\<close>

datatype reported = Failure go_string go_error | Success go_string

fun report_one :: "kube_meta \<Rightarrow> reported \<Rightarrow> notices \<Rightarrow> ctrl_result res \<times> notices \<times> event list" where
  "report_one m (Failure operation e) n = handleOpenMeterCustomerError m operation e n"
| "report_one m (Success fingerprint) n = report_synced m fingerprint n"

fun events_of :: "kube_meta \<Rightarrow> reported list \<Rightarrow> notices \<Rightarrow> event list" where
  "events_of m [] n = []"
| "events_of m (r # rs) n = (case report_one m r n of (_, n', es) \<Rightarrow> es @ events_of m rs n')"

datatype reported_state = FailedWith go_string | SyncedAs go_string

fun state_of :: "reported \<Rightarrow> reported_state" where
  "state_of (Failure operation e) = FailedWith (syncReason e @ '': '' @ error_text e)"
| "state_of (Success fingerprint) = SyncedAs fingerprint"

fun event_of :: "kube_meta \<Rightarrow> reported_state \<Rightarrow> event" where
  "event_of m (FailedWith msg) = Event ''Warning'' ''SyncFailed'' msg"
| "event_of m (SyncedAs fingerprint) = Event ''Normal'' ''Synced'' (''OpenMeter customer '' @ km_uid m @ '' synced'')"

fun remembers :: "kube_meta \<Rightarrow> notices \<Rightarrow> reported_state option \<Rightarrow> bool" where
  "remembers m n None \<longleftrightarrow> n (noticePrefix m @ ''SyncFailed'') = None \<and> n (noticePrefix m @ ''Synced'') = None"
| "remembers m n (Some (FailedWith msg)) \<longleftrightarrow>
    n (noticePrefix m @ ''SyncFailed'') = Some msg \<and> n (noticePrefix m @ ''Synced'') = None"
| "remembers m n (Some (SyncedAs fingerprint)) \<longleftrightarrow>
    n (noticePrefix m @ ''SyncFailed'') = None \<and> n (noticePrefix m @ ''Synced'') = Some fingerprint"

lemma report_one_remembers:
  assumes "remembers m n s" "report_one m r n = (res, n', es)"
  shows "remembers m n' (Some (state_of r))" "es = (if s = Some (state_of r) then [] else [event_of m (state_of r)])"
  using assms
  by (cases r; cases s; cases "the s";
      auto simp: handleOpenMeterCustomerError_def report_synced_def changed_def forget_def Let_def split: if_splits)+

lemma events_of_remembered:
  "remembers m n s \<Longrightarrow> events_of m rs n =
    map (event_of m) (case s of None \<Rightarrow> remdups_adj (map state_of rs) | Some x \<Rightarrow> tl (remdups_adj (x # map state_of rs)))"
proof (induction rs arbitrary: n s)
  case Nil
  then show ?case by (auto split: option.splits)
next
  case (Cons r rs)
  obtain res n' es where r: "report_one m r n = (res, n', es)" by (metis prod.exhaust)
  note step = report_one_remembers [OF Cons.prems r]
  obtain xs where "remdups_adj (state_of r # map state_of rs) = state_of r # xs"
    using remdups_adj_Cons [of "state_of r" "map state_of rs"] by (auto split: list.splits if_splits)
  with Cons.IH [OF step(1)] step(2) r show ?case by (auto split: option.splits)
qed

text \<open>
  C21. A state of an account is reported when it is reached and not again while it lasts: over
  any sequence of passes that end in a failure or a success, starting with nothing reported,
  the events are exactly one per run of equal states, a state being the failure's message or
  the fingerprint of what was synced.
\<close>

theorem reports_once_per_state:
  "events_of m rs Map.empty = map (event_of m) (remdups_adj (map state_of rs))"
  using events_of_remembered [of m Map.empty None rs] by simp

end
