(* ===== verification/AccountLife.thy ===== *)
theory AccountLife
  imports AccountController Finalization
begin

text \<open>
  The life of a BillingAccount: its controller meets the contract of \<open>Finalization\<close> for the finalizer
  of the OpenMeter customer. A pass on an account that is not being deleted only adds
  finalizers, whatever its three synchronisations send; one on a deleted account drops the
  finalizer only after the customer was dealt with (\<open>AccountController\<close>).
\<close>

section \<open>Synchronising writes no finalizers\<close>

lemma GetCustomer_no_finalizers: "adds no_finalizers (GetCustomer srv key)"
  by (rule adds_mono [OF GetCustomer_sends [folded adds_gives]]) simp

lemma adds_map_error:
  "adds P m \<Longrightarrow> adds P (\<lambda>t. case m t of (Inl e, t') \<Rightarrow> (Inl (f e), t') | (Inr c, t') \<Rightarrow> (Inr c, t'))"
  unfolding adds_def by (simp split: prod.splits sum.splits) (metis snd_conv)

lemma customer_answer_no_finalizers: "adds no_finalizers (customer_answer srv opn key r)"
  unfolding customer_answer_def
  by (auto intro!: adds_map_error GetCustomer_no_finalizers split: option.splits body.splits account_body.splits)

lemma EnsureCustomer_no_finalizers: "adds no_finalizers (EnsureCustomer srv desired)"
proof -
  have eq: "EnsureCustomer srv desired =
    (if dc_key desired = [] then fail (permanent ''DesiredCustomer.Key is required'')
     else if dc_name desired = [] then fail (permanent ''DesiredCustomer.Name is required'')
     else handle (GetCustomer srv (dc_key desired))
       (\<lambda>e. if errors_is e ErrCustomerNotFound then createCustomer srv desired else fail e)
       (\<lambda>existing. if \<not> customerNeedsUpdate existing desired then ret existing else updateCustomer srv existing desired))"
    by (auto simp: EnsureCustomer_def handle_def fail_def ret_def fun_eq_iff split: prod.splits sum.splits)
  show ?thesis
    unfolding eq createCustomer_def updateCustomer_def
    by (intro adds_if adds_handle adds_fail adds_ret adds_and_then adds_v1_call adds_checked
        GetCustomer_no_finalizers customer_answer_no_finalizers) simp_all
qed

lemma profile_read_not_kube: "profile_read q \<Longrightarrow> q \<noteq> ReqKube k"
  by (auto simp: profile_read_def)

lemma profile_reads_no_finalizers: "gives m (\<lambda>r u. profile_reads u) \<Longrightarrow> adds no_finalizers m"
  unfolding profile_reads_def adds_gives [symmetric]
  by (erule adds_mono) (rule not_a_write, rule profile_read_not_kube)

lemma profile_write_no_finalizers: "adds no_finalizers (written_profile srv q)"
  unfolding adds_gives by (rule gives_mono [OF written_profile_gives]) auto

lemma EnsureBillingProfile_no_finalizers: "adds no_finalizers (EnsureBillingProfile fuel srv existingID desired)"
proof -
  have d: "adds no_finalizers (default_profile_or_error fuel srv name)" for name
    unfolding default_profile_or_error_def
    by (intro adds_handle adds_if adds_fail adds_ret profile_reads_no_finalizers [OF GetDefaultBillingProfile_gives])
  have a: "adds no_finalizers (adopt_existing srv i k)" for i k
    by (rule profile_reads_no_finalizers) (rule gives_mono [OF adopt_existing_gives], simp)
  have f: "adds no_finalizers (find_current fuel srv k x)" for k x
    by (rule profile_reads_no_finalizers) (rule gives_mono [OF find_current_gives], simp)
  have w: "adds no_finalizers (createBillingProfile srv p desired)" "adds no_finalizers (updateBillingProfile srv q p desired)" for p q
    unfolding createBillingProfile_def updateBillingProfile_def
    by (auto intro!: profile_write_no_finalizers split: option.splits)
  show ?thesis
    unfolding EnsureBillingProfile_def
    by (auto intro!: adds_and_then adds_if d a f w split: option.splits prod.splits)
qed

lemma reconcileBillingProfile_no_finalizers: "adds no_finalizers (reconcileBillingProfile fuel srv std account key cid)"
  unfolding reconcileBillingProfile_def link_profile_def UpsertBillingProfileCustomerOverride_def Let_def
  by (intro adds_and_then adds_wrapping adds_if adds_ret adds_fail adds_kube_call adds_v1_call adds_checked
      EnsureBillingProfile_no_finalizers) simp_all

lemma reconcileStripeAppData_no_finalizers: "adds no_finalizers (reconcileStripeAppData srv reads account cid)"
proof -
  have g: "adds no_finalizers (GetCustomerStripeAppData srv cid)"
    by (rule adds_mono [OF GetStripe_sends [folded adds_gives]]) simp
  have e: "adds no_finalizers (EnsureCustomerStripeAppData srv cid c m)" for c m
    by (rule adds_mono [OF EnsureStripe_gives [folded adds_gives]]) (auto simp: stripe_requests_def)
  show ?thesis
    unfolding reconcileStripeAppData_def upsert_resolved_def clear_stale_method_def
    by (auto intro!: adds_if adds_handle g e split: sum.splits)
qed

lemma own_sync_no_finalizers: "own_sync account objs invoices ss q \<Longrightarrow> no_finalizers q"
  by (cases "(account, objs, invoices, ss, q)" rule: own_sync.cases) (auto simp: finalizers_written_def)

lemma listInvoices_no_finalizers: "adds no_finalizers (ListInvoicesIncludingDeleted fuel srv cid)"
proof -
  have "adds no_finalizers (invoices_page srv cid del n)" for del n
    unfolding invoices_page_def
    unfolding decode_invoices_def
    by (auto intro!: adds_and_then adds_v1_call split: option.splits body.splits account_body.splits)
  then have "adds no_finalizers (listInvoices_from srv cid del fuel n out)" for del n out
    by (induction fuel arbitrary: n out) (auto intro!: adds_and_then)
  then show ?thesis by (simp add: ListInvoicesIncludingDeleted_def listInvoices_def)
qed

lemma reconcileInvoices_no_finalizers:
  assumes "reads_by_name env account" "\<And>l. set (rd_range reads l) = set l"
  shows "allowed_until no_finalizers t (snd (reconcileInvoices env reads account cid t))"
proof -
  obtain x t1 where l: "ListInvoicesIncludingDeleted (sy_fuel env) (sy_srv env) cid t = (x, t1)" by force
  have t1: "allowed_until no_finalizers t t1" by (rule allowed_until_adds [OF listInvoices_no_finalizers l])
  show ?thesis
  proof (cases "\<exists>invoices objs. x = Inr invoices \<and> rd_invoices reads = Inr objs")
    case True
    then obtain invoices objs where o: "x = Inr invoices" "rd_invoices reads = Inr objs" by blast
    obtain r t2 where run: "sync_listed env reads account invoices objs t1 = (r, t2)" by force
    from sync_listed_own [OF assms run] have "allowed_until no_finalizers t1 t2"
      unfolding allowed_until_def using own_sync_no_finalizers by blast
    with allowed_until_trans [OF t1 this] l o run show ?thesis
      by (simp add: reconcileInvoices_def and_then_def wrapping_def)
  next
    case False
    with l t1 show ?thesis
      by (cases x; cases "rd_invoices reads") (auto simp: reconcileInvoices_def and_then_def wrapping_def fail_def)
  qed
qed

lemma reconcileBillingProfile_namespace:
  "fst (reconcileBillingProfile fuel srv std account key cid t) = Inr account' \<Longrightarrow>
    km_namespace (ba_meta account') = km_namespace (ba_meta account)"
  by (auto simp: reconcileBillingProfile_def link_profile_def and_then_def wrapping_def ret_def Let_def
      split: prod.splits sum.splits if_splits)

lemma account_syncs_no_finalizers:
  assumes "reads_by_name env account" "\<And>l. set (rd_range reads l) = set l"
  shows "adds no_finalizers (account_syncs env reads std account customer)"
  unfolding adds_def
proof
  fix t
  let ?fuel = "sy_fuel env" and ?srv = "sy_srv env" and ?cid = "cu_id customer"
  obtain p t1 where p: "wrapping ''reconcile billing profile''
      (reconcileBillingProfile ?fuel ?srv std account (km_uid (ba_meta account)) ?cid) t = (p, t1)" by force
  define account' where "account' = (case p of Inl _ \<Rightarrow> account | Inr a \<Rightarrow> a)"
  obtain st t2 where st: "reconcileStripeAppData ?srv (rd_stripe reads) account' ?cid t1 = (st, t2)" by force
  obtain iv t3 where iv: "wrapping ''reconcile invoices'' (reconcileInvoices env reads account' ?cid) t2 = (iv, t3)" by force
  have "reads_by_name env account'"
  proof (cases p)
    case (Inr a)
    then have "fst (reconcileBillingProfile ?fuel ?srv std account (km_uid (ba_meta account)) ?cid t) = Inr a"
      using p by (auto simp: wrapping_def split: prod.splits sum.splits)
    from reconcileBillingProfile_namespace [OF this] assms(1) Inr show ?thesis
      by (simp add: account'_def reads_by_name_def)
  qed (simp add: account'_def assms(1))
  then have "allowed_until no_finalizers t2 (snd (reconcileInvoices env reads account' ?cid t2))"
    by (rule reconcileInvoices_no_finalizers [OF _ assms(2)])
  moreover have "snd (reconcileInvoices env reads account' ?cid t2) = t3"
    using iv by (auto simp: wrapping_def split: prod.splits sum.splits)
  moreover have "allowed_until no_finalizers t t1"
    by (rule allowed_until_adds [OF adds_wrapping [OF reconcileBillingProfile_no_finalizers] p])
  moreover have "allowed_until no_finalizers t1 t2"
    by (rule allowed_until_adds [OF reconcileStripeAppData_no_finalizers st])
  ultimately have "allowed_until no_finalizers t t3" by (metis allowed_until_trans)
  moreover have "snd (account_syncs env reads std account customer t) = t3"
    using p st iv by (simp add: account_syncs_def Let_def account'_def)
  ultimately show "\<exists>u. snd (account_syncs env reads std account customer t) = t @ u \<and> (\<forall>q \<in> set (sent u). no_finalizers q)"
    unfolding allowed_until_def by simp
qed

lemma account_sync_no_finalizers:
  "reads_by_name env account \<Longrightarrow> (\<And>l. set (rd_range reads l) = set l) \<Longrightarrow> adds no_finalizers (account_sync env reads std account)"
  unfolding account_sync_def by (intro adds_handle adds_ret EnsureCustomer_no_finalizers account_syncs_no_finalizers)

section \<open>A pass on an account that is not being deleted\<close>

lemma run_finalizers_adds:
  "\<not> km_deleting m \<Longrightarrow> \<exists>upd m'. run_finalizers fs m t = ((upd, m', []), t) \<and>
    set (km_finalizers m) \<subseteq> set (km_finalizers m') \<and> km_namespace m' = km_namespace m"
proof (induction fs arbitrary: m)
  case (Cons f fs)
  obtain key cb where f: "f = (key, cb)" by force
  show ?case
  proof (cases "key \<in> set (km_finalizers m)")
    case True
    with Cons f show ?thesis by auto
  next
    case False
    have "\<not> km_deleting (m\<lparr>km_finalizers := km_finalizers m @ [key]\<rparr>)" using Cons.prems by simp
    from Cons.IH [OF this] obtain upd m' where "run_finalizers fs (m\<lparr>km_finalizers := km_finalizers m @ [key]\<rparr>) t = ((upd, m', []), t)"
      "set (km_finalizers m @ [key]) \<subseteq> set (km_finalizers m')" "km_namespace m' = km_namespace m" by auto
    with False f Cons.prems show ?thesis by auto
  qed
qed (simp, blast)

lemma account_persist_keeps:
  assumes "reads_by_name env account" "\<And>l. set (rd_range reads l) = set l" "b \<Longrightarrow> key \<in> set (km_finalizers (ba_meta account))"
  shows "adds (\<lambda>q. b \<longrightarrow> \<not> drops key q) (account_persist env reads std account updated err)"
proof -
  have "adds (\<lambda>q. b \<longrightarrow> \<not> drops key q) (account_sync env reads std account)"
    by (rule adds_mono [OF account_sync_no_finalizers [OF assms(1,2)]]) (simp add: drops_written)
  then have "adds (\<lambda>q. b \<longrightarrow> \<not> drops key q) (account_finalized env reads std account updated err)"
    unfolding account_finalized_def by (auto split: option.splits)
  then show ?thesis
    unfolding account_persist_def using assms(3)
    by (intro adds_if adds_handle adds_ret adds_fail adds_kube_call) simp_all
qed

lemma account_pass_keeps:
  assumes "documented_registry fz" "reads_by_name env account" "\<And>l. set (rd_range reads l) = set l"
    and "\<not> km_deleting (ba_meta account)"
  shows "\<exists>u. snd (account_Reconcile fz env reads std (Inr account) t) = t @ u \<and>
    (key \<in> set (km_finalizers (ba_meta account)) \<longrightarrow> (\<forall>q \<in> set (sent u). \<not> drops key q))"
proof -
  let ?b = "key \<in> set (km_finalizers (ba_meta account))"
  obtain order where order: "fz (account_registry (sy_fuel env) (sy_srv env) account) (ba_meta account) t =
      collected (run_finalizers order (ba_meta account) t)"
    using assms(1) unfolding documented_registry_def by blast
  obtain upd m' where run: "run_finalizers order (ba_meta account) t = ((upd, m', []), t)"
    "set (km_finalizers (ba_meta account)) \<subseteq> set (km_finalizers m')" "km_namespace m' = km_namespace (ba_meta account)"
    using run_finalizers_adds [OF assms(4)] by blast
  have "adds (\<lambda>q. ?b \<longrightarrow> \<not> drops key q) (account_persist env reads std (account\<lparr>ba_meta := m'\<rparr>) upd None)"
    by (rule account_persist_keeps [OF _ assms(3)]) (use assms(2) run in \<open>auto simp: reads_by_name_def\<close>)
  then show ?thesis
    using order run(1) unfolding adds_def by (fastforce simp: account_Reconcile_def collected_def)
qed


section \<open>The life of an account\<close>

text \<open>
  What a pass reads: the finalizer library's order, its environment (on one server), the reads of its
  synchronisations and the account at any age. Reads of Invoices by name answer with
  that Invoice, and ranging over a map visits exactly its entries. An account is settled when a pass that read it as
  being deleted dealt with its customer.
\<close>

type_synonym account_input = "registry_lib \<times> sync_env \<times> sync_reads \<times> standard_terms \<times> billing_account"

definition account_ok :: "server \<Rightarrow> account_input \<Rightarrow> bool" where
  "account_ok srv x = (case x of (fz, env, reads, std, account) \<Rightarrow>
    documented_registry fz \<and> sy_srv env = srv \<and> reads_by_name env account \<and> (\<forall>l. set (rd_range reads l) = set l))"

definition account_held :: "account_input \<Rightarrow> go_string list" where
  "account_held x = (case x of (fz, env, reads, std, account) \<Rightarrow> km_finalizers (ba_meta account))"

definition account_pass :: "account_input \<Rightarrow> exchanges \<Rightarrow> exchanges" where
  "account_pass x t = (case x of (fz, env, reads, std, account) \<Rightarrow> snd (account_Reconcile fz env reads std (Inr account) t))"

definition account_settled :: "account_input \<Rightarrow> exchanges \<Rightarrow> bool" where
  "account_settled x t = (case x of (fz, env, reads, std, account) \<Rightarrow>
    km_deleting (ba_meta account) \<and> fst (customerLinkFinalize (sy_fuel env) (sy_srv env) account t) = Inr ())"

lemma account_pass_meets_contract:
  assumes "account_ok srv (fz, env, reads, std, account)"
  shows "\<exists>u. account_pass (fz, env, reads, std, account) t = t @ u \<and>
    (CustomerLinkFinalizer \<in> set (km_finalizers (ba_meta account)) \<longrightarrow>
      (\<forall>q \<in> set (sent u). drops CustomerLinkFinalizer q \<longrightarrow> account_settled (fz, env, reads, std, account) t))"
proof (cases "km_deleting (ba_meta account)")
  case True
  from assms True obtain u where u: "snd (account_Reconcile fz env reads std (Inr account) t) = t @ u"
    "\<forall>q \<in> set (sent u). cluster_request q \<longrightarrow>
      (\<exists>k fs. q = ReqKube (UpdateFinalizers k fs) \<and> released (sy_fuel env) (sy_srv env) account fs t)"
    using account_deletion [of fz account env reads std t] by (auto simp: account_ok_def)
  have "account_settled (fz, env, reads, std, account) t"
    if "CustomerLinkFinalizer \<in> set (km_finalizers (ba_meta account))" "q \<in> set (sent u)" "drops CustomerLinkFinalizer q" for q
  proof -
    have "cluster_request q" using drops_kube [OF that(3)] by (auto simp: cluster_request_def)
    with u(2) that True show ?thesis by (fastforce simp: account_settled_def released_def)
  qed
  with u(1) show ?thesis by (intro exI [of _ u]) (auto simp: account_pass_def)
next
  case False
  from account_pass_keeps [OF _ _ _ False, where fz = fz and env = env and reads = reads and std = std and key = CustomerLinkFinalizer and t = t] assms
  show ?thesis by (auto simp: account_ok_def account_pass_def)
qed

interpretation acct: finalized_object CustomerLinkFinalizer "account_ok srv" account_held account_pass account_settled
  for srv
proof
  fix x t
  assume "account_ok srv x"
  then show "prefix t (account_pass x t)"
    using account_pass_meets_contract by (cases x) (metis prefixI)
next
  fix x t u q
  assume a: "account_ok srv x" "CustomerLinkFinalizer \<in> set (account_held x)" "account_pass x t = t @ u"
    "q \<in> set (sent u)" "drops CustomerLinkFinalizer q"
  obtain fz env reads std account where x: "x = (fz, env, reads, std, account)" by (cases x)
  from account_pass_meets_contract [OF a(1) [unfolded x], of t] a x show "account_settled x t"
    by (auto simp: account_held_def)
qed


definition example_account_input :: account_input where
  "example_account_input = (example_registry, example_sync_env\<lparr>sy_srv := example_removal_server\<rparr>, example_sync_reads, example_terms, example_account)"

lemma example_account_pass:
  "list_ex (\<lambda>q. case finalizers_written q of Some fs \<Rightarrow> fs = [BillingProfileFinalizer] \<or> fs = [] | None \<Rightarrow> False)
    (sent (account_pass example_account_input []))"
  by code_simp


end
