(* ===== verification/OfferController.thy ===== *)
theory OfferController
  imports Finalization OfferMapping Features Meters GoTime
begin

text \<open>
  The Offer controller (\<open>internal/controller/offer_controller.go\<close>): a GA Offer becomes one
  published OpenMeter plan with its features, removed again by a finalizer.

  Parameters, in \<open>offer_env\<close>: the decimal and JSON conversions of the mapping, the encoder
  behind the plan's hash, the server (OpenMeter and the Kubernetes writes), the fuel of the
  listings, and \<open>oe_changed\<close> for \<open>apimeta.SetStatusCondition\<close>: whether setting a condition
  changes a list of conditions.
\<close>

section \<open>State\<close>

record offer_object =
  fo_offer :: offer
  fo_meta :: kube_meta
  fo_stage :: go_string
  fo_conditions :: "condition list"

record listed_meter =
  lm_meter_name :: go_string
  lm_dimensions :: "go_string list"

record offer_env =
  oe_dec :: "go_string \<Rightarrow> rat option"
  oe_fj :: "filter_string \<Rightarrow> go_string"
  oe_enc :: plan_encoder
  oe_changed :: "condition \<Rightarrow> condition list \<Rightarrow> bool"
  oe_fuel :: nat
  oe_srv :: server

definition ProductPlanFinalizer :: go_string where "ProductPlanFinalizer = ''openmeter.miloapis.com/product-plan''"
definition ConditionTypeOpenMeterPlanSynced :: go_string where "ConditionTypeOpenMeterPlanSynced = ''OpenMeterPlanSynced''"
definition OfferLaunchStageGA :: go_string where "OfferLaunchStageGA = ''GA''"

definition offer_key :: "offer_object \<Rightarrow> object_key" where
  "offer_key ofr = object_key_of ''Offer'' (fo_meta ofr)"

section \<open>Conditions\<close>

definition setSyncedCondition :: "offer_env \<Rightarrow> offer_object \<Rightarrow> bool \<Rightarrow> go_string \<Rightarrow> go_string \<Rightarrow> bool api" where
  "setSyncedCondition env ofr status reason message =
    (let c = \<lparr>cd_type = ConditionTypeOpenMeterPlanSynced, cd_status = (if status then ''True'' else ''False''), cd_reason = reason,
              cd_message = message, cd_generation = km_generation (fo_meta ofr)\<rparr>
     in if \<not> oe_changed env c (fo_conditions ofr) then ret False
        else and_then (wrapping ''patch offer status'' (kube_call (oe_srv env) (PatchCondition (offer_key ofr) c))) (\<lambda>_. ret True))"

definition setSyncedFalse :: "offer_env \<Rightarrow> offer_object \<Rightarrow> go_string \<Rightarrow> go_error \<Rightarrow> unit api" where
  "setSyncedFalse env ofr reason cause = and_then (setSyncedCondition env ofr False reason (error_text cause)) (\<lambda>_. ret ())"

definition syncFailed :: "offer_env \<Rightarrow> offer_object \<Rightarrow> go_string \<Rightarrow> go_error \<Rightarrow> ctrl_result api" where
  "syncFailed env ofr reason cause = handle (setSyncedFalse env ofr reason cause) (\<lambda>e. fail (Wrap [] [cause, e])) (\<lambda>_. fail cause)"

definition syncWaiting :: "offer_env \<Rightarrow> offer_object \<Rightarrow> go_string \<Rightarrow> go_error \<Rightarrow> int \<Rightarrow> ctrl_result api" where
  "syncWaiting env ofr reason cause after = and_then (setSyncedFalse env ofr reason cause) (\<lambda>_. ret (ResultRequeueAfter after))"

definition openMeterFailed :: "offer_env \<Rightarrow> offer_object \<Rightarrow> go_error \<Rightarrow> ctrl_result api" where
  "openMeterFailed env ofr e = syncFailed env ofr ''OpenMeterError'' (Wrap (syncReason e) [e])"

fun invalid_offer_node :: "go_error \<Rightarrow> bool" where
  "invalid_offer_node (InvalidOffer _) = True"
| "invalid_offer_node _ = False"

section \<open>Publishing\<close>

definition index_meter :: "listed_meter \<Rightarrow> (go_string \<times> meter_info) list \<Rightarrow> (go_string \<times> meter_info) list" where
  "index_meter m out =
    (if lm_meter_name m = [] then out
     else AList.update (lm_meter_name m)
       \<lparr>mi_name = lm_meter_name m, mi_slug = MeterSlug (lm_meter_name m), mi_dimensions = lm_dimensions m\<rparr> out)"

definition meterIndex :: "listed_meter list \<Rightarrow> (go_string \<times> meter_info) list" where
  "meterIndex ms = fold index_meter ms []"

text \<open>The first meter slug OpenMeter does not have, or an error.\<close>

fun missing_meter :: "server \<Rightarrow> go_string list \<Rightarrow> go_string option api" where
  "missing_meter srv [] = ret None"
| "missing_meter srv (slug # slugs) =
    handle (GetMeter srv slug)
      (\<lambda>e. if errors_is e ErrMeterNotFound then ret (Some slug) else fail (Wrap (''get meter '' @ slug) [e]))
      (\<lambda>_. missing_meter srv slugs)"

fun ensure_features :: "offer_env \<Rightarrow> desired_feature list \<Rightarrow> str_map \<Rightarrow> str_map api" where
  "ensure_features env [] ids = ret ids"
| "ensure_features env (f # fs) ids =
    and_then (wrapping (''ensure feature '' @ df_key f) (EnsureFeature (oe_fj env) (oe_srv env) f)) (\<lambda>r.
      ensure_features env fs (AList.update (df_key f) (ft_id r) ids))"

definition plan_status_text :: "plan_status \<Rightarrow> go_string" where
  "plan_status_text s = (case s of PlanDraft \<Rightarrow> ''draft'' | PlanActive \<Rightarrow> ''active'' | PlanScheduled \<Rightarrow> ''scheduled'' | PlanArchived \<Rightarrow> ''archived'')"

definition synced_message :: "om_plan_version \<Rightarrow> go_string" where
  "synced_message p = ''OpenMeter plan '' @ pl_id p @ '' version '' @ int_text (pl_version p) @ '' is '' @ plan_status_text (pl_status p)"

definition publish_mapping :: "offer_env \<Rightarrow> offer_object \<Rightarrow> offer_mapping \<Rightarrow> ctrl_result api" where
  "publish_mapping env ofr m =
    handle (ensure_features env (om_features m) [])
      (openMeterFailed env ofr)
      (\<lambda>ids. case setFeatureIDs m ids of
          Inl e \<Rightarrow> openMeterFailed env ofr e
        | Inr m' \<Rightarrow>
          handle (EnsurePlan (oe_enc env) (oe_fuel env) (oe_srv env) (om_plan m'))
            (\<lambda>e. openMeterFailed env ofr (Wrap ''ensure plan'' [e]))
            (\<lambda>plan. and_then (setSyncedCondition env ofr True ''Synced'' (synced_message plan)) (\<lambda>_. ret ResultNone)))"

definition reconcileSync :: "offer_env \<Rightarrow> offer_object \<Rightarrow> listed_meter list res \<Rightarrow> ctrl_result api" where
  "reconcileSync env ofr listed =
    (case listed of
       Inl e \<Rightarrow> fail (Wrap ''list MeterDefinitions'' [e])
     | Inr ms \<Rightarrow>
       (case buildOfferMapping (oe_dec env) (oe_fj env) (fo_offer ofr) (meterIndex ms) of
          Inl e \<Rightarrow>
            (if errors_is e errMeterNotFound then syncWaiting env ofr ''MeterNotFound'' e transientRequeueAfter
             else if list_ex invalid_offer_node (chain e) then
               syncFailed env ofr ''InvalidPricing'' (Wrap ''offer cannot be represented in OpenMeter'' [e])
             else syncFailed env ofr ''InvalidPricing'' (Wrap ''build OpenMeter mapping'' [e]))
        | Inr m \<Rightarrow>
          handle (missing_meter (oe_srv env) (om_meter_slugs m))
            (openMeterFailed env ofr)
            (\<lambda>missing. case missing of
                Some slug \<Rightarrow> syncWaiting env ofr ''MeterNotSynced'' (Leaf (''OpenMeter meter '' @ slug @ '' does not exist yet'')) transientRequeueAfter
              | None \<Rightarrow> publish_mapping env ofr m)))"

section \<open>Deletion\<close>

text \<open>A version OpenMeter refuses for good is left behind; any other failure stops.\<close>

fun delete_versions :: "server \<Rightarrow> om_plan_version list \<Rightarrow> unit api" where
  "delete_versions srv [] = ret ()"
| "delete_versions srv (v # vs) =
    (if pl_deleted_at v \<noteq> None then delete_versions srv vs
     else handle (DeletePlan srv v)
       (\<lambda>e. if \<not> IsPermanent e then fail (Wrap (''delete plan '' @ pl_id v) [e]) else delete_versions srv vs)
       (\<lambda>_. delete_versions srv vs))"

definition release_offer :: "offer_env \<Rightarrow> offer_object \<Rightarrow> ctrl_result api" where
  "release_offer env ofr =
    and_then (wrapping ''remove finalizer'' (kube_call (oe_srv env)
      (UpdateFinalizers (offer_key ofr) (removeAll ProductPlanFinalizer (km_finalizers (fo_meta ofr)))))) (\<lambda>_. ret ResultNone)"

definition archive_and_release :: "offer_env \<Rightarrow> offer_object \<Rightarrow> om_plan_version list \<Rightarrow> ctrl_result api" where
  "archive_and_release env ofr versions =
    handle (ArchiveFeaturesIfUnreferenced (oe_fuel env) (oe_srv env) (rev (remdups (rev (concat (map PlanFeatureIDs versions))))))
      (\<lambda>e. if \<not> IsPermanent e then fail (Wrap ''archive features'' [e]) else release_offer env ofr)
      (\<lambda>_. release_offer env ofr)"

definition offer_reconcileDelete :: "offer_env \<Rightarrow> offer_object \<Rightarrow> ctrl_result api" where
  "offer_reconcileDelete env ofr =
    (if ProductPlanFinalizer \<notin> set (km_finalizers (fo_meta ofr)) then ret ResultNone
     else and_then (wrapping ''list plan versions for deletion; keeping finalizer''
         (ListPlanVersions (oe_fuel env) (oe_srv env) (planKeyForOffer (fo_offer ofr)))) (\<lambda>versions.
       and_then (delete_versions (oe_srv env) versions) (\<lambda>_. archive_and_release env ofr versions)))"

section \<open>Reconciling\<close>

definition offer_Reconcile :: "offer_env \<Rightarrow> offer_object res \<Rightarrow> listed_meter list res \<Rightarrow> ctrl_result api" where
  "offer_Reconcile env got listed =
    (case got of
       Inl e \<Rightarrow> if errors_is e KubeNotFound then ret ResultNone else fail e
     | Inr ofr \<Rightarrow>
       if km_deleting (fo_meta ofr) then offer_reconcileDelete env ofr
       else if ProductPlanFinalizer \<notin> set (km_finalizers (fo_meta ofr)) then
         and_then (wrapping ''add finalizer'' (kube_call (oe_srv env)
           (UpdateFinalizers (offer_key ofr) (km_finalizers (fo_meta ofr) @ [ProductPlanFinalizer])))) (\<lambda>_. ret ResultNone)
       else if fo_stage ofr \<noteq> OfferLaunchStageGA then ret ResultNone
       else if of_pricings (fo_offer ofr) = [] then ret (ResultRequeueAfter transientRequeueAfter)
       else reconcileSync env ofr listed)"

definition prices_metric :: "go_string \<Rightarrow> offer_object \<Rightarrow> bool" where
  "prices_metric metric ofr \<longleftrightarrow> list_ex (\<lambda>sp. sp_charge_type sp = ChargeUsage \<and> sp_metric sp = metric) (of_pricings (fo_offer ofr))"

definition offersForMeter :: "go_string \<Rightarrow> offer_object list \<Rightarrow> go_string list" where
  "offersForMeter meter_name offers =
    (if meter_name = [] then []
     else map (\<lambda>ofr. km_name (fo_meta ofr)) (filter (\<lambda>ofr. fo_stage ofr = OfferLaunchStageGA \<and> prices_metric meter_name ofr) offers))"

section \<open>An Offer is published whole or not at all\<close>

definition plan_write :: "request \<Rightarrow> bool" where
  "plan_write q = (case q of ReqCreatePlan _ \<Rightarrow> True | ReqUpdatePlan _ _ \<Rightarrow> True | ReqPublishPlan _ \<Rightarrow> True | _ \<Rightarrow> False)"

definition marks_synced :: "request \<Rightarrow> bool" where
  "marks_synced q \<longleftrightarrow> (\<exists>k c. q = ReqKube (PatchCondition k c) \<and> cd_status c = ''True'')"

definition quiet :: "exchanges \<Rightarrow> bool" where
  "quiet u \<longleftrightarrow> (\<forall>q \<in> set (sent u). \<not> plan_write q \<and> \<not> marks_synced q)"

lemma quiet_exchanges [simp]: "quiet []" "quiet (u @ v) \<longleftrightarrow> quiet u \<and> quiet v"
  by (auto simp: quiet_def)

lemma gives_quiet_adds: "adds (\<lambda>q. \<not> plan_write q \<and> \<not> marks_synced q) m \<Longrightarrow> gives m (\<lambda>r u. quiet u)"
  unfolding quiet_def by (rule gives_adds)

lemma gives_kube_quiet: "\<not> marks_synced (ReqKube q) \<Longrightarrow> gives (kube_call srv q) (\<lambda>r u. quiet u)"
  by (rule gives_mono [OF gives_kube_call]) (auto simp: quiet_def plan_write_def)

lemma setSyncedCondition_gives:
  "gives (setSyncedCondition env ofr status reason msg) (\<lambda>r u. \<not> status \<longrightarrow> quiet u)"
proof -
  have "gives (kube_call srv (PatchCondition k c)) (\<lambda>r u. cd_status c \<noteq> ''True'' \<longrightarrow> quiet u)" for srv k c
    by (rule gives_mono [OF gives_kube_call]) (auto simp: quiet_def plan_write_def marks_synced_def)
  then have patch: "gives (wrapping msg (kube_call srv (PatchCondition k c))) (\<lambda>r u. cd_status c \<noteq> ''True'' \<longrightarrow> quiet u)" for msg srv k c
    by (rule gives_wrapping)
  show ?thesis
    unfolding setSyncedCondition_def Let_def
    by (intro gives_if gives_ret gives_and_then [OF patch]) auto
qed

lemma syncFailed_gives: "gives (syncFailed env ofr reason cause) (\<lambda>r u. quiet u)"
  unfolding syncFailed_def setSyncedFalse_def
  by (intro gives_handle [OF gives_and_then [OF setSyncedCondition_gives, where Q = "\<lambda>r u. quiet u"]] gives_fail gives_ret) simp_all

lemma syncWaiting_gives: "gives (syncWaiting env ofr reason cause after) (\<lambda>r u. quiet u)"
  unfolding syncWaiting_def setSyncedFalse_def
  by (intro gives_and_then [OF gives_and_then [OF setSyncedCondition_gives, where Q = "\<lambda>r u. quiet u"]] gives_ret) simp_all

lemma openMeterFailed_gives: "gives (openMeterFailed env ofr e) (\<lambda>r u. quiet u)"
  unfolding openMeterFailed_def by (rule syncFailed_gives)

lemma GetMeter_quiet: "gives (GetMeter srv s) (\<lambda>r u. quiet u)"
  by (auto simp: gives_def GetMeter_def and_then_def v1_call_def call_def checked_def ret_def fail_def quiet_def
      plan_write_def marks_synced_def split: sum.splits option.splits body.splits)

lemma missing_meter_gives: "gives (missing_meter srv slugs) (\<lambda>r u. quiet u)"
proof (induction slugs)
  case (Cons s slugs)
  show ?case
    by (auto intro!: gives_handle [OF GetMeter_quiet] gives_if gives_ret gives_fail gives_mono [OF Cons])
qed (simp add: gives_ret)

lemma EnsureFeature_gives: "gives (EnsureFeature fj srv f) (\<lambda>r u. quiet u)"
proof -
  let ?P = "\<lambda>q. \<not> plan_write q \<and> \<not> marks_synced q"
  have c: "adds ?P (create_feature srv f)"
    unfolding create_feature_def
    by (intro adds_and_then adds_v1_call adds_checked) (auto simp: plan_write_def marks_synced_def split: option.splits body.splits)
  have g: "adds ?P (v1_call srv (ReqGetFeature k))" for k
    by (rule adds_v1_call) (simp add: plan_write_def marks_synced_def)
  have "adds ?P (EnsureFeature fj srv f)"
    unfolding EnsureFeature_def Let_def
    by (intro adds_if adds_fail adds_and_then g) (auto split: option.splits body.splits intro!: c adds_and_then)
  then show ?thesis by (rule gives_quiet_adds)
qed

lemma ensure_features_gives: "gives (ensure_features env fs ids) (\<lambda>r u. quiet u)"
proof (induction fs arbitrary: ids)
  case (Cons f fs)
  show ?case
    by (simp only: ensure_features.simps, rule gives_and_then [OF gives_wrapping [OF EnsureFeature_gives]])
      (auto intro!: gives_mono [OF Cons])
qed (simp add: gives_ret)

text \<open>What must have happened before a plan is written, and before the Offer is marked as synced.\<close>

definition published_whole :: "offer_env \<Rightarrow> offer_object \<Rightarrow> offer_mapping \<Rightarrow> exchanges \<Rightarrow> exchanges \<Rightarrow> bool" where
  "published_whole env ofr m t u \<longleftrightarrow> (quiet u \<or>
    (\<exists>t1 ids m' x t2. ensure_features env (om_features m) [] t = (Inr ids, t1) \<and> setFeatureIDs m ids = Inr m' \<and>
       EnsurePlan (oe_enc env) (oe_fuel env) (oe_srv env) (om_plan m') t1 = (x, t2) \<and> prefix t2 (t @ u) \<and>
       ((\<exists>q \<in> set (sent u). marks_synced q) \<longrightarrow> \<not> isl x)))"

lemma EnsurePlan_unmarked: "gives (EnsurePlan enc fuel srv d) (\<lambda>r u. \<forall>q \<in> set (sent u). \<not> marks_synced q)"
proof -
  have list: "adds (\<lambda>q. \<not> marks_synced q) (ListPlanVersions fuel srv k)" for k
    unfolding ListPlanVersions_def
    by (intro adds_if adds_fail adds_and_then adds_mono [OF adds_listPlans] adds_ret) (auto simp: marks_synced_def)
  have v3: "adds (\<lambda>q. \<not> marks_synced q) (v3_plan srv q)" if "\<And>k. q \<noteq> ReqKube k" for q
    using that by (intro adds_v3_plan) (auto simp: marks_synced_def)
  have "adds (\<lambda>q. \<not> marks_synced q) (EnsurePlan enc fuel srv d)"
    unfolding EnsurePlan_def Let_def createAndPublishPlan_def publishPlan_def updateDraftPlan_def
    by (intro adds_if adds_fail adds_and_then list) (auto intro!: v3 adds_and_then split: plan_status.splits)
  then show ?thesis by (rule gives_adds)
qed

lemma publish_mapping_whole: "\<exists>u. snd (publish_mapping env ofr m t) = t @ u \<and> published_whole env ofr m t u"
proof -
  have quietly: "\<exists>u. snd (c t1) = t @ u \<and> published_whole env ofr m t u"
    if "gives c (\<lambda>r u. quiet u)" "t1 = t @ v" "quiet v" for c :: "ctrl_result api" and t1 v
    using givesD [OF that(1), of t1] that(2,3)
    by (metis append_assoc published_whole_def quiet_exchanges(2) snd_conv)
  obtain x t1 v where f: "ensure_features env (om_features m) [] t = (x, t1)" "t1 = t @ v" "quiet v"
    using givesD [OF ensure_features_gives] by blast
  show ?thesis
  proof (cases "\<exists>ids m'. x = Inr ids \<and> setFeatureIDs m ids = Inr m'")
    case False
    have "publish_mapping env ofr m t = openMeterFailed env ofr (case x of Inl e \<Rightarrow> e | Inr ids \<Rightarrow> projl (setFeatureIDs m ids)) t1"
      using f(1) False by (auto simp: publish_mapping_def handle_def split: sum.splits)
    then show ?thesis using quietly [OF openMeterFailed_gives f(2,3)] by simp
  next
    case True
    then obtain ids m' where ids: "x = Inr ids" "setFeatureIDs m ids = Inr m'" by blast
    obtain y t2 w where p: "EnsurePlan (oe_enc env) (oe_fuel env) (oe_srv env) (om_plan m') t1 = (y, t2)" "t2 = t1 @ w"
      "\<forall>q \<in> set (sent w). \<not> marks_synced q"
      using givesD [OF EnsurePlan_unmarked] by blast
    have whole: "published_whole env ofr m t u" if "prefix t2 (t @ u)" "(\<exists>q \<in> set (sent u). marks_synced q) \<Longrightarrow> \<not> isl y" for u
      using f(1) ids p(1) that unfolding published_whole_def by blast
    show ?thesis
    proof (cases y)
      case (Inl e)
      obtain z where z: "snd (openMeterFailed env ofr (Wrap ''ensure plan'' [e]) t2) = t2 @ z" "quiet z"
        using openMeterFailed_gives unfolding gives_def by blast
      have "published_whole env ofr m t (v @ w @ z)"
        using f(2,3) p(2,3) z(2) by (intro whole) (auto simp: quiet_def)
      then show ?thesis using z(1) f p(1,2) ids Inl by (auto simp: publish_mapping_def handle_def)
    next
      case (Inr plan)
      let ?c = "and_then (setSyncedCondition env ofr True ''Synced'' (synced_message plan)) (\<lambda>_. ret ResultNone)"
      have "gives ?c (\<lambda>r u. True)" by (intro gives_and_then [OF setSyncedCondition_gives] gives_ret) simp_all
      from gives_trace [OF this] obtain z where z: "snd (?c t2) = t2 @ z" by blast
      have "published_whole env ofr m t (v @ w @ z)" using Inr f(2) p(2) by (intro whole) simp_all
      then show ?thesis using z f p(1,2) ids Inr by (auto simp: publish_mapping_def handle_def)
    qed
  qed
qed

text \<open>The exchanges of the deletion before the release: no plan write and no Kubernetes write.\<close>

definition removing :: "exchanges \<Rightarrow> bool" where
  "removing u \<longleftrightarrow> (\<forall>q \<in> set (sent u). \<not> plan_write q \<and> (\<forall>k. q \<noteq> ReqKube k))"

lemma removing_simps [simp]: "removing []" "removing (u @ v) \<longleftrightarrow> removing u \<and> removing v"
  by (auto simp: removing_def)

lemma removing_quiet: "removing u \<Longrightarrow> quiet u"
  by (auto simp: removing_def quiet_def marks_synced_def)

lemma gives_removing_adds: "adds (\<lambda>q. \<not> plan_write q \<and> (\<forall>k. q \<noteq> ReqKube k)) m \<Longrightarrow> gives m (\<lambda>r u. removing u)"
  unfolding removing_def by (rule gives_adds)

lemma ListPlanVersions_removing: "gives (ListPlanVersions fuel srv k) (\<lambda>r u. removing u)"
  unfolding ListPlanVersions_def
  by (intro gives_removing_adds adds_if adds_fail adds_and_then adds_mono [OF adds_listPlans] adds_ret) (auto simp: plan_write_def)

lemma DeletePlan_removing: "gives (DeletePlan srv v) (\<lambda>r u. removing u)"
  by (auto simp: gives_def DeletePlan_def fail_def ret_def Let_def removing_def plan_write_def prod.case_eq_if v3_do_trace
      split: option.splits)

lemma delete_versions_removing: "gives (delete_versions srv vs) (\<lambda>r u. removing u)"
  by (induction vs) (auto intro!: gives_ret gives_fail gives_if gives_handle [OF DeletePlan_removing] elim!: gives_mono)

lemma archive_removing: "gives (ArchiveFeaturesIfUnreferenced fuel srv ids) (\<lambda>r u. removing u)"
proof (rule gives_removing_adds)
  let ?P = "\<lambda>q. \<not> plan_write q \<and> (\<forall>k. q \<noteq> ReqKube k)"
  have "adds ?P (DeleteFeature srv i)" for i
    unfolding DeleteFeature_def by (intro adds_if adds_fail adds_and_then adds_v1_call) (auto simp: plan_write_def)
  then have "adds ?P (archive_each srv refs is)" for refs "is" by (induction "is") (auto intro!: adds_and_then adds_wrapping)
  then show "adds ?P (ArchiveFeaturesIfUnreferenced fuel srv ids)"
    unfolding ArchiveFeaturesIfUnreferenced_def referencedFeatureIDs_def
    by (intro adds_if adds_ret adds_and_then adds_mono [OF adds_listPlans]) (auto simp: plan_write_def)
qed

lemma release_offer_gives:
  "gives (release_offer env ofr) (\<lambda>r u. sent u =
    [ReqKube (UpdateFinalizers (offer_key ofr) (removeAll ProductPlanFinalizer (km_finalizers (fo_meta ofr))))])"
proof -
  have "gives (kube_call srv q) (\<lambda>r u. sent u = [ReqKube q])" for srv q
    by (rule gives_mono [OF gives_kube_call]) simp
  then show ?thesis
    unfolding release_offer_def by (intro gives_and_then [OF gives_wrapping] gives_ret) auto
qed

lemma archive_and_release_gives:
  "gives (archive_and_release env ofr vs) (\<lambda>r u. removing u \<or> (\<exists>v. removing v \<and> sent u = sent v @
    [ReqKube (UpdateFinalizers (offer_key ofr) (removeAll ProductPlanFinalizer (km_finalizers (fo_meta ofr))))]))"
  unfolding archive_and_release_def
  by (intro gives_handle [OF archive_removing] gives_if gives_fail gives_mono [OF release_offer_gives]) auto

lemma delete_gives_quiet: "gives (offer_reconcileDelete env ofr) (\<lambda>r u. quiet u)"
  unfolding offer_reconcileDelete_def
  by (intro gives_if gives_ret gives_and_then [OF gives_wrapping [OF ListPlanVersions_removing]]
      gives_and_then [OF delete_versions_removing] gives_mono [OF archive_and_release_gives])
    (auto simp: removing_quiet removing_def quiet_def marks_synced_def plan_write_def)

lemma missing_meter_None:
  "missing_meter srv slugs t = (Inr None, t') \<Longrightarrow> s \<in> set slugs \<Longrightarrow>
    \<exists>ta m tb. prefix t ta \<and> GetMeter srv s ta = (Inr m, tb) \<and> prefix tb t'"
proof (induction slugs arbitrary: t)
  case (Cons s' slugs)
  from Cons.prems(1) obtain m t1 where g: "GetMeter srv s' t = (Inr m, t1)" "missing_meter srv slugs t1 = (Inr None, t')"
    by (auto simp: handle_def ret_def fail_def split: prod.splits sum.splits if_splits)
  then have "prefix t1 t'" using gives_result [OF missing_meter_gives g(2)] by auto
  moreover have "prefix t t1" using gives_result [OF GetMeter_quiet g(1)] by auto
  ultimately show ?case using Cons.IH [OF g(2)] Cons.prems(2) g(1) by (auto intro: prefix_order.trans)
qed simp

text \<open>What the exchanges of a reconcile of \<open>ofr\<close> owe to the ones before them.\<close>

definition whole_or_nothing :: "offer_env \<Rightarrow> offer_object \<Rightarrow> listed_meter list res \<Rightarrow> exchanges \<Rightarrow> exchanges \<Rightarrow> bool" where
  "whole_or_nothing env ofr listed t u \<longleftrightarrow>
    ((\<exists>q \<in> set (sent u). plan_write q \<or> marks_synced q) \<longrightarrow>
      \<not> km_deleting (fo_meta ofr) \<and> fo_stage ofr = OfferLaunchStageGA \<and>
      (\<exists>ms m t0 t1 ids m' x t2. listed = Inr ms \<and>
        buildOfferMapping (oe_dec env) (oe_fj env) (fo_offer ofr) (meterIndex ms) = Inr m \<and>
        (\<forall>s \<in> set (om_meter_slugs m). \<exists>ta mt tb. prefix t ta \<and> GetMeter (oe_srv env) s ta = (Inr mt, tb) \<and> prefix tb t0) \<and>
        ensure_features env (om_features m) [] t0 = (Inr ids, t1) \<and> setFeatureIDs m ids = Inr m' \<and>
        EnsurePlan (oe_enc env) (oe_fuel env) (oe_srv env) (om_plan m') t1 = (x, t2) \<and> prefix t2 (t @ u) \<and>
        ((\<exists>q \<in> set (sent u). marks_synced q) \<longrightarrow> \<not> isl x)))"

lemma quiet_whole: "quiet u \<Longrightarrow> whole_or_nothing env ofr listed t u"
  by (auto simp: whole_or_nothing_def quiet_def)

lemma published_whole_nothing:
  assumes "published_whole env ofr m t0 w" "quiet v" "\<not> km_deleting (fo_meta ofr)" "fo_stage ofr = OfferLaunchStageGA"
    "buildOfferMapping (oe_dec env) (oe_fj env) (fo_offer ofr) (meterIndex ms) = Inr m"
    "missing_meter (oe_srv env) (om_meter_slugs m) t = (Inr None, t0)" "t0 = t @ v"
  shows "whole_or_nothing env ofr (Inr ms) t (v @ w)"
proof (cases "quiet w")
  case False
  with assms(1) obtain t1 ids m' x t2 where w: "ensure_features env (om_features m) [] t0 = (Inr ids, t1)" "setFeatureIDs m ids = Inr m'"
    "EnsurePlan (oe_enc env) (oe_fuel env) (oe_srv env) (om_plan m') t1 = (x, t2)" "prefix t2 (t0 @ w)"
    "(\<exists>q \<in> set (sent w). marks_synced q) \<longrightarrow> \<not> isl x"
    unfolding published_whole_def by blast
  have "(\<exists>q \<in> set (sent (v @ w)). marks_synced q) \<longrightarrow> \<not> isl x" using w(5) assms(2) by (auto simp: quiet_def)
  moreover have "prefix t2 (t @ v @ w)" using w(4) assms(7) by simp
  ultimately show ?thesis
    using w(1-3) assms(3-5) missing_meter_None [OF assms(6)] unfolding whole_or_nothing_def by blast
qed (use assms(2) in \<open>simp add: quiet_whole\<close>)

lemma reconcileSync_whole:
  assumes "\<not> km_deleting (fo_meta ofr)" "fo_stage ofr = OfferLaunchStageGA"
  shows "\<exists>u. snd (reconcileSync env ofr listed t) = t @ u \<and> whole_or_nothing env ofr listed t u"
proof (cases "\<exists>ms m. listed = Inr ms \<and> buildOfferMapping (oe_dec env) (oe_fj env) (fo_offer ofr) (meterIndex ms) = Inr m")
  case False
  have "gives (reconcileSync env ofr listed) (\<lambda>r u. quiet u)"
    using False by (auto simp: reconcileSync_def intro!: gives_if gives_fail syncWaiting_gives syncFailed_gives split: sum.splits)
  then show ?thesis unfolding gives_def using quiet_whole by blast
next
  case True
  then obtain ms m where m: "listed = Inr ms" "buildOfferMapping (oe_dec env) (oe_fj env) (fo_offer ofr) (meterIndex ms) = Inr m" by blast
  obtain x t0 v where mm: "missing_meter (oe_srv env) (om_meter_slugs m) t = (x, t0)" "t0 = t @ v" "quiet v"
    using givesD [OF missing_meter_gives] by blast
  show ?thesis
  proof (cases "x = Inr None")
    case True
    obtain w where w: "snd (publish_mapping env ofr m t0) = t0 @ w" "published_whole env ofr m t0 w"
      using publish_mapping_whole by blast
    with True mm m published_whole_nothing [OF w(2) mm(3) assms m(2) _ mm(2)] show ?thesis
      by (auto simp: reconcileSync_def handle_def)
  next
    case False
    then obtain c where c: "reconcileSync env ofr listed t = c t0" "gives c (\<lambda>r u. quiet u)"
      using openMeterFailed_gives syncWaiting_gives m mm(1)
      by (cases x) (auto simp: reconcileSync_def handle_def split: option.splits)
    then obtain w where "snd (c t0) = t0 @ w" "quiet w" unfolding gives_def by blast
    with c(1) mm(2,3) show ?thesis by (auto intro!: quiet_whole)
  qed
qed

text \<open>
  An Offer reaches OpenMeter whole or not at all. A plan is created, changed or
  published, and the Offer marked as synced, only for a GA Offer that is not being deleted,
  whose mapping could be built, whose every meter OpenMeter returned, whose every feature was
  ensured, and whose rate cards are bound to those features' ids; and it is marked as synced
  only after EnsurePlan returned the published plan of that mapping.
\<close>

theorem offer_Reconcile_publishes_whole:
  "\<exists>u. snd (offer_Reconcile env (Inr ofr) listed t) = t @ u \<and>
    ((\<exists>q \<in> set (sent u). plan_write q \<or> marks_synced q) \<longrightarrow>
      \<not> km_deleting (fo_meta ofr) \<and> fo_stage ofr = OfferLaunchStageGA \<and>
      (\<exists>ms m t0 t1 ids m' x t2. listed = Inr ms \<and>
        buildOfferMapping (oe_dec env) (oe_fj env) (fo_offer ofr) (meterIndex ms) = Inr m \<and>
        (\<forall>s \<in> set (om_meter_slugs m). \<exists>ta mt tb. prefix t ta \<and> GetMeter (oe_srv env) s ta = (Inr mt, tb) \<and> prefix tb t0) \<and>
        ensure_features env (om_features m) [] t0 = (Inr ids, t1) \<and> setFeatureIDs m ids = Inr m' \<and>
        EnsurePlan (oe_enc env) (oe_fuel env) (oe_srv env) (om_plan m') t1 = (x, t2) \<and> prefix t2 (t @ u) \<and>
        ((\<exists>q \<in> set (sent u). marks_synced q) \<longrightarrow> \<not> isl x)))"
proof -
  have upd: "gives (and_then (wrapping msg (kube_call srv (UpdateFinalizers k fs))) (\<lambda>_. ret ResultNone)) (\<lambda>r u. quiet u)" for msg srv k fs
    by (intro gives_and_then [OF gives_wrapping [OF gives_kube_quiet]] gives_ret) (simp_all add: marks_synced_def)
  show ?thesis
  proof (cases "offer_Reconcile env (Inr ofr) listed = reconcileSync env ofr listed \<and>
      \<not> km_deleting (fo_meta ofr) \<and> fo_stage ofr = OfferLaunchStageGA")
    case True
    then show ?thesis using reconcileSync_whole [of ofr env listed t] unfolding whole_or_nothing_def by simp
  next
    case False
    then have "gives (offer_Reconcile env (Inr ofr) listed) (\<lambda>r u. quiet u)"
      by (auto simp: offer_Reconcile_def intro!: delete_gives_quiet upd gives_ret split: if_splits)
    then obtain u where "snd (offer_Reconcile env (Inr ofr) listed t) = t @ u" "quiet u" unfolding gives_def by blast
    then show ?thesis by (intro exI [of _ u]) (auto simp: quiet_def)
  qed
qed

section \<open>The finalizer waits for the plan\<close>

text \<open>A version that is gone, or that OpenMeter refuses to delete for good, between two points of a run.\<close>

definition dealt_with :: "server \<Rightarrow> exchanges \<Rightarrow> exchanges \<Rightarrow> om_plan_version \<Rightarrow> bool" where
  "dealt_with srv t t' p \<longleftrightarrow> pl_deleted_at p \<noteq> None \<or>
    (\<exists>ta r tb. prefix t ta \<and> DeletePlan srv p ta = (r, tb) \<and> prefix tb t' \<and> (\<forall>e. r = Inl e \<longrightarrow> IsPermanent e))"

lemma dealt_with_mono: "dealt_with srv t t' p \<Longrightarrow> prefix t' t'' \<Longrightarrow> dealt_with srv t t'' p"
  unfolding dealt_with_def using prefix_order.trans by blast

lemma delete_versions_done:
  "delete_versions srv vs t = (Inr (), t') \<Longrightarrow> v \<in> set vs \<Longrightarrow> dealt_with srv t t' v"
proof (induction vs arbitrary: t)
  case (Cons w vs)
  show ?case
  proof (cases "pl_deleted_at w = None")
    case True
    with Cons.prems(1) obtain r t1 where d: "DeletePlan srv w t = (r, t1)" "\<forall>e. r = Inl e \<longrightarrow> IsPermanent e"
      "delete_versions srv vs t1 = (Inr (), t')"
      by (auto simp: handle_def fail_def split: prod.splits sum.splits if_splits)
    have p: "prefix t t1" "prefix t1 t'"
      using gives_result [OF DeletePlan_removing d(1)] gives_result [OF delete_versions_removing d(3)] by auto
    show ?thesis
    proof (cases "v = w")
      case True
      with d(1,2) p show ?thesis unfolding dealt_with_def by blast
    next
      case False
      with Cons.prems(2) Cons.IH [OF d(3)] p(1) show ?thesis unfolding dealt_with_def by (auto intro: prefix_order.trans)
    qed
  next
    case False
    then show ?thesis using Cons by (auto simp: dealt_with_def)
  qed
qed simp

lemma removing_keeps: "removing u \<Longrightarrow> q \<in> set (sent u) \<Longrightarrow> \<not> drops key q"
  unfolding removing_def using drops_kube by blast

text \<open>
  A deleted Offer is released only when its plan is dealt with. The finalizer is removed
  only if listing the plan's versions succeeded and every version that was not deleted yet
  was deleted, or refused by OpenMeter for good; and nothing follows the release. If the
  listing fails, or a deletion fails for now, the Offer keeps its finalizer.
\<close>

theorem offer_reconcileDelete_release:
  assumes "ProductPlanFinalizer \<in> set (km_finalizers (fo_meta ofr))"
  shows "\<exists>u. snd (offer_reconcileDelete env ofr t) = t @ u \<and>
    ((\<exists>q \<in> set (sent u). drops ProductPlanFinalizer q) \<longrightarrow>
      (\<exists>versions t1 v. ListPlanVersions (oe_fuel env) (oe_srv env) (planKeyForOffer (fo_offer ofr)) t = (Inr versions, t1) \<and>
        (\<forall>p \<in> set versions. dealt_with (oe_srv env) t1 (t @ u) p) \<and>
        sent u = sent v @ [ReqKube (UpdateFinalizers (offer_key ofr) (removeAll ProductPlanFinalizer (km_finalizers (fo_meta ofr))))] \<and>
        (\<forall>q \<in> set (sent v). \<not> drops ProductPlanFinalizer q)))"
proof -
  let ?srv = "oe_srv env"
  have quietly: "?thesis" if "snd (offer_reconcileDelete env ofr t) = t @ u" "removing u" for u
    using that by (intro exI [of _ u]) (auto dest: removing_keeps)
  obtain x t1 a where l: "ListPlanVersions (oe_fuel env) ?srv (planKeyForOffer (fo_offer ofr)) t = (x, t1)" "t1 = t @ a" "removing a"
    using givesD [OF ListPlanVersions_removing] by blast
  show ?thesis
  proof (cases "\<exists>versions t2. x = Inr versions \<and> delete_versions ?srv versions t1 = (Inr (), t2)")
    case True
    then obtain versions t2 where d: "x = Inr versions" "delete_versions ?srv versions t1 = (Inr (), t2)" by blast
    from gives_result [OF delete_versions_removing d(2)] obtain b where b: "t2 = t1 @ b" "removing b" by blast
    obtain c where c: "snd (archive_and_release env ofr versions t2) = t2 @ c" "removing c \<or> (\<exists>v. removing v \<and> sent c = sent v @
        [ReqKube (UpdateFinalizers (offer_key ofr) (removeAll ProductPlanFinalizer (km_finalizers (fo_meta ofr))))])"
      using archive_and_release_gives unfolding gives_def by blast
    have run: "snd (offer_reconcileDelete env ofr t) = t @ a @ b @ c"
      using c(1) l(1,2) d b(1) assms by (simp add: offer_reconcileDelete_def and_then_def wrapping_def)
    have all: "dealt_with ?srv t1 (t @ a @ b @ c) p" if "p \<in> set versions" for p
      by (rule dealt_with_mono [OF delete_versions_done [OF d(2) that]]) (simp add: b(1) l(2))
    show ?thesis
    proof (cases "removing c")
      case True
      with quietly [OF run] l(3) b(2) show ?thesis by simp
    next
      case False
      then obtain v where v: "removing v" "sent c = sent v @
          [ReqKube (UpdateFinalizers (offer_key ofr) (removeAll ProductPlanFinalizer (km_finalizers (fo_meta ofr))))]"
        using c(2) by blast
      have "\<not> drops ProductPlanFinalizer q" if "q \<in> set (sent (a @ b @ v))" for q
        using that l(3) b(2) v(1) removing_keeps by auto
      then show ?thesis
        using run l(1) d(1) all v(2) by (intro exI [of _ "a @ b @ c"] conjI impI exI [of _ versions] exI [of _ t1] exI [of _ "a @ b @ v"]) auto
    qed
  next
    case False
    have "\<exists>b. snd (offer_reconcileDelete env ofr t) = t @ a @ b \<and> removing b"
    proof (cases x)
      case (Inl e)
      with l assms show ?thesis by (auto simp: offer_reconcileDelete_def and_then_def wrapping_def)
    next
      case (Inr versions)
      obtain y t2 where y: "delete_versions ?srv versions t1 = (y, t2)" by force
      with Inr False obtain e where d: "delete_versions ?srv versions t1 = (Inl e, t2)" by (cases y) auto
      with Inr l assms gives_result [OF delete_versions_removing d] show ?thesis
        by (auto simp: offer_reconcileDelete_def and_then_def wrapping_def)
    qed
    then obtain b where b: "snd (offer_reconcileDelete env ofr t) = t @ a @ b" "removing b" by blast
    show ?thesis by (rule quietly [OF b(1)]) (use b(2) l(3) in simp)
  qed
qed

definition example_offer_object :: offer_object where
  "example_offer_object = \<lparr>fo_offer = \<lparr>of_name = ''o'', of_uid = ''u-1'', of_display_name = [], of_pricings = []\<rparr>,
     fo_meta = \<lparr>km_namespace = [], km_name = ''o'', km_uid = ''u-1'', km_generation = 1, km_deleting = True,
       km_finalizers = [ProductPlanFinalizer], km_annotations = []\<rparr>, fo_stage = ''GA'', fo_conditions = []\<rparr>"

definition example_ok :: "body option \<Rightarrow> om_reply" where
  "example_ok b = \<lparr>rp_http = \<lparr>status_code = 200, media_type = None, retry_after = [], retry_date = None, resp_body = Plain []\<rparr>,
     rp_sdk = b, rp_json = b, rp_readable = True\<rparr>"

definition example_offer_env :: offer_env where
  "example_offer_env = \<lparr>oe_dec = (\<lambda>_. None), oe_fj = (\<lambda>_. []), oe_enc = (\<lambda>_. []), oe_changed = (\<lambda>_ _. True), oe_fuel = 2,
     oe_srv = (\<lambda>t q. Inr (case q of
         ReqListPlans _ _ \<Rightarrow> example_ok (Some (PlanPage [] 0))
       | _ \<Rightarrow> example_ok None))\<rparr>"

lemma example_offer_deletion:
  "sent (snd (offer_reconcileDelete example_offer_env example_offer_object [])) =
    [ReqListPlans ''u_1'' 1, ReqKube (UpdateFinalizers (offer_key example_offer_object) [])]"
  by code_simp

theorem offer_reconcileDelete_release_witness:
  "\<exists>versions t1. ListPlanVersions (oe_fuel example_offer_env) (oe_srv example_offer_env) (planKeyForOffer (fo_offer example_offer_object)) [] =
    (Inr versions, t1) \<and>
    (\<forall>p \<in> set versions. dealt_with (oe_srv example_offer_env) t1 (snd (offer_reconcileDelete example_offer_env example_offer_object [])) p)"
proof -
  obtain u where u: "snd (offer_reconcileDelete example_offer_env example_offer_object []) = [] @ u"
    "(\<exists>q \<in> set (sent u). drops ProductPlanFinalizer q) \<longrightarrow>
      (\<exists>versions t1 v. ListPlanVersions (oe_fuel example_offer_env) (oe_srv example_offer_env) (planKeyForOffer (fo_offer example_offer_object)) [] = (Inr versions, t1) \<and>
        (\<forall>p \<in> set versions. dealt_with (oe_srv example_offer_env) t1 ([] @ u) p) \<and>
        sent u = sent v @ [ReqKube (UpdateFinalizers (offer_key example_offer_object)
          (removeAll ProductPlanFinalizer (km_finalizers (fo_meta example_offer_object))))] \<and>
        (\<forall>q \<in> set (sent v). \<not> drops ProductPlanFinalizer q))"
    using offer_reconcileDelete_release [of example_offer_object example_offer_env "[]"] by (auto simp: example_offer_object_def)
  have "\<exists>q \<in> set (sent u). drops ProductPlanFinalizer q"
    using example_offer_deletion u(1) by simp
  with u show ?thesis by auto
qed

section \<open>The life of an Offer\<close>

lemma condition_no_finalizers: "adds no_finalizers (setSyncedCondition env ofr status reason message)"
  unfolding setSyncedCondition_def Let_def
  by (intro adds_if adds_ret adds_and_then adds_wrapping adds_kube_call) simp

lemma waiting_no_finalizers: "adds no_finalizers (syncWaiting env ofr reason cause after)"
  unfolding syncWaiting_def setSyncedFalse_def by (intro adds_and_then adds_ret condition_no_finalizers)

lemma failed_no_finalizers: "adds no_finalizers (syncFailed env ofr reason cause)"
  unfolding syncFailed_def setSyncedFalse_def
  by (intro adds_handle adds_and_then adds_ret adds_fail condition_no_finalizers)

lemma GetMeter_no_finalizers: "adds no_finalizers (GetMeter srv s)"
  unfolding GetMeter_def
  by (intro adds_if adds_fail adds_and_then adds_v1_call adds_checked) (auto split: option.splits body.splits)

lemma missing_meter_no_finalizers: "adds no_finalizers (missing_meter srv slugs)"
  by (induction slugs) (auto intro!: adds_handle GetMeter_no_finalizers)

lemma EnsureFeature_no_finalizers: "adds no_finalizers (EnsureFeature fj srv f)"
proof -
  have c: "adds no_finalizers (create_feature srv f)"
    unfolding create_feature_def
    by (intro adds_and_then adds_v1_call adds_checked) (auto split: option.splits body.splits)
  have g: "adds no_finalizers (v1_call srv (ReqGetFeature k))" for k by (rule adds_v1_call) simp
  show ?thesis
    unfolding EnsureFeature_def Let_def
    by (intro adds_if adds_fail adds_and_then g) (auto split: option.splits body.splits intro!: c adds_and_then)
qed

lemma ensure_features_no_finalizers: "adds no_finalizers (ensure_features env fs ids)"
  by (induction fs arbitrary: ids) (auto intro!: adds_and_then adds_wrapping EnsureFeature_no_finalizers)

lemma EnsurePlan_no_finalizers: "adds no_finalizers (EnsurePlan enc fuel srv d)"
proof -
  have list: "adds no_finalizers (ListPlanVersions fuel srv k)" for k
    unfolding ListPlanVersions_def
    by (intro adds_if adds_fail adds_and_then adds_mono [OF adds_listPlans] adds_ret) auto
  have v3: "adds no_finalizers (v3_plan srv q)" if "\<And>k. q \<noteq> ReqKube k" for q
    using that by (intro adds_v3_plan not_a_write)
  show ?thesis
    unfolding EnsurePlan_def Let_def createAndPublishPlan_def publishPlan_def updateDraftPlan_def
    by (intro adds_if adds_fail adds_and_then list) (auto intro!: v3 adds_and_then split: plan_status.splits)
qed

lemma publish_no_finalizers: "adds no_finalizers (publish_mapping env ofr m)"
  unfolding publish_mapping_def openMeterFailed_def
  by (auto intro!: adds_handle adds_and_then ensure_features_no_finalizers EnsurePlan_no_finalizers
      condition_no_finalizers failed_no_finalizers split: sum.splits)

lemma sync_no_finalizers: "adds no_finalizers (reconcileSync env ofr listed)"
  unfolding reconcileSync_def openMeterFailed_def
  by (auto intro!: adds_handle adds_if waiting_no_finalizers failed_no_finalizers publish_no_finalizers
      missing_meter_no_finalizers split: sum.splits option.splits)

text \<open>A pass on an Offer that is not being deleted keeps the finalizer.\<close>

lemma offer_pass_keeps:
  assumes "\<not> km_deleting (fo_meta ofr)"
  shows "adds (\<lambda>q. \<not> drops ProductPlanFinalizer q) (offer_Reconcile env (Inr ofr) listed)"
  using assms unfolding offer_Reconcile_def
  by (auto intro!: adds_and_then adds_wrapping adds_kube_call adds_mono [OF sync_no_finalizers] dest: drops_written)

lemma offer_pass_extends: "prefix t (snd (offer_Reconcile env (Inr ofr) listed t))"
proof (cases "km_deleting (fo_meta ofr)")
  case True
  then show ?thesis
    using gives_trace [OF gives_mono [OF delete_gives_quiet], of env ofr t] by (auto simp: offer_Reconcile_def)
next
  case False
  from offer_pass_keeps [OF this] show ?thesis unfolding adds_def by (metis prefixI)
qed

text \<open>
  What a pass reads: the environment of its libraries (on one server), the Offer at any age and the
  listed definitions. An Offer is settled when a pass that read it as being deleted listed its plan's
  versions and dealt with each of them.
\<close>

type_synonym offer_input = "offer_env \<times> offer_object \<times> listed_meter list res"

definition offer_ok :: "server \<Rightarrow> offer_input \<Rightarrow> bool" where
  "offer_ok srv x \<longleftrightarrow> oe_srv (fst x) = srv"

definition offer_held :: "offer_input \<Rightarrow> go_string list" where
  "offer_held x = km_finalizers (fo_meta (fst (snd x)))"

definition offer_pass :: "offer_input \<Rightarrow> exchanges \<Rightarrow> exchanges" where
  "offer_pass x t = (case x of (env, ofr, listed) \<Rightarrow> snd (offer_Reconcile env (Inr ofr) listed t))"

definition offer_settled :: "offer_input \<Rightarrow> exchanges \<Rightarrow> bool" where
  "offer_settled x t \<longleftrightarrow> (case x of (env, ofr, listed) \<Rightarrow> km_deleting (fo_meta ofr) \<and>
    (\<exists>versions t1. ListPlanVersions (oe_fuel env) (oe_srv env) (planKeyForOffer (fo_offer ofr)) t = (Inr versions, t1) \<and>
      (\<forall>p \<in> set versions. dealt_with (oe_srv env) t1 (offer_pass x t) p)))"

interpretation ofr: finalized_object ProductPlanFinalizer "offer_ok srv" offer_held offer_pass offer_settled
  for srv
proof
  fix x t
  show "prefix t (offer_pass x t)" by (cases x) (simp add: offer_pass_def offer_pass_extends)
next
  fix x t u q
  assume h: "ProductPlanFinalizer \<in> set (offer_held x)" and p: "offer_pass x t = t @ u"
    and q: "q \<in> set (sent u)" "drops ProductPlanFinalizer q"
  obtain env ofr listed where x: "x = (env, ofr, listed)" by (cases x)
  have del: "km_deleting (fo_meta ofr)"
  proof (rule ccontr)
    assume "\<not> km_deleting (fo_meta ofr)"
    from offer_pass_keeps [OF this] obtain v where "snd (offer_Reconcile env (Inr ofr) listed t) = t @ v"
      "\<forall>q \<in> set (sent v). \<not> drops ProductPlanFinalizer q" unfolding adds_def by blast
    with p q x show False by (simp add: offer_pass_def)
  qed
  from offer_reconcileDelete_release [of ofr env t] h x obtain v where
    v: "snd (offer_reconcileDelete env ofr t) = t @ v" "(\<exists>q \<in> set (sent v). drops ProductPlanFinalizer q) \<longrightarrow>
      (\<exists>versions t1. ListPlanVersions (oe_fuel env) (oe_srv env) (planKeyForOffer (fo_offer ofr)) t = (Inr versions, t1) \<and>
        (\<forall>p \<in> set versions. dealt_with (oe_srv env) t1 (t @ v) p))"
    by (fastforce simp: offer_held_def)
  have "v = u" using v(1) p x del by (simp add: offer_pass_def offer_Reconcile_def)
  with v(2) q x p del show "offer_settled x t" by (auto simp: offer_settled_def)
qed

text \<open>
  C32. An Offer is not lost: over any number of passes, each on what it had read, however old,
  with other actors changing the Offer in between and whatever OpenMeter answers, an Offer that
  got its finalizer keeps it until some pass read it as being deleted, listed the versions of its plan, and
  deleted each that was not deleted yet, or was refused for good.
\<close>

theorem offer_life:
  assumes "ProductPlanFinalizer \<in> set fs0"
    and "lives ProductPlanFinalizer (offer_ok srv) offer_held offer_pass \<lparr>lf_finalizers = fs0, lf_exchanges = t0, lf_passes = []\<rparr> s"
  shows "ProductPlanFinalizer \<in> set (lf_finalizers s) \<or>
    (\<exists>env ofr listed t versions t1. ((env, ofr, listed), t) \<in> set (lf_passes s) \<and> prefix t (lf_exchanges s) \<and>
      km_deleting (fo_meta ofr) \<and>
      ListPlanVersions (oe_fuel env) (oe_srv env) (planKeyForOffer (fo_offer ofr)) t = (Inr versions, t1) \<and>
      (\<forall>p \<in> set versions. dealt_with (oe_srv env) t1 (offer_pass (env, ofr, listed) t) p))"
  using ofr.kept_until_settled [OF assms] unfolding settled_before_def offer_settled_def by fastforce

theorem offer_life_witness:
  "\<exists>s. lives ProductPlanFinalizer (offer_ok (oe_srv example_offer_env)) offer_held offer_pass
      \<lparr>lf_finalizers = [ProductPlanFinalizer], lf_exchanges = [], lf_passes = []\<rparr> s
    \<and> lf_finalizers s = []
    \<and> (\<exists>env ofr listed t versions t1. ((env, ofr, listed), t) \<in> set (lf_passes s) \<and>
        ListPlanVersions (oe_fuel env) (oe_srv env) (planKeyForOffer (fo_offer ofr)) t = (Inr versions, t1))"
proof -
  let ?x = "(example_offer_env, example_offer_object, Inr [])"
  let ?born = "\<lparr>lf_finalizers = [ProductPlanFinalizer], lf_exchanges = [], lf_passes = []\<rparr>"
  let ?s = "\<lparr>lf_finalizers = [], lf_exchanges = offer_pass ?x [], lf_passes = [] @ [(?x, [])]\<rparr>"
  have "km_deleting (fo_meta example_offer_object)" by (simp add: example_offer_object_def)
  then have run: "sent (offer_pass ?x []) = [ReqListPlans ''u_1'' 1, ReqKube (UpdateFinalizers (offer_key example_offer_object) [])]"
    using example_offer_deletion by (simp add: offer_pass_def offer_Reconcile_def)
  have "life_step ProductPlanFinalizer (offer_ok (oe_srv example_offer_env)) offer_held offer_pass ?born ?s"
    by (rule life_step.written [where u = "offer_pass ?x []" and q = "ReqKube (UpdateFinalizers (offer_key example_offer_object) [])"])
      (simp_all add: offer_ok_def run, simp add: offer_held_def example_offer_object_def)
  then have l: "lives ProductPlanFinalizer (offer_ok (oe_srv example_offer_env)) offer_held offer_pass ?born ?s"
    by (rule r_into_rtranclp)
  from offer_life [OF _ this] have "\<exists>env ofr listed t versions t1. ((env, ofr, listed), t) \<in> set (lf_passes ?s) \<and>
        ListPlanVersions (oe_fuel env) (oe_srv env) (planKeyForOffer (fo_offer ofr)) t = (Inr versions, t1)" by fastforce
  with l show ?thesis by (intro exI [of _ ?s] conjI) simp_all
qed

end
