(* ===== verification/EntitlementController.thy ===== *)
theory EntitlementController
  imports OfferController Accounts
begin

text \<open>
  The BillingEntitlement controller (\<open>internal/controller/billingentitlement_controller.go\<close>):
  it subscribes the OpenMeter customer of a billing account to the plan of the Offer the
  entitlement names, holds back a contract until it starts and an amendment of a started
  contract until the billing period ends, and cancels the subscription when the entitlement
  or its account goes.
\<close>

section \<open>State\<close>

text \<open>
  An entitlement, with the start of its contract if it has one. A pass reads the account,
  the Offer and the entitlements listed for the same account; \<open>en_changed\<close> stands for
  \<open>apimeta.SetStatusCondition\<close> and \<open>en_parse_time\<close> for \<open>time.Parse\<close> with RFC 3339.
\<close>

record entitlement =
  be_meta :: kube_meta
  be_account :: go_string
  be_offer :: go_string
  be_contract :: "int option"
  be_conditions :: "condition list"

record entitlement_env =
  en_fuel :: nat
  en_srv :: server
  en_changed :: "condition \<Rightarrow> condition list \<Rightarrow> bool"
  en_parse_time :: "go_string \<Rightarrow> int option"
  en_now :: int

record entitlement_reads =
  er_account :: "billing_account res"
  er_offer :: "offer_object res"
  er_listed :: "entitlement list res"

definition SubscriptionFinalizer :: go_string where "SubscriptionFinalizer = ''openmeter.miloapis.com/subscription''"
definition ConditionTypeOpenMeterSubscriptionSynced :: go_string where
  "ConditionTypeOpenMeterSubscriptionSynced = ''OpenMeterSubscriptionSynced''"
definition ContractStartedAnnotation :: go_string where "ContractStartedAnnotation = ''openmeter.miloapis.com/contractStartedAt''"
definition OfferChangeAtAnnotation :: go_string where "OfferChangeAtAnnotation = ''openmeter.miloapis.com/offerChangeAt''"
definition conditionReasonOfferChangeScheduled :: go_string where "conditionReasonOfferChangeScheduled = ''OfferChangeScheduled''"
definition customerBillingNotReadyRequeueAfter :: int where "customerBillingNotReadyRequeueAfter = 30 * second_ns"
definition subscriptionResyncAfter :: int where "subscriptionResyncAfter = 1800 * second_ns"
definition changeAtPeriodEndDelay :: int where "changeAtPeriodEndDelay = 5 * second_ns"

definition entitlement_key :: "entitlement \<Rightarrow> object_key" where
  "entitlement_key be = object_key_of ''BillingEntitlement'' (be_meta be)"

section \<open>Conditions\<close>

text \<open>A result with a requeue after zero asks for none.\<close>

definition requeue_after :: "int \<Rightarrow> ctrl_result" where
  "requeue_after d = (if d = 0 then ResultNone else ResultRequeueAfter d)"

definition entitlement_setSyncedCondition :: "entitlement_env \<Rightarrow> entitlement \<Rightarrow> bool \<Rightarrow> go_string \<Rightarrow> go_string \<Rightarrow> bool api" where
  "entitlement_setSyncedCondition env be status reason message =
    (let c = \<lparr>cd_type = ConditionTypeOpenMeterSubscriptionSynced, cd_status = (if status then ''True'' else ''False''),
              cd_reason = reason, cd_message = message, cd_generation = km_generation (be_meta be)\<rparr>
     in if \<not> en_changed env c (be_conditions be) then ret False
        else and_then (wrapping ''patch billing entitlement status'' (kube_call (en_srv env) (PatchCondition (entitlement_key be) c)))
          (\<lambda>_. ret True))"

definition entitlement_setSyncedFalse :: "entitlement_env \<Rightarrow> entitlement \<Rightarrow> go_string \<Rightarrow> go_error \<Rightarrow> unit api" where
  "entitlement_setSyncedFalse env be reason cause =
    and_then (entitlement_setSyncedCondition env be False reason (error_text cause)) (\<lambda>_. ret ())"

definition entitlement_syncWaiting :: "entitlement_env \<Rightarrow> entitlement \<Rightarrow> go_string \<Rightarrow> go_error \<Rightarrow> int \<Rightarrow> ctrl_result api" where
  "entitlement_syncWaiting env be reason cause after =
    and_then (entitlement_setSyncedFalse env be reason cause) (\<lambda>_. ret (requeue_after after))"

definition entitlement_openMeterFailed :: "entitlement_env \<Rightarrow> entitlement \<Rightarrow> go_error \<Rightarrow> ctrl_result api" where
  "entitlement_openMeterFailed env be e =
    (let cause = Wrap (syncReason e) [e] in
     handle (entitlement_setSyncedFalse env be ''OpenMeterError'' cause)
       (\<lambda>condErr. fail (Wrap [] [cause, condErr])) (\<lambda>_. fail cause))"

section \<open>Subscribing\<close>

definition subscriptionBillingAnchor :: "int \<Rightarrow> billing_account \<Rightarrow> int" where
  "subscriptionBillingAnchor standard_day account =
    (let day = (case ba_invoice_day account of Some d \<Rightarrow> if d > 0 then d else standard_day | None \<Rightarrow> standard_day)
     in (days_from_civil 2025 1 1 + (day - 1)) * day_ns)"

definition status_text :: "subscription_status \<Rightarrow> go_string" where
  "status_text s = (case s of SubscriptionStatusActive \<Rightarrow> ''active'' | SubscriptionStatusCanceled \<Rightarrow> ''canceled''
     | SubscriptionStatusScheduled \<Rightarrow> ''scheduled'' | SubscriptionStatusInactive \<Rightarrow> ''inactive'')"

definition subscriptionMessage :: "subscription_state \<Rightarrow> go_string" where
  "subscriptionMessage state =
    (let cur = st_current state;
         (planKey, version) = (case sub_plan cur of Some p \<Rightarrow> (pr_key p, pr_version p) | None \<Rightarrow> ([], 0))
     in ''OpenMeter subscription '' @ sub_id cur @ '' on plan '' @ planKey @ '' version '' @ int_text version @ '' is '' @
        status_text (sub_status cur) @
        (case st_pending state of
           Some p \<Rightarrow>
             (case sub_plan p of
                Some pp \<Rightarrow> ''; migrating to version '' @ int_text (pr_version pp) @ '' at '' @ format_rfc3339 (sub_active_from p) @
                  '' (subscription '' @ sub_id p @ '')''
              | None \<Rightarrow> [])
         | None \<Rightarrow> []))"

definition planNotPublishedError :: "offer_object \<Rightarrow> go_error" where
  "planNotPublishedError ofr =
    (let name = json_quote (km_name (fo_meta ofr)) in
     case List.find (\<lambda>c. cd_type c = ConditionTypeOpenMeterPlanSynced) (fo_conditions ofr) of
       Some c \<Rightarrow>
         if cd_status c = ''False'' then
           Leaf (''offer '' @ name @ '' has no published OpenMeter plan: '' @ cd_reason c @ '': '' @ cd_message c)
         else Leaf (''offer '' @ name @ '' has no published OpenMeter plan yet'')
     | None \<Rightarrow> Leaf (''offer '' @ name @ '' has no published OpenMeter plan yet''))"

definition has_annotation :: "kube_meta \<Rightarrow> go_string \<Rightarrow> bool" where
  "has_annotation m k \<longleftrightarrow> map_of (km_annotations m) k \<noteq> None"

text \<open>The subscription an entitlement without a contract, or with a started one, asks for.\<close>

definition entitlement_desired :: "entitlement_env \<Rightarrow> int \<Rightarrow> entitlement \<Rightarrow> billing_account \<Rightarrow> offer_object \<Rightarrow> desired_subscription" where
  "entitlement_desired env standard_day be account ofr =
    (let started = has_annotation (be_meta be) ContractStartedAnnotation; contract = be_contract be in
     \<lparr>ds_customer_key = km_uid (ba_meta account), ds_plan_key = planKeyForOffer (fo_offer ofr),
      ds_metadata = [(''miloapis.com/billing-entitlement'', km_namespace (be_meta be) @ ''/'' @ km_name (be_meta be)),
        (''miloapis.com/billing-account'', km_name (ba_meta account)), (''miloapis.com/offer-name'', km_name (fo_meta ofr))],
      ds_billing_anchor = Some (case contract of Some startsAt \<Rightarrow> startsAt | None \<Rightarrow> subscriptionBillingAnchor standard_day account),
      ds_move_anchor = (contract \<noteq> None \<and> \<not> started),
      ds_change_at_period_end = (contract \<noteq> None \<and> started),
      ds_change_due = (if contract \<noteq> None then en_parse_time env (annotation (be_meta be) OfferChangeAtAnnotation) else None),
      ds_now = Some (en_now env)\<rparr>)"

text \<open>The annotations of a contract's entitlement: that it has started, and when an amendment is due.\<close>

definition wanted_contract_state :: "entitlement \<Rightarrow> int \<Rightarrow> int option \<Rightarrow> str_map" where
  "wanted_contract_state be startsAt changeAt =
    (if has_annotation (be_meta be) ContractStartedAnnotation \<or> changeAt = None
     then [(ContractStartedAnnotation, format_rfc3339 startsAt)] else []) @
    (case changeAt of Some c \<Rightarrow> [(OfferChangeAtAnnotation, format_rfc3339 c)] | None \<Rightarrow> [])"

fun record_key :: "str_map \<Rightarrow> go_string \<Rightarrow> str_map \<Rightarrow> str_map" where
  "record_key want key anns =
    (case map_of want key of
       Some v \<Rightarrow> AList.update key v anns
     | None \<Rightarrow> AList.delete key anns)"

definition recorded_annotations :: "str_map \<Rightarrow> str_map \<Rightarrow> str_map" where
  "recorded_annotations want anns = record_key want OfferChangeAtAnnotation (record_key want ContractStartedAnnotation anns)"

definition recordContractState :: "entitlement_env \<Rightarrow> entitlement \<Rightarrow> int \<Rightarrow> int option \<Rightarrow> entitlement api" where
  "recordContractState env be startsAt changeAt =
    (let want = wanted_contract_state be startsAt changeAt; anns = km_annotations (be_meta be) in
     if list_all (\<lambda>k. map_of anns k = map_of want k) [ContractStartedAnnotation, OfferChangeAtAnnotation] then ret be
     else (let anns' = recorded_annotations want anns in
       and_then (wrapping ''record the contract's state'' (kube_call (en_srv env) (PatchAnnotations (entitlement_key be) anns')))
         (\<lambda>_. ret (be\<lparr>be_meta := (be_meta be)\<lparr>km_annotations := anns'\<rparr>\<rparr>))))"

definition report_subscription :: "entitlement_env \<Rightarrow> offer_object \<Rightarrow> subscription_state \<Rightarrow> entitlement \<Rightarrow> ctrl_result api" where
  "report_subscription env ofr state be =
    (let msg = subscriptionMessage state;
         (reason, msg', after) = (case st_change_at state of
            Some c \<Rightarrow> (conditionReasonOfferChangeScheduled,
              msg @ ''; changes to Offer '' @ json_quote (km_name (fo_meta ofr)) @ '' at the end of its billing period, '' @ format_rfc3339 c,
              min subscriptionResyncAfter (c - en_now env + changeAtPeriodEndDelay))
          | None \<Rightarrow> (if st_pending state \<noteq> None then ''MigrationScheduled'' else ''Synced'', msg, subscriptionResyncAfter))
     in and_then (entitlement_setSyncedCondition env be True reason msg') (\<lambda>_. ret (requeue_after after)))"

definition subscribe_failed :: "entitlement_env \<Rightarrow> entitlement \<Rightarrow> billing_account \<Rightarrow> offer_object \<Rightarrow> go_error \<Rightarrow> ctrl_result api" where
  "subscribe_failed env be account ofr e =
    (let name = json_quote (km_name (ba_meta account)) in
     if errors_is e ErrCustomerNotFound then
       entitlement_syncWaiting env be ''CustomerNotSynced''
         (Leaf (''OpenMeter customer for BillingAccount '' @ name @ '' does not exist yet'')) transientRequeueAfter
     else if errors_is e ErrPlanNotPublished then
       entitlement_syncWaiting env be ''PlanNotPublished'' (planNotPublishedError ofr) transientRequeueAfter
     else if errors_is e ErrCustomerBillingNotReady then
       entitlement_syncWaiting env be ''CustomerBillingNotReady''
         (Wrap (''OpenMeter cannot invoice BillingAccount '' @ name @ '' yet (does it have a default payment method?)'') [e])
         customerBillingNotReadyRequeueAfter
     else entitlement_openMeterFailed env be (Wrap ''ensure subscription'' [e]))"

definition subscribe :: "entitlement_env \<Rightarrow> int \<Rightarrow> entitlement \<Rightarrow> billing_account \<Rightarrow> offer_object \<Rightarrow> ctrl_result api" where
  "subscribe env standard_day be account ofr =
    handle (EnsureSubscription (en_fuel env) (en_srv env) (en_now env) (entitlement_desired env standard_day be account ofr))
      (subscribe_failed env be account ofr)
      (\<lambda>state. and_then
         (case be_contract be of Some startsAt \<Rightarrow> recordContractState env be startsAt (st_change_at state) | None \<Rightarrow> ret be)
         (report_subscription env ofr state))"

definition await_contract :: "entitlement_env \<Rightarrow> int \<Rightarrow> entitlement \<Rightarrow> billing_account \<Rightarrow> offer_object \<Rightarrow> ctrl_result api" where
  "await_contract env standard_day be account ofr =
    (case be_contract be of
       Some startsAt \<Rightarrow>
         if startsAt - en_now env > 0 then
           entitlement_syncWaiting env be ''ContractNotStarted''
             (Leaf (''the contract starts at '' @ format_rfc3339 startsAt @ '', when the account is subscribed to its Offer''))
             (startsAt - en_now env)
         else subscribe env standard_day be account ofr
     | None \<Rightarrow> subscribe env standard_day be account ofr)"

section \<open>Leaving\<close>

definition cancelForDeletingAccount :: "entitlement_env \<Rightarrow> entitlement \<Rightarrow> go_string \<Rightarrow> ctrl_result api" where
  "cancelForDeletingAccount env be customerKey =
    handle (CancelSubscriptions (en_fuel env) (en_srv env) customerKey)
      (\<lambda>e. entitlement_openMeterFailed env be (Wrap ''cancel subscriptions of deleting BillingAccount'' [e]))
      (\<lambda>_. entitlement_syncWaiting env be ''BillingAccountDeleting''
         (Leaf (''BillingAccount '' @ json_quote (be_account be) @ '' is being deleted; OpenMeter subscriptions canceled'')) 0)"

definition successorEntitlement :: "entitlement list res \<Rightarrow> entitlement \<Rightarrow> go_string res" where
  "successorEntitlement listed be =
    (case listed of
       Inl e \<Rightarrow> Inl (Wrap ''list billing entitlements for account'' [e])
     | Inr items \<Rightarrow>
       Inr (case List.find (\<lambda>other. km_uid (be_meta other) \<noteq> km_uid (be_meta be) \<and> \<not> km_deleting (be_meta other)) items of
              Some other \<Rightarrow> km_name (be_meta other)
            | None \<Rightarrow> []))"

definition release_entitlement :: "entitlement_env \<Rightarrow> entitlement \<Rightarrow> ctrl_result api" where
  "release_entitlement env be =
    handle (kube_call (en_srv env) (UpdateFinalizers (entitlement_key be) (removeAll SubscriptionFinalizer (km_finalizers (be_meta be)))))
      (\<lambda>e. if errors_is e KubeNotFound then ret ResultNone else fail (Wrap ''remove finalizer'' [e]))
      (\<lambda>_. ret ResultNone)"

definition entitlement_reconcileDelete :: "entitlement_env \<Rightarrow> entitlement_reads \<Rightarrow> entitlement \<Rightarrow> ctrl_result api" where
  "entitlement_reconcileDelete env reads be =
    (if SubscriptionFinalizer \<notin> set (km_finalizers (be_meta be)) then ret ResultNone
     else case successorEntitlement (er_listed reads) be of
       Inl e \<Rightarrow> fail e
     | Inr successor \<Rightarrow>
       (case er_account reads of
          Inl e \<Rightarrow> if errors_is e KubeNotFound then release_entitlement env be else fail (Wrap ''get billing account'' [e])
        | Inr account \<Rightarrow>
          if successor \<noteq> [] then release_entitlement env be
          else and_then (wrapping ''cancel subscriptions; keeping finalizer''
              (CancelSubscriptions (en_fuel env) (en_srv env) (km_uid (ba_meta account))))
            (\<lambda>_. release_entitlement env be)))"

section \<open>Reconciling\<close>

definition entitle_offer :: "entitlement_env \<Rightarrow> int \<Rightarrow> entitlement_reads \<Rightarrow> entitlement \<Rightarrow> billing_account \<Rightarrow> ctrl_result api" where
  "entitle_offer env standard_day reads be account =
    (case er_offer reads of
       Inl e \<Rightarrow>
         if \<not> errors_is e KubeNotFound then fail (Wrap ''get offer'' [e])
         else entitlement_syncWaiting env be ''OfferNotFound'' (Leaf (''offer '' @ json_quote (be_offer be) @ '' not found'')) 0
     | Inr ofr \<Rightarrow>
         if fo_stage ofr \<noteq> OfferLaunchStageGA \<or> of_pricings (fo_offer ofr) = [] then
           entitlement_syncWaiting env be ''OfferNotAssignable''
             (Leaf (''offer '' @ json_quote (km_name (fo_meta ofr)) @ '' is not GA with a servicePricings snapshot'')) 0
         else await_contract env standard_day be account ofr)"

definition entitlement_Reconcile :: "entitlement_env \<Rightarrow> int \<Rightarrow> entitlement res \<Rightarrow> entitlement_reads \<Rightarrow> ctrl_result api" where
  "entitlement_Reconcile env standard_day got reads =
    (case got of
       Inl e \<Rightarrow> if errors_is e KubeNotFound then ret ResultNone else fail e
     | Inr be \<Rightarrow>
       if km_deleting (be_meta be) then entitlement_reconcileDelete env reads be
       else if SubscriptionFinalizer \<notin> set (km_finalizers (be_meta be)) then
         and_then (wrapping ''add finalizer'' (kube_call (en_srv env)
           (UpdateFinalizers (entitlement_key be) (km_finalizers (be_meta be) @ [SubscriptionFinalizer])))) (\<lambda>_. ret ResultNone)
       else (case er_account reads of
          Inl e \<Rightarrow>
            if \<not> errors_is e KubeNotFound then fail (Wrap ''get billing account'' [e])
            else entitlement_syncWaiting env be ''BillingAccountNotFound''
              (Leaf (''BillingAccount '' @ json_quote (be_account be) @ '' not found'')) 0
        | Inr account \<Rightarrow>
            if km_deleting (ba_meta account) then cancelForDeletingAccount env be (km_uid (ba_meta account))
            else entitle_offer env standard_day reads be account))"

section \<open>Watches\<close>

text \<open>
  The entitlements to look at again: those that name an Offer, those of an account, and the
  others of the same account. The lists are what the field indexes of \<open>indexers.go\<close> select.
\<close>

definition listRequests :: "(entitlement \<Rightarrow> bool) \<Rightarrow> entitlement list res \<Rightarrow> (go_string \<times> go_string) list" where
  "listRequests sel listed =
    (case listed of Inl _ \<Rightarrow> [] | Inr items \<Rightarrow> map (\<lambda>be. (km_namespace (be_meta be), km_name (be_meta be))) (filter sel items))"

definition entitlementsForOffer :: "entitlement list res \<Rightarrow> go_string \<Rightarrow> (go_string \<times> go_string) list" where
  "entitlementsForOffer listed name = listRequests (\<lambda>be. be_offer be = name) listed"

definition entitlementsForAccount :: "entitlement list res \<Rightarrow> kube_meta \<Rightarrow> (go_string \<times> go_string) list" where
  "entitlementsForAccount listed m = listRequests (\<lambda>be. km_namespace (be_meta be) = km_namespace m \<and> be_account be = km_name m) listed"

definition siblingEntitlements :: "entitlement list res \<Rightarrow> entitlement \<Rightarrow> (go_string \<times> go_string) list" where
  "siblingEntitlements listed be =
    filter (\<lambda>(ns, n). n \<noteq> km_name (be_meta be))
      (listRequests (\<lambda>x. km_namespace (be_meta x) = km_namespace (be_meta be) \<and> be_account x = be_account be) listed)"


section \<open>What subscribing sends\<close>

definition subscribing :: "request \<Rightarrow> bool" where
  "subscribing q \<longleftrightarrow> mutates q \<or> (\<exists>key n. q = ReqListSubscriptions key n) \<or> (\<exists>i. q = ReqGetSubscription i) \<or> (\<exists>a b. q = ReqListPlans a b)"

lemma subscribing_simps [simp]:
  "subscribing (ReqListSubscriptions key n)" "subscribing (ReqGetSubscription i)" "subscribing (ReqListPlans a b)"
  "mutates q \<Longrightarrow> subscribing q" "\<not> subscribing (ReqKube k)"
  by (auto simp: subscribing_def)

lemma adds_applySubscriptionStep: "adds subscribing (applySubscriptionStep srv desired step active)"
proof -
  have call: "mutates q \<Longrightarrow> adds subscribing (subscription_call srv q)" for q
    unfolding subscription_call_def by (intro adds_and_then adds_v1_call adds_checked_subscription) simp
  have del: "adds subscribing (delete_call srv i)" for i
    unfolding delete_call_def by (auto intro!: adds_and_then adds_v1_call adds_checked_subscription)
  have v3: "adds subscribing (changeSubscriptionV3 srv desired target atime b v)" for target atime b v
    unfolding adds_def
  proof
    fix t
    let ?q = "ReqChangeSubscriptionV3 (sub_id target) (change_v3_body desired target atime b v)"
    obtain st err bd t' where v: "v3_do srv ?q False t = ((st, err, bd), t')" by (metis prod.collapse)
    with v3_do_trace [of srv ?q False t] have "t' = t @ [(?q, srv t ?q)]" by simp
    then show "\<exists>u. snd (changeSubscriptionV3 srv desired target atime b v t) = t @ u \<and> (\<forall>q \<in> set (sent u). subscribing q)"
      using v by (auto simp: changeSubscriptionV3_def split: option.splits)
  qed
  show ?thesis
    unfolding applySubscriptionStep_def by (cases step) (auto intro!: call del v3 adds_fail)
qed

lemma adds_ensure_steps: "adds subscribing (ensure_steps fuel srv desired active now k)"
proof (induction k)
  case (Suc k)
  have one: "adds subscribing (and_then (apply_named srv desired step active) (\<lambda>_. ensure_steps fuel srv desired active now k))" for step
    unfolding apply_named_def by (intro adds_and_then adds_wrapping adds_applySubscriptionStep Suc)
  have period: "adds subscribing (currentBillingPeriod srv i)" for i
    unfolding currentBillingPeriod_def
    by (auto intro!: adds_and_then adds_v1_call adds_checked_subscription adds_ret split: option.splits body.splits)
  show ?case
    unfolding ensure_steps.simps
    by (intro adds_and_then adds_ListSubscriptions)
      (auto intro!: one adds_ret adds_and_then adds_wrapping period split: subscription_step.splits prod.splits option.splits)
qed (simp add: adds_fail)

lemma adds_EnsureSubscription: "adds subscribing (EnsureSubscription fuel srv clock desired)"
proof -
  have "adds subscribing (ListPlanVersions fuel srv key)" for key
    unfolding ListPlanVersions_def by (auto intro!: adds_and_then adds_mono [OF adds_listPlans] adds_ret)
  then show ?thesis
    unfolding EnsureSubscription_def
    by (intro adds_if adds_fail adds_and_then adds_wrapping) (auto intro!: adds_fail adds_ensure_steps split: option.splits)
qed

lemma adds_Cancel: "adds subscribing (CancelSubscriptions fuel srv key)"
  by (rule adds_CancelSubscriptions) simp_all

text \<open>A change whose due time has come is not put off again.\<close>

lemma ensure_steps_due:
  "ds_change_due desired = Some due \<Longrightarrow> due \<le> now \<Longrightarrow> ensure_steps fuel srv desired active now k t = (Inr st, t') \<Longrightarrow> st_change_at st = None"
proof (induction k arbitrary: t)
  case (Suc k)
  have none: "snd (periodChangeTime target period now (ds_change_due desired)) = None" for target period
    using Suc.prems(1,2) by (auto simp: periodChangeTime_def split: option.splits)
  have wait: "periodChangeTime target period now (ds_change_due desired) \<noteq> (a, Some w)" for target period a w
    using none [of target period] by auto
  from Suc.prems(3) show ?case
    by (auto simp: and_then_def ret_def fail_def wait split: prod.splits sum.splits subscription_step.splits if_splits option.splits
        dest!: Suc.IH [OF Suc.prems(1,2)])
qed (simp add: fail_def)

lemma EnsureSubscription_due:
  assumes "ds_change_due desired = Some due" "ds_now desired = Some now" "due \<le> now"
    "EnsureSubscription fuel srv clock desired t = (Inr st, t')"
  shows "st_change_at st = None"
  using assms(4) ensure_steps_due [OF assms(1,3)] assms(2)
  by (auto simp: EnsureSubscription_def and_then_def wrapping_def fail_def split: if_splits prod.splits sum.splits option.splits)


section \<open>A customer is subscribed when everything is in place\<close>

definition entitlement_allowed :: "bool \<Rightarrow> request \<Rightarrow> bool" where
  "entitlement_allowed ready q \<longleftrightarrow> (\<exists>k. q = ReqKube k) \<or> (ready \<and> subscribing q)"

lemma allowed_kube [simp]: "entitlement_allowed ready (ReqKube k)"
  by (simp add: entitlement_allowed_def)

lemma adds_condition: "(\<And>k c. cd_reason c = reason \<Longrightarrow> P (ReqKube (PatchCondition k c))) \<Longrightarrow> adds P (entitlement_setSyncedCondition env be status reason message)"
  unfolding entitlement_setSyncedCondition_def Let_def by (intro adds_if adds_ret adds_and_then adds_wrapping adds_kube_call) simp

lemma adds_waiting: "(\<And>k c. cd_reason c = reason \<Longrightarrow> P (ReqKube (PatchCondition k c))) \<Longrightarrow> adds P (entitlement_syncWaiting env be reason cause after)"
  unfolding entitlement_syncWaiting_def entitlement_setSyncedFalse_def by (intro adds_ret adds_and_then adds_condition)

lemma adds_failed: "(\<And>k c. cd_reason c = ''OpenMeterError'' \<Longrightarrow> P (ReqKube (PatchCondition k c))) \<Longrightarrow> adds P (entitlement_openMeterFailed env be e)"
  unfolding entitlement_openMeterFailed_def entitlement_setSyncedFalse_def Let_def
  by (intro adds_handle adds_fail adds_ret adds_and_then adds_condition)

lemma adds_release: "(\<And>k. P (ReqKube k)) \<Longrightarrow> adds P (release_entitlement env be)"
  unfolding release_entitlement_def by (intro adds_handle adds_if adds_fail adds_ret adds_kube_call)

lemma adds_record: "(\<And>k a. P (ReqKube (PatchAnnotations k a))) \<Longrightarrow> adds P (recordContractState env be startsAt changeAt)"
  unfolding recordContractState_def Let_def by (intro adds_if adds_ret adds_and_then adds_wrapping adds_kube_call)

lemma adds_report: "(\<And>k c. P (ReqKube (PatchCondition k c))) \<Longrightarrow> adds P (report_subscription env ofr state be)"
  unfolding report_subscription_def Let_def
  by (cases "st_change_at state") (auto intro!: adds_ret adds_and_then adds_condition)

lemma adds_subscribe_failed: "(\<And>k c. P (ReqKube (PatchCondition k c))) \<Longrightarrow> adds P (subscribe_failed env be account ofr e)"
  unfolding subscribe_failed_def Let_def by (intro adds_if adds_waiting adds_failed)

lemmas adds_entitlement = adds_waiting adds_failed adds_release adds_subscribe_failed adds_record adds_report adds_kube_call

lemma adds_await_contract:
  assumes "\<And>k c. P (ReqKube (PatchCondition k c))" "\<And>k a. P (ReqKube (PatchAnnotations k a))"
    "(case be_contract be of Some startsAt \<Rightarrow> startsAt \<le> en_now env | None \<Rightarrow> True) \<Longrightarrow> (\<And>q. subscribing q \<Longrightarrow> P q)"
  shows "adds P (await_contract env d be account ofr)"
proof -
  have "adds P (subscribe env d be account ofr)" if "\<And>q. subscribing q \<Longrightarrow> P q"
    unfolding subscribe_def
    by (intro adds_handle adds_mono [OF adds_EnsureSubscription that] adds_subscribe_failed adds_and_then adds_report)
      (auto intro!: adds_ret adds_record assms(1,2) split: option.splits)
  then show ?thesis
    using assms unfolding await_contract_def by (auto intro!: adds_if adds_waiting split: option.splits)
qed

lemma adds_cancelForDeletingAccount:
  assumes "\<And>k c. P (ReqKube (PatchCondition k c))" "\<And>q. subscribing q \<Longrightarrow> P q"
  shows "adds P (cancelForDeletingAccount env be key)"
  unfolding cancelForDeletingAccount_def
  by (intro adds_handle adds_waiting adds_failed adds_mono [OF adds_Cancel]) (auto intro: assms)

text \<open>What has to hold before OpenMeter is called for an entitlement at all.\<close>

definition entitlement_ready :: "int \<Rightarrow> entitlement_reads \<Rightarrow> entitlement \<Rightarrow> bool" where
  "entitlement_ready now reads be \<longleftrightarrow> SubscriptionFinalizer \<in> set (km_finalizers (be_meta be)) \<and>
    (case er_account reads of
       Inl _ \<Rightarrow> False
     | Inr account \<Rightarrow>
       if km_deleting (be_meta be) then successorEntitlement (er_listed reads) be = Inr []
       else km_deleting (ba_meta account) \<or>
         (case er_offer reads of
            Inl _ \<Rightarrow> False
          | Inr ofr \<Rightarrow> fo_stage ofr = OfferLaunchStageGA \<and> of_pricings (fo_offer ofr) \<noteq> [] \<and>
              (case be_contract be of Some startsAt \<Rightarrow> startsAt \<le> now | None \<Rightarrow> True)))"

lemma adds_reconcileDelete:
  "km_deleting (be_meta be) \<Longrightarrow> adds (entitlement_allowed (entitlement_ready now reads be)) (entitlement_reconcileDelete env reads be)"
  unfolding entitlement_reconcileDelete_def entitlement_ready_def
  by (auto intro!: adds_ret adds_fail adds_if adds_and_then adds_wrapping adds_entitlement adds_mono [OF adds_Cancel]
      simp: entitlement_allowed_def split: sum.splits)

lemma adds_entitlement_Reconcile:
  "adds (entitlement_allowed (entitlement_ready (en_now env) reads be)) (entitlement_Reconcile env d (Inr be) reads)"
proof (cases "km_deleting (be_meta be)")
  case True
  with adds_reconcileDelete [OF True] show ?thesis by (simp add: entitlement_Reconcile_def)
next
  case False
  let ?ready = "entitlement_ready (en_now env) reads be"
  have "adds (entitlement_allowed ?ready) (cancelForDeletingAccount env be key)" if ?ready for key
    by (rule adds_cancelForDeletingAccount) (use that in \<open>auto simp: entitlement_allowed_def\<close>)
  moreover have "adds (entitlement_allowed ?ready) (await_contract env d be account ofr)"
    if "(case be_contract be of Some startsAt \<Rightarrow> startsAt \<le> en_now env | None \<Rightarrow> True) \<Longrightarrow> ?ready" for account ofr
    by (rule adds_await_contract) (use that in \<open>auto simp: entitlement_allowed_def\<close>)
  ultimately show ?thesis
    using False unfolding entitlement_Reconcile_def entitle_offer_def
    by (auto intro!: adds_ret adds_fail adds_if adds_and_then adds_wrapping adds_entitlement
        split: sum.splits simp: entitlement_ready_def)
qed



definition example_entitlement :: entitlement where
  "example_entitlement = \<lparr>be_meta = \<lparr>km_namespace = ''org-1'', km_name = ''standard'', km_uid = ''e-1'', km_generation = 1,
       km_deleting = True, km_finalizers = [SubscriptionFinalizer], km_annotations = []\<rparr>,
     be_account = ''acme'', be_offer = ''standard'', be_contract = None, be_conditions = []\<rparr>"

definition example_entitlement_env :: entitlement_env where
  "example_entitlement_env = \<lparr>en_fuel = 3, en_srv = example_removal_server, en_changed = (\<lambda>_ _. True),
     en_parse_time = (\<lambda>_. Some 5), en_now = 7\<rparr>"

definition example_entitlement_reads :: entitlement_reads where
  "example_entitlement_reads = \<lparr>er_account = Inr example_account, er_offer = Inl (Sentinel KubeNotFound), er_listed = Inr []\<rparr>"

lemma example_entitlement_trace:
  "snd (entitlement_Reconcile example_entitlement_env 1 (Inr example_entitlement) example_entitlement_reads []) =
    [(ReqListSubscriptions ''u-1'' 1, example_removal_server [] (ReqListSubscriptions ''u-1'' 1)),
     (ReqKube (UpdateFinalizers (entitlement_key example_entitlement) []), Inr (ok_answer None))]"
  by code_simp


section \<open>The finalizer goes last\<close>

lemma not_releasing [simp]: "subscribing q \<Longrightarrow> \<not> drops key q"
  by (rule ccontr) (auto dest!: drops_kube)

text \<open>Why an entitlement that is being deleted may lose its finalizer.\<close>

definition may_release :: "entitlement_env \<Rightarrow> entitlement_reads \<Rightarrow> entitlement \<Rightarrow> exchanges \<Rightarrow> bool" where
  "may_release env reads be t \<longleftrightarrow> km_deleting (be_meta be) \<and>
    (\<exists>successor. successorEntitlement (er_listed reads) be = Inr successor \<and>
      (case er_account reads of
         Inl e \<Rightarrow> errors_is e KubeNotFound
       | Inr account \<Rightarrow> successor \<noteq> [] \<or>
           fst (CancelSubscriptions (en_fuel env) (en_srv env) (km_uid (ba_meta account)) t) = Inr ()))"

lemma quiet_passes:
  assumes "\<not> km_deleting (be_meta be)"
  shows "adds (\<lambda>q. \<not> drops SubscriptionFinalizer q) (entitlement_Reconcile env d (Inr be) reads)"
proof -
  note quiet = adds_waiting [where P = "\<lambda>q. \<not> drops SubscriptionFinalizer q"] adds_cancelForDeletingAccount [where P = "\<lambda>q. \<not> drops SubscriptionFinalizer q"]
    adds_await_contract [where P = "\<lambda>q. \<not> drops SubscriptionFinalizer q"]
  show ?thesis
    using assms unfolding entitlement_Reconcile_def entitle_offer_def
    by (auto intro!: adds_ret adds_fail adds_if adds_and_then adds_wrapping adds_kube_call quiet split: sum.splits)
qed

lemma quiet_until_released:
  assumes "km_deleting (be_meta be)" "\<not> may_release env reads be t"
  shows "\<exists>u. snd (entitlement_reconcileDelete env reads be t) = t @ u \<and> (\<forall>q \<in> set (sent u). \<not> drops SubscriptionFinalizer q)"
proof -
  have "\<exists>u. snd (and_then (wrapping w (CancelSubscriptions fuel srv key)) (\<lambda>_. m) t) = t @ u \<and> (\<forall>q \<in> set (sent u). \<not> drops SubscriptionFinalizer q)"
    if failed: "fst (CancelSubscriptions fuel srv key t) \<noteq> Inr ()" for w fuel srv key and m :: "ctrl_result api"
  proof -
    obtain e t1 where c: "CancelSubscriptions fuel srv key t = (Inl e, t1)"
      using failed by (cases "CancelSubscriptions fuel srv key t"; cases "fst (CancelSubscriptions fuel srv key t)") auto
    obtain u where "snd (CancelSubscriptions fuel srv key t) = t @ u" "\<forall>q \<in> set (sent u). subscribing q"
      using adds_Cancel [of fuel srv key] unfolding adds_def by blast
    with c show ?thesis by (intro exI [of _ u]) (auto simp: and_then_def wrapping_def)
  qed
  with assms show ?thesis
    unfolding entitlement_reconcileDelete_def may_release_def
    by (auto simp: ret_def fail_def split: sum.splits)
qed

text \<open>
  An entitlement keeps its finalizer until billing for it has ended. It is dropped only
  while the entitlement is being deleted, and only when its account is gone (with its customer
  and all subscriptions), when another entitlement of the account takes the subscription over,
  or when canceling the customer's subscriptions succeeded in the same pass.
\<close>

theorem entitlement_release:
  "\<exists>u. snd (entitlement_Reconcile env d (Inr be) reads t) = t @ u \<and>
    ((\<exists>q \<in> set (sent u). drops SubscriptionFinalizer q) \<longrightarrow> may_release env reads be t)"
proof (cases "km_deleting (be_meta be) \<and> \<not> may_release env reads be t")
  case True
  with quiet_until_released [of be env reads t] show ?thesis by (auto simp: entitlement_Reconcile_def)
next
  case False
  obtain u where u: "snd (entitlement_Reconcile env d (Inr be) reads t) = t @ u"
    using adds_entitlement_Reconcile [of env reads be d] unfolding adds_def by blast
  show ?thesis
  proof (cases "km_deleting (be_meta be)")
    case True
    with False u show ?thesis by blast
  next
    case False
    with quiet_passes [OF False, of env d reads] show ?thesis unfolding adds_def by blast
  qed
qed

theorem entitlement_release_witness:
  "drops SubscriptionFinalizer (ReqKube (UpdateFinalizers (entitlement_key example_entitlement) [])) \<and>
   may_release example_entitlement_env example_entitlement_reads example_entitlement []"
proof -
  have "drops SubscriptionFinalizer (ReqKube (UpdateFinalizers (entitlement_key example_entitlement) []))"
    by simp
  with entitlement_release [of example_entitlement_env 1 example_entitlement example_entitlement_reads "[]"]
  show ?thesis by (simp add: example_entitlement_trace)
qed

section \<open>The life of an entitlement\<close>

text \<open>
  What a pass reads: its environment (on one server), the entitlement at any age, and the account,
  Offer and entitlements beside it.
\<close>

type_synonym entitlement_input = "entitlement_env \<times> int \<times> entitlement \<times> entitlement_reads"

definition entitlement_ok :: "server \<Rightarrow> entitlement_input \<Rightarrow> bool" where
  "entitlement_ok srv x \<longleftrightarrow> en_srv (fst x) = srv"

definition entitlement_held :: "entitlement_input \<Rightarrow> go_string list" where
  "entitlement_held x = (case x of (env, d, be, reads) \<Rightarrow> km_finalizers (be_meta be))"

definition entitlement_pass :: "entitlement_input \<Rightarrow> exchanges \<Rightarrow> exchanges" where
  "entitlement_pass x t = (case x of (env, d, be, reads) \<Rightarrow> snd (entitlement_Reconcile env d (Inr be) reads t))"

definition entitlement_settled :: "entitlement_input \<Rightarrow> exchanges \<Rightarrow> bool" where
  "entitlement_settled x t = (case x of (env, d, be, reads) \<Rightarrow> may_release env reads be t)"

interpretation ent: finalized_object SubscriptionFinalizer "entitlement_ok srv" entitlement_held entitlement_pass entitlement_settled
  for srv
proof
  fix x t
  show "prefix t (entitlement_pass x t)"
    using entitlement_release [of "fst x" "fst (snd x)" "fst (snd (snd x))" "snd (snd (snd x))" t]
    by (auto simp: entitlement_pass_def split_beta)
next
  fix x t u q
  assume "entitlement_pass x t = t @ u" "q \<in> set (sent u)" "drops SubscriptionFinalizer q"
  then show "entitlement_settled x t"
    using entitlement_release [of "fst x" "fst (snd x)" "fst (snd (snd x))" "snd (snd (snd x))" t]
    by (auto simp: entitlement_pass_def entitlement_settled_def split_beta)
qed

text \<open>
  C7. Billing does not outlive an entitlement: over any number of passes, each on what it had read,
  however old, with other actors in between and whatever OpenMeter answers, an entitlement that got
  its finalizer keeps it until some pass read it as being deleted and found its account gone, or another
  entitlement of the account to take the subscription over, or canceled the customer's
  subscriptions itself.
\<close>

theorem entitlement_life:
  assumes "SubscriptionFinalizer \<in> set fs0"
    and "lives SubscriptionFinalizer (entitlement_ok srv) entitlement_held entitlement_pass
      \<lparr>lf_finalizers = fs0, lf_exchanges = t0, lf_passes = []\<rparr> s"
  shows "SubscriptionFinalizer \<in> set (lf_finalizers s) \<or>
    (\<exists>env d be reads t. ((env, d, be, reads), t) \<in> set (lf_passes s) \<and> prefix t (lf_exchanges s) \<and> may_release env reads be t)"
  using ent.kept_until_settled [OF assms] unfolding settled_before_def entitlement_settled_def by fastforce

theorem entitlement_life_witness:
  "\<exists>s. lives SubscriptionFinalizer (entitlement_ok (en_srv example_entitlement_env)) entitlement_held entitlement_pass
      \<lparr>lf_finalizers = [SubscriptionFinalizer], lf_exchanges = [], lf_passes = []\<rparr> s
    \<and> lf_finalizers s = []
    \<and> (\<exists>env d be reads t. ((env, d, be, reads), t) \<in> set (lf_passes s) \<and> may_release env reads be t)"
proof -
  let ?x = "(example_entitlement_env, 1, example_entitlement, example_entitlement_reads)"
  let ?born = "\<lparr>lf_finalizers = [SubscriptionFinalizer], lf_exchanges = [], lf_passes = []\<rparr>"
  let ?s = "\<lparr>lf_finalizers = [], lf_exchanges = entitlement_pass ?x [], lf_passes = [] @ [(?x, [])]\<rparr>"
  have "life_step SubscriptionFinalizer (entitlement_ok (en_srv example_entitlement_env)) entitlement_held entitlement_pass ?born ?s"
    by (rule life_step.written [where u = "entitlement_pass ?x []" and
          q = "ReqKube (UpdateFinalizers (entitlement_key example_entitlement) [])"])
      (simp_all add: entitlement_ok_def entitlement_pass_def example_entitlement_trace,
       simp add: entitlement_held_def example_entitlement_def)
  then have l: "lives SubscriptionFinalizer (entitlement_ok (en_srv example_entitlement_env)) entitlement_held entitlement_pass ?born ?s"
    by (rule r_into_rtranclp)
  from entitlement_life [OF _ this]
  have "\<exists>env d be reads t. ((env, d, be, reads), t) \<in> set (lf_passes ?s) \<and> may_release env reads be t" by fastforce
  with l show ?thesis by (intro exI [of _ ?s] conjI) simp_all
qed

section \<open>An amendment is made at the period's end\<close>

definition postpones :: "request \<Rightarrow> bool" where
  "postpones q \<longleftrightarrow> (\<exists>k c. q = ReqKube (PatchCondition k c) \<and> cd_reason c = conditionReasonOfferChangeScheduled) \<or>
    (\<exists>k anns. q = ReqKube (PatchAnnotations k anns) \<and> map_of anns OfferChangeAtAnnotation \<noteq> None)"

lemma not_postponing [simp]:
  "subscribing q \<Longrightarrow> \<not> postpones q" "postpones (ReqKube (PatchCondition k c)) \<longleftrightarrow> cd_reason c = conditionReasonOfferChangeScheduled"
  "\<not> postpones (ReqKube (UpdateFinalizers k fs))"
  by (auto simp: postpones_def)

lemma contract_keys_distinct: "OfferChangeAtAnnotation \<noteq> ContractStartedAnnotation"
  by (simp add: OfferChangeAtAnnotation_def ContractStartedAnnotation_def)

lemma record_without_change: "adds (\<lambda>q. \<not> postpones q) (recordContractState env be startsAt None)"
proof -
  have "map_of (recorded_annotations (wanted_contract_state be startsAt None) anns) OfferChangeAtAnnotation = None" for anns
    using contract_keys_distinct by (simp add: recorded_annotations_def wanted_contract_state_def delete_conv')
  then show ?thesis
    unfolding recordContractState_def Let_def
    by (intro adds_if adds_ret adds_and_then adds_wrapping adds_kube_call) (simp add: postpones_def)
qed

lemma report_without_change: "st_change_at state = None \<Longrightarrow> adds (\<lambda>q. \<not> postpones q) (report_subscription env ofr state be)"
  unfolding report_subscription_def Let_def
  by (auto intro!: adds_ret adds_and_then adds_condition simp: conditionReasonOfferChangeScheduled_def)

lemma waiting_without_change:
  "reason \<noteq> conditionReasonOfferChangeScheduled \<Longrightarrow> adds (\<lambda>q. \<not> postpones q) (entitlement_syncWaiting env be reason cause after)"
  by (rule adds_waiting) simp

lemma failed_without_change: "adds (\<lambda>q. \<not> postpones q) (entitlement_openMeterFailed env be e)"
  by (rule adds_failed) (simp add: conditionReasonOfferChangeScheduled_def)

lemma subscribe_when_due:
  assumes "be_contract be = Some startsAt" "en_parse_time env (annotation (be_meta be) OfferChangeAtAnnotation) = Some due" "due \<le> en_now env"
  shows "adds (\<lambda>q. \<not> postpones q) (subscribe env d be account ofr)"
proof -
  let ?desired = "entitlement_desired env d be account ofr"
  have due: "ds_change_due ?desired = Some due" "ds_now ?desired = Some (en_now env)"
    using assms(1,2) by (simp_all add: entitlement_desired_def Let_def)
  have ensure: "gives (EnsureSubscription (en_fuel env) (en_srv env) (en_now env) ?desired)
     (\<lambda>r u. (\<forall>q \<in> set (sent u). \<not> postpones q) \<and> (\<forall>st. r = Inr st \<longrightarrow> st_change_at st = None))"
    unfolding gives_def
  proof
    fix t
    obtain r t' where run: "EnsureSubscription (en_fuel env) (en_srv env) (en_now env) ?desired t = (r, t')" by force
    with adds_EnsureSubscription [of "en_fuel env" "en_srv env" "en_now env" ?desired] obtain u where
      "t' = t @ u" "\<forall>q \<in> set (sent u). subscribing q" unfolding adds_def by (metis snd_conv)
    with run EnsureSubscription_due [OF due assms(3)]
    show "\<exists>u. snd (EnsureSubscription (en_fuel env) (en_srv env) (en_now env) ?desired t) = t @ u \<and>
        (\<forall>q \<in> set (sent u). \<not> postpones q) \<and>
        (\<forall>st. fst (EnsureSubscription (en_fuel env) (en_srv env) (en_now env) ?desired t) = Inr st \<longrightarrow> st_change_at st = None)" by auto
  qed
  show ?thesis
    unfolding subscribe_def adds_gives
  proof (rule gives_handle [OF ensure], goal_cases)
    case (1 e u)
    have "adds (\<lambda>q. \<not> postpones q) (subscribe_failed env be account ofr e)"
      unfolding subscribe_failed_def Let_def
      by (intro adds_if waiting_without_change failed_without_change) (simp_all add: conditionReasonOfferChangeScheduled_def)
    then show ?case by (rule gives_mono [OF gives_adds]) (use 1 in auto)
  next
    case (2 state u)
    then have "adds (\<lambda>q. \<not> postpones q) (and_then
       (case be_contract be of Some startsAt \<Rightarrow> recordContractState env be startsAt (st_change_at state) | None \<Rightarrow> ret be)
       (report_subscription env ofr state))"
      using assms(1) by (auto intro!: adds_and_then report_without_change record_without_change)
    then show ?case by (rule gives_mono [OF gives_adds]) (use 2 in auto)
  qed
qed

text \<open>
  C19. An amendment of a started contract is put off to the end of a billing period once, not
  again: when the recorded time of the change has come, a pass neither reports the change as
  scheduled nor records a time for it; it makes the change or fails.
\<close>

theorem entitlement_amendment_not_postponed:
  assumes "be_contract be = Some startsAt" "en_parse_time env (annotation (be_meta be) OfferChangeAtAnnotation) = Some due" "due \<le> en_now env"
  shows "\<exists>u. snd (entitlement_Reconcile env d (Inr be) reads t) = t @ u \<and> (\<forall>q \<in> set (sent u). \<not> postpones q)"
proof -
  let ?P = "\<lambda>q. \<not> postpones q"
  have "adds ?P (await_contract env d be account ofr)" for account ofr
    unfolding await_contract_def
    by (auto intro!: adds_if waiting_without_change subscribe_when_due [OF assms]
        split: option.splits simp: conditionReasonOfferChangeScheduled_def)
  moreover have "adds ?P (cancelForDeletingAccount env be key)" for key
    unfolding cancelForDeletingAccount_def
    by (intro adds_handle waiting_without_change failed_without_change adds_mono [OF adds_Cancel])
      (auto simp: conditionReasonOfferChangeScheduled_def)
  moreover have "adds ?P (release_entitlement env be)"
    unfolding release_entitlement_def by (intro adds_handle adds_if adds_fail adds_ret adds_kube_call) simp
  ultimately have "adds ?P (entitlement_Reconcile env d (Inr be) reads)"
    unfolding entitlement_Reconcile_def entitlement_reconcileDelete_def entitle_offer_def
    by (auto intro!: adds_ret adds_fail adds_if adds_and_then adds_wrapping adds_kube_call waiting_without_change
        adds_mono [OF adds_Cancel] split: sum.splits simp: conditionReasonOfferChangeScheduled_def)
  then show ?thesis unfolding adds_def by blast
qed

theorem entitlement_amendment_not_postponed_witness:
  "let be = example_entitlement\<lparr>be_contract := Some 3\<rparr> in
   en_parse_time example_entitlement_env (annotation (be_meta be) OfferChangeAtAnnotation) = Some 5 \<and>
   (\<exists>u. snd (entitlement_Reconcile example_entitlement_env 1 (Inr be) example_entitlement_reads []) = [] @ u \<and>
     (\<forall>q \<in> set (sent u). \<not> postpones q))"
  using entitlement_amendment_not_postponed [of "example_entitlement\<lparr>be_contract := Some 3\<rparr>" 3 example_entitlement_env 5 1
      example_entitlement_reads "[]"]
  by (simp add: example_entitlement_env_def)

end
