(* ===== verification/InvoiceRequests.thy ===== *)
theory InvoiceRequests
  imports EntitlementController Invoices
begin

text \<open>
  The InvoiceRequest controller (\<open>internal/controller/invoicerequest_controller.go\<close>): a request
  for a preview of an account's next invoice is answered in its status, from the Offer before
  a contract starts and from OpenMeter's draft or pending lines after; a request to issue one
  is refused.
\<close>

section \<open>State\<close>

text \<open>
  A request with its status; a pass reads its account, the account's entitlements and the
  Offer. \<open>iq_clock\<close> is the time at a point of a run, \<open>iq_set_condition\<close> stands for
  \<open>apimeta.SetStatusCondition\<close>. The phases, reasons and modes are those of billing's API.
\<close>

record invoice_request =
  ir_meta :: kube_meta
  ir_account :: go_string
  ir_mode :: go_string
  ir_status :: request_status

record request_env =
  iq_srv :: server
  iq_clock :: "exchanges \<Rightarrow> int"
  iq_set_condition :: "condition \<Rightarrow> condition list \<Rightarrow> condition list"

record request_reads =
  iq_account :: "billing_account res"
  iq_entitlements :: "entitlement list res"
  iq_offer :: "offer_object res"

definition InvoiceRequestPhasePending :: go_string where "InvoiceRequestPhasePending = ''Pending''"
definition InvoiceRequestPhaseSucceeded :: go_string where "InvoiceRequestPhaseSucceeded = ''Succeeded''"
definition InvoiceRequestPhaseFailed :: go_string where "InvoiceRequestPhaseFailed = ''Failed''"
definition InvoiceRequestModePreview :: go_string where "InvoiceRequestModePreview = ''Preview''"

definition request_key :: "invoice_request \<Rightarrow> object_key" where
  "request_key ir = object_key_of ''InvoiceRequest'' (ir_meta ir)"

section \<open>Completing a request\<close>

definition invoiceRequestDone :: "invoice_request \<Rightarrow> bool" where
  "invoiceRequestDone ir \<longleftrightarrow> rs_phase (ir_status ir) \<in> {InvoiceRequestPhaseSucceeded, InvoiceRequestPhaseFailed}"

definition complete :: "request_env \<Rightarrow> invoice_request \<Rightarrow> go_string \<Rightarrow> go_string \<Rightarrow> go_string \<Rightarrow> unit api" where
  "complete env ir phase reason msg t =
    (let g = km_generation (ir_meta ir);
         c = \<lparr>cd_type = ''Completed'', cd_status = ''True'', cd_reason = reason, cd_message = msg, cd_generation = g\<rparr>;
         st = (ir_status ir)\<lparr>rs_phase := phase, rs_completed_at := Some (iq_clock env t), rs_generation := g,
                rs_conditions := iq_set_condition env c (rs_conditions (ir_status ir))\<rparr>
     in wrapping ''update status'' (kube_call (iq_srv env) (UpdateRequestStatus (request_key ir) st)) t)"

definition succeed :: "request_env \<Rightarrow> invoice_request \<Rightarrow> go_string \<Rightarrow> preview_line list \<Rightarrow> go_string \<Rightarrow> go_string \<Rightarrow> ctrl_result api" where
  "succeed env ir currency lines tot msg =
    and_then (complete env (ir\<lparr>ir_status := (ir_status ir)\<lparr>rs_currency := currency, rs_lines := lines, rs_total := tot\<rparr>\<rparr>)
        InvoiceRequestPhaseSucceeded ''Succeeded'' msg)
      (\<lambda>_. ret ResultNone)"

definition request_fail :: "request_env \<Rightarrow> invoice_request \<Rightarrow> go_string \<Rightarrow> go_string \<Rightarrow> ctrl_result api" where
  "request_fail env ir reason msg = and_then (complete env ir InvoiceRequestPhaseFailed reason msg) (\<lambda>_. ret ResultNone)"

definition request_openMeterFailed :: "request_env \<Rightarrow> invoice_request \<Rightarrow> go_error \<Rightarrow> ctrl_result api" where
  "request_openMeterFailed env ir e =
    (if IsPermanent e then request_fail env ir ''Failed'' (error_text e) else fail e)"

section \<open>Lines\<close>

definition first_line :: "int \<Rightarrow> service_pricing \<Rightarrow> preview_line list \<Rightarrow> preview_line list res" where
  "first_line startsAt sp lines =
    (if sp_charge_type sp \<noteq> ChargeOneTime \<and> sp_charge_type sp \<noteq> ChargeRecurring then Inr lines
     else
       (let period = (if sp_charge_type sp = ChargeRecurring then Some \<lparr>ip_start = startsAt, ip_end = add_month startsAt - second\<rparr> else None);
            percentage = (case sp_discount sp of Some p \<Rightarrow> p | None \<Rightarrow> 0);
            bad = (\<lambda>e. Wrap (''service pricing '' @ json_quote (sp_name sp)) [e])
        in case MultiplyAmount (sp_amount sp) (feeQuantity sp) of
             Inl e \<Rightarrow> Inl (bad e)
           | Inr charged \<Rightarrow>
             (case DiscountedAmount charged percentage of
                Inl e \<Rightarrow> Inl (bad e)
              | Inr amount \<Rightarrow> Inr (lines @ [\<lparr>pv_description = feeName sp, pv_period = period, pv_amount = amount\<rparr>]))))"

definition with_total :: "preview_line list \<Rightarrow> (preview_line list \<times> go_string) res" where
  "with_total lines =
    (case AddDecimals (map pv_amount lines) of
       Inl e \<Rightarrow> Inl (Wrap ''total'' [e])
     | Inr tot \<Rightarrow> Inr (lines, tot))"

definition firstInvoiceLines :: "offer \<Rightarrow> int \<Rightarrow> (preview_line list \<times> go_string) res" where
  "firstInvoiceLines ofr startsAt =
    (case each (first_line startsAt) (of_pricings ofr) [] of Inl e \<Rightarrow> Inl e | Inr lines \<Rightarrow> with_total lines)"

definition request_line :: "invoice_line \<Rightarrow> preview_line list \<Rightarrow> preview_line list res" where
  "request_line line lines =
    (case AmountBeforeTax (il_totals line) of
       Inl e \<Rightarrow> Inl (Wrap (''line '' @ il_id line) [e])
     | Inr amount \<Rightarrow>
       Inr (lines @ [\<lparr>pv_description = il_name line,
         pv_period = (if il_to line > il_from line then
             Some \<lparr>ip_start = truncate_second (il_from line), ip_end = truncate_second (il_to line - 1)\<rparr> else None),
         pv_amount = amount\<rparr>]))"

definition requestLines :: "invoice_line list \<Rightarrow> (preview_line list \<times> go_string) res" where
  "requestLines ls = (case each request_line ls [] of Inl e \<Rightarrow> Inl e | Inr lines \<Rightarrow> with_total lines)"

section \<open>Previews\<close>

definition previewFirstInvoice :: "request_env \<Rightarrow> request_reads \<Rightarrow> invoice_request \<Rightarrow> billing_account \<Rightarrow> entitlement \<Rightarrow> int \<Rightarrow> ctrl_result api" where
  "previewFirstInvoice env reads ir account be startsAt =
    (case iq_offer reads of
       Inl e \<Rightarrow>
         if \<not> errors_is e KubeNotFound then fail (Wrap ''get offer'' [e])
         else request_fail env ir ''Failed'' (''Offer '' @ json_quote (be_offer be) @ '' not found'')
     | Inr ofr \<Rightarrow>
         (case firstInvoiceLines (fo_offer ofr) startsAt of
            Inl e \<Rightarrow> request_fail env ir ''Failed'' (error_text e)
          | Inr (lines, tot) \<Rightarrow>
            if lines = [] then
              succeed env ir (ba_currency account) [] ''0''
                (''Offer '' @ json_quote (km_name (fo_meta ofr)) @
                 '' has no one-time or recurring charges to invoice when the contract starts on '' @ format_date startsAt)
            else succeed env ir (ba_currency account) lines tot
                (''The first invoice, sent when the contract starts on '' @ format_date startsAt)))"

definition preview_upcoming :: "request_env \<Rightarrow> invoice_request \<Rightarrow> billing_account \<Rightarrow> go_string \<Rightarrow> ctrl_result api" where
  "preview_upcoming env ir account customerID =
    handle (UpcomingFixedCharges (iq_srv env) customerID)
      (\<lambda>e. request_openMeterFailed env ir (Wrap ''list upcoming fixed charges'' [e]))
      (\<lambda>upcoming.
         case upcoming of
           [] \<Rightarrow> succeed env ir (ba_currency account) [] ''0'' ''No one-time or recurring charges are waiting to be invoiced''
         | first # _ \<Rightarrow>
           (case requestLines upcoming of
              Inl e \<Rightarrow> request_fail env ir ''Failed'' (error_text e)
            | Inr (lines, tot) \<Rightarrow>
              succeed env ir (il_currency first) lines tot ''One-time and recurring charges waiting for later billing periods''))"

definition preview_draft :: "request_env \<Rightarrow> invoice_request \<Rightarrow> billing_account \<Rightarrow> go_string \<Rightarrow> om_invoice \<Rightarrow> ctrl_result api" where
  "preview_draft env ir account customerID draft =
    (case requestLines (LineItems draft) of
       Inl e \<Rightarrow> request_fail env ir ''Failed'' (error_text e)
     | Inr (lines, tot) \<Rightarrow>
       (case IsZeroDecimal tot of
          Inl e \<Rightarrow> request_fail env ir ''Failed'' (error_text e)
        | Inr zero \<Rightarrow>
          if \<not> zero then
            succeed env ir (in_currency draft) lines tot
              (''Draft invoice '' @ in_id draft @ '', which OpenMeter issues and sends when its collection period ends'')
          else preview_upcoming env ir account customerID))"

definition previewNextInvoice :: "request_env \<Rightarrow> invoice_request \<Rightarrow> billing_account \<Rightarrow> go_string \<Rightarrow> ctrl_result api" where
  "previewNextInvoice env ir account customerID =
    handle (DraftInvoice (iq_srv env) customerID)
      (\<lambda>e. request_openMeterFailed env ir (Wrap ''get draft invoice'' [e]))
      (\<lambda>draft. case draft of
          Some d \<Rightarrow> preview_draft env ir account customerID d
        | None \<Rightarrow> preview_upcoming env ir account customerID)"

section \<open>Reconciling\<close>

definition entitlementFor :: "entitlement list res \<Rightarrow> entitlement option res" where
  "entitlementFor listed =
    (case listed of
       Inl e \<Rightarrow> Inl (Wrap ''list billing entitlements for account'' [e])
     | Inr items \<Rightarrow> Inr (List.find (\<lambda>be. \<not> km_deleting (be_meta be)) items))"

definition preview_current :: "request_env \<Rightarrow> invoice_request \<Rightarrow> billing_account \<Rightarrow> ctrl_result api" where
  "preview_current env ir account =
    handle (GetCustomer (iq_srv env) (km_uid (ba_meta account)))
      (\<lambda>e. if errors_is e ErrCustomerNotFound then
             request_fail env ir ''Failed'' (''BillingAccount '' @ json_quote (km_name (ba_meta account)) @ '' has no OpenMeter customer yet'')
           else request_openMeterFailed env ir (Wrap ''get customer'' [e]))
      (\<lambda>customer. previewNextInvoice env ir account (cu_id customer))"

definition preview :: "request_env \<Rightarrow> request_reads \<Rightarrow> invoice_request \<Rightarrow> ctrl_result api" where
  "preview env reads ir =
    (case iq_account reads of
       Inl e \<Rightarrow>
         if \<not> errors_is e KubeNotFound then fail (Wrap ''get billing account'' [e])
         else request_fail env ir ''Failed'' (''BillingAccount '' @ json_quote (ir_account ir) @ '' not found'')
     | Inr account \<Rightarrow>
       (case entitlementFor (iq_entitlements reads) of
          Inl e \<Rightarrow> fail e
        | Inr found \<Rightarrow> (\<lambda>t.
          (case found of
             Some be \<Rightarrow>
               (case be_contract be of
                  Some startsAt \<Rightarrow>
                    if iq_clock env t < startsAt then previewFirstInvoice env reads ir account be startsAt
                    else preview_current env ir account
                | None \<Rightarrow> preview_current env ir account)
           | None \<Rightarrow> preview_current env ir account) t)))"

definition mark_pending :: "request_env \<Rightarrow> invoice_request \<Rightarrow> invoice_request api" where
  "mark_pending env ir =
    (if rs_phase (ir_status ir) = [] then
       (let st = (ir_status ir)\<lparr>rs_phase := InvoiceRequestPhasePending, rs_generation := km_generation (ir_meta ir)\<rparr> in
        and_then (wrapping ''mark pending'' (kube_call (iq_srv env) (UpdateRequestStatus (request_key ir) st)))
          (\<lambda>_. ret (ir\<lparr>ir_status := st\<rparr>)))
     else ret ir)"

definition request_Reconcile :: "request_env \<Rightarrow> invoice_request res \<Rightarrow> request_reads \<Rightarrow> ctrl_result api" where
  "request_Reconcile env got reads =
    (case got of
       Inl e \<Rightarrow> if errors_is e KubeNotFound then ret ResultNone else fail e
     | Inr ir \<Rightarrow>
       if km_deleting (ir_meta ir) \<or> invoiceRequestDone ir then ret ResultNone
       else if ir_mode ir \<noteq> InvoiceRequestModePreview then
         request_fail env ir ''Unsupported''
           (ir_mode ir @ '' isn't supported: OpenMeter invoices one-time and recurring charges by itself as soon as they're due, '' @
            ''so a contract's first invoice is sent when it starts'')
       else and_then (mark_pending env ir) (preview env reads))"

section \<open>A preview only reads, and its total is the sum of its lines\<close>

definition preview_read :: "go_string \<Rightarrow> request \<Rightarrow> bool" where
  "preview_read key q \<longleftrightarrow> q = ReqCustomer (GetCustomerReq key) \<or> (\<exists>c s. q = ReqInvoice (ListInvoiceLinesReq c s))"

definition adds_up :: "request_status \<Rightarrow> bool" where
  "adds_up st \<longleftrightarrow> list_all plain (map pv_amount (rs_lines st)) \<longrightarrow>
    (\<exists>k. parseDecimal (rs_total st) = Inr (\<Sum>l \<leftarrow> rs_lines st. fst (projr (parseDecimal (pv_amount l))), k))"


lemma AddDecimals_parses: "AddDecimals vs = Inr s \<Longrightarrow> list_all (\<lambda>v. \<not> isl (parseDecimal v)) vs"
proof -
  let ?f = "\<lambda>v (acc, scale). (case parseDecimal v of Inl e \<Rightarrow> Inl e | Inr (r, k) \<Rightarrow> Inr (acc + r, max scale k))"
  have "each ?f vs a = Inr b \<Longrightarrow> list_all (\<lambda>v. \<not> isl (parseDecimal v)) vs" for a b
    by (induction vs arbitrary: a) (auto split: sum.splits prod.splits)
  then show "AddDecimals vs = Inr s \<Longrightarrow> ?thesis"
    unfolding AddDecimals_def by (auto split: sum.splits)
qed

lemma with_total_adds_up:
  assumes "with_total lines = Inr (ls, tot)" "rs_lines st = ls" "rs_total st = tot"
  shows "adds_up st"
proof -
  have ls: "ls = lines" "AddDecimals (map pv_amount lines) = Inr tot"
    using assms(1) by (auto simp: with_total_def split: sum.splits)
  have "parseDecimal tot = Inr (\<Sum>v \<leftarrow> map pv_amount lines. fst (projr (parseDecimal v)), k)"
    if "AddDecimals (map pv_amount lines) = Inr s \<and> parseDecimal s = Inr (\<Sum>v \<leftarrow> map pv_amount lines. fst (projr (parseDecimal v)), k)" for s k
    using that ls(2) by simp
  with AddDecimals_exact [OF _ AddDecimals_parses [OF ls(2)]] show ?thesis
    unfolding adds_up_def assms(2,3) ls(1) by (auto simp: comp_def)
qed

lemma nothing_adds_up: "rs_lines st = [] \<Longrightarrow> rs_total st = ''0'' \<Longrightarrow> adds_up st"
proof -
  have "parseDecimal ''0'' = Inr (0, 0)" by code_simp
  then show "rs_lines st = [] \<Longrightarrow> rs_total st = ''0'' \<Longrightarrow> adds_up st" by (simp add: adds_up_def)
qed

text \<open>The writes a pass over a request may make, and the reads.\<close>

definition request_write :: "invoice_request \<Rightarrow> request_status \<Rightarrow> bool" where
  "request_write ir st \<longleftrightarrow> rs_phase st \<in> {InvoiceRequestPhasePending, InvoiceRequestPhaseSucceeded, InvoiceRequestPhaseFailed} \<and>
    (rs_phase st = InvoiceRequestPhaseSucceeded \<longrightarrow> ir_mode ir = InvoiceRequestModePreview \<and> adds_up st)"

definition request_allowed :: "invoice_request \<Rightarrow> go_string \<Rightarrow> request \<Rightarrow> bool" where
  "request_allowed ir key q \<longleftrightarrow> preview_read key q \<or>
    (\<exists>st. q = ReqKube (UpdateRequestStatus (request_key ir) st) \<and> request_write ir st)"

lemma phases_distinct [simp]:
  "InvoiceRequestPhaseFailed \<noteq> InvoiceRequestPhaseSucceeded" "InvoiceRequestPhasePending \<noteq> InvoiceRequestPhaseSucceeded"
  by (simp_all add: InvoiceRequestPhasePending_def InvoiceRequestPhaseFailed_def InvoiceRequestPhaseSucceeded_def)

lemma adds_complete:
  assumes "\<And>st. rs_phase st = phase \<Longrightarrow> rs_lines st = rs_lines (ir_status ir) \<Longrightarrow> rs_total st = rs_total (ir_status ir) \<Longrightarrow>
    P (ReqKube (UpdateRequestStatus (request_key ir) st))"
  shows "adds P (complete env ir phase reason msg)"
proof -
  have call: "adds P (wrapping ''update status'' (kube_call (iq_srv env) (UpdateRequestStatus (request_key ir) st)))"
    if "P (ReqKube (UpdateRequestStatus (request_key ir) st))" for st
    by (intro adds_wrapping adds_kube_call that)
  show ?thesis
    unfolding adds_def complete_def Let_def
    by (intro allI call [unfolded adds_def, rule_format]) (simp add: assms)
qed

lemma adds_request_fail: "adds (request_allowed ir key) (request_fail env ir reason msg)"
  unfolding request_fail_def
  by (intro adds_and_then adds_ret adds_complete) (auto simp: request_allowed_def request_write_def)

lemma adds_request_openMeterFailed: "adds (request_allowed ir key) (request_openMeterFailed env ir e)"
  unfolding request_openMeterFailed_def by (intro adds_if adds_request_fail adds_fail)

lemma adds_succeed:
  assumes "ir_mode ir = InvoiceRequestModePreview" "\<And>st. rs_lines st = lines \<Longrightarrow> rs_total st = tot \<Longrightarrow> adds_up st"
  shows "adds (request_allowed ir key) (succeed env ir currency lines tot msg)"
  unfolding succeed_def
  by (intro adds_and_then adds_ret adds_complete) (auto simp: request_allowed_def request_write_def request_key_def assms)



lemma preview_reads: "adds (request_allowed ir key) (GetCustomer srv key)"
  "adds (request_allowed ir key) (DraftInvoice srv cid)" "adds (request_allowed ir key) (UpcomingFixedCharges srv cid)"
proof -
  have "gives (GetCustomer srv key) (\<lambda>r u. \<forall>q \<in> set (sent u). request_allowed ir key q)"
    by (rule gives_mono [OF GetCustomer_sends]) (simp add: request_allowed_def preview_read_def)
  then show "adds (request_allowed ir key) (GetCustomer srv key)" by (simp add: adds_gives)
  have "adds (request_allowed ir key) (listInvoicesWithLines srv cid s)" for s
    unfolding listInvoicesWithLines_def decode_invoices_def
    by (intro adds_if adds_fail adds_and_then adds_v1_call)
      (auto simp: request_allowed_def preview_read_def checked_def intro!: adds_ret adds_fail adds_and_then
        split: option.splits body.splits account_body.splits)
  then show "adds (request_allowed ir key) (DraftInvoice srv cid)" "adds (request_allowed ir key) (UpcomingFixedCharges srv cid)"
    unfolding DraftInvoice_def UpcomingFixedCharges_def by (intro adds_and_then adds_ret; blast)+
qed

lemmas adds_request = adds_request_fail adds_request_openMeterFailed preview_reads adds_fail adds_ret adds_handle adds_if

lemma adds_preview_upcoming:
  "ir_mode ir = InvoiceRequestModePreview \<Longrightarrow> adds (request_allowed ir key) (preview_upcoming env ir account cid)"
  unfolding preview_upcoming_def
  by (intro adds_request) (auto simp: requestLines_def intro!: adds_request adds_succeed
      intro: nothing_adds_up with_total_adds_up split: list.splits sum.splits prod.splits)

lemma adds_previewNextInvoice:
  assumes "ir_mode ir = InvoiceRequestModePreview"
  shows "adds (request_allowed ir key) (previewNextInvoice env ir account cid)"
proof -
  have "adds (request_allowed ir key) (preview_draft env ir account cid d)" for d
    using assms unfolding preview_draft_def
    by (auto simp: requestLines_def intro!: adds_request adds_succeed adds_preview_upcoming intro: with_total_adds_up
        split: sum.splits prod.splits)
  then show ?thesis
    unfolding previewNextInvoice_def
    by (intro adds_request) (auto intro!: adds_preview_upcoming assms split: option.splits)
qed

lemma adds_preview:
  assumes "ir_mode ir = InvoiceRequestModePreview"
  shows "adds (request_allowed ir (case iq_account reads of Inr account \<Rightarrow> km_uid (ba_meta account) | Inl _ \<Rightarrow> [])) (preview env reads ir)"
proof (cases "iq_account reads")
  case (Inr account)
  let ?P = "request_allowed ir (km_uid (ba_meta account))"
  have current: "adds ?P (preview_current env ir account)"
    unfolding preview_current_def by (intro adds_request adds_previewNextInvoice assms)
  have first: "adds ?P (previewFirstInvoice env reads ir account be startsAt)" for be startsAt
    using assms unfolding previewFirstInvoice_def
    by (auto simp: firstInvoiceLines_def intro!: adds_request adds_succeed intro: nothing_adds_up with_total_adds_up
        split: sum.splits prod.splits)
  have "adds ?P (\<lambda>t. (case found of
      Some be \<Rightarrow> (case be_contract be of
          Some startsAt \<Rightarrow> if iq_clock env t < startsAt then previewFirstInvoice env reads ir account be startsAt
            else preview_current env ir account
        | None \<Rightarrow> preview_current env ir account)
    | None \<Rightarrow> preview_current env ir account) t)" for found
    using current first unfolding adds_def by (auto split: option.splits)
  with Inr show ?thesis unfolding preview_def by (auto intro: adds_fail split: sum.splits)
qed (simp add: preview_def adds_request)

text \<open>
  C20. Answering a request for an invoice never bills anyone. A request that is done or being
  deleted is left alone. Otherwise a pass reads the account's customer and invoice lines and
  writes only the request's own status, to Pending, Succeeded or Failed; it succeeds only for
  a preview, and then, if the lines' amounts are plain decimals, the total it shows is exactly
  the sum of the amounts it shows.
\<close>

theorem request_Reconcile_preview:
  "\<exists>u. snd (request_Reconcile env (Inr ir) reads t) = t @ u \<and>
    (km_deleting (ir_meta ir) \<or> invoiceRequestDone ir \<longrightarrow> u = []) \<and>
    (\<forall>q \<in> set (sent u). preview_read (case iq_account reads of Inr account \<Rightarrow> km_uid (ba_meta account) | Inl _ \<Rightarrow> []) q \<or>
      (\<exists>st. q = ReqKube (UpdateRequestStatus (request_key ir) st) \<and> request_write ir st))"
proof (cases "km_deleting (ir_meta ir) \<or> invoiceRequestDone ir")
  case True
  then show ?thesis by (auto simp: request_Reconcile_def ret_def)
next
  case False
  let ?key = "case iq_account reads of Inr account \<Rightarrow> km_uid (ba_meta account) | Inl _ \<Rightarrow> []"
  have "adds (request_allowed ir ?key) (request_Reconcile env (Inr ir) reads)"
  proof (cases "ir_mode ir = InvoiceRequestModePreview")
    case True
    have update: "gives (wrapping ''mark pending'' (kube_call (iq_srv env) q)) (\<lambda>r u. sent u = [ReqKube q])" for q
      by (rule gives_wrapping, rule gives_mono [OF gives_kube_call]) simp
    have pending: "gives (mark_pending env ir) (\<lambda>r u. (\<forall>q \<in> set (sent u). request_allowed ir ?key q) \<and>
        (\<forall>ir'. r = Inr ir' \<longrightarrow> ir_mode ir' = ir_mode ir \<and> request_key ir' = request_key ir))"
      unfolding mark_pending_def Let_def
      by (intro gives_if gives_ret gives_and_then [OF update])
        (auto simp: request_allowed_def request_write_def request_key_def)
    have "gives (and_then (mark_pending env ir) (preview env reads)) (\<lambda>r u. \<forall>q \<in> set (sent u). request_allowed ir ?key q)"
    proof (rule gives_and_then [OF pending], goal_cases)
      case (2 ir' u)
      then have "request_allowed ir' ?key = request_allowed ir ?key" by (simp add: request_allowed_def request_write_def fun_eq_iff)
      with 2 True gives_adds [OF adds_preview [of ir' reads env]] show ?case by (auto elim!: gives_mono)
    qed auto
    with True False show ?thesis by (simp add: request_Reconcile_def adds_gives)
  qed (use False in \<open>simp add: request_Reconcile_def adds_request_fail\<close>)
  with False show ?thesis unfolding adds_def request_allowed_def by blast
qed


definition example_request :: invoice_request where
  "example_request = \<lparr>ir_meta = \<lparr>km_namespace = ''org-1'', km_name = ''preview'', km_uid = ''r-1'', km_generation = 1, km_deleting = False,
       km_finalizers = [], km_annotations = []\<rparr>,
     ir_account = ''acme'', ir_mode = ''Preview'',
     ir_status = \<lparr>rs_phase = [], rs_generation = 0, rs_currency = [], rs_lines = [], rs_total = [], rs_completed_at = None, rs_conditions = []\<rparr>\<rparr>"

definition example_request_env :: request_env where
  "example_request_env = \<lparr>iq_srv = example_removal_server, iq_clock = (\<lambda>t. int (length t)), iq_set_condition = (\<lambda>c cs. [c])\<rparr>"

definition example_request_reads :: request_reads where
  "example_request_reads = \<lparr>iq_account = Inr example_account, iq_entitlements = Inr [], iq_offer = Inl (Sentinel KubeNotFound)\<rparr>"

lemma example_request_sent:
  "sent (snd (request_Reconcile example_request_env (Inr example_request) example_request_reads [])) =
    [ReqKube (UpdateRequestStatus (request_key example_request) ((ir_status example_request)\<lparr>rs_phase := ''Pending'', rs_generation := 1\<rparr>)),
     ReqCustomer (GetCustomerReq ''u-1''), ReqInvoice (ListInvoiceLinesReq (cu_id example_customer) ''draft''),
     ReqInvoice (ListInvoiceLinesReq (cu_id example_customer) ''gathering''),
     ReqKube (UpdateRequestStatus (request_key example_request)
       \<lparr>rs_phase = ''Succeeded'', rs_generation = 1, rs_currency = ''USD'', rs_lines = [], rs_total = ''0'', rs_completed_at = Some 4,
        rs_conditions = [\<lparr>cd_type = ''Completed'', cd_status = ''True'', cd_reason = ''Succeeded'',
          cd_message = ''No one-time or recurring charges are waiting to be invoiced'', cd_generation = 1\<rparr>]\<rparr>)]"
  by code_simp

theorem request_Reconcile_preview_witness:
  "\<exists>st. ReqKube (UpdateRequestStatus (request_key example_request) st) \<in>
      set (sent (snd (request_Reconcile example_request_env (Inr example_request) example_request_reads []))) \<and>
    rs_phase st = ''Succeeded'' \<and> request_write example_request st"
proof -
  let ?st = "\<lparr>rs_phase = ''Succeeded'', rs_generation = 1, rs_currency = ''USD'', rs_lines = [], rs_total = ''0'', rs_completed_at = Some 4,
        rs_conditions = [\<lparr>cd_type = ''Completed'', cd_status = ''True'', cd_reason = ''Succeeded'',
          cd_message = ''No one-time or recurring charges are waiting to be invoiced'', cd_generation = 1\<rparr>]\<rparr>"
  have "ReqKube (UpdateRequestStatus (request_key example_request) ?st) \<in>
      set (sent (snd (request_Reconcile example_request_env (Inr example_request) example_request_reads [])))"
    unfolding example_request_sent by simp
  with request_Reconcile_preview [of example_request_env example_request example_request_reads "[]"]
  show ?thesis by (fastforce simp: preview_read_def)
qed

end
