(* ===== verification/InvoiceEvents.thy ===== *)
theory InvoiceEvents
  imports InvoiceProjection
begin

text \<open>
  The activity timeline of an Invoice (\<open>internal/controller/invoice_events.go\<close>): the events a
  change of its status is recorded as. Reasons and annotation keys are constants of billing's
  API and stand here for themselves; \<open>event_time\<close> is its \<open>EventTime\<close>.
\<close>

section \<open>Events\<close>

datatype invoice_reason =
    EventReasonInvoiceIssued | EventReasonInvoicePaymentSucceeded | EventReasonInvoicePastDue
  | EventReasonInvoiceVoided | EventReasonInvoicePartiallyPaid | EventReasonInvoiceCurrencyMismatch

datatype detail_key =
    EventAnnotationBillingAccount | EventAnnotationPeriodStart | EventAnnotationCurrency | EventAnnotationAmount
  | EventAnnotationDueDate | EventAnnotationAmountPaid | EventAnnotationAmountDue

record invoice_event =
  ie_reason :: invoice_reason
  ie_warning :: bool
  ie_message :: go_string
  ie_detail :: "(detail_key \<times> go_string) list"
  ie_staff_only :: bool

definition invoiceEventDetail :: "(int \<Rightarrow> go_string) \<Rightarrow> milo_invoice \<Rightarrow> go_string \<Rightarrow> (detail_key \<times> go_string) list \<Rightarrow> (detail_key \<times> go_string) list" where
  "invoiceEventDetail event_time obj currency extra =
    [(EventAnnotationBillingAccount, mv_account obj)] @
    (if ip_start (mv_period obj) \<noteq> zero_time then [(EventAnnotationPeriodStart, event_time (ip_start (mv_period obj)))] else []) @
    (if currency \<noteq> [] then [(EventAnnotationCurrency, currency)] else []) @
    filter (\<lambda>(_, v). v \<noteq> []) extra"

definition positive :: "go_string \<Rightarrow> bool" where
  "positive amount \<longleftrightarrow> (case rat_SetString amount of Some r \<Rightarrow> r > 0 | None \<Rightarrow> False)"

definition greater :: "go_string \<Rightarrow> go_string \<Rightarrow> bool" where
  "greater a b \<longleftrightarrow>
    (case rat_SetString a of None \<Rightarrow> False | Some ra \<Rightarrow> ra > (case rat_SetString b of Some rb \<Rightarrow> rb | None \<Rightarrow> 0))"

definition readyReason :: "milo_status \<Rightarrow> go_string" where
  "readyReason st = (case List.find (\<lambda>c. cd_type c = ''Ready'') (ms_conditions st) of None \<Rightarrow> [] | Some c \<Rightarrow> cd_reason c)"

definition issued_event :: "(int \<Rightarrow> go_string) \<Rightarrow> milo_invoice \<Rightarrow> milo_status \<Rightarrow> invoice_event list" where
  "issued_event event_time obj before =
    (let after = mv_status obj in
     if ms_phase before = [] \<and> ms_phase after \<noteq> [] \<and> ms_phase after \<noteq> ''Void'' then
       [\<lparr>ie_reason = EventReasonInvoiceIssued, ie_warning = False, ie_message = ''Invoice issued.'',
         ie_detail = invoiceEventDetail event_time obj (ms_currency after)
           [(EventAnnotationAmount, ms_total after),
            (EventAnnotationDueDate, case ms_due_date after of Some d \<Rightarrow> event_time d | None \<Rightarrow> [])],
         ie_staff_only = False\<rparr>]
     else [])"

definition phase_event :: "(int \<Rightarrow> go_string) \<Rightarrow> milo_invoice \<Rightarrow> milo_status \<Rightarrow> invoice_event list" where
  "phase_event event_time obj before =
    (let after = mv_status obj; detail = invoiceEventDetail event_time obj (ms_currency after) in
     if ms_phase after = ms_phase before then []
     else if ms_phase after = ''Paid'' then
       [\<lparr>ie_reason = EventReasonInvoicePaymentSucceeded, ie_warning = False, ie_message = ''Invoice paid.'',
         ie_detail = detail [(EventAnnotationAmount, if positive (ms_amount_paid after) then ms_amount_paid after else ms_total after)],
         ie_staff_only = False\<rparr>]
     else if ms_phase after = ''PastDue'' then
       [\<lparr>ie_reason = EventReasonInvoicePastDue, ie_warning = True, ie_message = ''Invoice is past due.'',
         ie_detail = detail [(EventAnnotationAmountDue, ms_amount_due after)], ie_staff_only = False\<rparr>]
     else if ms_phase after = ''Void'' \<and> ms_phase before \<noteq> [] then
       [\<lparr>ie_reason = EventReasonInvoiceVoided, ie_warning = False, ie_message = ''Invoice voided.'', ie_detail = detail [],
         ie_staff_only = False\<rparr>]
     else [])"

definition part_paid_event :: "(int \<Rightarrow> go_string) \<Rightarrow> milo_invoice \<Rightarrow> milo_status \<Rightarrow> invoice_event list" where
  "part_paid_event event_time obj before =
    (let after = mv_status obj in
     if ms_phase after \<in> {''Open'', ''PastDue''} \<and> positive (ms_amount_paid after) \<and> positive (ms_amount_due after) \<and>
        greater (ms_amount_paid after) (ms_amount_paid before) then
       [\<lparr>ie_reason = EventReasonInvoicePartiallyPaid, ie_warning = False, ie_message = ''Invoice partly paid.'',
         ie_detail = invoiceEventDetail event_time obj (ms_currency after)
           [(EventAnnotationAmountPaid, ms_amount_paid after), (EventAnnotationAmountDue, ms_amount_due after)],
         ie_staff_only = False\<rparr>]
     else [])"

definition mismatch_event :: "(int \<Rightarrow> go_string) \<Rightarrow> milo_invoice \<Rightarrow> milo_status \<Rightarrow> invoice_event list" where
  "mismatch_event event_time obj before =
    (let after = mv_status obj in
     if readyReason after = ''CurrencyMismatch'' \<and> readyReason before \<noteq> ''CurrencyMismatch'' then
       [\<lparr>ie_reason = EventReasonInvoiceCurrencyMismatch, ie_warning = True,
         ie_message = ''Invoice currency does not match the billing account's.'',
         ie_detail = invoiceEventDetail event_time obj (ms_currency after) [], ie_staff_only = True\<rparr>]
     else [])"

definition invoiceStatusEvents :: "(int \<Rightarrow> go_string) \<Rightarrow> milo_invoice \<Rightarrow> milo_status \<Rightarrow> invoice_event list" where
  "invoiceStatusEvents event_time obj before =
    issued_event event_time obj before @ phase_event event_time obj before @
    part_paid_event event_time obj before @ mismatch_event event_time obj before"

section \<open>A timeline tells each transition once\<close>

text \<open>The timeline of an Invoice whose status is written one value after the other.\<close>

fun timeline :: "(int \<Rightarrow> go_string) \<Rightarrow> milo_invoice \<Rightarrow> milo_status list \<Rightarrow> invoice_event list" where
  "timeline event_time obj (before # after # rest) =
    invoiceStatusEvents event_time (obj\<lparr>mv_status := after\<rparr>) before @ timeline event_time obj (after # rest)"
| "timeline event_time obj _ = []"

lemma no_change_no_event: "invoiceStatusEvents event_time (obj\<lparr>mv_status := st\<rparr>) st = []"
proof -
  have "\<not> greater a a \<or> \<not> positive a" for a by (auto simp: greater_def positive_def split: option.splits)
  then show ?thesis
    by (auto simp: invoiceStatusEvents_def issued_event_def phase_event_def part_paid_event_def mismatch_event_def Let_def)
qed

lemma timeline_stutters: "timeline event_time obj (remdups_adj sts) = timeline event_time obj sts"
proof (induction sts rule: remdups_adj.induct)
  case (3 x y xs)
  show ?case
  proof (cases "x = y")
    case True
    with 3 show ?thesis by (simp add: no_change_no_event)
  next
    case False
    obtain zs where "remdups_adj (y # xs) = y # zs" using remdups_adj_Cons [of y xs] by (auto split: list.splits if_splits)
    with 3 False show ?thesis by simp
  qed
qed simp_all

definition issues :: "invoice_event list \<Rightarrow> nat" where
  "issues es = length (filter (\<lambda>e. ie_reason e = EventReasonInvoiceIssued) es)"

lemma issues_append [simp]: "issues (es @ fs) = issues es + issues fs"
  by (simp add: issues_def)

lemma issues_step: "issues (invoiceStatusEvents event_time (obj\<lparr>mv_status := after\<rparr>) before) =
    (if ms_phase before = [] \<and> ms_phase after \<noteq> [] \<and> ms_phase after \<noteq> ''Void'' then 1 else 0)"
  by (simp add: issues_def invoiceStatusEvents_def issued_event_def phase_event_def part_paid_event_def mismatch_event_def Let_def)

lemma issued_before: "ms_phase before \<noteq> [] \<Longrightarrow> \<forall>st \<in> set sts. ms_phase st \<noteq> [] \<Longrightarrow> issues (timeline event_time obj (before # sts)) = 0"
proof (induction sts arbitrary: before)
  case (Cons st sts)
  then show ?case by (simp add: issues_step)
qed (simp add: issues_def)

text \<open>
  An Invoice's timeline tells each transition once. Writing the same status again adds
  nothing, so synchronising over and over gives the timeline of the changes alone; and an
  Invoice that keeps its phase once it has one is told to be issued at most once: exactly
  when it starts without a phase and the first one it is given is not Void.
\<close>

theorem timeline_once:
  assumes "\<forall>st \<in> set (first # sts). ms_phase st \<noteq> []"
  shows "timeline event_time obj (remdups_adj (before # first # sts)) = timeline event_time obj (before # first # sts) \<and>
    issues (timeline event_time obj (before # first # sts)) = (if ms_phase before = [] \<and> ms_phase first \<noteq> ''Void'' then 1 else 0)"
  using timeline_stutters [of event_time obj "before # first # sts"] issued_before [of first sts event_time obj] assms
  by (simp add: issues_step)

definition example_status :: milo_status where
  "example_status = empty_status\<lparr>ms_phase := ''Open''\<rparr>"

theorem timeline_once_witness:
  "issues (timeline (\<lambda>_. []) \<lparr>mv_meta = ba_meta example_account, mv_account = ''acme'', mv_period = \<lparr>ip_start = 0, ip_end = 1\<rparr>,
     mv_status = empty_status\<rparr> [empty_status, example_status, example_status]) = 1"
proof -
  have "ms_phase example_status = ''Open''" "ms_phase empty_status = []" by (simp_all add: example_status_def empty_status_def)
  with timeline_once [of example_status "[example_status]" "\<lambda>_. []" "\<lparr>mv_meta = ba_meta example_account, mv_account = ''acme'',
     mv_period = \<lparr>ip_start = 0, ip_end = 1\<rparr>, mv_status = empty_status\<rparr>" empty_status]
  show ?thesis by (simp del: timeline.simps)
qed

end
