(* ===== verification/Config.thy ===== *)
theory Config
  imports Submission Keys
begin

text \<open>
  The configuration of the processes (\<open>internal/config/config.go\<close> and \<open>defaults.go\<close>): the
  types, the defaults the decoder applies, and the options of the metrics server.

  A connection to a Kubernetes API (\<open>rest.Config\<close>) and what is built from it stay abstract:
  \<open>'r\<close> is the connection, \<open>'c\<close> an HTTP client, \<open>'f\<close> a filter of the metrics server and \<open>'k\<close> a
  certificate; the libraries' functions on them are arguments. Durations are nanoseconds.
\<close>

section \<open>The configuration\<close>

record object_reference =
  or_namespace :: go_string
  or_name :: go_string

record tls_config =
  SecretRef :: "object_reference option"
  CertDir :: go_string
  CertName :: go_string
  KeyName :: go_string

record metrics_server_config =
  SecureServing :: "bool option"
  BindAddress :: go_string
  TLS :: tls_config

record openmeter_config =
  ServerURL :: go_string
  APISecret :: go_string

record nats_config =
  nc_url :: go_string
  CAFile :: go_string
  CertFile :: go_string
  KeyFile :: go_string

record operator_config =
  MetricsServer :: metrics_server_config
  KubeconfigPath :: go_string
  OpenMeter :: "openmeter_config option"
  SubmissionBatchSize :: int
  SubmissionRetryAfter :: int
  SubmissionAckWait :: int
  SubmissionFetchTimeout :: int
  Nats :: nats_config

section \<open>Paths\<close>

text \<open>
  \<open>filepath.Clean\<close> and \<open>filepath.Join\<close> on Unix: empty parts and \<open>.\<close> are dropped, \<open>..\<close> removes the
  part before it, and at the root it removes nothing. \<open>os.TempDir\<close> is \<open>$TMPDIR\<close>, or \<open>/tmp\<close>.
\<close>

fun path_parts :: "go_string \<Rightarrow> go_string list" where
  "path_parts [] = [[]]"
| "path_parts (c # cs) =
    (if c = CHR ''/'' then [] # path_parts cs
     else (case path_parts cs of p # ps \<Rightarrow> (c # p) # ps | [] \<Rightarrow> [[c]]))"

fun clean_step :: "bool \<Rightarrow> go_string list \<Rightarrow> go_string \<Rightarrow> go_string list" where
  "clean_step rooted acc p =
    (if p = [] \<or> p = ''.'' then acc
     else if p = ''..'' then
       (if acc \<noteq> [] \<and> last acc \<noteq> ''..'' then butlast acc else if rooted then acc else acc @ [p])
     else acc @ [p])"

definition path_clean :: "go_string \<Rightarrow> go_string" where
  "path_clean s =
    (let rooted = (s \<noteq> [] \<and> hd s = CHR ''/'');
         parts = foldl (clean_step rooted) [] (path_parts s);
         out = (if rooted then ''/'' else []) @ join ''/'' parts
     in if out = [] then ''.'' else out)"

definition path_join :: "go_string list \<Rightarrow> go_string" where
  "path_join es = (let ps = filter (\<lambda>e. e \<noteq> []) es in if ps = [] then [] else path_clean (join ''/'' ps))"

definition temp_dir :: "go_string \<Rightarrow> go_string" where
  "temp_dir tmpdir = (if tmpdir = [] then ''/tmp'' else tmpdir)"

section \<open>Defaults\<close>

definition SetDefaults_MetricsServerConfig :: "go_string \<Rightarrow> metrics_server_config \<Rightarrow> metrics_server_config" where
  "SetDefaults_MetricsServerConfig tmpdir m =
    (let m = (if SecureServing m = None then m\<lparr>SecureServing := Some True\<rparr> else m);
         m = (if BindAddress m = [] then m\<lparr>BindAddress := ''0''\<rparr> else m)
     in if CertDir (TLS m) = []
        then m\<lparr>TLS := (TLS m)\<lparr>CertDir := path_join [temp_dir tmpdir, ''k8s-metrics-server'', ''serving-certs'']\<rparr>\<rparr>
        else m)"

definition SetDefaults_TLSConfig :: "tls_config \<Rightarrow> tls_config" where
  "SetDefaults_TLSConfig c =
    (let c = (if CertName c = [] then c\<lparr>CertName := ''tls.crt''\<rparr> else c)
     in if KeyName c = [] then c\<lparr>KeyName := ''tls.key''\<rparr> else c)"

definition SetDefaults_OpenMeterProviderOperator :: "operator_config \<Rightarrow> operator_config" where
  "SetDefaults_OpenMeterProviderOperator c =
    (let c = (if SubmissionBatchSize c = 0 then c\<lparr>SubmissionBatchSize := 10\<rparr> else c);
         c = (if SubmissionRetryAfter c = 0 then c\<lparr>SubmissionRetryAfter := 5 * second\<rparr> else c);
         c = (if SubmissionAckWait c = 0 then c\<lparr>SubmissionAckWait := 30 * second\<rparr> else c)
     in if SubmissionFetchTimeout c = 0 then c\<lparr>SubmissionFetchTimeout := 5 * second\<rparr> else c)"

definition SetObjectDefaults_OpenMeterProviderOperator :: "go_string \<Rightarrow> operator_config \<Rightarrow> operator_config" where
  "SetObjectDefaults_OpenMeterProviderOperator tmpdir c =
    (let c = SetDefaults_OpenMeterProviderOperator c;
         c = c\<lparr>MetricsServer := SetDefaults_MetricsServerConfig tmpdir (MetricsServer c)\<rparr>
     in c\<lparr>MetricsServer := (MetricsServer c)\<lparr>TLS := SetDefaults_TLSConfig (TLS (MetricsServer c))\<rparr>\<rparr>)"

section \<open>Connections\<close>

text \<open>
  \<open>ambient\<close> is \<open>ctrl.GetConfig\<close> (in-cluster or \<open>$KUBECONFIG\<close>), \<open>from_file\<close> is
  \<open>clientcmd.BuildConfigFromFlags\<close>.
\<close>

definition RestConfig :: "'r res \<Rightarrow> (go_string \<Rightarrow> 'r res) \<Rightarrow> operator_config \<Rightarrow> 'r res" where
  "RestConfig ambient from_file c = (if KubeconfigPath c = [] then ambient else from_file (KubeconfigPath c))"

text \<open>
  The metrics server's options. The filter is a function the server calls with the manager's
  connection and HTTP client; a TLS option is the function that finds the certificate of a
  handshake. \<open>get_secret\<close> reads the data of a Secret and \<open>x509\<close> is \<open>tls.X509KeyPair\<close>.
\<close>

record ('r, 'c, 'f, 'k) metrics_options =
  mo_secure :: bool
  mo_bind_address :: go_string
  mo_cert_dir :: go_string
  mo_cert_name :: go_string
  mo_key_name :: go_string
  mo_filter :: "('r \<Rightarrow> 'c \<Rightarrow> 'f res) option"
  mo_tls_opts :: "(unit \<Rightarrow> 'k res) list"

type_synonym secret_reader = "object_reference \<Rightarrow> str_map res"

definition GetCertificate ::
  "secret_reader \<Rightarrow> (go_string \<Rightarrow> go_string \<Rightarrow> 'k res) \<Rightarrow> object_reference \<Rightarrow> unit \<Rightarrow> 'k res" where
  "GetCertificate get_secret x509 ref hello =
    (case get_secret ref of
       Inl e \<Rightarrow> Inl (Wrap ''failed to get secret'' [e])
     | Inr dat \<Rightarrow>
       (let value = (\<lambda>k. case map_of dat k of Some v \<Rightarrow> v | None \<Rightarrow> []) in
        case x509 (value ''tls.crt'') (value ''tls.key'') of
          Inl e \<Rightarrow> Inl (Wrap ''failed to parse certificate'' [e])
        | Inr cert \<Rightarrow> Inr cert))"

definition tls_Options ::
  "secret_reader \<Rightarrow> (go_string \<Rightarrow> go_string \<Rightarrow> 'k res) \<Rightarrow> tls_config \<Rightarrow> (unit \<Rightarrow> 'k res) list" where
  "tls_Options get_secret x509 c =
    (case SecretRef c of Some ref \<Rightarrow> [GetCertificate get_secret x509 ref] | None \<Rightarrow> [])"

definition metrics_Options ::
  "('r \<Rightarrow> 'c res) \<Rightarrow> ('r \<Rightarrow> 'c \<Rightarrow> 'f res) \<Rightarrow> secret_reader \<Rightarrow> (go_string \<Rightarrow> go_string \<Rightarrow> 'k res) \<Rightarrow>
   metrics_server_config \<Rightarrow> 'r option \<Rightarrow> ('r, 'c, 'f, 'k) metrics_options" where
  "metrics_Options http_client_for with_auth get_secret x509 c authConfig =
    (let secureServing = (case SecureServing c of Some b \<Rightarrow> b | None \<Rightarrow> False) in
     \<lparr>mo_secure = secureServing, mo_bind_address = BindAddress c, mo_cert_dir = CertDir (TLS c),
      mo_cert_name = CertName (TLS c), mo_key_name = KeyName (TLS c),
      mo_filter =
        (if secureServing then
           (case authConfig of
              Some local \<Rightarrow> Some (\<lambda>_ _. case http_client_for local of Inl e \<Rightarrow> Inl e | Inr hc \<Rightarrow> with_auth local hc)
            | None \<Rightarrow> Some with_auth)
         else None),
      mo_tls_opts = (if SecretRef (TLS c) \<noteq> None then tls_Options get_secret x509 (TLS c) else [])\<rparr>)"

section \<open>The consumer a configuration gives\<close>

definition configured_consumer :: "operator_config \<Rightarrow> consumer" where
  "configured_consumer c =
    \<lparr>fetchBatch = SubmissionBatchSize c, retryAfter = SubmissionRetryAfter c,
     ackWait = SubmissionAckWait c, fetchTimeout = SubmissionFetchTimeout c\<rparr>"


section \<open>What the defaults give\<close>


lemma path_join_nonempty [simp]: "path_join (p # ps) \<noteq> []" if "p \<noteq> []"
  using that by (simp add: path_join_def path_clean_def Let_def)

lemma temp_dir_nonempty [simp]: "temp_dir d \<noteq> []"
  by (simp add: temp_dir_def)

lemma defaulted_metrics_server [simp]:
  "SecureServing (MetricsServer (SetObjectDefaults_OpenMeterProviderOperator tmpdir c)) \<noteq> None"
  "SecureServing (MetricsServer (SetObjectDefaults_OpenMeterProviderOperator tmpdir c)) = Some False \<longleftrightarrow>
     SecureServing (MetricsServer c) = Some False"
  by (auto simp: SetObjectDefaults_OpenMeterProviderOperator_def SetDefaults_OpenMeterProviderOperator_def
      SetDefaults_MetricsServerConfig_def Let_def)

lemma defaulted_untouched [simp]:
  "KubeconfigPath (SetObjectDefaults_OpenMeterProviderOperator tmpdir c) = KubeconfigPath c"
  "OpenMeter (SetObjectDefaults_OpenMeterProviderOperator tmpdir c) = OpenMeter c"
  "Nats (SetObjectDefaults_OpenMeterProviderOperator tmpdir c) = Nats c"
  by (simp_all add: SetObjectDefaults_OpenMeterProviderOperator_def SetDefaults_OpenMeterProviderOperator_def Let_def)

lemma defaulted_consumer:
  "configured_consumer (SetObjectDefaults_OpenMeterProviderOperator tmpdir c) =
    \<lparr>fetchBatch = (if SubmissionBatchSize c = 0 then 10 else SubmissionBatchSize c),
     retryAfter = (if SubmissionRetryAfter c = 0 then 5 * second else SubmissionRetryAfter c),
     ackWait = (if SubmissionAckWait c = 0 then 30 * second else SubmissionAckWait c),
     fetchTimeout = (if SubmissionFetchTimeout c = 0 then 5 * second else SubmissionFetchTimeout c)\<rparr>"
  by (simp add: configured_consumer_def SetObjectDefaults_OpenMeterProviderOperator_def
      SetDefaults_OpenMeterProviderOperator_def Let_def)

text \<open>A configuration with every setting filled in; the defaults give one and change none.\<close>

definition filled_config :: "operator_config \<Rightarrow> bool" where
  "filled_config c \<longleftrightarrow>
    SubmissionBatchSize c \<noteq> 0 \<and> SubmissionRetryAfter c \<noteq> 0 \<and> SubmissionAckWait c \<noteq> 0 \<and> SubmissionFetchTimeout c \<noteq> 0 \<and>
    SecureServing (MetricsServer c) \<noteq> None \<and> BindAddress (MetricsServer c) \<noteq> [] \<and>
    CertDir (TLS (MetricsServer c)) \<noteq> [] \<and> CertName (TLS (MetricsServer c)) \<noteq> [] \<and> KeyName (TLS (MetricsServer c)) \<noteq> []"

lemma operator_filled:
  "SubmissionBatchSize (SetDefaults_OpenMeterProviderOperator c) \<noteq> 0"
  "SubmissionRetryAfter (SetDefaults_OpenMeterProviderOperator c) \<noteq> 0"
  "SubmissionAckWait (SetDefaults_OpenMeterProviderOperator c) \<noteq> 0"
  "SubmissionFetchTimeout (SetDefaults_OpenMeterProviderOperator c) \<noteq> 0"
  by (simp_all add: SetDefaults_OpenMeterProviderOperator_def Let_def second_def)

lemma metrics_filled:
  "SecureServing (SetDefaults_MetricsServerConfig tmpdir m) \<noteq> None"
  "BindAddress (SetDefaults_MetricsServerConfig tmpdir m) \<noteq> []"
  "CertDir (TLS (SetDefaults_MetricsServerConfig tmpdir m)) \<noteq> []"
  by (auto simp add: SetDefaults_MetricsServerConfig_def Let_def)

lemma tls_filled:
  "CertName (SetDefaults_TLSConfig c) \<noteq> []" "KeyName (SetDefaults_TLSConfig c) \<noteq> []"
  "CertDir (SetDefaults_TLSConfig c) = CertDir c"
  by (simp_all add: SetDefaults_TLSConfig_def Let_def)

lemma SetObjectDefaults_filled: "filled_config (SetObjectDefaults_OpenMeterProviderOperator tmpdir c)"
  by (simp add: filled_config_def SetObjectDefaults_OpenMeterProviderOperator_def Let_def
      operator_filled metrics_filled tls_filled del: not_None_eq)

lemma filled_defaults: "SetObjectDefaults_OpenMeterProviderOperator tmpdir c = c" if f: "filled_config c"
proof -
  have "SetDefaults_OpenMeterProviderOperator c = c"
    using f by (simp add: filled_config_def SetDefaults_OpenMeterProviderOperator_def)
  moreover have "SetDefaults_MetricsServerConfig tmpdir (MetricsServer c) = MetricsServer c"
    using f by (simp add: filled_config_def SetDefaults_MetricsServerConfig_def del: not_None_eq)
  moreover have "SetDefaults_TLSConfig (TLS (MetricsServer c)) = TLS (MetricsServer c)"
    using f by (simp add: filled_config_def SetDefaults_TLSConfig_def)
  ultimately show ?thesis by (simp add: SetObjectDefaults_OpenMeterProviderOperator_def)
qed

theorem SetObjectDefaults_idem:
  "SetObjectDefaults_OpenMeterProviderOperator tmpdir' (SetObjectDefaults_OpenMeterProviderOperator tmpdir c) =
   SetObjectDefaults_OpenMeterProviderOperator tmpdir c"
  by (rule filled_defaults [OF SetObjectDefaults_filled])

text \<open>
  The timing of a started consumer, for a fetch timeout whose doubling cannot overflow: the
  acknowledgement deadline leaves room for two fetches and two OpenMeter calls, a batch size and
  a retry delay that were given are kept, and the settings are usable whatever was configured.
\<close>

lemma configured_consumer_safe:
  fixes tmpdir :: go_string and c :: operator_config
  assumes "SubmissionFetchTimeout c \<le> 2 ^ 61"
  defines "k \<equiv> start_config (configured_consumer (SetObjectDefaults_OpenMeterProviderOperator tmpdir c))"
  shows "1 \<le> fetchBatch k \<and> 0 < retryAfter k \<and> 0 < fetchTimeout k
    \<and> 2 * (fetchTimeout k + requestTimeout) \<le> ackWait k"
  unfolding k_def
  by (rule start_config_safe) (use assms(1) in \<open>simp add: defaulted_consumer second_def\<close>)

text \<open>
  Scrapes of the metrics endpoint are checked unless the configuration turns secure serving
  off: after the defaults, the server gets a filter if and only if \<open>secureServing\<close> was not set to
  false, and when the process passes its own cluster's connection, the filter authenticates with
  that connection and never with the one the manager works on.
\<close>

theorem metrics_authenticated:
  "let opts = metrics_Options http_client_for with_auth get_secret x509
       (MetricsServer (SetObjectDefaults_OpenMeterProviderOperator tmpdir c)) (Some local)
   in mo_secure opts = (mo_filter opts \<noteq> None)
    \<and> mo_filter opts =
        (if SecureServing (MetricsServer c) = Some False then None
         else Some (\<lambda>remote client. case http_client_for local of Inl e \<Rightarrow> Inl e | Inr lc \<Rightarrow> with_auth local lc))"
  using defaulted_metrics_server [of tmpdir c]
  by (cases "SecureServing (MetricsServer (SetObjectDefaults_OpenMeterProviderOperator tmpdir c))")
    (auto simp del: defaulted_metrics_server simp: metrics_Options_def Let_def)

end
