(* ===== verification/Startup.thy ===== *)
theory Startup
  imports Config
begin

text \<open>
  How the three processes start: the controller manager
  (\<open>cmd/openmeter/controller-manager/controllermanager.go\<close>), the submission consumer
  (\<open>cmd/openmeter/submission-consumer/main.go\<close>) and the API server
  (\<open>cmd/openmeter/apiserver/apiserver.go\<close>, \<open>internal/apiserver/apiserver.go\<close>), with the
  construction of the OpenMeter and Stripe clients (\<open>client.go\<close>, \<open>v3.go\<close>, \<open>stripe/invoices.go\<close>).

  Starting is a sequence of steps, calls into libraries that may fail. The steps a run takes are
  listed in the order the code takes them; a \<open>host\<close> says what each step answers, depending on the
  steps before it. \<open>'r\<close> is a connection to a Kubernetes API. Reading a file, decoding the
  configuration and finding a connection give a value and are functions of the host. The
  decoder applies the defaults the process registers. A message of the log is a step too, with
  its fields, so that what reaches the log can be said.
\<close>

section \<open>Steps\<close>

datatype log_value = LogText go_string | LogBool bool | LogInt int

datatype nats_option =
    ConnName go_string | MaxReconnects int | ReconnectWait int
  | DisconnectErrHandler | ReconnectHandler | ClosedHandler
  | RootCAs go_string | ClientCert go_string go_string

text \<open>The options of a manager; the metrics options are built from a configuration and a connection.\<close>

record 'r manager_options =
  mg_metrics :: "metrics_server_config \<times> 'r option"
  mg_probe_address :: go_string
  mg_leader_election :: bool
  mg_leader_election_id :: go_string
  mg_leader_election_namespace :: go_string
  mg_leader_election_config :: "'r option"

datatype 'r start_step =
    LogInfo go_string "(go_string \<times> log_value) list"
  | NewBootstrapClient 'r
  | NewManager 'r "'r manager_options"
  | NewSDKClient go_string "go_string option"
  | SetupController go_string
  | IndexField go_string go_string
  | ConnectNATS go_string "nats_option list"
  | AddRunnable consumer
  | AddHealthzCheck go_string
  | AddReadyzCheck go_string
  | StartManager
  | ApplyLogging
  | SetZapLevel int
  | SelfSignedCerts
  | ApplyServerOptions
  | AddToScheme go_string
  | NewCache 'r
  | NewGenericServer
  | InstallAPIGroup go_string
  | AddPostStartHook go_string "go_string list"
  | RunServer

record 'r host =
  ho_tmpdir :: go_string
  ho_read :: "go_string \<Rightarrow> go_string res"
  ho_decode :: "go_string \<Rightarrow> operator_config res"
  ho_ambient :: "'r res"
  ho_kubeconfig :: "go_string \<Rightarrow> 'r res"
  ho_step :: "'r start_step \<Rightarrow> 'r start_step list \<Rightarrow> go_error option"

type_synonym ('r, 'a) startup = "'r start_step list \<Rightarrow> 'a res \<times> 'r start_step list"

definition done_with :: "'a res \<Rightarrow> ('r, 'a) startup" where
  "done_with r t = (r, t)"

text \<open>An error is wrapped with a message, or returned as it is when the message is empty.\<close>

definition take_step :: "'r host \<Rightarrow> go_string \<Rightarrow> 'r start_step \<Rightarrow> ('r, unit) startup" where
  "take_step h msg s t =
    ((case ho_step h s t of
        None \<Rightarrow> Inr ()
      | Some e \<Rightarrow> Inl (if msg = [] then e else Wrap msg [e])), t @ [s])"

text \<open>A step that cannot fail.\<close>

definition note_step :: "'r start_step \<Rightarrow> ('r, unit) startup" where
  "note_step s t = (Inr (), t @ [s])"

definition logged :: "go_string \<Rightarrow> (go_string \<times> log_value) list \<Rightarrow> ('r, unit) startup" where
  "logged msg kvs = note_step (LogInfo msg kvs)"

definition followed_by :: "('r, 'a) startup \<Rightarrow> ('a \<Rightarrow> ('r, 'b) startup) \<Rightarrow> ('r, 'b) startup" where
  "followed_by m k t = (case m t of (Inl e, t') \<Rightarrow> (Inl e, t') | (Inr x, t') \<Rightarrow> k x t')"

definition wrapped :: "go_string \<Rightarrow> 'a res \<Rightarrow> 'a res" where
  "wrapped msg r = (case r of Inl e \<Rightarrow> Inl (Wrap msg [e]) | Inr x \<Rightarrow> Inr x)"

fun steps_of :: "('r, unit) startup list \<Rightarrow> ('r, unit) startup" where
  "steps_of [] = done_with (Inr ())"
| "steps_of (m # ms) = followed_by m (\<lambda>_. steps_of ms)"

section \<open>The clients\<close>

record v3_api =
  v3_baseURL :: go_string
  v3_apiSecret :: go_string

record om_client =
  cl_bearer :: "go_string option"
  cl_v3 :: v3_api

definition newV3API :: "go_string \<Rightarrow> go_string \<Rightarrow> v3_api" where
  "newV3API server apiSecret =
    \<lparr>v3_baseURL = trim_right (\<lambda>c. c = CHR ''/'') server @ ''/api/v3/openmeter'', v3_apiSecret = apiSecret\<rparr>"

text \<open>The Authorization header of a v3 request.\<close>

definition v3_authorization :: "v3_api \<Rightarrow> go_string option" where
  "v3_authorization a = (if v3_apiSecret a \<noteq> [] then Some (''Bearer '' @ v3_apiSecret a) else None)"

definition NewClient :: "'r host \<Rightarrow> go_string \<Rightarrow> go_string \<Rightarrow> ('r, om_client) startup" where
  "NewClient h server apiSecret =
    (if trim_space server = [] then done_with (Inl (Leaf ''openmeter: empty server URL''))
     else let bearer = (if apiSecret \<noteq> [] then Some apiSecret else None) in
       followed_by (take_step h ''openmeter: new client'' (NewSDKClient server bearer))
         (\<lambda>_. done_with (Inr \<lparr>cl_bearer = bearer, cl_v3 = newV3API server apiSecret\<rparr>)))"

definition NewInvoices :: "'r host \<Rightarrow> go_string \<Rightarrow> go_string res" where
  "NewInvoices h apiKeyFile =
    (case ho_read h apiKeyFile of
       Inl e \<Rightarrow> Inl (Wrap ''read Stripe API key'' [e])
     | Inr raw \<Rightarrow>
       (let key = trim_space raw in
        if key = [] then Inl (Leaf (''stripe API key file '' @ apiKeyFile @ '' is empty'')) else Inr key))"

section \<open>The configuration of a process\<close>

text \<open>
  \<open>runtime.DecodeInto\<close> with the registered defaults; without a file the decoder gets no data. The
  consumer reports a file it cannot read without the cause.
\<close>

definition decode_config :: "'r host \<Rightarrow> go_string \<Rightarrow> go_string \<Rightarrow> operator_config res" where
  "decode_config h msg dat =
    (case ho_decode h dat of
       Inl e \<Rightarrow> Inl (Wrap msg [e])
     | Inr c \<Rightarrow> Inr (SetObjectDefaults_OpenMeterProviderOperator (ho_tmpdir h) c))"

definition load_config :: "'r host \<Rightarrow> (go_error \<Rightarrow> go_error) \<Rightarrow> go_string \<Rightarrow> go_string \<Rightarrow> operator_config res" where
  "load_config h unreadable msg file =
    (if file \<noteq> [] then
       (case ho_read h file of Inl e \<Rightarrow> Inl (unreadable e) | Inr dat \<Rightarrow> decode_config h msg dat)
     else decode_config h msg [])"

definition host_RestConfig :: "'r host \<Rightarrow> operator_config \<Rightarrow> 'r res" where
  "host_RestConfig h c = RestConfig (ho_ambient h) (ho_kubeconfig h) c"

section \<open>Field indexes\<close>

definition EntitlementBillingAccountRefField :: go_string where
  "EntitlementBillingAccountRefField = ''.spec.billingAccountRef.name''"
definition EntitlementOfferRefField :: go_string where "EntitlementOfferRefField = ''.spec.offerRef.name''"
definition billingAccountNameField :: go_string where "billingAccountNameField = ''submission.billingAccountName''"
definition bindingProjectField :: go_string where "bindingProjectField = ''submission.bindingProject''"

definition AddIndexers :: "'r host \<Rightarrow> ('r, unit) startup" where
  "AddIndexers h = steps_of (map (\<lambda>field. take_step h [] (IndexField ''BillingEntitlement'' field))
    [EntitlementBillingAccountRefField, EntitlementOfferRefField])"

definition AddIndexes :: "'r host \<Rightarrow> ('r, unit) startup" where
  "AddIndexes h = steps_of
    [take_step h ''index billing accounts by name'' (IndexField ''BillingAccount'' billingAccountNameField),
     take_step h ''index billing account bindings by project'' (IndexField ''BillingAccountBinding'' bindingProjectField)]"

section \<open>The controller manager\<close>

record build_info =
  bi_version :: go_string
  bi_gitCommit :: go_string
  bi_gitTreeState :: go_string
  bi_buildDate :: go_string

definition build_fields :: "build_info \<Rightarrow> (go_string \<times> log_value) list" where
  "build_fields b = [(''version'', LogText (bi_version b)), (''gitCommit'', LogText (bi_gitCommit b)),
     (''gitTreeState'', LogText (bi_gitTreeState b)), (''buildDate'', LogText (bi_buildDate b))]"

record manager_flags =
  fl_serverConfigFile :: go_string
  fl_stripeAPIKeyFile :: go_string
  fl_probeAddr :: go_string
  fl_enableLeaderElection :: bool
  fl_leaderElectionNamespace :: go_string

definition register_controllers :: "'r host \<Rightarrow> manager_flags \<Rightarrow> openmeter_config \<Rightarrow> ('r, unit) startup" where
  "register_controllers h f om =
    followed_by (\<lambda>t. case NewClient h (ServerURL om) (APISecret om) t of (r, t') \<Rightarrow> (wrapped ''creating OpenMeter client'' r, t'))
      (\<lambda>client. followed_by (take_step h ''creating MeterDefinition controller'' (SetupController ''MeterDefinition''))
        (\<lambda>_. followed_by (done_with (wrapped ''--stripe-api-key-file'' (NewInvoices h (fl_stripeAPIKeyFile f))))
          (\<lambda>stripeInvoices. steps_of
            [take_step h ''creating BillingAccount controller'' (SetupController ''BillingAccount''),
             take_step h ''creating Offer controller'' (SetupController ''Offer''),
             take_step h ''creating BillingEntitlement controller'' (SetupController ''BillingEntitlement''),
             take_step h ''creating InvoiceRequest controller'' (SetupController ''InvoiceRequest''),
             (\<lambda>t. case AddIndexers h t of (r, t') \<Rightarrow> (wrapped ''adding indexers'' r, t')),
             logged ''OpenMeter meter-definition, billing-account, offer, and billing-entitlement controllers registered''
               [(''server'', LogText (ServerURL om))]])))"

text \<open>The manager runs against \<open>cfg\<close>; its metrics filter and its lease use the local cluster.\<close>

definition manager_options_of :: "manager_flags \<Rightarrow> operator_config \<Rightarrow> 'r \<Rightarrow> 'r manager_options" where
  "manager_options_of f c local =
    \<lparr>mg_metrics = (MetricsServer c, Some local), mg_probe_address = fl_probeAddr f,
     mg_leader_election = fl_enableLeaderElection f,
     mg_leader_election_id = ''openmeter-provider.miloapis.com'',
     mg_leader_election_namespace = fl_leaderElectionNamespace f,
     mg_leader_election_config = Some local\<rparr>"

definition enable_controllers :: "'r host \<Rightarrow> manager_flags \<Rightarrow> operator_config \<Rightarrow> ('r, unit) startup" where
  "enable_controllers h f c =
    (case OpenMeter c of
       Some om \<Rightarrow> register_controllers h f om
     | None \<Rightarrow> logged ''openMeter not configured; meter-definition, billing-account, offer, and billing-entitlement controllers disabled'' [])"

text \<open>The last steps of both processes with a manager, each with its messages.\<close>

definition serve_manager :: "'r host \<Rightarrow> go_string \<Rightarrow> go_string \<Rightarrow> go_string \<Rightarrow> ('r, unit) startup" where
  "serve_manager h healthMsg readyMsg runMsg = steps_of
    [take_step h healthMsg (AddHealthzCheck ''healthz''),
     take_step h readyMsg (AddReadyzCheck ''readyz''),
     logged ''starting manager'' [],
     take_step h runMsg StartManager]"

definition start_manager :: "'r host \<Rightarrow> manager_flags \<Rightarrow> operator_config \<Rightarrow> 'r \<Rightarrow> 'r \<Rightarrow> ('r, unit) startup" where
  "start_manager h f c cfg local =
    followed_by (take_step h ''starting manager'' (NewManager cfg (manager_options_of f c local)))
      (\<lambda>_. followed_by (enable_controllers h f c)
        (\<lambda>_. serve_manager h ''setting up health check'' ''setting up ready check'' ''running manager''))"

definition manager_run :: "'r host \<Rightarrow> build_info \<Rightarrow> manager_flags \<Rightarrow> ('r, unit) startup" where
  "manager_run h b f =
    followed_by (logged ''starting openmeter-provider operator'' (build_fields b))
      (\<lambda>_. followed_by (done_with (load_config h (\<lambda>e. Wrap ''reading server config'' [e]) ''decoding server config'' (fl_serverConfigFile f)))
        (\<lambda>c. followed_by (logged ''server config loaded'' [(''kubeconfigPath'', LogText (KubeconfigPath c))])
          (\<lambda>_. followed_by (done_with (wrapped ''loading rest config'' (host_RestConfig h c)))
            (\<lambda>cfg. followed_by (take_step h ''creating bootstrap client'' (NewBootstrapClient cfg))
              (\<lambda>_. followed_by (done_with (wrapped ''loading local rest config for metrics auth'' (ho_ambient h)))
                (\<lambda>local. start_manager h f c cfg local))))))"

section \<open>The submission consumer\<close>

definition natsReconnectWait :: int where "natsReconnectWait = 2 * second"

definition nats_options :: "nats_config \<Rightarrow> nats_option list" where
  "nats_options c =
    [ConnName ''submission-consumer'', MaxReconnects (- 1), ReconnectWait natsReconnectWait,
     DisconnectErrHandler, ReconnectHandler, ClosedHandler] @
    (if CAFile c \<noteq> [] \<or> CertFile c \<noteq> [] \<or> KeyFile c \<noteq> []
     then [RootCAs (CAFile c), ClientCert (CertFile c) (KeyFile c)] else [])"

definition connectNATS :: "'r host \<Rightarrow> go_string \<Rightarrow> nats_config \<Rightarrow> ('r, unit) startup" where
  "connectNATS h msg c = take_step h msg (ConnectNATS (nc_url c) (nats_options c))"

text \<open>The fields of the configuration the consumer logs.\<close>

definition logged_config :: "operator_config \<Rightarrow> openmeter_config \<Rightarrow> (go_string \<times> log_value) list" where
  "logged_config c om =
    [(''kubeconfigPath'', LogText (KubeconfigPath c)),
     (''openMeterServerURL'', LogText (ServerURL om)),
     (''openMeterAPISecretSet'', LogBool (APISecret om \<noteq> [])),
     (''natsURL'', LogText (nc_url (Nats c))),
     (''submissionBatchSize'', LogInt (SubmissionBatchSize c)),
     (''submissionRetryAfter'', LogInt (SubmissionRetryAfter c)),
     (''submissionAckWait'', LogInt (SubmissionAckWait c)),
     (''submissionFetchTimeout'', LogInt (SubmissionFetchTimeout c))]"

definition register_consumer :: "'r host \<Rightarrow> operator_config \<Rightarrow> openmeter_config \<Rightarrow> ('r, unit) startup" where
  "register_consumer h c om = steps_of
    [connectNATS h ''unable to connect to NATS'' (Nats c),
     (\<lambda>t. case AddIndexes h t of (r, t') \<Rightarrow> (wrapped ''unable to add field indexes'' r, t')),
     take_step h ''unable to add submission consumer to manager'' (AddRunnable (configured_consumer c)),
     logged ''submission consumer registered''
       [(''natsURL'', LogText (nc_url (Nats c))), (''openMeterServer'', LogText (ServerURL om))]]"

definition consumer_options_of :: "go_string \<Rightarrow> operator_config \<Rightarrow> 'r \<Rightarrow> 'r manager_options" where
  "consumer_options_of probeAddr c local =
    \<lparr>mg_metrics = (MetricsServer c, Some local), mg_probe_address = probeAddr, mg_leader_election = False,
     mg_leader_election_id = [], mg_leader_election_namespace = [], mg_leader_election_config = None\<rparr>"

definition run_consumer :: "'r host \<Rightarrow> go_string \<Rightarrow> operator_config \<Rightarrow> openmeter_config \<Rightarrow> 'r \<Rightarrow> 'r \<Rightarrow> ('r, unit) startup" where
  "run_consumer h probeAddr c om cfg local =
    followed_by (take_step h ''unable to start manager'' (NewManager cfg (consumer_options_of probeAddr c local)))
      (\<lambda>_. followed_by (\<lambda>t. case NewClient h (ServerURL om) (APISecret om) t of
             (r, t') \<Rightarrow> (wrapped ''unable to construct OpenMeter client'' r, t'))
        (\<lambda>client. followed_by (register_consumer h c om)
          (\<lambda>_. serve_manager h ''unable to set up health check'' ''unable to set up ready check'' ''manager exited with an error'')))"

definition consumer_checked :: "'r host \<Rightarrow> go_string \<Rightarrow> operator_config \<Rightarrow> ('r, unit) startup" where
  "consumer_checked h probeAddr c =
    (case OpenMeter c of
       None \<Rightarrow> done_with (Inl (Leaf ''openMeter must be configured''))
     | Some om \<Rightarrow> followed_by (logged ''server config'' (logged_config c om))
        (\<lambda>_. if nc_url (Nats c) = [] then done_with (Inl (Leaf ''nats.url must be configured''))
          else followed_by (done_with (wrapped ''unable to load rest config'' (host_RestConfig h c)))
            (\<lambda>cfg. followed_by (take_step h ''unable to create bootstrap client'' (NewBootstrapClient cfg))
              (\<lambda>_. followed_by (done_with (wrapped ''unable to load local rest config for metrics auth'' (ho_ambient h)))
                (\<lambda>local. run_consumer h probeAddr c om cfg local)))))"

definition consumer_main :: "'r host \<Rightarrow> build_info \<Rightarrow> go_string \<Rightarrow> go_string \<Rightarrow> ('r, unit) startup" where
  "consumer_main h b probeAddr serverConfigFile =
    followed_by (logged ''starting submission-consumer'' (build_fields b))
      (\<lambda>_. followed_by (done_with (load_config h (\<lambda>e. Leaf ''unable to read server config'') ''unable to decode server config'' serverConfigFile))
        (\<lambda>c. consumer_checked h probeAddr c))"

text \<open>The probes, on what the NATS connection reports.\<close>

record nats_conn =
  cn_IsClosed :: bool
  cn_IsConnected :: bool
  cn_Status :: go_string

definition natsLivenessCheck :: "nats_conn \<Rightarrow> go_error option" where
  "natsLivenessCheck nc = (if cn_IsClosed nc then Some (Leaf ''NATS connection is closed'') else None)"

definition natsReadinessCheck :: "nats_conn \<Rightarrow> go_error option" where
  "natsReadinessCheck nc = (if \<not> cn_IsConnected nc then Some (Leaf (''NATS connection is '' @ cn_Status nc)) else None)"

section \<open>The API server\<close>

text \<open>The verbosity of the server is an unsigned 32-bit number, a level of the logger an int8.\<close>

definition zapLevel :: "32 word \<Rightarrow> 8 word" where
  "zapLevel v = (let v = (if 127 < v then 127 else v) in - ucast v)"

definition milo_objects :: "go_string list" where
  "milo_objects = [''BillingAccount'', ''MeterDefinition'', ''Project'']"

definition server_Config :: "'r host \<Rightarrow> operator_config \<Rightarrow> openmeter_config \<Rightarrow> ('r, om_client) startup" where
  "server_Config h c om =
    followed_by (take_step h ''creating self-signed certificates'' SelfSignedCerts)
      (\<lambda>_. followed_by (take_step h ''applying generic API server options'' ApplyServerOptions)
        (\<lambda>_. followed_by (done_with (wrapped ''loading the Milo kubeconfig'' (host_RestConfig h c)))
          (\<lambda>milo. followed_by (take_step h [] (AddToScheme ''billing''))
            (\<lambda>_. followed_by (take_step h ''creating the Milo cache'' (NewCache milo))
              (\<lambda>_ t. case NewClient h (ServerURL om) (APISecret om) t of
                 (r, t') \<Rightarrow> (wrapped ''creating the OpenMeter client'' r, t'))))))"

text \<open>The server: its API group, and the hook its readiness waits for.\<close>

definition server_New :: "'r host \<Rightarrow> ('r, unit) startup" where
  "server_New h = steps_of
    [take_step h [] NewGenericServer,
     take_step h [] (InstallAPIGroup ''usagequeries''),
     take_step h [] (AddPostStartHook ''milo-cache'' milo_objects)]"

definition serve_api :: "'r host \<Rightarrow> go_string \<Rightarrow> openmeter_config \<Rightarrow> ('r, unit) startup" where
  "serve_api h version om = steps_of
    [server_New h,
     logged ''Starting usage API server'' [(''version'', LogText version), (''openMeter'', LogText (ServerURL om))],
     take_step h [] RunServer]"

definition apiserver_Run :: "'r host \<Rightarrow> go_string \<Rightarrow> 32 word \<Rightarrow> go_string \<Rightarrow> ('r, unit) startup" where
  "apiserver_Run h version verbosity serverConfigFile =
    followed_by (take_step h ''applying logging configuration'' ApplyLogging)
      (\<lambda>_. followed_by (note_step (SetZapLevel (sint (zapLevel verbosity))))
        (\<lambda>_. followed_by (done_with (load_config h (\<lambda>e. Wrap ''reading server config'' [e]) ''decoding server config'' serverConfigFile))
          (\<lambda>c. case OpenMeter c of
             None \<Rightarrow> done_with (Inl (Leaf ''the server config has no openMeter.serverUrl''))
           | Some om \<Rightarrow>
             if ServerURL om = [] then done_with (Inl (Leaf ''the server config has no openMeter.serverUrl''))
             else followed_by (server_Config h c om)
               (\<lambda>client. serve_api h version om))))"

text \<open>
  The hook: it opens an informer for every kind and waits for the cache. \<open>get_informer\<close> and
  \<open>synced\<close> are the cache; the kinds opened so far are returned.
\<close>

fun open_informers :: "(go_string \<Rightarrow> go_string list \<Rightarrow> go_error option) \<Rightarrow> go_string list \<Rightarrow> go_string list \<Rightarrow> unit res \<times> go_string list" where
  "open_informers get_informer opened [] = (Inr (), opened)"
| "open_informers get_informer opened (k # ks) =
    (case get_informer k opened of
       Some e \<Rightarrow> (Inl (Wrap (''watching '' @ k @ '' in Milo'') [e]), opened)
     | None \<Rightarrow> open_informers get_informer (opened @ [k]) ks)"

definition milo_cache_hook ::
  "(go_string \<Rightarrow> go_string list \<Rightarrow> go_error option) \<Rightarrow> (go_string list \<Rightarrow> bool) \<Rightarrow> go_string list \<Rightarrow> unit res \<times> go_string list" where
  "milo_cache_hook get_informer synced kinds =
    (case open_informers get_informer [] kinds of
       (Inl e, opened) \<Rightarrow> (Inl e, opened)
     | (Inr _, opened) \<Rightarrow>
       if \<not> synced opened then (Inl (Leaf ''waiting for the Milo cache to sync''), opened) else (Inr (), opened))"

section \<open>What a started process has\<close>

fun controller_of :: "'r start_step \<Rightarrow> go_string list" where
  "controller_of (SetupController k) = [k]"
| "controller_of _ = []"

fun index_of :: "'r start_step \<Rightarrow> (go_string \<times> go_string) list" where
  "index_of (IndexField k f) = [(k, f)]"
| "index_of _ = []"

definition controllers :: "'r start_step list \<Rightarrow> go_string list" where
  "controllers t = concat (map controller_of t)"

definition indexes :: "'r start_step list \<Rightarrow> (go_string \<times> go_string) list" where
  "indexes t = concat (map index_of t)"

lemmas startup_defs = take_step_def note_step_def logged_def followed_by_def done_with_def wrapped_def

text \<open>The exact steps of a run of the manager that gets to the end.\<close>

lemma NewClient_steps:
  "NewClient h server secret t = (Inr cl, t') \<Longrightarrow>
    t' = t @ [NewSDKClient server (if secret \<noteq> [] then Some secret else None)]"
  by (auto simp: NewClient_def startup_defs Let_def split: if_splits option.splits)

definition registered_steps :: "openmeter_config \<Rightarrow> 'r start_step list" where
  "registered_steps om =
    [NewSDKClient (ServerURL om) (if APISecret om \<noteq> [] then Some (APISecret om) else None),
     SetupController ''MeterDefinition'', SetupController ''BillingAccount'', SetupController ''Offer'',
     SetupController ''BillingEntitlement'', SetupController ''InvoiceRequest'',
     IndexField ''BillingEntitlement'' EntitlementBillingAccountRefField,
     IndexField ''BillingEntitlement'' EntitlementOfferRefField,
     LogInfo ''OpenMeter meter-definition, billing-account, offer, and billing-entitlement controllers registered''
       [(''server'', LogText (ServerURL om))]]"

lemma register_controllers_steps:
  assumes "register_controllers h f om t = (Inr x, t')"
  shows "t' = t @ registered_steps om \<and> (\<exists>key. NewInvoices h (fl_stripeAPIKeyFile f) = Inr key)"
proof -
  from assms obtain cl t1 where c: "NewClient h (ServerURL om) (APISecret om) t = (Inr cl, t1)"
    by (auto simp: register_controllers_def startup_defs split: prod.splits sum.splits)
  with assms obtain key where k: "NewInvoices h (fl_stripeAPIKeyFile f) = Inr key"
    by (auto simp: register_controllers_def startup_defs split: prod.splits sum.splits option.splits)
  from assms c k show ?thesis
    by (auto simp: register_controllers_def AddIndexers_def startup_defs registered_steps_def
        dest: NewClient_steps split: option.splits)
qed

text \<open>Operations that do not take the step \<open>s\<close>, and what reaching \<open>s\<close> says of the operations before it.\<close>

definition never :: "'r start_step \<Rightarrow> ('r, 'a) startup \<Rightarrow> bool" where
  "never s m \<longleftrightarrow> (\<forall>t. s \<notin> set t \<longrightarrow> s \<notin> set (snd (m t)))"

lemma never_take_step [intro]: "s' \<noteq> s \<Longrightarrow> never s (take_step h msg s')"
  by (simp add: never_def take_step_def)

lemma never_note_step [intro]: "s' \<noteq> s \<Longrightarrow> never s (note_step s')"
  by (simp add: never_def note_step_def)

lemma never_done_with [intro]: "never s (done_with r)"
  by (simp add: never_def done_with_def)

lemma never_followed_by [intro]:
  "never s m \<Longrightarrow> (\<And>x. never s (k x)) \<Longrightarrow> never s (followed_by m k)"
  unfolding never_def followed_by_def by (fastforce split: prod.splits sum.splits)

lemma never_wrapped [intro]: "never s m \<Longrightarrow> never s (\<lambda>t. case m t of (r, t') \<Rightarrow> (wrapped msg r, t'))"
  by (simp add: never_def split_beta)

lemma never_steps_of [intro]: "list_all (never s) ms \<Longrightarrow> never s (steps_of ms)"
  by (induction ms) auto

lemma reached_followed_by:
  assumes "s \<in> set (snd (followed_by m k t))" "never s m" "s \<notin> set t"
  obtains x t' where "m t = (Inr x, t')" "s \<notin> set t'" "s \<in> set (snd (k x t'))"
proof -
  have "s \<notin> set (snd (m t))" using assms(2, 3) by (simp add: never_def)
  then show thesis using assms(1) that by (auto simp: followed_by_def split: prod.splits sum.splits)
qed

lemma never_NewClient: "(\<And>b. s \<noteq> NewSDKClient server b) \<Longrightarrow> never s (NewClient h server secret)"
  by (simp add: never_def NewClient_def startup_defs Let_def split: option.splits)

lemma never_start_controllers: "never StartManager (register_controllers h f om)"
  unfolding register_controllers_def AddIndexers_def logged_def
  by (intro never_followed_by never_wrapped never_NewClient never_take_step never_done_with never_steps_of) auto

definition manager_config :: "'r host \<Rightarrow> manager_flags \<Rightarrow> operator_config res" where
  "manager_config h f =
    load_config h (\<lambda>e. Wrap ''reading server config'' [e]) ''decoding server config'' (fl_serverConfigFile f)"

definition manager_prologue :: "build_info \<Rightarrow> operator_config \<Rightarrow> 'r \<Rightarrow> 'r start_step list" where
  "manager_prologue b c cfg =
    [LogInfo ''starting openmeter-provider operator'' (build_fields b),
     LogInfo ''server config loaded'' [(''kubeconfigPath'', LogText (KubeconfigPath c))], NewBootstrapClient cfg]"

lemma manager_prologue_plain:
  "StartManager \<notin> set (manager_prologue b c cfg)" "controllers (manager_prologue b c cfg) = []"
  "indexes (manager_prologue b c cfg) = []"
  by (simp_all add: manager_prologue_def controllers_def indexes_def)

lemma manager_run_cases:
  assumes "StartManager \<in> set (snd (manager_run h b f []))"
  shows "\<exists>c cfg local. manager_config h f = Inr c \<and> host_RestConfig h c = Inr cfg \<and> ho_ambient h = Inr local
    \<and> manager_run h b f [] = start_manager h f c cfg local (manager_prologue b c cfg)"
  using assms
  by (auto simp: manager_run_def startup_defs manager_config_def manager_prologue_def
      split: sum.splits option.splits)

lemma enable_controllers_steps:
  assumes "enable_controllers h f c t = (Inr x, t')"
  shows "\<exists>u. t' = t @ u \<and> controllers u = (if OpenMeter c = None then [] else
      [''MeterDefinition'', ''BillingAccount'', ''Offer'', ''BillingEntitlement'', ''InvoiceRequest''])
    \<and> indexes u = (if OpenMeter c = None then [] else
      [(''BillingEntitlement'', EntitlementBillingAccountRefField), (''BillingEntitlement'', EntitlementOfferRefField)])
    \<and> (OpenMeter c \<noteq> None \<longrightarrow> (\<exists>key. NewInvoices h (fl_stripeAPIKeyFile f) = Inr key))"
proof (cases "OpenMeter c")
  case None
  with assms show ?thesis
    by (auto simp: enable_controllers_def startup_defs controllers_def indexes_def)
next
  case (Some om)
  with assms have "t' = t @ registered_steps om" "\<exists>key. NewInvoices h (fl_stripeAPIKeyFile f) = Inr key"
    by (auto simp: enable_controllers_def dest: register_controllers_steps)
  with Some show ?thesis by (auto simp: registered_steps_def controllers_def indexes_def)
qed

lemma never_enable_controllers: "never StartManager (enable_controllers h f c)"
  by (auto simp: enable_controllers_def logged_def never_start_controllers split: option.splits)

lemma serve_manager_steps:
  assumes "StartManager \<in> set (snd (serve_manager h m1 m2 m3 t))" "StartManager \<notin> set t"
  shows "snd (serve_manager h m1 m2 m3 t) =
    t @ [AddHealthzCheck ''healthz'', AddReadyzCheck ''readyz'', LogInfo ''starting manager'' [], StartManager]"
  using assms by (auto simp: serve_manager_def startup_defs split: option.splits)

lemma start_manager_steps:
  assumes "StartManager \<in> set (snd (start_manager h f c cfg local t))" "StartManager \<notin> set t"
  obtains t' u x where
    "enable_controllers h f c (t @ [NewManager cfg (manager_options_of f c local)]) =
       (Inr x, t @ [NewManager cfg (manager_options_of f c local)] @ u)"
    "snd (start_manager h f c cfg local t) = t @ [NewManager cfg (manager_options_of f c local)] @ u @
       [AddHealthzCheck ''healthz'', AddReadyzCheck ''readyz'', LogInfo ''starting manager'' [], StartManager]"
proof -
  let ?t1 = "t @ [NewManager cfg (manager_options_of f c local)]"
  from assms have s: "start_manager h f c cfg local t = followed_by (enable_controllers h f c)
      (\<lambda>_. serve_manager h ''setting up health check'' ''setting up ready check'' ''running manager'') ?t1"
    by (auto simp: start_manager_def take_step_def followed_by_def split: option.splits)
  with assms obtain x t2 where e: "enable_controllers h f c ?t1 = (Inr x, t2)" "StartManager \<notin> set t2"
      "StartManager \<in> set (snd (serve_manager h ''setting up health check'' ''setting up ready check'' ''running manager'' t2))"
    by (auto elim: reached_followed_by [OF _ never_enable_controllers])
  then obtain u where "t2 = ?t1 @ u" using enable_controllers_steps by blast
  with e s show thesis using that serve_manager_steps [OF e(3, 2)] by (simp add: followed_by_def)
qed


definition example_config :: operator_config where
  "example_config =
    \<lparr>MetricsServer = \<lparr>SecureServing = None, BindAddress = [], TLS = \<lparr>SecretRef = None, CertDir = [], CertName = [], KeyName = []\<rparr>\<rparr>,
     KubeconfigPath = ''/etc/milo'', OpenMeter = Some \<lparr>ServerURL = ''http://om'', APISecret = ''s3''\<rparr>,
     SubmissionBatchSize = 0, SubmissionRetryAfter = 0, SubmissionAckWait = 0, SubmissionFetchTimeout = 0,
     Nats = \<lparr>nc_url = ''nats://n'', CAFile = [], CertFile = [], KeyFile = []\<rparr>\<rparr>"

definition example_host :: "nat host" where
  "example_host =
    \<lparr>ho_tmpdir = [], ho_read = (\<lambda>p. Inr ''key''), ho_decode = (\<lambda>d. Inr example_config), ho_ambient = Inr 1,
     ho_kubeconfig = (\<lambda>p. Inr 2), ho_step = (\<lambda>s t. None)\<rparr>"

definition example_build :: build_info where
  "example_build = \<lparr>bi_version = ''dev'', bi_gitCommit = [], bi_gitTreeState = [], bi_buildDate = []\<rparr>"

definition example_flags :: manager_flags where
  "example_flags = \<lparr>fl_serverConfigFile = ''cfg'', fl_stripeAPIKeyFile = ''key'', fl_probeAddr = '':8081'',
     fl_enableLeaderElection = True, fl_leaderElectionNamespace = ''system''\<rparr>"

lemma example_texts: "trim_space ''key'' = ''key''" "trim_space ''http://om'' = ''http://om''"
  by (simp_all add: trim_space_def is_space_rune_def is_space_def byte_def)

lemma example_manager_starts: "StartManager \<in> set (snd (manager_run example_host example_build example_flags []))"
  by (simp add: manager_run_def startup_defs load_config_def decode_config_def host_RestConfig_def RestConfig_def
      example_host_def example_flags_def example_config_def start_manager_def enable_controllers_def
      register_controllers_def NewClient_def NewInvoices_def example_texts AddIndexers_def serve_manager_def Let_def)


text \<open>The consumer's run, when it reaches the start.\<close>

definition consumer_config :: "'r host \<Rightarrow> go_string \<Rightarrow> operator_config res" where
  "consumer_config h file = load_config h (\<lambda>e. Leaf ''unable to read server config'') ''unable to decode server config'' file"

definition consumer_prologue :: "build_info \<Rightarrow> operator_config \<Rightarrow> openmeter_config \<Rightarrow> 'r \<Rightarrow> 'r start_step list" where
  "consumer_prologue b c om cfg =
    [LogInfo ''starting submission-consumer'' (build_fields b), LogInfo ''server config'' (logged_config c om), NewBootstrapClient cfg]"

lemma consumer_main_cases:
  assumes "StartManager \<in> set (snd (consumer_main h b addr file []))"
  shows "\<exists>c om cfg local. consumer_config h file = Inr c \<and> OpenMeter c = Some om \<and> nc_url (Nats c) \<noteq> []
    \<and> consumer_main h b addr file [] = run_consumer h addr c om cfg local (consumer_prologue b c om cfg)"
  using assms
  by (auto simp: consumer_main_def consumer_checked_def startup_defs consumer_config_def consumer_prologue_def
      split: sum.splits option.splits if_splits)

definition consumer_steps :: "operator_config \<Rightarrow> openmeter_config \<Rightarrow> 'r start_step list" where
  "consumer_steps c om =
    [ConnectNATS (nc_url (Nats c)) (nats_options (Nats c)),
     IndexField ''BillingAccount'' billingAccountNameField, IndexField ''BillingAccountBinding'' bindingProjectField,
     AddRunnable (configured_consumer c),
     LogInfo ''submission consumer registered''
       [(''natsURL'', LogText (nc_url (Nats c))), (''openMeterServer'', LogText (ServerURL om))]]"

lemma register_consumer_steps: "register_consumer h c om t = (Inr x, t') \<Longrightarrow> t' = t @ consumer_steps c om"
  by (auto simp: register_consumer_def connectNATS_def AddIndexes_def startup_defs consumer_steps_def split: option.splits)

lemma never_register_consumer: "never StartManager (register_consumer h c om)"
  unfolding register_consumer_def connectNATS_def AddIndexes_def logged_def
  by (intro never_steps_of) auto

lemma run_consumer_steps:
  assumes "StartManager \<in> set (snd (run_consumer h addr c om cfg local t))" "StartManager \<notin> set t"
  shows "snd (run_consumer h addr c om cfg local t) = t @
    [NewManager cfg (consumer_options_of addr c local),
     NewSDKClient (ServerURL om) (if APISecret om \<noteq> [] then Some (APISecret om) else None)] @ consumer_steps c om @
    [AddHealthzCheck ''healthz'', AddReadyzCheck ''readyz'', LogInfo ''starting manager'' [], StartManager]"
proof -
  let ?t1 = "t @ [NewManager cfg (consumer_options_of addr c local)]"
  let ?t2 = "?t1 @ [NewSDKClient (ServerURL om) (if APISecret om \<noteq> [] then Some (APISecret om) else None)]"
  from assms have r: "run_consumer h addr c om cfg local t = followed_by (register_consumer h c om)
      (\<lambda>_. serve_manager h ''unable to set up health check'' ''unable to set up ready check'' ''manager exited with an error'') ?t2"
    by (auto simp: run_consumer_def NewClient_def startup_defs Let_def split: option.splits if_splits)
  with assms obtain x t3 where s: "register_consumer h c om ?t2 = (Inr x, t3)" "StartManager \<notin> set t3"
      "StartManager \<in> set (snd (serve_manager h ''unable to set up health check'' ''unable to set up ready check''
         ''manager exited with an error'' t3))"
    by (auto elim: reached_followed_by [OF _ never_register_consumer])
  with r serve_manager_steps [OF s(3, 2)] register_consumer_steps [OF s(1)] show ?thesis
    by (simp add: followed_by_def)
qed

fun consumer_of :: "'r start_step \<Rightarrow> consumer list" where
  "consumer_of (AddRunnable k) = [k]"
| "consumer_of _ = []"

fun reconnects_of :: "'r start_step \<Rightarrow> int list" where
  "reconnects_of (ConnectNATS u opts) = concat (map (\<lambda>op. case op of MaxReconnects n \<Rightarrow> [n] | _ \<Rightarrow> []) opts)"
| "reconnects_of _ = []"


lemma example_consumer_starts: "StartManager \<in> set (snd (consumer_main example_host example_build '':8081'' ''cfg'' []))"
  by (simp add: consumer_main_def consumer_checked_def startup_defs load_config_def decode_config_def host_RestConfig_def RestConfig_def
      example_host_def example_config_def run_consumer_def register_consumer_def connectNATS_def
      NewClient_def example_texts AddIndexes_def serve_manager_def Let_def)


section \<open>The secret and the log\<close>

fun log_of :: "'r start_step \<Rightarrow> (go_string \<times> (go_string \<times> log_value) list) list" where
  "log_of (LogInfo msg kvs) = [(msg, kvs)]"
| "log_of _ = []"

text \<open>A step with the secret blanked, and the host whose configuration has another secret.\<close>

fun redact :: "'r start_step \<Rightarrow> 'r start_step" where
  "redact (NewSDKClient server bearer) = NewSDKClient server (map_option (\<lambda>_. []) bearer)"
| "redact s = s"

definition with_secret :: "go_string \<Rightarrow> operator_config \<Rightarrow> operator_config" where
  "with_secret secret c = c\<lparr>OpenMeter := map_option (\<lambda>om. om\<lparr>APISecret := secret\<rparr>) (OpenMeter c)\<rparr>"

definition host_with_secret :: "go_string \<Rightarrow> 'r host \<Rightarrow> 'r host" where
  "host_with_secret secret h =
    h\<lparr>ho_decode := (\<lambda>d. map_sum id (with_secret secret) (ho_decode h d)),
      ho_step := (\<lambda>s t. ho_step h (redact s) (map redact t))\<rparr>"

text \<open>Two runs that differ in the secret only; \<open>R\<close> relates their results.\<close>

definition alike :: "('a \<Rightarrow> 'b \<Rightarrow> bool) \<Rightarrow> ('r, 'a) startup \<Rightarrow> ('r, 'b) startup \<Rightarrow> bool" where
  "alike R m m' \<longleftrightarrow> (\<forall>t t'. map redact t = map redact t' \<longrightarrow>
     rel_sum (=) R (fst (m t)) (fst (m' t')) \<and> map redact (snd (m t)) = map redact (snd (m' t')))"

lemma alikeI:
  assumes "\<And>t t'. map redact t = map redact t' \<Longrightarrow>
     rel_sum (=) R (fst (m t)) (fst (m' t')) \<and> map redact (snd (m t)) = map redact (snd (m' t'))"
  shows "alike R m m'"
  using assms by (simp add: alike_def)

lemma alike_take_step: "redact s = redact s' \<Longrightarrow>
    alike (=) (take_step (host_with_secret x h) msg s) (take_step (host_with_secret y h) msg s')"
  by (auto simp: alike_def take_step_def host_with_secret_def split: option.splits)

lemma alike_note_step: "redact s = redact s' \<Longrightarrow> alike (=) (note_step s) (note_step s')"
  by (simp add: alike_def note_step_def)

lemma alike_done_with: "rel_sum (=) R r r' \<Longrightarrow> alike R (done_with r) (done_with r')"
  by (simp add: alike_def done_with_def)

lemma alike_followed_by:
  fixes m :: "('r, 'a) startup" and m' :: "('r, 'b) startup"
  assumes m: "alike R m m'" and k: "\<And>x x'. R x x' \<Longrightarrow> alike S (k x) (k' x')"
  shows "alike S (followed_by m k) (followed_by m' k')"
proof (rule alikeI)
  fix t t' :: "'r start_step list"
  assume t: "map redact t = map redact t'"
  obtain r u r' u' where mt: "m t = (r, u)" "m' t' = (r', u')" by fastforce
  with m t have "rel_sum (=) R r r'" "map redact u = map redact u'"
    unfolding alike_def by (metis fst_conv, metis snd_conv)
  then show "rel_sum (=) S (fst (followed_by m k t)) (fst (followed_by m' k' t')) \<and>
      map redact (snd (followed_by m k t)) = map redact (snd (followed_by m' k' t'))"
    using mt k by (cases rule: rel_sum.cases) (auto simp: followed_by_def alike_def)
qed

lemma alike_wrapped: "alike R m m' \<Longrightarrow>
    alike R (\<lambda>t. case m t of (r, u) \<Rightarrow> (wrapped msg r, u)) (\<lambda>t. case m' t of (r, u) \<Rightarrow> (wrapped msg r, u))"
  unfolding alike_def wrapped_def split_beta
  by (elim all_forward imp_forward) (auto elim!: rel_sum.cases)

lemma alike_steps_of: "list_all2 (alike (=)) ms ms' \<Longrightarrow> alike (=) (steps_of ms) (steps_of ms')"
  by (induction rule: list_all2_induct) (auto intro: alike_done_with alike_followed_by)


lemma map_option_const: "map_option (\<lambda>_. []) x = map_option (\<lambda>_. []) y \<longleftrightarrow> (x = None \<longleftrightarrow> y = None)"
  by (cases x; cases y) auto

lemma alike_NewClient:
  assumes "x \<noteq> []" "y \<noteq> []"
  shows "alike (\<lambda>_ _. True) (NewClient (host_with_secret x h) server x) (NewClient (host_with_secret y h) server y)"
  using assms unfolding NewClient_def Let_def
  by (auto intro!: alike_done_with alike_followed_by alike_take_step)

lemma alike_AddIndexes: "alike (=) (AddIndexes (host_with_secret x h)) (AddIndexes (host_with_secret y h))"
  unfolding AddIndexes_def by (intro alike_steps_of) (simp add: alike_take_step)

lemma alike_serve_manager:
  "alike (=) (serve_manager (host_with_secret x h) m1 m2 m3) (serve_manager (host_with_secret y h) m1 m2 m3)"
  unfolding serve_manager_def logged_def by (intro alike_steps_of) (simp add: alike_take_step alike_note_step)

text \<open>Configurations that differ in the secret only: the defaults do not look at it.\<close>

lemma with_secret_simps [simp]:
  "MetricsServer (with_secret x c) = MetricsServer c" "KubeconfigPath (with_secret x c) = KubeconfigPath c"
  "Nats (with_secret x c) = Nats c" "configured_consumer (with_secret x c) = configured_consumer c"
  "OpenMeter (with_secret x c) = map_option (\<lambda>om. om\<lparr>APISecret := x\<rparr>) (OpenMeter c)"
  by (simp_all add: with_secret_def configured_consumer_def)

lemma defaults_with_secret:
  "SetObjectDefaults_OpenMeterProviderOperator d (with_secret x c) = with_secret x (SetObjectDefaults_OpenMeterProviderOperator d c)"
  by (simp add: SetObjectDefaults_OpenMeterProviderOperator_def SetDefaults_OpenMeterProviderOperator_def with_secret_def Let_def)

definition secret_differs :: "go_string \<Rightarrow> go_string \<Rightarrow> operator_config \<Rightarrow> operator_config \<Rightarrow> bool" where
  "secret_differs x y c c' \<longleftrightarrow> (\<exists>c0. c = with_secret x c0 \<and> c' = with_secret y c0)"

lemma decode_config_secret:
  "rel_sum (=) (secret_differs x y) (decode_config (host_with_secret x h) msg d) (decode_config (host_with_secret y h) msg d)"
  by (cases "ho_decode h d")
    (auto simp: decode_config_def host_with_secret_def secret_differs_def defaults_with_secret)

lemma load_config_secret:
  "rel_sum (=) (secret_differs x y) (load_config (host_with_secret x h) unreadable msg file)
     (load_config (host_with_secret y h) unreadable msg file)"
  using decode_config_secret [of x y h msg]
  by (auto simp: load_config_def host_with_secret_def split: sum.splits)

lemma alike_register_consumer:
  "alike (=) (register_consumer (host_with_secret x h) (with_secret x c) (om\<lparr>APISecret := x\<rparr>))
     (register_consumer (host_with_secret y h) (with_secret y c) (om\<lparr>APISecret := y\<rparr>))"
  unfolding register_consumer_def connectNATS_def logged_def
  by (intro alike_steps_of) (simp add: alike_take_step alike_note_step alike_wrapped alike_AddIndexes)


lemma host_with_secret_simps [simp]:
  "ho_ambient (host_with_secret x h) = ho_ambient h" "ho_kubeconfig (host_with_secret x h) = ho_kubeconfig h"
  "host_RestConfig (host_with_secret x h) (with_secret y c) = host_RestConfig h c"
  by (simp_all add: host_with_secret_def host_RestConfig_def RestConfig_def)

lemma rel_sum_eq_refl [simp]: "rel_sum (=) (=) r r"
  by (simp add: sum.rel_eq)

lemma alike_run_consumer:
  assumes "x \<noteq> []" "y \<noteq> []"
  shows "alike (=) (run_consumer (host_with_secret x h) addr (with_secret x c) (om\<lparr>APISecret := x\<rparr>) cfg local)
    (run_consumer (host_with_secret y h) addr (with_secret y c) (om\<lparr>APISecret := y\<rparr>) cfg local)"
  unfolding run_consumer_def
proof (rule alike_followed_by [where R = "(=)"], goal_cases)
  case 1
  show ?case by (rule alike_take_step) (simp add: consumer_options_of_def)
next
  case 2
  show ?case
    by (rule alike_followed_by [where R = "\<lambda>_ _. True"])
      (use assms in \<open>simp_all add: alike_wrapped alike_NewClient
        alike_followed_by [where R = "(=)"] alike_register_consumer alike_serve_manager\<close>)
qed

lemma alike_consumer_checked:
  assumes "x \<noteq> []" "y \<noteq> []" and c: "secret_differs x y c c'"
  shows "alike (=) (consumer_checked (host_with_secret x h) addr c) (consumer_checked (host_with_secret y h) addr c')"
proof -
  obtain d where d: "c = with_secret x d" "c' = with_secret y d" using c by (auto simp: secret_differs_def)
  show ?thesis
  proof (cases "OpenMeter d")
    case None
    then show ?thesis by (simp add: d consumer_checked_def alike_done_with)
  next
    case (Some om)
    have l: "logged_config c (om\<lparr>APISecret := x\<rparr>) = logged_config c' (om\<lparr>APISecret := y\<rparr>)"
      using assms by (simp add: d logged_config_def with_secret_def)
    show ?thesis
      using Some assms(1,2) unfolding consumer_checked_def
      by (simp add: d l [unfolded d] logged_def)
        (intro alike_followed_by [where R = "(=)"] alike_note_step alike_take_step alike_done_with impI conjI,
          simp_all add: alike_run_consumer)
  qed
qed

lemma alike_consumer_main:
  assumes "x \<noteq> []" "y \<noteq> []"
  shows "alike (=) (consumer_main (host_with_secret x h) b addr file) (consumer_main (host_with_secret y h) b addr file)"
  unfolding consumer_main_def logged_def
  by (intro alike_followed_by [where R = "(=)"] alike_note_step
      alike_followed_by [OF alike_done_with [OF load_config_secret]] alike_consumer_checked assms) simp_all

lemma log_of_redact [simp]: "log_of (redact s) = log_of s"
  by (cases s) auto

lemma logs_alike: "map redact t = map redact t' \<Longrightarrow> concat (map log_of t) = concat (map log_of t')"
  by (metis (mono_tags, lifting) list.map_comp log_of_redact map_cong o_apply)

text \<open>
  C27. The API secret never reaches the consumer's log: with any two secrets (and a host whose
  answers do not depend on which one it is), the runs log exactly the same messages with the same fields,
  end with the same error or none, and take the same steps up to the secret in the client.
\<close>

theorem consumer_hides_secret:
  assumes "x \<noteq> []" "y \<noteq> []"
  shows "fst (consumer_main (host_with_secret x h) b addr file []) = fst (consumer_main (host_with_secret y h) b addr file [])
    \<and> concat (map log_of (snd (consumer_main (host_with_secret x h) b addr file []))) =
      concat (map log_of (snd (consumer_main (host_with_secret y h) b addr file [])))
    \<and> map redact (snd (consumer_main (host_with_secret x h) b addr file [])) =
      map redact (snd (consumer_main (host_with_secret y h) b addr file []))"
  using alike_consumer_main [OF assms, of h b addr "file"]
  by (auto simp: alike_def sum.rel_eq intro: logs_alike)

theorem consumer_hides_secret_witness:
  "concat (map log_of (snd (consumer_main (host_with_secret ''one'' example_host) example_build '':8081'' ''cfg'' []))) =
   concat (map log_of (snd (consumer_main (host_with_secret ''two'' example_host) example_build '':8081'' ''cfg'' [])))
   \<and> NewSDKClient ''http://om'' (Some ''one'') \<in>
      set (snd (consumer_main (host_with_secret ''one'' example_host) example_build '':8081'' ''cfg'' []))
   \<and> NewSDKClient ''http://om'' (Some ''two'') \<in>
      set (snd (consumer_main (host_with_secret ''two'' example_host) example_build '':8081'' ''cfg'' []))"
proof -
  have client: "NewSDKClient ''http://om'' (Some s) \<in>
      set (snd (consumer_main (host_with_secret s example_host) example_build '':8081'' ''cfg'' []))" if "s \<noteq> []" for s
    using that
    by (simp add: consumer_main_def consumer_checked_def startup_defs load_config_def decode_config_def host_RestConfig_def
        RestConfig_def example_host_def example_config_def run_consumer_def register_consumer_def connectNATS_def
        NewClient_def example_texts AddIndexes_def serve_manager_def host_with_secret_def with_secret_def
        SetObjectDefaults_OpenMeterProviderOperator_def SetDefaults_OpenMeterProviderOperator_def Let_def)
  show ?thesis
    using consumer_hides_secret [of "''one''" "''two''" example_host example_build "'':8081''" "''cfg''"]
      client [of "''one''"] client [of "''two''"] by simp
qed

text \<open>Both halves of the OpenMeter client authenticate with the configured secret, or neither does.\<close>

theorem NewClient_same_secret:
  assumes "NewClient h server secret t = (Inr cl, t')"
  shows "v3_authorization (cl_v3 cl) = map_option (\<lambda>tok. ''Bearer '' @ tok) (cl_bearer cl)
    \<and> (cl_bearer cl = None \<longleftrightarrow> secret = [])
    \<and> t' = t @ [NewSDKClient server (cl_bearer cl)]"
  using assms
  by (auto simp: NewClient_def newV3API_def v3_authorization_def startup_defs Let_def split: if_splits option.splits)

section \<open>The API server's level and readiness\<close>

text \<open>
  One flag sets the verbosity of both loggers: for any value of \<open>-v\<close>, a 32-bit number, the
  int8 level is exactly its negation, capped at -127, so the conversion never wraps to a level
  that would hide errors.
\<close>

theorem zapLevel_exact: "sint (zapLevel v) = - int (min (unat v) 127)"
proof -
  define w where "w = (if 127 < v then 127 else v)"
  have w: "unat w = min (unat v) 127"
    by (auto simp: w_def word_less_nat_alt)
  then have u: "uint w = int (min (unat v) 127)" by (simp flip: w)
  have "uint (ucast w :: 8 word) = uint w"
    using u by (simp add: unsigned_ucast_eq take_bit_int_eq_self)
  then have s: "sint (ucast w :: 8 word) = uint w"
    using u by (simp add: sint_uint signed_take_bit_int_eq_self)
  have "sint (- (ucast w :: 8 word)) = - sint (ucast w :: 8 word)"
    using s u by (simp add: sint_word_ariths signed_take_bit_int_eq_self)
  with s u show ?thesis by (simp add: zapLevel_def w_def Let_def)
qed

text \<open>
  The hook readiness waits for: it succeeds only when an informer is open for every kind the
  queries read, and the cache has synced with all of them.
\<close>

lemma open_informers_result:
  "open_informers g opened ks = (Inr u, kinds) \<Longrightarrow> kinds = opened @ ks"
  by (induction ks arbitrary: opened) (fastforce split: option.splits)+

theorem milo_cache_hook_ready:
  assumes "fst (milo_cache_hook g synced milo_objects) = Inr ()"
  shows "synced [''BillingAccount'', ''MeterDefinition'', ''Project'']"
  using assms open_informers_result [of g "[]" milo_objects]
  by (auto simp: milo_cache_hook_def milo_objects_def split: prod.splits sum.splits if_splits)

lemma never_server_Config: "never RunServer (server_Config h c om)"
  unfolding server_Config_def
  by (intro never_followed_by never_wrapped never_NewClient never_take_step never_done_with) auto

lemma never_server_New: "never RunServer (server_New h)"
  unfolding server_New_def by (intro never_steps_of) auto

lemma server_New_steps: "server_New h t = (Inr x, t') \<Longrightarrow>
    t' = t @ [NewGenericServer, InstallAPIGroup ''usagequeries'', AddPostStartHook ''milo-cache'' milo_objects]"
  by (auto simp: server_New_def startup_defs split: option.splits)

lemma serve_api_reached:
  assumes "RunServer \<in> set (snd (serve_api h v om t))" "RunServer \<notin> set t"
  shows "\<exists>msg kvs. snd (serve_api h v om t) = t @ [NewGenericServer, InstallAPIGroup ''usagequeries'',
    AddPostStartHook ''milo-cache'' milo_objects, LogInfo msg kvs, RunServer]"
proof -
  have r: "RunServer \<in> set (snd (followed_by (server_New h) (\<lambda>_. steps_of
      [logged ''Starting usage API server'' [(''version'', LogText v), (''openMeter'', LogText (ServerURL om))],
       take_step h [] RunServer]) t))"
    using assms(1) by (simp add: serve_api_def)
  from reached_followed_by [OF r never_server_New assms(2)] obtain x t' where "server_New h t = (Inr x, t')" by blast
  with assms server_New_steps [OF this] show ?thesis
    by (simp add: serve_api_def startup_defs split: option.splits)
qed

text \<open>
  The API server serves queries only with an OpenMeter URL, after its group is installed and
  its readiness waits for the informers of all the kinds the queries read.
\<close>

theorem apiserver_serves_ready:
  assumes "RunServer \<in> set (snd (apiserver_Run h version v path []))"
  shows "\<exists>pre msg kvs. snd (apiserver_Run h version v path []) = pre @ [NewGenericServer, InstallAPIGroup ''usagequeries'',
    AddPostStartHook ''milo-cache'' [''BillingAccount'', ''MeterDefinition'', ''Project''], LogInfo msg kvs, RunServer]"
proof -
  let ?t = "[ApplyLogging, SetZapLevel (sint (zapLevel v))]"
  have "\<exists>c om. apiserver_Run h version v path [] = followed_by (server_Config h c om) (\<lambda>_. serve_api h version om) ?t"
    using assms by (auto simp: apiserver_Run_def startup_defs split: option.splits sum.splits if_splits)
  moreover have "RunServer \<notin> set ?t" by simp
  ultimately obtain c om t where t: "RunServer \<notin> set t"
      "apiserver_Run h version v path [] = followed_by (server_Config h c om) (\<lambda>_. serve_api h version om) t" by blast
  with assms reached_followed_by [OF _ never_server_Config t(1)] obtain cl t'
    where s: "server_Config h c om t = (Inr cl, t')" "RunServer \<notin> set t'" "RunServer \<in> set (snd (serve_api h version om t'))"
    by metis
  from serve_api_reached [OF s(3, 2)] s(1) t(2) show ?thesis
    by (auto simp: followed_by_def milo_objects_def)
qed

end
