(* ===== verification/FieldIndexes.thy ===== *)
theory FieldIndexes
  imports EntitlementController Startup
begin

text \<open>
  The field indexes (\<open>internal/controller/indexers.go\<close>, \<open>AddIndexes\<close> of
  \<open>internal/submission/attribution.go\<close>): the functions that extract the indexed values from an
  object, and what they mean for the code that lists by them.

  The informer cache keeps, for every index, the objects under each extracted value. A list with
  \<open>client.MatchingFields\<close> returns the objects under that value; \<open>matching\<close> is that lookup, and the type
  of the list drops objects of other kinds.
\<close>

section \<open>Extractors\<close>

datatype cached_object =
    CachedEntitlement entitlement
  | CachedAccount Submission.billing_account
  | CachedBinding account_binding
  | CachedOther kube_meta

fun entitlementBillingAccountRef :: "cached_object \<Rightarrow> go_string list" where
  "entitlementBillingAccountRef (CachedEntitlement be) = [be_account be]"
| "entitlementBillingAccountRef _ = []"

fun entitlementOfferRef :: "cached_object \<Rightarrow> go_string list" where
  "entitlementOfferRef (CachedEntitlement be) = [be_offer be]"
| "entitlementOfferRef _ = []"

text \<open>
  \<open>GetName\<close>. The index is installed for accounts only, and a binding's own name is not part of the
  model.
\<close>

fun accountNameIndex :: "cached_object \<Rightarrow> go_string list" where
  "accountNameIndex (CachedEntitlement be) = [km_name (be_meta be)]"
| "accountNameIndex (CachedAccount a) = [ba_name a]"
| "accountNameIndex (CachedBinding b) = []"
| "accountNameIndex (CachedOther m) = [km_name m]"

fun bindingProjectIndex :: "cached_object \<Rightarrow> go_string list" where
  "bindingProjectIndex (CachedBinding b) = (if bd_project b = [] then [] else [bd_project b])"
| "bindingProjectIndex _ = []"

section \<open>Listing by an index\<close>

definition matching :: "(cached_object \<Rightarrow> go_string list) \<Rightarrow> go_string \<Rightarrow> cached_object list \<Rightarrow> cached_object list" where
  "matching extract k objs = filter (\<lambda>x. k \<in> set (extract x)) objs"

definition entitlements_in :: "cached_object list \<Rightarrow> entitlement list" where
  "entitlements_in objs = concat (map (\<lambda>x. case x of CachedEntitlement be \<Rightarrow> [be] | _ \<Rightarrow> []) objs)"

definition accounts_in :: "cached_object list \<Rightarrow> Submission.billing_account list" where
  "accounts_in objs = concat (map (\<lambda>x. case x of CachedAccount a \<Rightarrow> [a] | _ \<Rightarrow> []) objs)"

definition bindings_in :: "cached_object list \<Rightarrow> account_binding list" where
  "bindings_in objs = concat (map (\<lambda>x. case x of CachedBinding b \<Rightarrow> [b] | _ \<Rightarrow> []) objs)"

lemmas index_defs = matching_def entitlements_in_def accounts_in_def bindings_in_def

lemma matching_account_ref:
  "entitlements_in (matching entitlementBillingAccountRef k objs) = filter (\<lambda>be. be_account be = k) (entitlements_in objs)"
  by (induction objs) (auto simp: index_defs split: cached_object.splits)

lemma matching_offer_ref:
  "entitlements_in (matching entitlementOfferRef k objs) = filter (\<lambda>be. be_offer be = k) (entitlements_in objs)"
  by (induction objs) (auto simp: index_defs split: cached_object.splits)

lemma matching_account_name:
  "accounts_in (matching accountNameIndex k objs) = filter (\<lambda>a. ba_name a = k) (accounts_in objs)"
  by (induction objs) (auto simp: index_defs split: cached_object.splits)

lemma matching_project:
  "k \<noteq> [] \<Longrightarrow> bindings_in (matching bindingProjectIndex k objs) = filter (\<lambda>b. bd_project b = k) (bindings_in objs)"
  by (induction objs) (auto simp: index_defs split: cached_object.splits)

section \<open>Watches\<close>


text \<open>
  The handlers of the watches, which list by an index, enqueue exactly what they would
  find in the whole cache: the entitlements that name the Offer, those of the account in its
  namespace, and the siblings of an entitlement.
\<close>

theorem watches_miss_nothing:
  "entitlementsForOffer (Inr (entitlements_in (matching entitlementOfferRef name objs))) name =
     entitlementsForOffer (Inr (entitlements_in objs)) name
   \<and> entitlementsForAccount (Inr (entitlements_in (matching entitlementBillingAccountRef (km_name m) objs))) m =
     entitlementsForAccount (Inr (entitlements_in objs)) m
   \<and> siblingEntitlements (Inr (entitlements_in (matching entitlementBillingAccountRef (be_account be) objs))) be =
     siblingEntitlements (Inr (entitlements_in objs)) be"
  by (auto simp: entitlementsForOffer_def entitlementsForAccount_def siblingEntitlements_def
      matching_offer_ref matching_account_ref listRequests_def conj_ac)

section \<open>Attribution through the indexes\<close>

text \<open>\<open>CachedAccountResolver\<close> on the manager's cache.\<close>

definition resolve_in_cache :: "cached_object list \<Rightarrow> go_string \<Rightarrow> go_string \<Rightarrow> trace \<Rightarrow> go_string res \<times> trace" where
  "resolve_in_cache objs =
    ResolveAccountUID (\<lambda>_ name. Inr (accounts_in (matching accountNameIndex name objs)))
      (\<lambda>_ project. Inr (bindings_in (matching bindingProjectIndex project objs)))"

definition accounts_named :: "cached_object list \<Rightarrow> go_string \<Rightarrow> Submission.billing_account list" where
  "accounts_named objs name = filter (\<lambda>a. ba_name a = name) (accounts_in objs)"

definition accounts_bound :: "cached_object list \<Rightarrow> go_string \<Rightarrow> go_string \<Rightarrow> Submission.billing_account list" where
  "accounts_bound objs project name =
    filter (\<lambda>a. \<exists>b \<in> set (bindings_in objs). bd_project b = project \<and> bd_account b = name \<and> bd_namespace b = ba_namespace a)
      (accounts_named objs name)"

text \<open>
  C13. Usage is attributed to the account the cache singles out, and to no other: with the
  installed indexes, an event's project and account name resolve to an account if and only if it is the
  only account of that name in the whole cache, or the only one in a namespace where that
  project is bound to an account of that name; otherwise the error is \<open>ErrAccountUnresolved\<close>.
\<close>

theorem attribution_exact:
  assumes "project \<noteq> []"
  shows "(fst (resolve_in_cache objs project name t) = Inr uid \<longleftrightarrow>
      (\<exists>a. uid = ba_uid a \<and> (accounts_named objs name = [a] \<or> accounts_bound objs project name = [a])))
    \<and> (case fst (resolve_in_cache objs project name t) of Inl e \<Rightarrow> errors_is e ErrAccountUnresolved | Inr _ \<Rightarrow> True)"
proof -
  let ?bs = "filter (\<lambda>b. bd_project b = project) (bindings_in objs)"
  have bound: "accounts_bound objs project name =
      filter (\<lambda>a. \<exists>b \<in> set ?bs. bd_account b = name \<and> bd_namespace b = ba_namespace a) (accounts_named objs name)"
    unfolding accounts_bound_def by (rule filter_cong) auto
  have u: "case fst (resolve_in_cache objs project name t) of
      Inr uid \<Rightarrow> \<exists>a. uid = ba_uid a \<and> (accounts_named objs name = [a] \<or> accounts_bound objs project name = [a])
    | Inl e \<Rightarrow> errors_is e ErrAccountUnresolved \<and> length (accounts_named objs name) \<noteq> 1 \<and> length (accounts_bound objs project name) \<noteq> 1"
    unfolding resolve_in_cache_def bound
    by (rule ResolveAccountUID_unique) (simp_all add: matching_account_name matching_project [OF assms] accounts_named_def)
  have one: "a = a'" if "accounts_named objs name = [a]" "accounts_bound objs project name = [a']" for a a'
    using that by (auto simp: accounts_bound_def split: if_splits)
  show ?thesis
    using u one by (cases "fst (resolve_in_cache objs project name t)") auto
qed

theorem attribution_exact_witness:
  "fst (resolve_in_cache
     [CachedAccount \<lparr>ba_name = ''acct'', ba_namespace = ''a'', ba_uid = ''u1''\<rparr>,
      CachedAccount \<lparr>ba_name = ''acct'', ba_namespace = ''b'', ba_uid = ''u2''\<rparr>,
      CachedBinding \<lparr>bd_namespace = ''b'', bd_project = ''p'', bd_account = ''acct''\<rparr>] ''p'' ''acct'' []) = Inr ''u2''"
  by (subst attribution_exact [THEN conjunct1])
    (simp_all add: accounts_bound_def accounts_named_def accounts_in_def bindings_in_def)

end
