(* ===== verification/Spec2Isabelle.thy ===== *)
theory Spec2Isabelle
  imports OfferMapping Submission UsageRest MeterController AccountLife InvoiceRequests InvoiceEvents FieldIndexes
begin

text \<open>
  \<^bold>\<open>A verified model of openmeter-provider.\<close>

  The program connects the billing objects of a Milo control plane with OpenMeter, the system
  that meters usage and bills it, and with Stripe, which collects. It has three processes: a
  controller manager, whose controllers keep OpenMeter in step with Kubernetes objects; a
  consumer that submits usage events from a NATS JetStream stream to OpenMeter; and an API
  server that answers usage queries. All of them go through \<open>internal/openmeter\<close>, the typed
  client of OpenMeter's API. This development models the program's own logic, from the client
  up to the handlers, and leaves the transports to parameters.

  \<^bold>\<open>How the program is modelled.\<close>
  \<^item> Strings are byte lists (\<open>go_string\<close>), maps from strings are association lists (\<open>str_map\<close>)
    where the code ranges over them, times and durations are nanoseconds (\<open>int\<close>), decimals are
    rationals with the code's own parsing and printing, and machine integers wrap where the code
    can reach the bound (\<open>parseRetryAfter\<close>, \<open>FormatAmount\<close>). Theory \<open>Sha256\<close> computes the digest
    the keys use, \<open>GoTime\<close> the calendar, \<open>Floats\<close> the float64 formatting.
  \<^item> An error is a \<open>go_error\<close> (\<open>OmErrors\<close>): a tree of wrapped errors with the sentinels and the
    transient and permanent classes of \<open>errors.go\<close>, walked by \<open>errors_is\<close> and \<open>IsTransient\<close> the way
    Go's \<open>errors.Is\<close> and \<open>errors.As\<close> do. Every fallible operation returns \<open>'a res\<close>, a sum with the
    error left.
  \<^item> An operation that calls a remote system is an \<open>'a api\<close> (\<open>Api\<close>): a function from the exchanges
    so far to a result and the exchanges after it. The remote systems, OpenMeter, Stripe and the
    Kubernetes API, are one parameter, a \<open>server\<close>, which answers a request depending on all
    exchanges before it, with any status, body or failure of the network. So a theorem about an
    operation holds for every behaviour of the other side, including one that changes between
    two calls. \<open>ApiLogic\<close> has the rules to reason about the requests an operation sends: \<open>adds P m\<close>
    (every request satisfies \<open>P\<close>) and \<open>gives m Q\<close> (result and new exchanges satisfy \<open>Q\<close>).
  \<^item> The reads of the controllers' cache are arguments: the object, or the error of the read.
    Third-party functions are parameters, with what they document as a named hypothesis where a
    property needs it: \<open>documented_finalizers\<close> and \<open>documented_registry\<close> for controller-runtime's
    finalizer helper (any order, failures collected), \<open>sy_set_condition\<close> and \<open>oe_changed\<close> for
    \<open>apimeta.SetStatusCondition\<close>, \<open>sy_parse_time\<close> for \<open>time.Parse\<close>, the JSON encoders of the plan
    hash and of filters, OpenMeter's rating of usage in \<open>Spend\<close>.
  \<^item> Listings that follow pages take fuel; \<open>Paging\<close> proves, once for all of them, that with fuel
    for the server's pages a listing is exactly what the server sent, and an exhausted fuel is the
    separate error \<open>Unfinished\<close>, which no answer of the server gives. Loops with a bound of their
    own (\<open>maxSubscriptionSteps\<close>, \<open>maxInvoicePages\<close>) keep it.

  \<^bold>\<open>The theories, from the ground up\<close>, with the files under \<open>src/internal\<close> they model.
  \<^item> \<open>Prelude\<close>: strings, lists, digits, the fallible loop \<open>each\<close>. \<open>Sha256\<close>, \<open>GoTime\<close>, \<open>Floats\<close>: what the
    code uses of Go's library.
  \<^item> \<open>OmErrors\<close> (\<open>openmeter/errors.go\<close>): errors, their classification, problem bodies, Retry-After.
    \<open>Keys\<close> (\<open>openmeter/meter.go\<close>, the names): slugs, group-by keys, JSON paths. \<open>Decimals\<close>
    (\<open>openmeter/fixedcharges.go\<close>, the arithmetic). \<open>OmTypes\<close>, \<open>Api\<close>: the data, requests and answers of
    the APIs, \<open>v3.go\<close>'s request helper.
  \<^item> \<open>Paging\<close>, \<open>Meters\<close>, \<open>Plans\<close>, \<open>Features\<close>, \<open>Subscriptions\<close>, \<open>Customers\<close>, \<open>BillingProfiles\<close>,
    \<open>Invoices\<close>, \<open>MeterQueries\<close> (\<open>openmeter/*.go\<close>): the operations of the OpenMeter client.
    \<open>StripeApi\<close> (\<open>stripe/invoices.go\<close>): those of the Stripe client.
  \<^item> \<open>OfferMapping\<close> (\<open>controller/offer_mapping.go\<close>): an Offer as plan and features.
  \<^item> \<open>Kube\<close>: metadata, results, writes to Kubernetes. \<open>MeterController\<close>, \<open>OfferController\<close>,
    \<open>EntitlementController\<close>, \<open>InvoiceRequests\<close> (\<open>controller/*_controller.go\<close>): one theory per controller.
    The BillingAccount controller is in \<open>Accounts\<close> (\<open>billingaccount_controller.go\<close>,
    \<open>billingprofile_sync.go\<close>: finalizers and desired state), \<open>StripeCustomers\<close>
    (\<open>stripe_customer.go\<close>), \<open>InvoiceProjection\<close> and \<open>InvoiceSync\<close> (\<open>invoice_sync.go\<close>,
    \<open>stripe_invoice_sync.go\<close>), \<open>InvoiceEvents\<close> (\<open>invoice_events.go\<close>) and \<open>AccountController\<close> (its
    \<open>Reconcile\<close>, which composes them).
  \<^item> \<open>Notices\<close> (\<open>notices\<close> of \<open>billingaccount_controller.go\<close>): the events already told. \<open>Finalization\<close>: the life of an
    object whose finalizer a controller keeps, as a step relation over passes, user deletions and
    changes outside; \<open>AccountLife\<close> is that life for a BillingAccount.
  \<^item> \<open>Submission\<close> (\<open>submission/*.go\<close>, \<open>openmeter/ingest.go\<close>): the consumer. \<open>UsageScope\<close>,
    \<open>UsageSeries\<close>, \<open>Spend\<close>, \<open>UsageRest\<close> (\<open>registry/usagequery/*.go\<close>, \<open>openmeter/usage.go\<close>,
    \<open>pricing.go\<close>): the usage API.
  \<^item> \<open>Config\<close> (\<open>config/*.go\<close>): the configuration, its defaults, connections and metrics options.
    \<open>Startup\<close> (\<open>cmd/openmeter/*\<close>, \<open>apiserver/apiserver.go\<close>, \<open>openmeter/client.go\<close>): how the three
    processes start, as the sequence of library calls a run makes against a \<open>host\<close> that lets any of
    them fail. \<open>FieldIndexes\<close> (\<open>controller/indexers.go\<close>, \<open>submission/attribution.go\<close>): what the
    cache's indexes extract, and that listing by them finds what the whole cache holds.

  \<^bold>\<open>Interfaces\<close> are locales, interpreted on the definitions that provide them: \<open>paged_listing\<close> and
  \<open>reported_listing\<close> (a page operation and the loop over it; plans, features, subscriptions,
  invoices, customers), \<open>key_encoding\<close> (slugs and key segments), \<open>submission_interfaces\<close> (resolving an
  account and submitting a batch, as the consumer relies on them), and \<open>finalized_object\<close> (a pass
  takes the controller's finalizer off only when what it guards is settled; the meter, Offer,
  entitlement and account controllers).

  \<^bold>\<open>What is shown.\<close>
  \<^item> Pricing: no usage is billed by two features of an Offer, and priced usage by exactly one;
    plans and features are published with exactly the desired content, and never archived while
    referenced.
  \<^item> Submission: a message is acknowledged only after OpenMeter took its event or because the event
    is unusable; a batch settles every message exactly once.
  \<^item> Subscriptions: the steps decided reach a state that needs none, within the loop's bound;
    what \<open>EnsureSubscription\<close> returns is the state its last listing showed.
  \<^item> Accounts: in any order of the finalizers, a customer is deleted only after its subscriptions
    ended and no invoice blocks it, and its billing profile only after that; waiting finalizers
    never hide failing ones; events are reported once per state.
  \<^item> Lives: over any sequence of passes, on current or outdated reads, and of changes by others, an
    object loses its finalizer only after a pass settled what it guards, and its life simulates
    the phases active, settled, released, never lost.
  \<^item> Invoices: a pass writes the account's own Invoices only, projects every issued invoice
    whatever fails beside it, and names, periods, amounts and timelines are right.
  \<^item> Entitlements: OpenMeter is called only when account, Offer and contract allow it, an amendment
    is not postponed twice, and the finalizer goes only when billing has ended. Requests: a
    preview only reads, and its total is the sum of its lines.
  \<^item> Usage API: a query reads only the customers and projects of its scope; series partition the
    rows; spend does not depend on the order in which the ranges complete, and totals are exact.

  \<^item> Startup: a process that starts is complete (all controllers, indexes and keys, or none) and
    safe to run whatever its configuration says; the defaults are idempotent; the API secret does
    not reach the consumer's log; usage is attributed to the account the indexes single out.

  \<^bold>\<open>Not modelled\<close>: the parsing of flags, the registration of types with schemes and of watches with
  the manager (\<open>SetupWithManager\<close>; the functions the watches call are modelled), the OpenAPI
  documents of the API server, log levels and metrics, HTTP transport and JSON decoding (the
  \<open>server\<close> parameter answers decoded bodies and says when a body is unreadable), generated code.
  They hold no decisions of their own. Goroutines are modelled where their interleaving can
  matter: the spend of a query takes the order in which its ranges complete as an argument; the
  controllers run one pass per object at a time.
\<close>

end
